(* ===== verification/Prelude.thy ===== *)
theory Prelude
  imports Complex_Main "HOL-Library.Sublist"
begin

text \<open>
  Shared material of the development: the error values and the result type of
  the fallible code, machine integers (\<open>i64\<close> as a range check on \<open>int\<close>, the
  conversion \<open>as f64\<close> as rounding to 53 significant bits), decimal printing and
  parsing of integers, and the generic facts on lists, sums and options that
  the component theories use.
\<close>

named_theorems codec_simps \<open>round trips of the textual encodings\<close>
named_theorems key_simps \<open>distinctness of the keys the program builds\<close>

section \<open>Results\<close>

text \<open>
  \<open>anyhow::Result\<close> values: the error carries the message of the source, split
  into a tag (the constructor) and the interpolated text.
\<close>

datatype error =
    PoolError
  | CommandError string
  | ParseError string
  | Invalid string
  | InsufficientBalance string string
  | UnknownPair string
  | ScriptError string
  | DbError
  | Panic string

type_synonym 'a result = "error + 'a"

fun is_ok :: "'a result \<Rightarrow> bool" where
  "is_ok (Inl _) = False"
| "is_ok (Inr _) = True"

fun result_bind :: "'a result \<Rightarrow> ('a \<Rightarrow> 'b result) \<Rightarrow> 'b result" where
  "result_bind (Inl e) f = Inl e"
| "result_bind (Inr a) f = f a"

definition option_or :: "'a option \<Rightarrow> 'a \<Rightarrow> 'a" where
  "option_or x d = (case x of None \<Rightarrow> d | Some a \<Rightarrow> a)"

lemma option_or_simps [simp]: "option_or None d = d" "option_or (Some a) d = a"
  by (simp_all add: option_or_def)

definition ok_or :: "error \<Rightarrow> 'a option \<Rightarrow> 'a result" where
  "ok_or e x = (case x of None \<Rightarrow> Inl e | Some a \<Rightarrow> Inr a)"

lemma ok_or_simps [simp]: "ok_or e None = Inl e" "ok_or e (Some a) = Inr a"
  by (simp_all add: ok_or_def)

lemma result_bind_Inr: "result_bind x f = Inr y \<longleftrightarrow> (\<exists>a. x = Inr a \<and> f a = Inr y)"
  by (cases x) auto

lemma ok_or_Inr: "ok_or e x = Inr a \<longleftrightarrow> x = Some a"
  by (cases x) auto

section \<open>Machine integers\<close>

definition i64_ok :: "int \<Rightarrow> bool" where
  "i64_ok n \<longleftrightarrow> - (2 ^ 63) \<le> n \<and> n < 2 ^ 63"

lemma i64_ok_0 [simp]: "i64_ok 0"
  by (simp add: i64_ok_def)

lemma i64_ok_exact: "\<bar>n\<bar> \<le> 2 ^ 53 \<Longrightarrow> i64_ok n"
  by (auto simp: i64_ok_def)

lemma i64_ok_uminus: "i64_ok n \<Longrightarrow> n \<noteq> - (2 ^ 63) \<Longrightarrow> i64_ok (- n)"
  by (simp add: i64_ok_def)

text \<open>The number of binary digits of a natural number.\<close>

fun nbits :: "nat \<Rightarrow> nat" where
  "nbits n = (if n = 0 then 0 else Suc (nbits (n div 2)))"

declare nbits.simps [simp del]

text \<open>
  \<open>n as f64\<close> for an integer, and the rounding of an integral result of a double
  operation: the nearest double, ties to even. Every double involved is
  integral, so it is represented by the integer it denotes.
\<close>

definition f64_round :: "int \<Rightarrow> int" where
  "f64_round n =
     (if \<bar>n\<bar> \<le> 2 ^ 53 then n
      else (let a = nat \<bar>n\<bar>; k = nbits a - 53; q = a div 2 ^ k; r = a mod 2 ^ k; h = 2 ^ (k - 1);
                q' = (if r > h \<or> (r = h \<and> odd q) then Suc q else q)
            in sgn n * int (q' * 2 ^ k)))"

lemma f64_round_exact [simp]: "\<bar>n\<bar> \<le> 2 ^ 53 \<Longrightarrow> f64_round n = n"
  by (simp add: f64_round_def)

lemma f64_round_uminus: "f64_round (- n) = - f64_round n"
  by (simp add: f64_round_def Let_def)

lemma nbits_bounds: "0 < n \<Longrightarrow> 0 < nbits n \<and> 2 ^ (nbits n - 1) \<le> n \<and> n < 2 ^ nbits n"
proof (induction n rule: nbits.induct)
  case (1 n)
  have step: "nbits n = Suc (nbits (n div 2))" using "1.prems" by (simp add: nbits.simps [of n])
  show ?case
  proof (cases "n div 2 = 0")
    case True
    with "1.prems" have "n = 1" by simp
    then show ?thesis by (simp add: nbits.simps)
  next
    case False
    with 1 have ih: "0 < nbits (n div 2)" "2 ^ (nbits (n div 2) - 1) \<le> n div 2" "n div 2 < 2 ^ nbits (n div 2)"
      by auto
    from ih(2) have "2 * 2 ^ (nbits (n div 2) - 1) \<le> n" by linarith
    with ih(1) have "2 ^ nbits (n div 2) \<le> n"
      using power_Suc [of "2 :: nat" "nbits (n div 2) - 1"] by simp
    with ih(3) step show ?thesis by simp
  qed
qed

lemma nbits_eqI: "2 ^ k \<le> n \<Longrightarrow> n < 2 ^ Suc k \<Longrightarrow> nbits n = Suc k"
proof -
  assume lo: "2 ^ k \<le> n" and hi: "n < 2 ^ Suc k"
  then have "0 < n" using less_le_trans [of 0 "2 ^ k" n] by simp
  from nbits_bounds [OF this] have b: "0 < nbits n" "2 ^ (nbits n - 1) \<le> n" "n < 2 ^ nbits n" by simp_all
  have "nbits n - 1 < Suc k"
    using le_less_trans [OF b(2) hi] by (simp add: power_less_imp_less_exp del: power_Suc)
  moreover have "k < nbits n"
    using le_less_trans [OF lo b(3)] by (simp add: power_less_imp_less_exp)
  ultimately show ?thesis by linarith
qed

text \<open>Rounding does not cross the largest exactly represented range.\<close>

lemma f64_round_ge:
  assumes "2 ^ 53 \<le> n"
  shows "2 ^ 53 \<le> f64_round n"
proof (cases "n = 2 ^ 53")
  case False
  with assms have big: "\<not> \<bar>n\<bar> \<le> 2 ^ 53" "sgn n = 1" by auto
  define a where "a = nat n"
  have a: "2 ^ 53 \<le> a" "nat \<bar>n\<bar> = a" using assms by (simp_all add: a_def nat_le_iff le_nat_iff)
  then have "0 < a" using less_le_trans [of 0 "2 ^ 53" a] by simp
  from nbits_bounds [OF this] have nb: "2 ^ (nbits a - 1) \<le> a" "a < 2 ^ nbits a" by simp_all
  have "(53 :: nat) < nbits a"
    by (rule power_less_imp_less_exp [of 2, OF _ le_less_trans [OF a(1) nb(2)]]) simp
  define k where "k = nbits a - 53"
  define q where "q = a div 2 ^ k"
  have "(2 :: nat) ^ 52 * 2 ^ k \<le> a"
    using nb(1) \<open>53 < nbits a\<close> power_add [of "2 :: nat" 52 k] by (simp add: k_def del: power_numeral)
  then have q: "2 ^ 52 \<le> q" by (simp add: q_def less_eq_div_iff_mult_less_eq)
  have k: "(2 :: nat) ^ 1 \<le> 2 ^ k" using \<open>53 < nbits a\<close> by (intro power_increasing) (auto simp: k_def)
  obtain q' where r: "f64_round n = int (q' * 2 ^ k)" and q': "q \<le> q'"
    using big a(2) by (fastforce simp: f64_round_def Let_def k_def q_def)
  have "2 ^ 52 * 2 ^ 1 \<le> q' * 2 ^ k"
    using q q' k by (intro mult_le_mono) auto
  then have "int (2 ^ 52 * 2 ^ 1) \<le> int (q' * 2 ^ k)" by (simp only: of_nat_le_iff)
  then show ?thesis by (simp add: r)
qed simp

section \<open>Decimal text of integers\<close>

definition digit_char :: "nat \<Rightarrow> char" where
  "digit_char d = char_of (48 + d)"

definition is_digit :: "char \<Rightarrow> bool" where
  "is_digit c \<longleftrightarrow> 48 \<le> (of_char c :: nat) \<and> of_char c \<le> (57 :: nat)"

definition digit_val :: "char \<Rightarrow> nat" where
  "digit_val c = of_char c - 48"

fun string_of_nat :: "nat \<Rightarrow> string" where
  "string_of_nat n =
     (if n < 10 then [digit_char n] else string_of_nat (n div 10) @ [digit_char (n mod 10)])"

declare string_of_nat.simps [simp del]

definition string_of_int :: "int \<Rightarrow> string" where
  "string_of_int n = (if n < 0 then CHR ''-'' # string_of_nat (nat (- n)) else string_of_nat (nat n))"

definition digits_value :: "string \<Rightarrow> nat" where
  "digits_value s = foldl (\<lambda>a c. a * 10 + digit_val c) 0 s"

definition parse_nat :: "string \<Rightarrow> nat option" where
  "parse_nat s = (if s \<noteq> [] \<and> list_all is_digit s then Some (digits_value s) else None)"

text \<open>\<open>str::parse\<close> for integers: an optional sign, then at least one digit.\<close>

definition parse_int :: "string \<Rightarrow> int option" where
  "parse_int s =
     (case s of [] \<Rightarrow> None
      | c # cs \<Rightarrow> if c = CHR ''-'' then map_option (\<lambda>n. - int n) (parse_nat cs)
                  else if c = CHR ''+'' then map_option int (parse_nat cs)
                  else map_option int (parse_nat s))"

definition parse_i64 :: "string \<Rightarrow> int option" where
  "parse_i64 s = (case parse_int s of None \<Rightarrow> None | Some n \<Rightarrow> if i64_ok n then Some n else None)"

lemma of_char_digit_char [simp]: "d < 10 \<Longrightarrow> of_char (digit_char d) = 48 + d"
  by (simp add: digit_char_def of_char_of)

lemma digit_char_props [simp]:
  assumes "d < 10"
  shows "is_digit (digit_char d)" "digit_val (digit_char d) = d"
    "digit_char d \<noteq> CHR ''-''" "digit_char d \<noteq> CHR ''+''"
    "digit_char d \<noteq> CHR ''e''" "digit_char d \<noteq> CHR ''.''"
  using assms
  by (auto simp: is_digit_def digit_val_def of_char_digit_char dest: arg_cong [where f = "of_char :: char \<Rightarrow> nat"])

lemma digit_char_eval [simp]:
  "digit_char 0 = CHR ''0''" "digit_char (Suc 0) = CHR ''1''" "digit_char 1 = CHR ''1''"
  "digit_char 2 = CHR ''2''" "digit_char 3 = CHR ''3''" "digit_char 4 = CHR ''4''"
  "digit_char 5 = CHR ''5''" "digit_char 6 = CHR ''6''" "digit_char 7 = CHR ''7''"
  "digit_char 8 = CHR ''8''" "digit_char 9 = CHR ''9''"
  by code_simp+

lemma string_of_nat_digits: "list_all is_digit (string_of_nat n)"
proof (induction n rule: string_of_nat.induct)
  case (1 n)
  then show ?case by (subst string_of_nat.simps) (auto simp: list_all_iff)
qed

lemma string_of_nat_ne [simp]: "string_of_nat n \<noteq> []"
  by (subst string_of_nat.simps) simp

lemma digits_value_string_of_nat: "digits_value (string_of_nat n) = n"
proof (induction n rule: string_of_nat.induct)
  case (1 n)
  then show ?case
    by (subst string_of_nat.simps) (auto simp: digits_value_def)
qed

lemma parse_nat_string_of_nat [codec_simps]: "parse_nat (string_of_nat n) = Some n"
  by (simp add: parse_nat_def string_of_nat_digits digits_value_string_of_nat)

lemma string_of_nat_hd: "\<exists>d rest. string_of_nat n = digit_char d # rest \<and> d < 10"
proof (induction n rule: string_of_nat.induct)
  case (1 n)
  then show ?case by (subst string_of_nat.simps) fastforce
qed

lemma parse_int_string_of_int [codec_simps]: "parse_int (string_of_int n) = Some n"
proof (cases "n < 0")
  case True
  then show ?thesis
    by (simp add: parse_int_def string_of_int_def parse_nat_string_of_nat)
next
  case False
  obtain d rest where s: "string_of_nat (nat n) = digit_char d # rest" and d: "d < 10"
    using string_of_nat_hd by blast
  have "parse_nat (digit_char d # rest) = Some (nat n)"
    using parse_nat_string_of_nat [of "nat n"] by (simp add: s)
  with False d show ?thesis
    by (simp add: parse_int_def string_of_int_def s)
qed

lemma parse_i64_string_of_int [codec_simps]: "i64_ok n \<Longrightarrow> parse_i64 (string_of_int n) = Some n"
  by (simp add: parse_i64_def codec_simps)

lemma string_of_int_inj [simp]: "string_of_int m = string_of_int n \<longleftrightarrow> m = n"
  by (metis option.inject parse_int_string_of_int)

lemma string_of_int_ne [simp]: "string_of_int n \<noteq> []"
  by (simp add: string_of_int_def)

lemma parse_i64_range: "parse_i64 s = Some n \<Longrightarrow> i64_ok n"
  by (auto simp: parse_i64_def split: option.splits if_splits)

section \<open>Lists and sums\<close>

lemma sum_list_nonneg_map:
  fixes f :: "'a \<Rightarrow> 'q::linordered_ab_group_add"
  shows "(\<And>x. x \<in> set xs \<Longrightarrow> 0 \<le> f x) \<Longrightarrow> 0 \<le> sum_list (map f xs)"
  by (induction xs) auto

lemma sorted_wrt_trivial [simp]: "sorted_wrt (\<lambda>_ _. True) xs"
  by (induction xs) auto

lemma distinct_sorted_wrt: "distinct xs = sorted_wrt (\<noteq>) xs"
  by (induction xs) auto

lemma takeWhile_eq_filter_sorted:
  assumes "sorted_wrt R xs" and "\<And>x y. R x y \<Longrightarrow> P y \<Longrightarrow> P x"
  shows "filter P xs = takeWhile P xs"
  using assms
proof (induction xs)
  case (Cons x xs)
  show ?case
  proof (cases "P x")
    case False
    with Cons.prems have "\<forall>y \<in> set xs. \<not> P y" by auto
    with False show ?thesis by simp
  qed (use Cons in simp)
qed simp

text \<open>\<open>parse::<u64>\<close>: digits with an optional plus sign.\<close>

definition parse_u64 :: "string \<Rightarrow> nat option" where
  "parse_u64 s =
     (case parse_nat (case s of c # cs \<Rightarrow> if c = CHR ''+'' then cs else s | [] \<Rightarrow> []) of
        Some n \<Rightarrow> if n < 2 ^ 64 then Some n else None
      | None \<Rightarrow> None)"

lemma parse_u64_string: "n < 2 ^ 64 \<Longrightarrow> parse_u64 (string_of_nat n) = Some n"
proof -
  obtain c cs where c: "string_of_nat n = c # cs" "is_digit c"
    using string_of_nat_digits [of n] string_of_nat_hd [of n] by (cases "string_of_nat n") auto
  then have "c \<noteq> CHR ''+''" by (auto simp: is_digit_def)
  then show "n < 2 ^ 64 \<Longrightarrow> parse_u64 (string_of_nat n) = Some n"
    using c(1) parse_nat_string_of_nat [of n] by (simp add: parse_u64_def)
qed

end
