(* ===== verification/Domain.thy ===== *)
theory Domain
  imports Prelude
begin

text \<open>
  The data model of \<open>crates/shared/src/types.rs\<close>, the fixed-point conversion of
  \<open>crates/shared/src/cache.rs\<close> and the textual codes of the enums: the one and
  two letter codes of the order hashes (\<open>cache.rs\<close>) and the names stored in the
  database columns (\<open>side_str\<close> and its kin).

  \<open>Decimal\<close> (the package \<open>rust_decimal\<close>) is a parameter: every definition is
  polymorphic in a type \<open>'d\<close> of class \<open>floor_ceiling\<close>, an ordered field with
  \<open>floor\<close>. The class laws are what the code relies on (exact addition,
  multiplication, comparison, truncation) and hold for \<open>Decimal\<close> as long as no
  result leaves its 96-bit mantissa; \<open>rat\<close> is an instance. A \<open>Uuid\<close> is its 128-bit
  value as a \<open>nat\<close>, a \<open>DateTime<Utc>\<close> an \<open>int\<close> (an instant).
\<close>

section \<open>Enums and structs\<close>

datatype side = Buy | Sell

fun opposite :: "side \<Rightarrow> side" where
  "opposite Buy = Sell"
| "opposite Sell = Buy"

datatype order_type = Limit | Market

datatype time_in_force = GTC | IOC | FOK

datatype order_status = New | PartiallyFilled | Filled | Cancelled | Rejected

datatype stp_mode = StpNone | CancelTaker | CancelMaker | CancelBoth

type_synonym uuid = nat
type_synonym instant = int

record 'd order =
  o_id :: uuid
  o_user_id :: string
  o_pair_id :: string
  o_side :: side
  o_order_type :: order_type
  o_tif :: time_in_force
  o_price :: "'d option"
  o_quantity :: 'd
  o_remaining :: 'd
  o_status :: order_status
  o_stp_mode :: stp_mode
  o_version :: int
  o_sequence :: int
  o_created_at :: instant
  o_updated_at :: instant
  o_client_order_id :: "string option"
  o_received_at :: "instant option"
  o_matched_at :: "instant option"
  o_persisted_at :: "instant option"

record 'd trade =
  t_id :: uuid
  t_pair_id :: string
  t_buy_order_id :: uuid
  t_sell_order_id :: uuid
  t_buyer_id :: string
  t_seller_id :: string
  t_price :: 'd
  t_quantity :: 'd
  t_sequence :: int
  t_created_at :: instant

record 'd pair =
  p_id :: string
  p_base :: string
  p_quote :: string
  p_tick_size :: 'd
  p_lot_size :: 'd
  p_min_order_size :: 'd
  p_max_order_size :: 'd
  p_price_precision :: nat
  p_qty_precision :: nat
  p_price_band_pct :: 'd
  p_active :: bool

record 'd balance =
  b_user_id :: string
  b_asset :: string
  b_available :: 'd
  b_locked :: 'd

text \<open>The audit records, which the source declares and no code builds.\<close>

datatype 'd audit_event =
    OrderCreated "'d order"
  | OrderModified uuid "'d option" "'d option" 'd 'd
  | OrderCancelled uuid string
  | OrderRejected uuid string
  | TradeExecuted "'d trade"
  | SelfTradePrevented uuid uuid stp_mode

record 'd audit_record =
  ar_sequence :: int
  ar_pair_id :: string
  ar_timestamp :: instant
  ar_event :: "'d audit_event"

text \<open>
  \<open>Order::book_score\<close>. The conversion \<open>Decimal::to_f64\<close> and the doubles are
  parameters (\<open>None\<close> where the conversion fails).
\<close>

definition book_score :: "('d::zero \<Rightarrow> 'f::{zero,uminus} option) \<Rightarrow> 'd order \<Rightarrow> 'f" where
  "book_score to_f64 ord =
     (let price = option_or (to_f64 (option_or (o_price ord) 0)) 0
      in case o_side ord of Buy \<Rightarrow> - price | Sell \<Rightarrow> price)"

section \<open>Trading pairs\<close>

text \<open>\<open>str::split\<close> on one character: the pieces between the separators.\<close>

fun split_on :: "char \<Rightarrow> string \<Rightarrow> string list" where
  "split_on c [] = [[]]"
| "split_on c (x # xs) =
     (if x = c then [] # split_on c xs
      else (case split_on c xs of [] \<Rightarrow> [[x]] | p # ps \<Rightarrow> (x # p) # ps))"

definition parse_pair_id :: "string \<Rightarrow> (string \<times> string) result" where
  "parse_pair_id pair_id =
     (let parts = split_on (CHR ''-'') pair_id
      in if length parts \<noteq> 2 then Inl (Invalid ''invalid pair_id format'')
         else Inr (parts ! 0, parts ! 1))"

lemma split_on_ne [simp]: "split_on c s \<noteq> []"
  by (induction s) (auto split: list.splits)

lemma split_on_fresh [simp]: "c \<notin> set s \<Longrightarrow> split_on c s = [s]"
  by (induction s) auto

lemma split_on_append: "c \<notin> set s \<Longrightarrow> split_on c (s @ c # t) = s # split_on c t"
  by (induction s) auto

text \<open>Joining the pieces with the separator gives the string back.\<close>

fun join_with :: "char \<Rightarrow> string list \<Rightarrow> string" where
  "join_with c [] = []"
| "join_with c [p] = p"
| "join_with c (p # ps) = p @ c # join_with c ps"

lemma join_split: "join_with c (split_on c s) = s"
proof (induction s)
  case (Cons x xs)
  obtain p ps where "split_on c xs = p # ps"
    by (cases "split_on c xs") auto
  with Cons show ?case
    by (cases ps) auto
qed simp

lemma split_on_no_sep: "p \<in> set (split_on c s) \<Longrightarrow> c \<notin> set p"
proof (induction s arbitrary: p)
  case (Cons x xs)
  then show ?case
    by (cases "split_on c xs") (auto split: if_splits)
qed simp

lemma parse_pair_id_iff:
  "parse_pair_id s = Inr (b, q) \<longleftrightarrow>
     s = b @ CHR ''-'' # q \<and> CHR ''-'' \<notin> set b \<and> CHR ''-'' \<notin> set q"
proof
  assume "parse_pair_id s = Inr (b, q)"
  then have len: "length (split_on (CHR ''-'') s) = 2"
    and "split_on (CHR ''-'') s ! 0 = b" "split_on (CHR ''-'') s ! 1 = q"
    by (auto simp: parse_pair_id_def Let_def split: if_splits)
  then have parts: "split_on (CHR ''-'') s = [b, q]"
    by (auto simp: numeral_2_eq_2 length_Suc_conv)
  then show "s = b @ CHR ''-'' # q \<and> CHR ''-'' \<notin> set b \<and> CHR ''-'' \<notin> set q"
    using join_split [of "CHR ''-''" s] split_on_no_sep [of _ "CHR ''-''" s] by auto
next
  assume "s = b @ CHR ''-'' # q \<and> CHR ''-'' \<notin> set b \<and> CHR ''-'' \<notin> set q"
  then show "parse_pair_id s = Inr (b, q)"
    by (simp add: parse_pair_id_def split_on_append)
qed

section \<open>Fixed point\<close>

text \<open>\<open>SCALE\<close>, \<open>decimal_to_i64\<close> and \<open>i64_to_decimal\<close> of \<open>cache.rs\<close>.\<close>

definition SCALE :: int where
  "SCALE = 100000000"

definition dec_trunc :: "'d::floor_ceiling \<Rightarrow> int" where
  "dec_trunc d = (if d < 0 then \<lceil>d\<rceil> else \<lfloor>d\<rfloor>)"

definition decimal_to_i64 :: "'d::floor_ceiling \<Rightarrow> int" where
  "decimal_to_i64 d = (let n = dec_trunc (d * of_int SCALE) in if i64_ok n then n else 0)"

definition i64_to_decimal :: "int \<Rightarrow> 'd::floor_ceiling" where
  "i64_to_decimal i = of_int i / of_int SCALE"

text \<open>The remainder \<open>a % b\<close> on decimals; division by zero panics.\<close>

definition dec_rem :: "'d::floor_ceiling \<Rightarrow> 'd \<Rightarrow> 'd result" where
  "dec_rem a b =
     (if b = 0 then Inl (Panic ''Division by zero'') else Inr (a - b * of_int (dec_trunc (a / b))))"

lemma dec_trunc_of_int [simp]: "dec_trunc (of_int n) = n"
  by (simp add: dec_trunc_def)

lemma decimal_to_i64_of_i64: "i64_ok n \<Longrightarrow> decimal_to_i64 (i64_to_decimal n :: 'd::floor_ceiling) = n"
  by (simp add: decimal_to_i64_def i64_to_decimal_def SCALE_def)

lemma i64_to_decimal_inj [simp]:
  "(i64_to_decimal m :: 'd::floor_ceiling) = i64_to_decimal n \<longleftrightarrow> m = n"
  by (simp add: i64_to_decimal_def SCALE_def)

lemma i64_to_decimal_less [simp]:
  "(i64_to_decimal m :: 'd::floor_ceiling) < i64_to_decimal n \<longleftrightarrow> m < n"
  by (simp add: i64_to_decimal_def SCALE_def divide_strict_right_mono divide_less_cancel)

lemma i64_to_decimal_le [simp]:
  "(i64_to_decimal m :: 'd::floor_ceiling) \<le> i64_to_decimal n \<longleftrightarrow> m \<le> n"
  by (simp add: i64_to_decimal_def SCALE_def divide_le_cancel)

lemma i64_to_decimal_diff:
  "(i64_to_decimal (m - n) :: 'd::floor_ceiling) = i64_to_decimal m - i64_to_decimal n"
  by (simp add: i64_to_decimal_def diff_divide_distrib)

lemma i64_to_decimal_add:
  "(i64_to_decimal (m + n) :: 'd::floor_ceiling) = i64_to_decimal m + i64_to_decimal n"
  by (simp add: i64_to_decimal_def add_divide_distrib)

lemma i64_to_decimal_0 [simp]: "i64_to_decimal 0 = 0"
  by (simp add: i64_to_decimal_def)

lemma i64_to_decimal_pos [simp]:
  "0 < (i64_to_decimal n :: 'd::floor_ceiling) \<longleftrightarrow> 0 < n" "0 \<le> (i64_to_decimal n :: 'd) \<longleftrightarrow> 0 \<le> n"
  using i64_to_decimal_less [of 0 n] i64_to_decimal_le [of 0 n]
  by (simp_all del: i64_to_decimal_less i64_to_decimal_le)

lemma i64_to_decimal_min:
  "(i64_to_decimal (min m n) :: 'd::floor_ceiling) = min (i64_to_decimal m) (i64_to_decimal n)"
  by (simp add: min_def)

end
