(* ===== verification/Matching_Spec.thy ===== *)
theory Matching_Spec
  imports Prelude
begin

text \<open>
  The abstract specification of price-time matching, and the interface between a
  matching loop and it. An incoming quantity is distributed over the eligible
  resting orders in book order (\<open>fill_plan\<close>); which orders are eligible follows
  from one verdict per order. The locale \<open>price_time_loop\<close> lists what a loop
  over the book has to satisfy, and proves once that such a loop computes the
  plan. It is interpreted for the loop of \<open>engine.rs\<close> (theory \<open>Engine\<close>) and for
  the loop of \<open>match_order.lua\<close> (theory \<open>Lua_Match\<close>).
\<close>

section \<open>Plans\<close>

text \<open>
  What the loop does with a resting order: fill against it, pass over it, stop
  because its price does not cross, or stop because the taker is cancelled.
\<close>

datatype verdict = Take | Skip | Stop | CancelStop

fun eligible :: "('o \<Rightarrow> verdict) \<Rightarrow> 'o list \<Rightarrow> 'o list" where
  "eligible v [] = []"
| "eligible v (x # xs) =
     (case v x of Take \<Rightarrow> x # eligible v xs | Skip \<Rightarrow> eligible v xs
      | Stop \<Rightarrow> [] | CancelStop \<Rightarrow> [])"

fun fill_plan :: "'q::linordered_ab_group_add \<Rightarrow> ('k \<times> 'q) list \<Rightarrow> ('k \<times> 'q) list" where
  "fill_plan q [] = []"
| "fill_plan q ((k, a) # xs) =
     (if q \<le> 0 then [] else (k, min q a) # fill_plan (q - min q a) xs)"

lemma eligible_subset: "set (eligible v xs) \<subseteq> {x \<in> set xs. v x = Take}"
  by (induction xs) (auto split: verdict.splits)

lemma eligible_subseq: "subseq (eligible v xs) xs"
  by (induction xs) (auto split: verdict.splits)

lemma eligible_cong: "(\<And>x. x \<in> set xs \<Longrightarrow> v x = w x) \<Longrightarrow> eligible v xs = eligible w xs"
  by (induction xs) (auto split: verdict.splits)

lemma fill_plan_prefix: "prefix (map fst (fill_plan q xs)) (map fst xs)"
  by (induction q xs rule: fill_plan.induct) auto

lemma fill_plan_nonpos [simp]: "q \<le> 0 \<Longrightarrow> fill_plan q xs = []"
  by (cases "(q, xs)" rule: fill_plan.cases) auto

text \<open>The plan moves as much as the incoming quantity and the book allow.\<close>

lemma fill_plan_sum:
  assumes "0 \<le> q" and "\<forall>a \<in> set (map snd xs). 0 \<le> a"
  shows "sum_list (map snd (fill_plan q xs)) = min q (sum_list (map snd xs))"
  using assms
proof (induction q xs rule: fill_plan.induct)
  case (2 q k a xs)
  have nn: "0 \<le> sum_list (map snd xs)"
    using "2.prems" by (intro sum_list_nonneg_map) auto
  show ?case
  proof (cases "q \<le> 0")
    case True
    with "2.prems" have q: "q = 0" by simp
    have "0 \<le> a + sum_list (map snd xs)"
      using "2.prems" nn by (intro add_nonneg_nonneg) auto
    with q show ?thesis by (simp add: min_absorb1)
  next
    case False
    with "2.prems" have "sum_list (map snd (fill_plan (q - min q a) xs))
        = min (q - min q a) (sum_list (map snd xs))"
      by (intro "2.IH") (auto simp: min_def)
    moreover have "q \<le> a + sum_list (map snd xs)" if "q \<le> a"
      using that nn by (simp add: add_increasing2)
    ultimately show ?thesis
      using False by (auto simp: min_def algebra_simps)
  qed
qed simp

lemma fill_plan_mem: "(k, a) \<in> set (fill_plan q xs) \<Longrightarrow> \<exists>b. (k, b) \<in> set xs \<and> a \<le> b"
  by (induction q xs rule: fill_plan.induct) (auto simp: min_def split: if_splits)

lemma fill_plan_pos:
  assumes "\<forall>a \<in> set (map snd xs). 0 < a" and "(k, a) \<in> set (fill_plan q xs)"
  shows "0 < a"
  using assms by (induction q xs rule: fill_plan.induct) (auto simp: min_def split: if_splits)

text \<open>Every fill is bounded by what its order offers, and every order before the
  last filled one is exhausted: no order is passed over in favour of a worse one.\<close>

lemma fill_plan_bound:
  "i < length (fill_plan q xs) \<Longrightarrow>
     i < length xs \<and> fst (fill_plan q xs ! i) = fst (xs ! i) \<and>
     snd (fill_plan q xs ! i) \<le> snd (xs ! i) \<and>
     (Suc i < length (fill_plan q xs) \<longrightarrow> snd (fill_plan q xs ! i) = snd (xs ! i))"
proof (induction q xs arbitrary: i rule: fill_plan.induct)
  case (2 q k a xs)
  show ?case
  proof (cases i)
    case 0
    have "a < q" if "fill_plan (q - min q a) xs \<noteq> []"
      using that by (cases "q - min q a \<le> 0") (auto simp: min_def split: if_splits)
    then show ?thesis using "2.prems" 0 by (auto simp: min_def split: if_splits)
  next
    case (Suc j)
    with "2.prems" have q: "\<not> q \<le> 0" by (auto split: if_splits)
    with "2.IH" [of j] "2.prems" Suc show ?thesis by auto
  qed
qed simp

lemma eligible_map: "eligible v (map f xs) = map f (eligible (\<lambda>x. v (f x)) xs)"
  by (induction xs) (auto split: verdict.splits)

text \<open>Cutting the book where nothing crosses any more does not matter.\<close>

lemma eligible_takeWhile_cut:
  "(\<And>x. x \<in> set xs \<Longrightarrow> \<not> P x \<Longrightarrow> v x = Stop) \<Longrightarrow> eligible v (takeWhile P xs) = eligible v xs"
  by (induction xs) (auto split: verdict.splits)

text \<open>A plan in other units.\<close>

lemma fill_plan_scale:
  fixes f :: "'a::linordered_ab_group_add \<Rightarrow> 'b::linordered_ab_group_add"
  assumes "\<And>x y. f x \<le> f y \<longleftrightarrow> x \<le> y" "\<And>x y. f (x - y) = f x - f y"
  shows "fill_plan (f q) (map (map_prod g f) xs) = map (map_prod g f) (fill_plan q xs)"
proof (induction q xs rule: fill_plan.induct)
  case (2 q k a xs)
  have "f 0 = 0" using assms(2) [of 0 0] by simp
  then have "f q \<le> 0 \<longleftrightarrow> q \<le> 0" using assms(1) [of q 0] by simp
  moreover have "min (f q) (f a) = f (min q a)" using assms(1) by (auto simp: min_def)
  moreover have "f q - f (min q a) = f (q - min q a)" using assms(2) by simp
  ultimately show ?case using 2 by simp
qed simp

section \<open>The interface of a matching loop\<close>

locale price_time_loop =
  fixes ok :: "'st \<Rightarrow> bool"
    and run :: "'st \<Rightarrow> 'o list \<Rightarrow> 'st"
    and continue :: "'st \<Rightarrow> 'o \<Rightarrow> 'st"
    and halt :: "'st \<Rightarrow> 'o \<Rightarrow> 'st"
    and verdict :: "'st \<Rightarrow> 'o \<Rightarrow> verdict"
    and avail :: "'st \<Rightarrow> 'o \<Rightarrow> 'q::linordered_ab_group_add"
    and key :: "'o \<Rightarrow> 'k"
    and fills :: "'st \<Rightarrow> ('k \<times> 'q) list"
    and rest :: "'st \<Rightarrow> 'q"
    and indep :: "'o \<Rightarrow> 'o \<Rightarrow> bool"
  assumes run_Nil: "run st [] = st"
    and run_done: "rest st = 0 \<Longrightarrow> run st xs = st"
    and run_stop: "ok st \<Longrightarrow> 0 < rest st \<Longrightarrow> verdict st x \<in> {Stop, CancelStop} \<Longrightarrow> run st (x # xs) = halt st x"
    and run_go: "ok st \<Longrightarrow> 0 < rest st \<Longrightarrow> verdict st x \<in> {Take, Skip} \<Longrightarrow>
           run st (x # xs) = run (continue st x) xs"
    and halt_fills: "ok st \<Longrightarrow> 0 < rest st \<Longrightarrow> verdict st x \<in> {Stop, CancelStop} \<Longrightarrow> fills (halt st x) = fills st"
    and stop_rest: "ok st \<Longrightarrow> 0 < rest st \<Longrightarrow> verdict st x = Stop \<Longrightarrow> rest (halt st x) = rest st"
    and skip_fills: "ok st \<Longrightarrow> 0 < rest st \<Longrightarrow> verdict st x = Skip \<Longrightarrow> fills (continue st x) = fills st"
    and skip_rest: "ok st \<Longrightarrow> 0 < rest st \<Longrightarrow> verdict st x = Skip \<Longrightarrow> rest (continue st x) = rest st"
    and take_fills: "ok st \<Longrightarrow> 0 < rest st \<Longrightarrow> verdict st x = Take \<Longrightarrow>
           fills (continue st x) = fills st @ [(key x, min (rest st) (avail st x))]"
    and take_rest: "ok st \<Longrightarrow> 0 < rest st \<Longrightarrow> verdict st x = Take \<Longrightarrow>
           rest (continue st x) = rest st - min (rest st) (avail st x)"
    and ok_continue: "ok st \<Longrightarrow> 0 < rest st \<Longrightarrow> verdict st x \<in> {Take, Skip} \<Longrightarrow> ok (continue st x)"
    and stable: "indep x y \<Longrightarrow> verdict (continue st x) y = verdict st y"
    and stable_avail: "indep x y \<Longrightarrow> avail (continue st x) y = avail st y"
begin

definition offers :: "'st \<Rightarrow> 'o list \<Rightarrow> ('k \<times> 'q) list" where
  "offers st xs = map (\<lambda>x. (key x, avail st x)) (eligible (verdict st) xs)"

lemma offers_continue:
  "\<forall>y \<in> set xs. indep x y \<Longrightarrow> offers (continue st x) xs = offers st xs"
  using eligible_subset [of "verdict st" xs]
  by (auto simp: offers_def stable stable_avail cong: eligible_cong)

text \<open>The loop appends the plan of its remaining quantity to the fills.\<close>

lemma run_fills:
  assumes "ok st" and "sorted_wrt indep xs" and "0 \<le> rest st"
    and "\<forall>x \<in> set xs. verdict st x = Take \<longrightarrow> 0 \<le> avail st x"
  shows "fills (run st xs) = fills st @ fill_plan (rest st) (offers st xs)"
  using assms
proof (induction xs arbitrary: st)
  case Nil
  then show ?case by (simp add: run_Nil offers_def)
next
  case (Cons x xs)
  show ?case
  proof (cases "rest st = 0")
    case True
    then show ?thesis by (simp add: run_done)
  next
    case False
    with Cons.prems have pos: "0 < rest st" by simp
    have ind: "\<forall>y \<in> set xs. indep x y" and sw: "sorted_wrt indep xs" and ok: "ok st"
      using Cons.prems(1,2) by auto
    show ?thesis
    proof (cases "verdict st x")
      case Take
      let ?m = "min (rest st) (avail st x)"
      have "fills (run (continue st x) xs) = fills (continue st x) @
          fill_plan (rest (continue st x)) (offers (continue st x) xs)"
        using Cons.prems ind Take pos sw
        by (intro Cons.IH) (auto simp: stable stable_avail take_rest ok_continue)
      with Take pos ind ok show ?thesis
        by (simp add: run_go take_fills take_rest offers_continue) (simp add: offers_def)
    next
      case Skip
      have "fills (run (continue st x) xs) = fills (continue st x) @
          fill_plan (rest (continue st x)) (offers (continue st x) xs)"
        using Cons.prems ind Skip pos sw
        by (intro Cons.IH) (auto simp: stable stable_avail skip_rest ok_continue)
      with Skip pos ind ok show ?thesis
        by (simp add: run_go skip_fills skip_rest offers_continue) (simp add: offers_def)
    qed (use pos ok in \<open>simp_all add: run_stop halt_fills offers_def\<close>)
  qed
qed

text \<open>Unless the taker is cancelled, what is not filled remains.\<close>

lemma run_rest:
  assumes "ok st" and "sorted_wrt indep xs" and "0 \<le> rest st"
    and "\<forall>x \<in> set xs. verdict st x = Take \<longrightarrow> 0 \<le> avail st x"
    and "\<forall>x \<in> set xs. verdict st x \<noteq> CancelStop"
  shows "rest (run st xs) + sum_list (map snd (fill_plan (rest st) (offers st xs))) = rest st"
  using assms
proof (induction xs arbitrary: st)
  case Nil
  then show ?case by (simp add: run_Nil offers_def)
next
  case (Cons x xs)
  show ?case
  proof (cases "rest st = 0")
    case True
    then show ?thesis by (simp add: run_done)
  next
    case False
    with Cons.prems have pos: "0 < rest st" by simp
    have ind: "\<forall>y \<in> set xs. indep x y" and sw: "sorted_wrt indep xs" and ok: "ok st"
      using Cons.prems(1,2) by auto
    show ?thesis
    proof (cases "verdict st x")
      case Take
      let ?m = "min (rest st) (avail st x)"
      have "rest (run (continue st x) xs) +
          sum_list (map snd (fill_plan (rest (continue st x)) (offers (continue st x) xs)))
          = rest (continue st x)"
        using Cons.prems ind Take pos sw
        by (intro Cons.IH) (auto simp: stable stable_avail take_rest ok_continue)
      moreover have "\<not> rest st \<le> 0" using pos by simp
      ultimately show ?thesis using Take pos ind ok
        by (simp add: run_go take_rest offers_continue) (simp add: offers_def algebra_simps)
    next
      case Skip
      have "rest (run (continue st x) xs) +
          sum_list (map snd (fill_plan (rest (continue st x)) (offers (continue st x) xs)))
          = rest (continue st x)"
        using Cons.prems ind Skip pos sw
        by (intro Cons.IH) (auto simp: stable stable_avail skip_rest ok_continue)
      with Skip pos ind ok show ?thesis
        by (simp add: run_go skip_rest offers_continue) (simp add: offers_def)
    next
      case Stop
      with pos ok show ?thesis by (simp add: run_stop stop_rest offers_def)
    next
      case CancelStop
      with Cons.prems(5) show ?thesis by simp
    qed
  qed
qed

end

end
