(* ===== verification/Engine.thy ===== *)
theory Engine
  imports Domain Matching_Spec
begin

text \<open>
  \<open>crates/shared/src/engine.rs\<close>: the matching routine on a book held in memory.
  The loop over \<open>book.iter_mut()\<close> is \<open>walk_book\<close>, its body \<open>match_body\<close>, which
  returns whether the loop goes on, the new loop state and the resting order as
  the body leaves it (the slice is updated in place). \<open>Uuid::new_v4\<close> and
  \<open>Utc::now\<close> are the arguments \<open>fresh\<close> and \<open>clock\<close>, indexed by the number of
  trades made so far (three clock reads per trade).
\<close>

section \<open>Model\<close>

record 'd match_result =
  mr_trades :: "'d trade list"
  mr_book_updates :: "'d order list"
  mr_incoming :: "'d order"
  mr_stp_cancelled :: "'d order list"

text \<open>The local variables that the loop updates.\<close>

record 'd loop_state =
  ls_incoming :: "'d order"
  ls_trades :: "'d trade list"
  ls_book_updates :: "'d order list"
  ls_stp_cancelled :: "'d order list"

definition price_matches :: "'d::linordered_ab_group_add order \<Rightarrow> 'd order \<Rightarrow> bool" where
  "price_matches incoming resting =
     (if o_order_type incoming = Market then True
      else (case (o_side incoming, o_price incoming, o_price resting) of
              (Buy, Some bid, Some ask) \<Rightarrow> ask \<le> bid
            | (Sell, Some ask, Some bid) \<Rightarrow> ask \<le> bid
            | _ \<Rightarrow> False))"

definition fill_price :: "'d::zero order \<Rightarrow> 'd order \<Rightarrow> 'd" where
  "fill_price incoming resting =
     (case o_price resting of Some p \<Rightarrow> p | None \<Rightarrow> option_or (o_price incoming) 0)"

definition fill_trade ::
  "uuid \<Rightarrow> instant \<Rightarrow> 'd::linordered_ab_group_add order \<Rightarrow> 'd order \<Rightarrow> 'd trade" where
  "fill_trade tid now incoming resting =
     (let (buy_order_id, sell_order_id, buyer_id, seller_id) =
            (case o_side incoming of
               Buy \<Rightarrow> (o_id incoming, o_id resting, o_user_id incoming, o_user_id resting)
             | Sell \<Rightarrow> (o_id resting, o_id incoming, o_user_id resting, o_user_id incoming))
      in \<lparr>t_id = tid, t_pair_id = o_pair_id incoming,
          t_buy_order_id = buy_order_id, t_sell_order_id = sell_order_id,
          t_buyer_id = buyer_id, t_seller_id = seller_id,
          t_price = fill_price incoming resting,
          t_quantity = min (o_remaining incoming) (o_remaining resting),
          t_sequence = 0, t_created_at = now\<rparr>)"

definition filled_status :: "'d::zero \<Rightarrow> order_status" where
  "filled_status remaining = (if remaining = 0 then Filled else PartiallyFilled)"

definition match_body ::
  "(nat \<Rightarrow> uuid) \<Rightarrow> (nat \<Rightarrow> instant) \<Rightarrow> 'd::linordered_ab_group_add loop_state \<Rightarrow> 'd order
   \<Rightarrow> bool \<times> 'd loop_state \<times> 'd order" where
  "match_body fresh clock st resting =
     (let incoming = ls_incoming st; n = length (ls_trades st);
          own = (o_user_id incoming = o_user_id resting) in
      if o_remaining incoming = 0 then (False, st, resting)
      else if \<not> price_matches incoming resting then (False, st, resting)
      else if own \<and> o_stp_mode incoming = CancelTaker then
        let incoming' = incoming\<lparr>o_status := Cancelled\<rparr>
        in (False, st\<lparr>ls_incoming := incoming',
                      ls_stp_cancelled := ls_stp_cancelled st @ [incoming']\<rparr>, resting)
      else if own \<and> o_stp_mode incoming = CancelMaker then
        let resting' = resting\<lparr>o_status := Cancelled\<rparr>
        in (True, st\<lparr>ls_stp_cancelled := ls_stp_cancelled st @ [resting'],
                     ls_book_updates := ls_book_updates st @ [resting']\<rparr>, resting')
      else if own \<and> o_stp_mode incoming = CancelBoth then
        let incoming' = incoming\<lparr>o_status := Cancelled\<rparr>;
            resting' = resting\<lparr>o_status := Cancelled\<rparr>
        in (False, st\<lparr>ls_incoming := incoming',
                      ls_stp_cancelled := ls_stp_cancelled st @ [incoming', resting'],
                      ls_book_updates := ls_book_updates st @ [resting']\<rparr>, resting')
      else
        let fill_qty = min (o_remaining incoming) (o_remaining resting);
            trade = fill_trade (fresh n) (clock (3 * n)) incoming resting;
            resting' = resting\<lparr>o_remaining := o_remaining resting - fill_qty,
                               o_status := filled_status (o_remaining resting - fill_qty),
                               o_updated_at := clock (3 * n + 1)\<rparr>;
            incoming' = incoming\<lparr>o_remaining := o_remaining incoming - fill_qty,
                                 o_status := filled_status (o_remaining incoming - fill_qty),
                                 o_updated_at := clock (3 * n + 2)\<rparr>
        in (True, st\<lparr>ls_incoming := incoming', ls_trades := ls_trades st @ [trade],
                     ls_book_updates := ls_book_updates st @ [resting']\<rparr>, resting'))"

fun walk_book ::
  "(nat \<Rightarrow> uuid) \<Rightarrow> (nat \<Rightarrow> instant) \<Rightarrow> 'd::linordered_ab_group_add loop_state \<Rightarrow> 'd order list
   \<Rightarrow> 'd loop_state \<times> 'd order list" where
  "walk_book fresh clock st [] = (st, [])"
| "walk_book fresh clock st (r # rs) =
     (case match_body fresh clock st r of
        (False, st', r') \<Rightarrow> (st', r' # rs)
      | (True, st', r') \<Rightarrow> (case walk_book fresh clock st' rs of (st'', rs') \<Rightarrow> (st'', r' # rs')))"

definition fok_available :: "'d::linordered_ab_group_add order \<Rightarrow> 'd order list \<Rightarrow> 'd" where
  "fok_available incoming book =
     fold (\<lambda>x acc. acc + x) (map o_remaining (filter (price_matches incoming) book)) 0"

definition effective_tif :: "'d order \<Rightarrow> time_in_force" where
  "effective_tif incoming = (if o_order_type incoming = Market then IOC else o_tif incoming)"

definition apply_tif :: "time_in_force \<Rightarrow> 'd::linordered_ab_group_add trade list \<Rightarrow> 'd order \<Rightarrow> 'd order" where
  "apply_tif tif trades incoming =
     (if 0 < o_remaining incoming \<and> o_status incoming \<noteq> Cancelled then
        (case tif of
           GTC \<Rightarrow> if trades = [] then incoming\<lparr>o_status := New\<rparr> else incoming
         | IOC \<Rightarrow> incoming\<lparr>o_status := Cancelled\<rparr>
         | FOK \<Rightarrow> incoming\<lparr>o_status := Cancelled\<rparr>)
      else incoming)"

text \<open>The result, and the book as the call leaves it.\<close>

definition match_order ::
  "(nat \<Rightarrow> uuid) \<Rightarrow> (nat \<Rightarrow> instant) \<Rightarrow> 'd::linordered_ab_group_add order \<Rightarrow> 'd order list
   \<Rightarrow> 'd match_result \<times> 'd order list" where
  "match_order fresh clock incoming book =
     (if o_tif incoming = FOK \<and> fok_available incoming book < o_remaining incoming then
        (\<lparr>mr_trades = [], mr_book_updates = [], mr_incoming = incoming\<lparr>o_status := Cancelled\<rparr>,
          mr_stp_cancelled = []\<rparr>, book)
      else
        (case walk_book fresh clock
                \<lparr>ls_incoming = incoming, ls_trades = [], ls_book_updates = [], ls_stp_cancelled = []\<rparr>
                book of
           (st, book') \<Rightarrow>
             (\<lparr>mr_trades = ls_trades st, mr_book_updates = ls_book_updates st,
               mr_incoming = apply_tif (effective_tif incoming) (ls_trades st) (ls_incoming st),
               mr_stp_cancelled = ls_stp_cancelled st\<rparr>, book')))"

section \<open>The loop as an instance of the matching interface\<close>

definition engine_verdict :: "'d::linordered_ab_group_add order \<Rightarrow> 'd order \<Rightarrow> verdict" where
  "engine_verdict incoming resting =
     (if \<not> price_matches incoming resting then Stop
      else if o_user_id incoming = o_user_id resting then
        (case o_stp_mode incoming of
           StpNone \<Rightarrow> Take | CancelMaker \<Rightarrow> Skip | CancelTaker \<Rightarrow> CancelStop | CancelBoth \<Rightarrow> CancelStop)
      else Take)"

text \<open>The order id of the counterparty of a trade of the given taker side.\<close>

definition maker_id :: "side \<Rightarrow> 'd trade \<Rightarrow> uuid" where
  "maker_id sd t = (case sd of Buy \<Rightarrow> t_sell_order_id t | Sell \<Rightarrow> t_buy_order_id t)"

definition engine_fills :: "'d loop_state \<Rightarrow> (uuid \<times> 'd) list" where
  "engine_fills st =
     map (\<lambda>t. (maker_id (o_side (ls_incoming st)) t, t_quantity t)) (ls_trades st)"

lemma price_matches_upd [simp]:
  "price_matches (incoming\<lparr>o_remaining := q, o_status := s, o_updated_at := u\<rparr>) r = price_matches incoming r"
  "price_matches (incoming\<lparr>o_status := s\<rparr>) r = price_matches incoming r"
  by (simp_all add: price_matches_def)

lemma engine_verdict_upd [simp]:
  "engine_verdict (incoming\<lparr>o_remaining := q, o_status := s, o_updated_at := u\<rparr>) r = engine_verdict incoming r"
  by (simp add: engine_verdict_def)

lemma maker_id_fill_trade [simp]:
  "maker_id (o_side incoming) (fill_trade tid now incoming resting) = o_id resting"
  "t_quantity (fill_trade tid now incoming resting) = min (o_remaining incoming) (o_remaining resting)"
  "t_price (fill_trade tid now incoming resting) = fill_price incoming resting"
  by (simp_all add: maker_id_def fill_trade_def split: side.split)

text \<open>The body, read by verdict.\<close>

lemma match_body_flow:
  "0 < o_remaining (ls_incoming st) \<Longrightarrow>
     fst (match_body fresh clock st r) \<longleftrightarrow> engine_verdict (ls_incoming st) r \<in> {Take, Skip}"
  by (cases "o_stp_mode (ls_incoming st)")
     (auto simp: match_body_def engine_verdict_def Let_def)

lemma walk_book_Cons_state:
  "fst (walk_book fresh clock st (r # rs)) =
     (let b = match_body fresh clock st r
      in if fst b then fst (walk_book fresh clock (fst (snd b)) rs) else fst (snd b))"
  by (auto simp: Let_def split: prod.splits bool.splits)

lemma body_done: "o_remaining (ls_incoming st) = 0 \<Longrightarrow> match_body fresh clock st r = (False, st, r)"
  by (simp add: match_body_def Let_def)

lemma walk_book_done: "o_remaining (ls_incoming st) = 0 \<Longrightarrow> walk_book fresh clock st rs = (st, rs)"
  by (cases rs) (simp_all add: body_done)

definition engine_next ::
  "(nat \<Rightarrow> uuid) \<Rightarrow> (nat \<Rightarrow> instant) \<Rightarrow> 'd::linordered_ab_group_add loop_state \<Rightarrow> 'd order \<Rightarrow> 'd loop_state" where
  "engine_next fresh clock st r =
     (if o_remaining (ls_incoming st) = 0 then st else fst (snd (match_body fresh clock st r)))"

text \<open>The fields of an order that matching never changes.\<close>

definition order_core :: "'d order \<Rightarrow> uuid \<times> string \<times> string \<times> side \<times> order_type \<times> time_in_force \<times>
    'd option \<times> 'd \<times> stp_mode" where
  "order_core x = (o_id x, o_user_id x, o_pair_id x, o_side x, o_order_type x, o_tif x, o_price x,
     o_quantity x, o_stp_mode x)"

lemma match_body_core:
  "order_core (ls_incoming (fst (snd (match_body fresh clock st r)))) = order_core (ls_incoming st)"
  "order_core (snd (snd (match_body fresh clock st r))) = order_core r"
  by (simp_all add: match_body_def Let_def order_core_def)

lemma engine_next_core:
  "order_core (ls_incoming (engine_next fresh clock st r)) = order_core (ls_incoming st)"
  by (simp add: engine_next_def match_body_core)

lemma engine_verdict_core:
  "order_core a = order_core b \<Longrightarrow> engine_verdict a r = engine_verdict b r"
  "order_core a = order_core b \<Longrightarrow> price_matches a r = price_matches b r"
  by (simp_all add: engine_verdict_def price_matches_def order_core_def)

lemma engine_take:
  assumes "engine_verdict (ls_incoming st) r = Take" and "0 < o_remaining (ls_incoming st)"
  shows "match_body fresh clock st r =
    (let inc = ls_incoming st; n = length (ls_trades st);
         m = min (o_remaining inc) (o_remaining r);
         r' = r\<lparr>o_remaining := o_remaining r - m, o_status := filled_status (o_remaining r - m),
                o_updated_at := clock (3 * n + 1)\<rparr>
     in (True, st\<lparr>ls_incoming := inc\<lparr>o_remaining := o_remaining inc - m,
                    o_status := filled_status (o_remaining inc - m), o_updated_at := clock (3 * n + 2)\<rparr>,
                  ls_trades := ls_trades st @ [fill_trade (fresh n) (clock (3 * n)) inc r],
                  ls_book_updates := ls_book_updates st @ [r']\<rparr>, r'))"
proof -
  have "price_matches (ls_incoming st) r"
    and "o_user_id (ls_incoming st) = o_user_id r \<Longrightarrow> o_stp_mode (ls_incoming st) = StpNone"
    using assms(1) by (auto simp: engine_verdict_def split: if_splits stp_mode.splits)
  with assms(2) show ?thesis
    by (auto simp: match_body_def Let_def)
qed

lemma engine_skip:
  assumes "engine_verdict (ls_incoming st) r = Skip" and "0 < o_remaining (ls_incoming st)"
  shows "match_body fresh clock st r =
    (let r' = r\<lparr>o_status := Cancelled\<rparr>
     in (True, st\<lparr>ls_stp_cancelled := ls_stp_cancelled st @ [r'],
                  ls_book_updates := ls_book_updates st @ [r']\<rparr>, r'))"
proof -
  have "price_matches (ls_incoming st) r" "o_user_id (ls_incoming st) = o_user_id r"
    "o_stp_mode (ls_incoming st) = CancelMaker"
    using assms(1) by (auto simp: engine_verdict_def split: if_splits stp_mode.splits)
  with assms(2) show ?thesis
    by (simp add: match_body_def Let_def less_imp_neq [symmetric])
qed

lemma engine_halt_cases:
  assumes "engine_verdict inc r \<in> {Stop, CancelStop}"
  obtains (price) "\<not> price_matches inc r" "engine_verdict inc r = Stop"
    | (taker) "price_matches inc r" "o_user_id inc = o_user_id r" "o_stp_mode inc = CancelTaker"
        "engine_verdict inc r = CancelStop"
    | (both) "price_matches inc r" "o_user_id inc = o_user_id r" "o_stp_mode inc = CancelBoth"
        "engine_verdict inc r = CancelStop"
  using assms by (cases "o_stp_mode inc") (auto simp: engine_verdict_def split: if_splits)

lemma match_body_halt:
  assumes "engine_verdict (ls_incoming st) r \<in> {Stop, CancelStop}"
  shows "ls_trades (fst (snd (match_body fresh clock st r))) = ls_trades st"
    "o_remaining (ls_incoming (fst (snd (match_body fresh clock st r)))) = o_remaining (ls_incoming st)"
    "o_remaining (snd (snd (match_body fresh clock st r))) = o_remaining r"
  using assms by (cases rule: engine_halt_cases; simp add: match_body_def Let_def)+

interpretation engine: price_time_loop
  "\<lambda>_. True"
  "\<lambda>st rs. fst (walk_book fresh clock st rs)"
  "engine_next fresh clock"
  "\<lambda>st r. fst (snd (match_body fresh clock st r))"
  "\<lambda>st. engine_verdict (ls_incoming st)"
  "\<lambda>st. o_remaining"
  o_id engine_fills
  "\<lambda>st. o_remaining (ls_incoming st)"
  "\<lambda>_ _. True"
  for fresh clock
proof (unfold_locales, goal_cases)
  case (3 st x xs)
  then show ?case
    by (subst walk_book_Cons_state) (auto simp: Let_def match_body_flow)
next
  case (4 st x xs)
  then show ?case
    by (subst walk_book_Cons_state) (auto simp: Let_def engine_next_def match_body_flow)
next
  case (5 st x)
  then show ?case
    using match_body_core(1) [of fresh clock st x]
    by (simp add: engine_fills_def match_body_halt order_core_def)
next
  case (12 x y st)
  show ?case by (intro engine_verdict_core engine_next_core)
qed (auto simp: walk_book_done match_body_halt engine_next_def engine_skip engine_take engine_fills_def
       Let_def)

end
