(* ===== verification/Engine_Props.thy ===== *)
theory Engine_Props
  imports Engine
begin

text \<open>
  What the in-memory matching routine of \<open>engine.rs\<close> guarantees: conservation of
  quantity, that its trades are the price-time plan, the soundness of each
  trade, fill-or-kill atomicity and the life cycle of the incoming order.
\<close>

section \<open>Conservation of quantity\<close>

abbreviation traded :: "'d::linordered_ab_group_add trade list \<Rightarrow> 'd" where
  "traded ts \<equiv> sum_list (map t_quantity ts)"

lemma match_body_conserves:
  assumes "match_body fresh clock st r = (go, st', r')"
  shows "o_remaining (ls_incoming st') + traded (ls_trades st') =
           o_remaining (ls_incoming st) + traded (ls_trades st)"
    and "o_remaining r' + traded (ls_trades st') = o_remaining r + traded (ls_trades st)"
  using assms by (auto simp: match_body_def Let_def algebra_simps split: if_splits)

lemma walk_book_ConsE:
  assumes "walk_book fresh clock st (r # rs) = (st', rs')"
  obtains (halt) r1 where "match_body fresh clock st r = (False, st', r1)" "rs' = r1 # rs"
  | (go) st1 r1 rs1 where "match_body fresh clock st r = (True, st1, r1)"
      "walk_book fresh clock st1 rs = (st', rs1)" "rs' = r1 # rs1"
  using assms by (auto split: prod.splits bool.splits)

text \<open>The rule for properties of the loop: every body keeps the invariant.\<close>

lemma walk_book_invariant:
  assumes "walk_book fresh clock st rs = (st', rs')" and "I st"
    and "\<And>st r go st1 r1. r \<in> set rs \<Longrightarrow> I st \<Longrightarrow> match_body fresh clock st r = (go, st1, r1) \<Longrightarrow> I st1"
  shows "I st'"
  using assms
proof (induction rs arbitrary: st rs')
  case (Cons r rs)
  from Cons.prems(1) show ?case
  proof (cases rule: walk_book_ConsE)
    case halt
    with Cons.prems(2,3) show ?thesis by (meson list.set_intros(1))
  next
    case (go st1 r1 rs1)
    with Cons.prems have "I st1" by (meson list.set_intros(1))
    with Cons.IH [OF go(2)] Cons.prems(3) show ?thesis by (meson list.set_intros(2))
  qed
qed simp

lemma walk_book_conserves_taker:
  assumes "walk_book fresh clock st rs = (st', rs')"
  shows "o_remaining (ls_incoming st') + traded (ls_trades st') =
           o_remaining (ls_incoming st) + traded (ls_trades st)"
  using assms
  by (rule walk_book_invariant [where I = "\<lambda>s. o_remaining (ls_incoming s) + traded (ls_trades s) =
        o_remaining (ls_incoming st) + traded (ls_trades st)"])
     (auto dest: match_body_conserves(1))

lemma walk_book_conserves_book:
  "walk_book fresh clock st rs = (st', rs') \<Longrightarrow>
     sum_list (map o_remaining rs') + traded (ls_trades st') =
     sum_list (map o_remaining rs) + traded (ls_trades st)"
proof (induction rs arbitrary: st rs')
  case (Cons r rs)
  from Cons.prems show ?case
  proof (cases rule: walk_book_ConsE)
    case (halt r1)
    from match_body_conserves(2) [OF halt(1)] show ?thesis
      by (simp add: halt(2) add.commute add.left_commute)
  next
    case (go st1 r1 rs1)
    have "sum_list (map o_remaining rs1) + traded (ls_trades st') + o_remaining r1 =
        sum_list (map o_remaining rs) + (o_remaining r1 + traded (ls_trades st1))"
      using Cons.IH [OF go(2)] by (simp add: add.commute add.left_commute)
    then show ?thesis
      using match_body_conserves(2) [OF go(1)] by (simp add: go(3) add.commute add.left_commute)
  qed
qed simp

lemma apply_tif_simps [simp]:
  "o_remaining (apply_tif tif ts inc) = o_remaining inc"
  "order_core (apply_tif tif ts inc) = order_core inc"
  by (simp_all add: apply_tif_def order_core_def split: time_in_force.splits)

text \<open>
  C2: \<open>match_order\<close> conserves quantity. What the incoming order loses is exactly
  the traded quantity, and so is what the resting orders of the book lose
  together; no quantity appears or disappears, on any branch.
\<close>

theorem match_order_conserves:
  "match_order fresh clock incoming book = (res, book') \<Longrightarrow>
     o_remaining (mr_incoming res) + traded (mr_trades res) = o_remaining incoming \<and>
     sum_list (map o_remaining book') + traded (mr_trades res) = sum_list (map o_remaining book)"
  by (auto simp: match_order_def split: if_splits prod.splits
      dest: walk_book_conserves_taker walk_book_conserves_book)

section \<open>Concrete orders\<close>

text \<open>The orders of the unit tests of \<open>engine.rs\<close> (\<open>make_order\<close>), over integer prices.\<close>

definition make_order ::
  "uuid \<Rightarrow> side \<Rightarrow> order_type \<Rightarrow> time_in_force \<Rightarrow> int option \<Rightarrow> int \<Rightarrow> string \<Rightarrow> stp_mode \<Rightarrow> int order" where
  "make_order oid sd ot tif price qty user stp =
     \<lparr>o_id = oid, o_user_id = user, o_pair_id = ''BTC-USDT'', o_side = sd, o_order_type = ot,
      o_tif = tif, o_price = price, o_quantity = qty, o_remaining = qty, o_status = New,
      o_stp_mode = stp, o_version = 1, o_sequence = 0, o_created_at = 0, o_updated_at = 0,
      o_client_order_id = None, o_received_at = None, o_matched_at = None, o_persisted_at = None\<rparr>"

definition asks_99_100 :: "int order list" where
  "asks_99_100 = [make_order 11 Sell Limit GTC (Some 99) 2 ''u2'' StpNone,
                  make_order 12 Sell Limit GTC (Some 100) 5 ''u3'' StpNone]"

lemmas engine_eval = match_order_def match_body_def make_order_def asks_99_100_def price_matches_def
  fill_trade_def fill_price_def filled_status_def effective_tif_def apply_tif_def fok_available_def
  Let_def engine_verdict_def

theorem match_order_conserves_witness:
  "\<exists>res book'. match_order id (\<lambda>_. 7) (make_order 1 Buy Limit GTC (Some 100) 4 ''u1'' StpNone) asks_99_100
       = (res, book') \<and>
     o_remaining (mr_incoming res) + traded (mr_trades res) = 4 \<and> length (mr_trades res) = 2"
proof -
  let ?m = "match_order id (\<lambda>_. 7) (make_order 1 Buy Limit GTC (Some 100) 4 ''u1'' StpNone) asks_99_100"
  have "?m = (fst ?m, snd ?m)" by simp
  from match_order_conserves [OF this]
  have "o_remaining (mr_incoming (fst ?m)) + traded (mr_trades (fst ?m)) = 4"
    by (simp add: make_order_def)
  moreover have "length (mr_trades (fst ?m)) = 2" by (simp add: engine_eval)
  ultimately show ?thesis by (intro exI [of _ "fst ?m"] exI [of _ "snd ?m"]) simp
qed

section \<open>The trades\<close>

definition init_loop :: "'d order \<Rightarrow> 'd loop_state" where
  "init_loop incoming =
     \<lparr>ls_incoming = incoming, ls_trades = [], ls_book_updates = [], ls_stp_cancelled = []\<rparr>"

definition fok_rejected :: "'d::linordered_ab_group_add order \<Rightarrow> 'd order list \<Rightarrow> bool" where
  "fok_rejected incoming book \<longleftrightarrow> o_tif incoming = FOK \<and> fok_available incoming book < o_remaining incoming"

lemma match_order_rejected:
  "fok_rejected incoming book \<Longrightarrow> match_order fresh clock incoming book =
     (\<lparr>mr_trades = [], mr_book_updates = [], mr_incoming = incoming\<lparr>o_status := Cancelled\<rparr>,
       mr_stp_cancelled = []\<rparr>, book)"
  by (simp add: match_order_def fok_rejected_def)

lemma match_order_walk:
  assumes "\<not> fok_rejected incoming book"
    and "walk_book fresh clock (init_loop incoming) book = (st, book')"
  shows "match_order fresh clock incoming book =
    (\<lparr>mr_trades = ls_trades st, mr_book_updates = ls_book_updates st,
      mr_incoming = apply_tif (effective_tif incoming) (ls_trades st) (ls_incoming st),
      mr_stp_cancelled = ls_stp_cancelled st\<rparr>, book')"
  using assms by (auto simp: match_order_def fok_rejected_def init_loop_def)

lemma match_orderE:
  assumes "match_order fresh clock incoming book = (res, book')"
  obtains (rejected) "fok_rejected incoming book" "mr_trades res = []" "book' = book"
      "mr_incoming res = incoming\<lparr>o_status := Cancelled\<rparr>" "mr_book_updates res = []"
  | (walk) st where "\<not> fok_rejected incoming book"
      "walk_book fresh clock (init_loop incoming) book = (st, book')" "mr_trades res = ls_trades st"
      "mr_incoming res = apply_tif (effective_tif incoming) (ls_trades st) (ls_incoming st)"
      "mr_book_updates res = ls_book_updates st"
proof (cases "fok_rejected incoming book")
  case True
  with assms have "res = \<lparr>mr_trades = [], mr_book_updates = [],
      mr_incoming = incoming\<lparr>o_status := Cancelled\<rparr>, mr_stp_cancelled = []\<rparr>" "book' = book"
    by (simp_all add: match_order_rejected)
  with True show ?thesis by (intro rejected) simp_all
next
  case False
  obtain st b where w: "walk_book fresh clock (init_loop incoming) book = (st, b)"
    by (cases "walk_book fresh clock (init_loop incoming) book")
  with False assms have "b = book'" "mr_trades res = ls_trades st" "mr_book_updates res = ls_book_updates st"
    "mr_incoming res = apply_tif (effective_tif incoming) (ls_trades st) (ls_incoming st)"
    by (auto simp: match_order_walk)
  with w False show ?thesis by (intro walk) simp_all
qed

lemma match_body_coreD:
  "match_body fresh clock st r = (go, st', r') \<Longrightarrow>
     order_core (ls_incoming st') = order_core (ls_incoming st) \<and> order_core r' = order_core r"
  using match_body_core [of fresh clock st r] by simp

lemma walk_core: "walk_book fresh clock st rs = (st', rs') \<Longrightarrow>
    order_core (ls_incoming st') = order_core (ls_incoming st)"
  by (erule walk_book_invariant [where I = "\<lambda>s. order_core (ls_incoming s) = order_core (ls_incoming st)"])
     (auto dest: match_body_coreD)

lemma match_order_plan:
  assumes "match_order fresh clock incoming book = (res, book')" and "\<not> fok_rejected incoming book"
    and "0 \<le> o_remaining incoming" and "\<forall>r \<in> set book. 0 \<le> o_remaining r"
  shows "map (\<lambda>t. (maker_id (o_side incoming) t, t_quantity t)) (mr_trades res) =
    fill_plan (o_remaining incoming)
      (map (\<lambda>r. (o_id r, o_remaining r)) (eligible (engine_verdict incoming) book))"
  using assms(1)
proof (cases rule: match_orderE)
  case (walk st)
  have "o_side (ls_incoming st) = o_side incoming"
    using walk_core [OF walk(2)] by (simp add: order_core_def init_loop_def)
  then have "map (\<lambda>t. (maker_id (o_side incoming) t, t_quantity t)) (mr_trades res) =
      engine_fills (fst (walk_book fresh clock (init_loop incoming) book))"
    by (simp add: walk engine_fills_def)
  also have "\<dots> = fill_plan (o_remaining incoming)
      (map (\<lambda>r. (o_id r, o_remaining r)) (eligible (engine_verdict incoming) book))"
    using engine.run_fills [of book "init_loop incoming" fresh clock] assms(3,4)
    by (simp add: sorted_wrt_trivial engine.offers_def init_loop_def engine_fills_def)
  finally show ?thesis .
qed (use assms(2) in simp)

text \<open>
  C1: the trades of \<open>match_order\<close> are the price-time plan. For quantities that are not negative the list of (maker
  order, quantity) pairs is the distribution of the incoming quantity over the eligible resting orders, in book order:
  each maker gives all it has before the next is touched. When the fill-or-kill check rejects the order
  there are no trades.
\<close>

theorem match_order_refines_plan:
  assumes "match_order fresh clock incoming book = (res, book')"
    and "0 \<le> o_remaining incoming" and "\<forall>r \<in> set book. 0 \<le> o_remaining r"
  shows "map (\<lambda>t. (maker_id (o_side incoming) t, t_quantity t)) (mr_trades res) =
    (if fok_rejected incoming book then []
     else fill_plan (o_remaining incoming)
       (map (\<lambda>r. (o_id r, o_remaining r)) (eligible (engine_verdict incoming) book)))"
proof (cases "fok_rejected incoming book")
  case True
  from assms(1) show ?thesis by (cases rule: match_orderE) (use True in simp_all)
qed (simp add: match_order_plan [OF assms(1) _ assms(2,3)])

theorem match_order_refines_plan_witness:
  "\<exists>res book'. match_order id (\<lambda>_. 7) (make_order 1 Buy Limit GTC (Some 100) 4 ''u1'' StpNone) asks_99_100
       = (res, book') \<and>
     map (\<lambda>t. (maker_id Buy t, t_quantity t)) (mr_trades res) = [(11, 2), (12, 2)]"
proof -
  let ?i = "make_order 1 Buy Limit GTC (Some 100) 4 ''u1'' StpNone"
  let ?m = "match_order id (\<lambda>_. 7) ?i asks_99_100"
  have "?m = (fst ?m, snd ?m)" by simp
  from match_order_refines_plan [OF this]
  have "map (\<lambda>t. (maker_id Buy t, t_quantity t)) (mr_trades (fst ?m)) = [(11, 2), (12, 2)]"
    by (simp add: fok_rejected_def make_order_def asks_99_100_def engine_verdict_def price_matches_def)
  then show ?thesis by (intro exI [of _ "fst ?m"] exI [of _ "snd ?m"]) simp
qed

text \<open>What a single trade against the resting order \<open>r\<close> has to be.\<close>

definition trade_terms :: "'d::linordered_ab_group_add order \<Rightarrow> 'd order \<Rightarrow> 'd trade \<Rightarrow> bool" where
  "trade_terms incoming r t \<longleftrightarrow>
     price_matches incoming r \<and> maker_id (o_side incoming) t = o_id r \<and>
     t_price t = fill_price incoming r \<and> t_quantity t \<le> o_remaining r \<and>
     t_pair_id t = o_pair_id incoming \<and>
     (t_buyer_id t, t_seller_id t) =
       (case o_side incoming of Buy \<Rightarrow> (o_user_id incoming, o_user_id r)
        | Sell \<Rightarrow> (o_user_id r, o_user_id incoming)) \<and>
     (o_user_id r = o_user_id incoming \<longrightarrow> o_stp_mode incoming = StpNone)"

lemma trade_terms_core:
  "order_core a = order_core b \<Longrightarrow> trade_terms a r t = trade_terms b r t"
  by (simp add: trade_terms_def fill_price_def order_core_def price_matches_def
      split: option.splits side.splits)

lemma match_body_sound:
  assumes "match_body fresh clock st r = (go, st', r')" and "t \<in> set (ls_trades st')"
  shows "t \<in> set (ls_trades st) \<or> trade_terms (ls_incoming st) r t"
proof (cases "ls_trades st' = ls_trades st")
  case False
  with assms(1) have "price_matches (ls_incoming st) r"
    and "o_user_id r = o_user_id (ls_incoming st) \<longrightarrow> o_stp_mode (ls_incoming st) = StpNone"
    and t: "ls_trades st' = ls_trades st @ [fill_trade (fresh (length (ls_trades st)))
        (clock (3 * length (ls_trades st))) (ls_incoming st) r]"
    by (cases "o_stp_mode (ls_incoming st)"; auto simp: match_body_def Let_def split: if_splits)+
  then have "trade_terms (ls_incoming st) r (fill_trade (fresh (length (ls_trades st)))
        (clock (3 * length (ls_trades st))) (ls_incoming st) r)"
    by (auto simp: trade_terms_def fill_trade_def maker_id_def split: side.splits)
  with assms(2) t show ?thesis by auto
qed (use assms in simp)

lemma match_order_trade_maker:
  assumes "match_order fresh clock incoming book = (res, book')" and "t \<in> set (mr_trades res)"
  shows "\<exists>r \<in> set book. trade_terms incoming r t"
  using assms(1)
proof (cases rule: match_orderE)
  case (walk st)
  let ?I = "\<lambda>s. order_core (ls_incoming s) = order_core incoming \<and>
    (\<forall>t \<in> set (ls_trades s). \<exists>r \<in> set book. trade_terms incoming r t)"
  have "?I st"
    using walk(2)
  proof (rule walk_book_invariant)
    show "?I (init_loop incoming)" by (simp add: init_loop_def)
  next
    fix s r go s1 r1
    assume r: "r \<in> set book" and I: "?I s" and b: "match_body fresh clock s r = (go, s1, r1)"
    then have "\<exists>r \<in> set book. trade_terms incoming r t" if "t \<in> set (ls_trades s1)" for t
      using match_body_sound [OF b that] trade_terms_core [of "ls_incoming s" incoming r] by blast
    with I match_body_coreD [OF b] show "?I s1" by simp
  qed
  with assms(2) walk(3) show ?thesis by simp
qed (use assms(2) in simp)

lemma fill_plan_bounds:
  "(k, x) \<in> set (fill_plan q xs) \<Longrightarrow> \<forall>e \<in> set xs. 0 < snd e \<Longrightarrow> 0 < x \<and> x \<le> q"
proof (induction q xs rule: fill_plan.induct)
  case (2 q k' a xs)
  then have "(k, x) = (k', min q a) \<or> 0 < x \<and> x \<le> q - min q a" by (auto split: if_splits)
  then show ?case using 2(2,3) by (auto split: if_splits simp: min_def intro: order_trans)
qed simp

text \<open>The terms of a trade, for a positive quantity that neither order exceeds.\<close>

definition sound_trade :: "'d::linordered_ab_group_add order \<Rightarrow> 'd order \<Rightarrow> 'd trade \<Rightarrow> bool" where
  "sound_trade incoming r t \<longleftrightarrow>
     trade_terms incoming r t \<and> 0 < t_quantity t \<and> t_quantity t \<le> o_remaining incoming \<and> t_quantity t \<le> o_remaining r"



section \<open>Life cycle of the incoming order\<close>

definition taker_inv :: "'d::linordered_ab_group_add \<Rightarrow> 'd loop_state \<Rightarrow> bool" where
  "taker_inv q st \<longleftrightarrow>
     0 \<le> o_remaining (ls_incoming st) \<and>
     (o_remaining (ls_incoming st) = 0 \<longrightarrow> o_status (ls_incoming st) = Filled) \<and>
     (ls_trades st = [] \<longrightarrow> o_remaining (ls_incoming st) = q \<and> o_status (ls_incoming st) \<in> {New, Cancelled}) \<and>
     (ls_trades st \<noteq> [] \<and> 0 < o_remaining (ls_incoming st) \<longrightarrow>
        o_status (ls_incoming st) \<in> {PartiallyFilled, Cancelled})"

lemma engine_take_state:
  assumes "engine_verdict (ls_incoming st) r = Take" and "0 < o_remaining (ls_incoming st)"
  shows "ls_trades (fst (snd (match_body fresh clock st r))) \<noteq> []"
    "o_remaining (ls_incoming (fst (snd (match_body fresh clock st r)))) =
       o_remaining (ls_incoming st) - min (o_remaining (ls_incoming st)) (o_remaining r)"
    "o_status (ls_incoming (fst (snd (match_body fresh clock st r)))) =
       filled_status (o_remaining (ls_incoming st) - min (o_remaining (ls_incoming st)) (o_remaining r))"
  by (simp_all add: engine_take [OF assms] Let_def)

lemma engine_skip_state:
  assumes "engine_verdict (ls_incoming st) r = Skip" and "0 < o_remaining (ls_incoming st)"
  shows "ls_trades (fst (snd (match_body fresh clock st r))) = ls_trades st"
    "ls_incoming (fst (snd (match_body fresh clock st r))) = ls_incoming st"
  by (simp_all add: engine_skip [OF assms] Let_def)

lemma match_body_halt_status:
  assumes "engine_verdict (ls_incoming st) r \<in> {Stop, CancelStop}"
  shows "o_status (ls_incoming (fst (snd (match_body fresh clock st r)))) \<in>
    {o_status (ls_incoming st), Cancelled}"
  using assms by (cases rule: engine_halt_cases) (simp_all add: match_body_def Let_def)

lemma match_body_taker_inv:
  assumes "match_body fresh clock st r = (go, st', r')" and "taker_inv q st" and "0 \<le> o_remaining r"
  shows "taker_inv q st'"
proof (cases "o_remaining (ls_incoming st) = 0")
  case True
  with assms show ?thesis by (simp add: body_done)
next
  case False
  with assms(2) have pos: "0 < o_remaining (ls_incoming st)" by (auto simp: taker_inv_def less_le)
  consider "engine_verdict (ls_incoming st) r = Take" | "engine_verdict (ls_incoming st) r = Skip"
    | "engine_verdict (ls_incoming st) r \<in> {Stop, CancelStop}"
    by (cases "engine_verdict (ls_incoming st) r") auto
  then show ?thesis
  proof cases
    case 1
    let ?m = "min (o_remaining (ls_incoming st)) (o_remaining r)"
    have "ls_trades st' \<noteq> []" "o_remaining (ls_incoming st') = o_remaining (ls_incoming st) - ?m"
      "o_status (ls_incoming st') = filled_status (o_remaining (ls_incoming st) - ?m)"
      using engine_take_state [OF 1 pos, of fresh clock] by (simp_all add: assms(1))
    moreover have "0 \<le> o_remaining (ls_incoming st) - ?m" by simp
    ultimately show ?thesis by (simp add: taker_inv_def filled_status_def)
  next
    case 2
    have "ls_trades st' = ls_trades st" "ls_incoming st' = ls_incoming st"
      using engine_skip_state [OF 2 pos, of fresh clock] by (simp_all add: assms(1))
    with assms(2) show ?thesis by (simp add: taker_inv_def)
  next
    case 3
    have "ls_trades st' = ls_trades st"
      "o_remaining (ls_incoming st') = o_remaining (ls_incoming st)"
      "o_status (ls_incoming st') \<in> {o_status (ls_incoming st), Cancelled}"
      using match_body_halt [OF 3, of fresh clock] match_body_halt_status [OF 3, of fresh clock]
      by (simp_all add: assms(1))
    with assms(2) pos show ?thesis by (auto simp: taker_inv_def)
  qed
qed

lemma walk_taker_inv:
  assumes "walk_book fresh clock (init_loop incoming) book = (st, book')"
    and "0 < o_remaining incoming" and "o_status incoming = New" and "\<forall>r \<in> set book. 0 \<le> o_remaining r"
  shows "taker_inv (o_remaining incoming) st"
  using assms(1)
proof (rule walk_book_invariant)
  show "taker_inv (o_remaining incoming) (init_loop incoming)"
    using assms(2,3) by (auto simp: taker_inv_def init_loop_def)
qed (use assms(4) match_body_taker_inv in blast)



section \<open>Fill or kill\<close>

text \<open>The documented order of the book: best price for the incoming side first.\<close>

definition book_sorted :: "side \<Rightarrow> 'd::linorder order list \<Rightarrow> bool" where
  "book_sorted sd book =
     sorted_wrt (\<lambda>a b. case (sd, o_price a, o_price b) of
                   (Buy, Some x, Some y) \<Rightarrow> x \<le> y | (Sell, Some x, Some y) \<Rightarrow> y \<le> x | _ \<Rightarrow> False) book"

lemma filter_price_matches:
  assumes "book_sorted (o_side incoming) book"
  shows "filter (price_matches incoming) book = takeWhile (price_matches incoming) book"
  using assms unfolding book_sorted_def
  by (rule takeWhile_eq_filter_sorted)
     (auto simp: price_matches_def split: side.splits option.splits if_splits)

lemma fok_available_sum: "fok_available incoming book = sum_list (map o_remaining (filter (price_matches incoming) book))"
proof -
  have "fold (\<lambda>x acc. acc + x) xs a = a + sum_list xs" for xs and a :: 'a
    by (induction xs arbitrary: a) (simp_all add: add.assoc)
  then show ?thesis by (simp add: fok_available_def)
qed

lemma eligible_takeWhile:
  "(\<And>r. r \<in> set book \<Longrightarrow> v r = (if P r then Take else Stop)) \<Longrightarrow> eligible v book = takeWhile P book"
  by (induction book) auto

lemma walk_fills_all:
  assumes "walk_book fresh clock (init_loop incoming) book = (st, book')"
    and "0 < o_remaining incoming" and "\<forall>r \<in> set book. 0 \<le> o_remaining r"
    and "book_sorted (o_side incoming) book"
    and "\<forall>r \<in> set book. o_user_id r = o_user_id incoming \<longrightarrow> o_stp_mode incoming = StpNone"
    and "o_remaining incoming \<le> fok_available incoming book"
  shows "o_remaining (ls_incoming st) = 0"
proof -
  have v: "engine_verdict incoming r = (if price_matches incoming r then Take else Stop)"
    if "r \<in> set book" for r
    using that assms(5) by (auto simp: engine_verdict_def)
  then have el: "eligible (engine_verdict incoming) book = filter (price_matches incoming) book"
    by (simp add: eligible_takeWhile filter_price_matches [OF assms(4)])
  let ?offers = "map (\<lambda>r. (o_id r, o_remaining r)) (filter (price_matches incoming) book)"
  have "o_remaining (ls_incoming st) + sum_list (map snd (fill_plan (o_remaining incoming) ?offers))
      = o_remaining incoming"
    using engine.run_rest [of book "init_loop incoming" fresh clock] assms(1-3) v el
    by (simp add: engine.offers_def init_loop_def)
  also have "sum_list (map snd (fill_plan (o_remaining incoming) ?offers)) =
      min (o_remaining incoming) (sum_list (map snd ?offers))"
    using assms(2,3) by (intro fill_plan_sum) auto
  also have "\<dots> = o_remaining incoming"
    using assms(6) by (simp add: fok_available_sum o_def min_absorb1)
  finally show ?thesis by simp
qed

text \<open>
  C26: fill-or-kill is all or nothing. On a book in the documented order, for a
  taker that self-trade prevention does not stop, \<open>match_order\<close> either fills the
  whole order (nothing remains, status Filled) or cancels it without a trade and
  leaves the book as it was.
\<close>

theorem match_order_fok_atomic:
  assumes "match_order fresh clock incoming book = (res, book')" and "o_tif incoming = FOK"
    and "0 < o_remaining incoming" and "o_status incoming = New"
    and "\<forall>r \<in> set book. 0 \<le> o_remaining r" and "book_sorted (o_side incoming) book"
    and "\<forall>r \<in> set book. o_user_id r = o_user_id incoming \<longrightarrow> o_stp_mode incoming = StpNone"
  shows "(o_remaining (mr_incoming res) = 0 \<and> o_status (mr_incoming res) = Filled \<and>
            traded (mr_trades res) = o_remaining incoming) \<or>
    (mr_trades res = [] \<and> o_status (mr_incoming res) = Cancelled \<and> book' = book)"
  using assms(1)
proof (cases rule: match_orderE)
  case (walk st)
  have "o_remaining incoming \<le> fok_available incoming book"
    using walk(1) assms(2) by (auto simp: fok_rejected_def)
  with walk_fills_all [OF walk(2) assms(3,5,6,7)] have z: "o_remaining (ls_incoming st) = 0" .
  with walk_taker_inv [OF walk(2) assms(3-5)] have "o_status (ls_incoming st) = Filled"
    by (simp add: taker_inv_def)
  moreover have "traded (ls_trades st) = o_remaining incoming"
    using walk_book_conserves_taker [OF walk(2)] z by (simp add: init_loop_def)
  ultimately show ?thesis using z by (simp add: walk apply_tif_def)
qed simp

theorem match_order_fok_atomic_witness:
  "mr_trades (fst (match_order id (\<lambda>_. 7) (make_order 1 Buy Limit FOK (Some 99) 4 ''u1'' StpNone)
     asks_99_100)) = []"
proof -
  let ?i = "make_order 1 Buy Limit FOK (Some 99) 4 ''u1'' StpNone"
  let ?m = "match_order id (\<lambda>_. 7) ?i asks_99_100"
  have "o_remaining (mr_incoming (fst ?m)) \<noteq> 0" by (simp add: engine_eval)
  moreover have "\<forall>r \<in> set asks_99_100. 0 \<le> o_remaining r" "0 < o_remaining ?i" "o_status ?i = New"
    "o_tif ?i = FOK" "book_sorted (o_side ?i) asks_99_100"
    "\<forall>r \<in> set asks_99_100. o_user_id r = o_user_id ?i \<longrightarrow> o_stp_mode ?i = StpNone"
    by (simp_all add: asks_99_100_def make_order_def book_sorted_def)
  ultimately show ?thesis
    using match_order_fok_atomic [of id "\<lambda>_. 7" ?i asks_99_100 "fst ?m" "snd ?m"] by simp
qed

text \<open>
  The condition on self-trade prevention is needed. The fill-or-kill check
  counts the taker's own resting orders, which the loop then cancels instead of
  filling: a fill-or-kill order with mode CancelMaker can trade a part of its
  quantity and end Cancelled.
\<close>

theorem fok_with_stp_can_fill_partially:
  "\<exists>(incoming :: int order) book.
     o_tif incoming = FOK \<and> book_sorted (o_side incoming) book \<and>
     mr_trades (fst (match_order id (\<lambda>_. 0) incoming book)) \<noteq> [] \<and>
     o_status (mr_incoming (fst (match_order id (\<lambda>_. 0) incoming book))) = Cancelled \<and>
     0 < o_remaining (mr_incoming (fst (match_order id (\<lambda>_. 0) incoming book)))"
proof -
  let ?i = "make_order 1 Buy Limit FOK (Some 100) 5 ''u3'' CancelMaker"
  have "o_tif ?i = FOK" "book_sorted (o_side ?i) asks_99_100"
    by (simp_all add: make_order_def asks_99_100_def book_sorted_def)
  moreover have "mr_trades (fst (match_order id (\<lambda>_. 0) ?i asks_99_100)) \<noteq> []"
    "o_status (mr_incoming (fst (match_order id (\<lambda>_. 0) ?i asks_99_100))) = Cancelled"
    "0 < o_remaining (mr_incoming (fst (match_order id (\<lambda>_. 0) ?i asks_99_100)))"
    by (simp_all add: engine_eval)
  ultimately show ?thesis by blast
qed

section \<open>The book after the call\<close>

text \<open>An order is unchanged unless the body fills or cancels it, and then it is reported.\<close>

definition maker_touched :: "'d::linordered_ab_group_add order \<Rightarrow> 'd order \<Rightarrow> bool" where
  "maker_touched incoming resting \<longleftrightarrow>
     o_remaining incoming \<noteq> 0 \<and> price_matches incoming resting \<and>
     (o_user_id incoming = o_user_id resting \<longrightarrow> o_stp_mode incoming \<noteq> CancelTaker)"

lemma match_body_untouched:
  assumes "\<not> maker_touched (ls_incoming st) r"
  shows "snd (snd (match_body fresh clock st r)) = r"
    "ls_book_updates (fst (snd (match_body fresh clock st r))) = ls_book_updates st"
proof -
  consider "o_remaining (ls_incoming st) = 0" | "\<not> price_matches (ls_incoming st) r"
    | "o_user_id (ls_incoming st) = o_user_id r" "o_stp_mode (ls_incoming st) = CancelTaker"
    using assms by (auto simp: maker_touched_def)
  then show "snd (snd (match_body fresh clock st r)) = r"
    "ls_book_updates (fst (snd (match_body fresh clock st r))) = ls_book_updates st"
    by (cases; simp add: match_body_def Let_def)+
qed

lemma match_body_touched:
  assumes "maker_touched (ls_incoming st) r"
  shows "ls_book_updates (fst (snd (match_body fresh clock st r))) =
    ls_book_updates st @ [snd (snd (match_body fresh clock st r))]"
proof -
  have c: "o_remaining (ls_incoming st) \<noteq> 0" "price_matches (ls_incoming st) r"
    "o_user_id (ls_incoming st) = o_user_id r \<Longrightarrow> o_stp_mode (ls_incoming st) \<noteq> CancelTaker"
    using assms by (auto simp: maker_touched_def)
  show ?thesis
  proof (cases "o_user_id (ls_incoming st) = o_user_id r")
    case True
    with c show ?thesis
      by (cases "o_stp_mode (ls_incoming st)") (simp_all add: match_body_def Let_def)
  next
    case False
    with c show ?thesis by (simp add: match_body_def Let_def)
  qed
qed

lemma match_body_book:
  assumes "match_body fresh clock st r = (go, st', r')"
  shows "set (ls_book_updates st) \<subseteq> set (ls_book_updates st') \<and>
    (r' = r \<or> r' \<in> set (ls_book_updates st'))"
proof (cases "maker_touched (ls_incoming st) r")
  case True
  from match_body_touched [OF this, of fresh clock]
  have "ls_book_updates st' = ls_book_updates st @ [r']" unfolding assms fst_conv snd_conv .
  then show ?thesis by auto
next
  case False
  from match_body_untouched [OF this, of fresh clock]
  have "r' = r" "ls_book_updates st' = ls_book_updates st" unfolding assms fst_conv snd_conv .
  then show ?thesis by simp
qed

lemma walk_book_updates:
  "walk_book fresh clock st rs = (st', rs') \<Longrightarrow>
     set (ls_book_updates st) \<subseteq> set (ls_book_updates st') \<and>
     list_all2 (\<lambda>r r'. order_core r' = order_core r \<and> (r' = r \<or> r' \<in> set (ls_book_updates st'))) rs rs'"
proof (induction rs arbitrary: st rs')
  case (Cons r rs)
  from Cons.prems show ?case
  proof (cases rule: walk_book_ConsE)
    case (halt r1)
    with match_body_book [OF halt(1)] match_body_coreD [OF halt(1)] show ?thesis
      by (auto simp: list_all2_same)
  next
    case (go st1 r1 rs1)
    with match_body_book [OF go(1)] match_body_coreD [OF go(1)] Cons.IH [OF go(2)] show ?thesis
      by auto
  qed
qed simp

text \<open>
  \<open>match_order\<close> updates the book slice in place and reports every change. The
  slice keeps its length, its order and the identity, owner, side, price and
  quantity of every resting order, and an entry that differs from before is one
  of the reported \<open>book_updates\<close>.
\<close>

theorem match_order_reports_changes:
  assumes "match_order fresh clock incoming book = (res, book')"
  shows "list_all2 (\<lambda>r r'. order_core r' = order_core r \<and> (r' = r \<or> r' \<in> set (mr_book_updates res))) book book'"
  using assms
proof (cases rule: match_orderE)
  case (walk st)
  with walk_book_updates [OF walk(2)] show ?thesis by simp
qed (simp add: list_all2_same)

theorem match_order_reports_changes_witness:
  "snd (match_order id (\<lambda>_. 0) (make_order 1 Buy Limit GTC (Some 100) 4 ''u1'' StpNone) asks_99_100)
     \<noteq> asks_99_100 \<and>
   length (snd (match_order id (\<lambda>_. 0) (make_order 1 Buy Limit GTC (Some 100) 4 ''u1'' StpNone) asks_99_100)) = 2"
proof -
  let ?m = "match_order id (\<lambda>_. 0) (make_order 1 Buy Limit GTC (Some 100) 4 ''u1'' StpNone) asks_99_100"
  have "?m = (fst ?m, snd ?m)" by simp
  from match_order_reports_changes [OF this] have "length (snd ?m) = length asks_99_100"
    by (simp add: list_all2_lengthD)
  moreover have "snd ?m \<noteq> asks_99_100" by (simp add: engine_eval)
  ultimately show ?thesis by (simp add: asks_99_100_def)
qed

end
