(* ===== verification/Codecs.thy ===== *)
theory Codecs
  imports Domain
begin

text \<open>
  The textual codes of the enums. \<open>cache.rs\<close> writes one and two letter codes into
  the order hashes and reads them back in \<open>parse_order_from_hmget\<close>; the gateway,
  the worker and the seeding code write the variant names into the database and
  the order messages and read them back. The interface \<open>codec\<close> states what a
  reader relies on, and is interpreted for every pair of writer and reader.
\<close>

section \<open>The codec interface\<close>

locale codec =
  fixes enc :: "'a \<Rightarrow> string"
    and dec :: "string \<Rightarrow> 'a option"
  assumes dec_enc: "dec (enc a) = Some a"
begin

lemma enc_inj: "enc a = enc b \<longleftrightarrow> a = b"
  by (metis dec_enc option.inject)

lemma dec_all: "map (\<lambda>s. dec s) (map enc xs) = map Some xs"
  by (simp add: dec_enc)

end

section \<open>Codes of the order hashes (\<open>cache.rs\<close>)\<close>

fun side_char :: "side \<Rightarrow> string" where
  "side_char Buy = ''B''"
| "side_char Sell = ''S''"

fun order_type_char :: "order_type \<Rightarrow> string" where
  "order_type_char Limit = ''L''"
| "order_type_char Market = ''M''"

fun tif_char :: "time_in_force \<Rightarrow> string" where
  "tif_char GTC = ''G''"
| "tif_char IOC = ''I''"
| "tif_char FOK = ''F''"

fun status_char :: "order_status \<Rightarrow> string" where
  "status_char New = ''N''"
| "status_char PartiallyFilled = ''PF''"
| "status_char Filled = ''F''"
| "status_char Cancelled = ''C''"
| "status_char Rejected = ''C''"

fun stp_char :: "stp_mode \<Rightarrow> string" where
  "stp_char StpNone = ''N''"
| "stp_char CancelMaker = ''CM''"
| "stp_char CancelTaker = ''CT''"
| "stp_char CancelBoth = ''CB''"

text \<open>The readers, from the \<open>match\<close> expressions of \<open>parse_order_from_hmget\<close>.\<close>

definition parse_side_char :: "string \<Rightarrow> side option" where
  "parse_side_char s = (if s = ''B'' then Some Buy else if s = ''S'' then Some Sell else None)"

definition parse_type_char :: "string \<Rightarrow> order_type option" where
  "parse_type_char s = (if s = ''L'' then Some Limit else if s = ''M'' then Some Market else None)"

definition parse_tif_char :: "string \<Rightarrow> time_in_force option" where
  "parse_tif_char s =
     (if s = ''G'' then Some GTC else if s = ''I'' then Some IOC else if s = ''F'' then Some FOK
      else None)"

definition parse_status_char :: "string \<Rightarrow> order_status" where
  "parse_status_char s =
     (if s = ''N'' then New else if s = ''PF'' then PartiallyFilled else if s = ''F'' then Filled
      else if s = ''C'' then Cancelled else New)"

definition parse_stp_char :: "string \<Rightarrow> stp_mode" where
  "parse_stp_char s =
     (if s = ''N'' then StpNone else if s = ''CM'' then CancelMaker
      else if s = ''CT'' then CancelTaker else if s = ''CB'' then CancelBoth else StpNone)"

interpretation side_code: codec side_char parse_side_char
  by unfold_locales (rename_tac a, case_tac a, simp_all add: parse_side_char_def)

interpretation type_code: codec order_type_char parse_type_char
  by unfold_locales (rename_tac a, case_tac a, simp_all add: parse_type_char_def)

interpretation tif_code: codec tif_char parse_tif_char
  by unfold_locales (rename_tac a, case_tac a, simp_all add: parse_tif_char_def)

interpretation stp_code: codec stp_char "\<lambda>s. Some (parse_stp_char s)"
  by unfold_locales (rename_tac a, case_tac a, simp_all add: parse_stp_char_def)

lemma parse_status_status_char:
  "parse_status_char (status_char st) = (if st = Rejected then Cancelled else st)"
  by (cases st) (simp_all add: parse_status_char_def)

lemma parse_stp_stp_char: "parse_stp_char (stp_char m) = m"
  using stp_code.dec_enc [of m] by simp

lemmas char_codec [codec_simps] =
  side_code.dec_enc type_code.dec_enc tif_code.dec_enc parse_stp_stp_char parse_status_status_char

section \<open>Names of the database columns and the order messages\<close>

fun side_str :: "side \<Rightarrow> string" where
  "side_str Buy = ''Buy''"
| "side_str Sell = ''Sell''"

fun order_type_str :: "order_type \<Rightarrow> string" where
  "order_type_str Limit = ''Limit''"
| "order_type_str Market = ''Market''"

fun tif_str :: "time_in_force \<Rightarrow> string" where
  "tif_str GTC = ''GTC''"
| "tif_str IOC = ''IOC''"
| "tif_str FOK = ''FOK''"

fun status_str :: "order_status \<Rightarrow> string" where
  "status_str New = ''New''"
| "status_str PartiallyFilled = ''PartiallyFilled''"
| "status_str Filled = ''Filled''"
| "status_str Cancelled = ''Cancelled''"
| "status_str Rejected = ''Rejected''"

fun stp_str :: "stp_mode \<Rightarrow> string" where
  "stp_str StpNone = ''None''"
| "stp_str CancelMaker = ''CancelMaker''"
| "stp_str CancelTaker = ''CancelTaker''"
| "stp_str CancelBoth = ''CancelBoth''"

text \<open>
  The readers of the order messages (\<open>process_order\<close>, \<open>process_queued_order\<close>):
  an unknown side or order type is refused, an unknown time in force is GTC, an
  unknown self-trade prevention mode is none.
\<close>

definition parse_side :: "string \<Rightarrow> side option" where
  "parse_side s = (if s = ''Buy'' then Some Buy else if s = ''Sell'' then Some Sell else None)"

definition parse_order_type :: "string \<Rightarrow> order_type option" where
  "parse_order_type s =
     (if s = ''Limit'' then Some Limit else if s = ''Market'' then Some Market else None)"

definition parse_tif_msg :: "string \<Rightarrow> time_in_force" where
  "parse_tif_msg s =
     (if s = ''GTC'' then GTC else if s = ''IOC'' then IOC else if s = ''FOK'' then FOK else GTC)"

definition parse_stp_msg :: "string \<Rightarrow> stp_mode" where
  "parse_stp_msg s =
     (if s = ''CancelMaker'' then CancelMaker else if s = ''CancelTaker'' then CancelTaker
      else if s = ''CancelBoth'' then CancelBoth else StpNone)"

text \<open>The reader of \<open>_row_to_order\<close> for the status column.\<close>

definition parse_status :: "string \<Rightarrow> order_status" where
  "parse_status s =
     (if s = ''PartiallyFilled'' then PartiallyFilled else if s = ''Filled'' then Filled
      else if s = ''Cancelled'' then Cancelled else if s = ''Rejected'' then Rejected else New)"

interpretation side_name: codec side_str parse_side
  by unfold_locales (rename_tac a, case_tac a, simp_all add: parse_side_def)

interpretation type_name: codec order_type_str parse_order_type
  by unfold_locales (rename_tac a, case_tac a, simp_all add: parse_order_type_def)

interpretation tif_name: codec tif_str "\<lambda>s. Some (parse_tif_msg s)"
  by unfold_locales (rename_tac a, case_tac a, simp_all add: parse_tif_msg_def)

interpretation stp_name: codec stp_str "\<lambda>s. Some (parse_stp_msg s)"
  by unfold_locales (rename_tac a, case_tac a, simp_all add: parse_stp_msg_def)

interpretation status_name: codec status_str "\<lambda>s. Some (parse_status s)"
  by unfold_locales (rename_tac a, case_tac a, simp_all add: parse_status_def)

lemma name_codec [codec_simps]:
  "parse_side (side_str sd) = Some sd"
  "parse_order_type (order_type_str ot) = Some ot"
  "parse_tif_msg (tif_str tif) = tif"
  "parse_stp_msg (stp_str stp) = stp"
  "parse_status (status_str st) = st"
  using side_name.dec_enc type_name.dec_enc tif_name.dec_enc stp_name.dec_enc status_name.dec_enc
  by simp_all

end
