(* ===== verification/Effects.thy ===== *)
theory Effects
  imports Prelude
begin

text \<open>
  Stateful fallible computations, the shape of every \<open>async fn ... -> Result\<close> of
  the program: from a state to a result and a new state. \<open>vbind\<close> is sequencing
  with the operator \<open>?\<close>, \<open>vtry\<close> inspects the result without leaving, \<open>vpipe\<close> is a
  pipeline (every command runs, the first error is reported), \<open>vmapM\<close> and
  \<open>vforM\<close> are loops that leave at the first error.

  \<open>simulates \<alpha> m m'\<close> says that \<open>m'\<close> does on the abstract states what \<open>m\<close> does on
  the concrete ones. The rules of the collection \<open>sim_rules\<close> push it through the
  combinators, so that one law per primitive gives the simulation of a program.
\<close>

named_theorems sim_rules \<open>simulation of composed computations\<close>
named_theorems run_simps \<open>execution of the primitives\<close>

type_synonym ('s, 'a) vm = "'s \<Rightarrow> 'a result \<times> 's"

section \<open>Combinators\<close>

definition vret :: "'a \<Rightarrow> ('s, 'a) vm" where
  "vret a s = (Inr a, s)"

definition vfail :: "error \<Rightarrow> ('s, 'a) vm" where
  "vfail e s = (Inl e, s)"

definition vlift :: "'a result \<Rightarrow> ('s, 'a) vm" where
  "vlift r s = (r, s)"

definition vbind :: "('s, 'a) vm \<Rightarrow> ('a \<Rightarrow> ('s, 'b) vm) \<Rightarrow> ('s, 'b) vm" where
  "vbind m f s = (case m s of (Inl e, s') \<Rightarrow> (Inl e, s') | (Inr a, s') \<Rightarrow> f a s')"

definition vtry :: "('s, 'a) vm \<Rightarrow> ('s, 'a result) vm" where
  "vtry m s = (case m s of (r, s') \<Rightarrow> (Inr r, s'))"

text \<open>\<open>unwrap_or\<close> on the result of a call.\<close>

definition vor :: "('s, 'a) vm \<Rightarrow> 'a \<Rightarrow> ('s, 'a) vm" where
  "vor m d s = (case m s of (Inl e, s') \<Rightarrow> (Inr d, s') | (Inr a, s') \<Rightarrow> (Inr a, s'))"

text \<open>A change of the error value (\<open>map_err\<close>, \<open>context\<close>).\<close>

definition vmap_err :: "(error \<Rightarrow> error) \<Rightarrow> ('s, 'a) vm \<Rightarrow> ('s, 'a) vm" where
  "vmap_err g m s = (case m s of (Inl e, s') \<Rightarrow> (Inl (g e), s') | (Inr a, s') \<Rightarrow> (Inr a, s'))"

fun vpipe :: "('s, unit) vm list \<Rightarrow> ('s, unit) vm" where
  "vpipe [] s = (Inr (), s)"
| "vpipe (m # ms) s =
     (case m s of (r, s1) \<Rightarrow>
       (case vpipe ms s1 of (r', s2) \<Rightarrow> (case r of Inl e \<Rightarrow> Inl e | Inr _ \<Rightarrow> r', s2)))"

fun vmapM :: "('x \<Rightarrow> ('s, 'a) vm) \<Rightarrow> 'x list \<Rightarrow> ('s, 'a list) vm" where
  "vmapM f [] = vret []"
| "vmapM f (x # xs) = vbind (f x) (\<lambda>y. vbind (vmapM f xs) (\<lambda>ys. vret (y # ys)))"

fun vforM :: "('x \<Rightarrow> ('s, unit) vm) \<Rightarrow> 'x list \<Rightarrow> ('s, unit) vm" where
  "vforM f [] = vret ()"
| "vforM f (x # xs) = vbind (f x) (\<lambda>_. vforM f xs)"

fun vfoldM :: "('x \<Rightarrow> 'a \<Rightarrow> ('s, 'a) vm) \<Rightarrow> 'x list \<Rightarrow> 'a \<Rightarrow> ('s, 'a) vm" where
  "vfoldM f [] a = vret a"
| "vfoldM f (x # xs) a = vbind (f x a) (vfoldM f xs)"

lemma vm_run [run_simps]:
  "vret a s = (Inr a, s)" "vfail e s = (Inl e, s)" "vlift r s = (r, s)"
  by (simp_all add: vret_def vfail_def vlift_def)

lemma vbind_run [run_simps]:
  "m s = (Inr a, s') \<Longrightarrow> vbind m f s = f a s'"
  "m s = (Inl e, s') \<Longrightarrow> vbind m f s = (Inl e, s')"
  by (simp_all add: vbind_def)

lemma vbind_Inr:
  "vbind m f s = (Inr b, s'') \<longleftrightarrow> (\<exists>a s'. m s = (Inr a, s') \<and> f a s' = (Inr b, s''))"
  by (auto simp: vbind_def split: prod.splits sum.splits)

lemma vbind_Inl:
  "vbind m f s = (Inl e, s'') \<longleftrightarrow>
     m s = (Inl e, s'') \<or> (\<exists>a s'. m s = (Inr a, s') \<and> f a s' = (Inl e, s''))"
  by (auto simp: vbind_def split: prod.splits sum.splits)

lemma vbind_InrE:
  assumes "vbind m f s = (Inr b, s'')"
  obtains a s' where "m s = (Inr a, s')" "f a s' = (Inr b, s'')"
  using assms by (auto simp: vbind_Inr)

lemma vmap_err_Inr: "vmap_err g m s = (Inr a, s') \<longleftrightarrow> m s = (Inr a, s')"
  by (auto simp: vmap_err_def split: prod.splits sum.splits)

lemma vbind_assoc: "vbind (vbind m f) g = vbind m (\<lambda>a. vbind (f a) g)"
  by (rule ext) (simp add: vbind_def split: prod.splits sum.splits)

lemma vbind_vret [simp]: "vbind (vret a) f = f a" "vbind m vret = m"
  by (rule ext, simp add: vbind_def vret_def split: prod.splits sum.splits)+

lemma vmapM_pure:
  "(\<And>x. x \<in> set xs \<Longrightarrow> f x s = (Inr (g x), s)) \<Longrightarrow> vmapM f xs s = (Inr (map g xs), s)"
  by (induction xs) (simp_all add: run_simps)

text \<open>A property of the state that every step of a loop keeps.\<close>

lemma vforM_invariant:
  assumes "vforM f xs s = (r, s')" and "P s"
    and "\<And>x s r s'. x \<in> set xs \<Longrightarrow> P s \<Longrightarrow> f x s = (r, s') \<Longrightarrow> P s'"
  shows "P s'"
  using assms
proof (induction xs arbitrary: s)
  case (Cons x xs)
  obtain r1 s1 where f: "f x s = (r1, s1)" by (cases "f x s") auto
  with Cons.prems have P1: "P s1" by auto
  show ?case
  proof (cases r1)
    case (Inl e)
    with f Cons.prems(1) P1 show ?thesis by (simp add: run_simps)
  next
    case (Inr u)
    with f Cons.prems(1) have "vforM f xs s1 = (r, s')" by (simp add: run_simps)
    with Cons.IH [OF _ P1] Cons.prems(3) show ?thesis by auto
  qed
qed (simp add: run_simps)

section \<open>Simulation\<close>

definition simulates :: "('s \<Rightarrow> 't) \<Rightarrow> ('s, 'a) vm \<Rightarrow> ('t, 'a) vm \<Rightarrow> bool" where
  "simulates \<alpha> m m' \<longleftrightarrow> (\<forall>s. m' (\<alpha> s) = map_prod id \<alpha> (m s))"

lemma simulatesD: "simulates \<alpha> m m' \<Longrightarrow> m s = (r, s') \<Longrightarrow> m' (\<alpha> s) = (r, \<alpha> s')"
  by (simp add: simulates_def)

lemma simulates_run:
  assumes "simulates \<alpha> m m'" and "m' (\<alpha> s) = (r, d)"
  obtains s' where "m s = (r, s')" "\<alpha> s' = d"
  using assms by (cases "m s") (auto simp: simulates_def)

lemma simulates_id [sim_rules]: "simulates id m m"
  by (simp add: simulates_def prod.map_id0)

lemma simulates_vret [sim_rules]: "simulates \<alpha> (vret a) (vret a)"
  and simulates_vfail [sim_rules]: "simulates \<alpha> (vfail e) (vfail e)"
  and simulates_vlift [sim_rules]: "simulates \<alpha> (vlift r) (vlift r)"
  by (simp_all add: simulates_def vret_def vfail_def vlift_def)

lemma simulates_vbind [sim_rules]:
  assumes "simulates \<alpha> m m'" and "\<And>a. simulates \<alpha> (f a) (f' a)"
  shows "simulates \<alpha> (vbind m f) (vbind m' f')"
  using assms by (auto simp: simulates_def vbind_def split: prod.splits sum.splits)

lemma simulates_vtry [sim_rules]: "simulates \<alpha> m m' \<Longrightarrow> simulates \<alpha> (vtry m) (vtry m')"
  and simulates_vor [sim_rules]: "simulates \<alpha> m m' \<Longrightarrow> simulates \<alpha> (vor m d) (vor m' d)"
  and simulates_vmap_err [sim_rules]: "simulates \<alpha> m m' \<Longrightarrow> simulates \<alpha> (vmap_err g m) (vmap_err g m')"
  by (auto simp: simulates_def vtry_def vor_def vmap_err_def split: prod.splits sum.splits)

lemma simulates_vpipe: "list_all2 (simulates \<alpha>) ms ms' \<Longrightarrow> simulates \<alpha> (vpipe ms) (vpipe ms')"
proof (induction rule: list_all2_induct)
  case (Cons m ms m' ms')
  then show ?case
    by (auto simp: simulates_def split: prod.splits sum.splits)
qed (simp add: simulates_def)

lemma simulates_vpipe_map [sim_rules]:
  "(\<And>x. simulates \<alpha> (f x) (f' x)) \<Longrightarrow> simulates \<alpha> (vpipe (map f xs)) (vpipe (map f' xs))"
  by (intro simulates_vpipe) (simp add: list_all2_conv_all_nth)

lemma simulates_vpipe_2 [sim_rules]:
  "simulates \<alpha> a a' \<Longrightarrow> simulates \<alpha> b b' \<Longrightarrow> simulates \<alpha> (vpipe [a, b]) (vpipe [a', b'])"
  by (intro simulates_vpipe) simp

lemma simulates_vmapM [sim_rules]:
  "(\<And>x. simulates \<alpha> (f x) (f' x)) \<Longrightarrow> simulates \<alpha> (vmapM f xs) (vmapM f' xs)"
  by (induction xs) (auto intro!: sim_rules)

lemma simulates_vforM [sim_rules]:
  "(\<And>x. simulates \<alpha> (f x) (f' x)) \<Longrightarrow> simulates \<alpha> (vforM f xs) (vforM f' xs)"
  by (induction xs) (auto intro!: sim_rules)

lemma simulates_vfoldM [sim_rules]:
  "(\<And>x a. simulates \<alpha> (f x a) (f' x a)) \<Longrightarrow> simulates \<alpha> (vfoldM f xs a) (vfoldM f' xs a)"
  by (induction xs arbitrary: a) (auto intro!: sim_rules)

lemma simulates_if [sim_rules]:
  "simulates \<alpha> a a' \<Longrightarrow> simulates \<alpha> b b' \<Longrightarrow> simulates \<alpha> (if c then a else b) (if c then a' else b')"
  by simp

lemma simulates_option [sim_rules]:
  "simulates \<alpha> a a' \<Longrightarrow> (\<And>x. simulates \<alpha> (f x) (f' x)) \<Longrightarrow>
     simulates \<alpha> (case c of None \<Rightarrow> a | Some x \<Rightarrow> f x) (case c of None \<Rightarrow> a' | Some x \<Rightarrow> f' x)"
  by (cases c) auto

lemma simulates_sum [sim_rules]:
  "(\<And>x. simulates \<alpha> (f x) (f' x)) \<Longrightarrow> (\<And>y. simulates \<alpha> (g y) (g' y)) \<Longrightarrow>
     simulates \<alpha> (case c of Inl x \<Rightarrow> f x | Inr y \<Rightarrow> g y) (case c of Inl x \<Rightarrow> f' x | Inr y \<Rightarrow> g' y)"
  by (cases c) auto

lemma simulates_prod [sim_rules]:
  "(\<And>x y. simulates \<alpha> (f x y) (f' x y)) \<Longrightarrow>
     simulates \<alpha> (case c of (x, y) \<Rightarrow> f x y) (case c of (x, y) \<Rightarrow> f' x y)"
  by (cases c) auto

end
