(* ===== verification/Valkey.thy ===== *)
theory Valkey
  imports Effects "HOL-Library.Char_ord" "HOL-Library.List_Lexorder" "HOL-Library.Product_Lexorder"
begin

text \<open>
  The cache service. Valkey is not part of the repository: it is the parameter
  \<open>V\<close>, a record with one operation per command the program sends, on a state type
  that the program does not look into. What the program relies on is the locale
  \<open>valkey_spec\<close>: seen through an abstraction \<open>\<alpha>\<close>, each command behaves as its
  documentation says on \<open>vdata\<close>, a key space of strings, hashes, sorted sets,
  sets and lists. The record \<open>ref_valkey\<close> has these documented operations as its
  fields and interprets the locale.

  Scores of sorted sets are doubles. Every score of the program is a scaled
  price converted to \<open>f64\<close>, an integral double, which is represented by the
  integer it denotes; equal scores are ordered by the bytes of the member.
  The field \<open>vd_pool\<close> lists the outcomes of the next \<open>pool.get\<close> calls (the list is
  used up from the left, after its end connections are available).
\<close>

section \<open>Documented behaviour of the commands\<close>

datatype vvalue =
    VStr string
  | VHash "string \<rightharpoonup> string"
  | VZset "(int \<times> string) list"
  | VSet "string list"
  | VList "string list"

record vdata =
  vd_keys :: "string \<rightharpoonup> vvalue"
  vd_ttl :: "string \<rightharpoonup> int"
  vd_published :: "(string \<times> string) list"
  vd_pool :: "bool list"

definition empty_vdata :: vdata where
  "empty_vdata = \<lparr>vd_keys = Map.empty, vd_ttl = Map.empty, vd_published = [], vd_pool = []\<rparr>"

abbreviation wrong_type :: error where
  "wrong_type \<equiv> CommandError ''WRONGTYPE''"

fun as_str :: "vvalue option \<Rightarrow> string option result" where
  "as_str None = Inr None"
| "as_str (Some (VStr s)) = Inr (Some s)"
| "as_str _ = Inl wrong_type"

fun as_hash :: "vvalue option \<Rightarrow> (string \<rightharpoonup> string) result" where
  "as_hash None = Inr Map.empty"
| "as_hash (Some (VHash h)) = Inr h"
| "as_hash _ = Inl wrong_type"

fun as_zset :: "vvalue option \<Rightarrow> (int \<times> string) list result" where
  "as_zset None = Inr []"
| "as_zset (Some (VZset z)) = Inr z"
| "as_zset _ = Inl wrong_type"

fun as_set :: "vvalue option \<Rightarrow> string list result" where
  "as_set None = Inr []"
| "as_set (Some (VSet z)) = Inr z"
| "as_set _ = Inl wrong_type"

fun as_list :: "vvalue option \<Rightarrow> string list result" where
  "as_list None = Inr []"
| "as_list (Some (VList z)) = Inr z"
| "as_list _ = Inl wrong_type"

definition put_key :: "string \<Rightarrow> vvalue option \<Rightarrow> vdata \<Rightarrow> vdata" where
  "put_key k v d =
     d\<lparr>vd_keys := (vd_keys d)(k := v),
       vd_ttl := (if v = None then (vd_ttl d)(k := None) else vd_ttl d)\<rparr>"

text \<open>A container that becomes empty is removed with its key.\<close>

definition zset_value :: "(int \<times> string) list \<Rightarrow> vvalue option" where
  "zset_value z = (if z = [] then None else Some (VZset z))"

definition set_value :: "string list \<Rightarrow> vvalue option" where
  "set_value z = (if z = [] then None else Some (VSet z))"

definition list_value :: "string list \<Rightarrow> vvalue option" where
  "list_value z = (if z = [] then None else Some (VList z))"

definition read_key :: "(vvalue option \<Rightarrow> 'x result) \<Rightarrow> ('x \<Rightarrow> 'a) \<Rightarrow> string \<Rightarrow> (vdata, 'a) vm" where
  "read_key view g k d = (case view (vd_keys d k) of Inl e \<Rightarrow> (Inl e, d) | Inr x \<Rightarrow> (Inr (g x), d))"

definition edit_key ::
  "(vvalue option \<Rightarrow> 'x result) \<Rightarrow> ('x \<Rightarrow> ('a \<times> vvalue option) result) \<Rightarrow> string \<Rightarrow> (vdata, 'a) vm" where
  "edit_key view f k d =
     (case view (vd_keys d k) of Inl e \<Rightarrow> (Inl e, d)
      | Inr x \<Rightarrow> (case f x of Inl e \<Rightarrow> (Inl e, d) | Inr (a, v) \<Rightarrow> (Inr a, put_key k v d)))"

fun d_conn :: "(vdata, unit) vm" where
  "d_conn d =
     (case vd_pool d of [] \<Rightarrow> (Inr (), d)
      | b # bs \<Rightarrow> (if b then Inr () else Inl PoolError, d\<lparr>vd_pool := bs\<rparr>))"

subsection \<open>Strings\<close>

definition d_get :: "string \<Rightarrow> (vdata, string option) vm" where
  "d_get = read_key as_str id"

definition d_set :: "string \<Rightarrow> string \<Rightarrow> (vdata, unit) vm" where
  "d_set k v d = (Inr (), d\<lparr>vd_keys := (vd_keys d)(k \<mapsto> VStr v), vd_ttl := (vd_ttl d)(k := None)\<rparr>)"

text \<open>\<open>SET k v NX PX ms\<close>: whether the value was set.\<close>

definition d_set_nx_px :: "string \<Rightarrow> string \<Rightarrow> int \<Rightarrow> (vdata, bool) vm" where
  "d_set_nx_px k v ms d =
     (if vd_keys d k = None then
        (Inr True, d\<lparr>vd_keys := (vd_keys d)(k \<mapsto> VStr v), vd_ttl := (vd_ttl d)(k \<mapsto> ms)\<rparr>)
      else (Inr False, d))"

definition d_del :: "string \<Rightarrow> (vdata, unit) vm" where
  "d_del k d = (Inr (), put_key k None d)"

definition d_exists :: "string \<Rightarrow> (vdata, bool) vm" where
  "d_exists k d = (Inr (vd_keys d k \<noteq> None), d)"

definition d_expire :: "string \<Rightarrow> int \<Rightarrow> (vdata, unit) vm" where
  "d_expire k secs d =
     (Inr (), if vd_keys d k = None then d else d\<lparr>vd_ttl := (vd_ttl d)(k \<mapsto> secs * 1000)\<rparr>)"

definition add_to :: "string option \<Rightarrow> int \<Rightarrow> int result" where
  "add_to old by =
     (case parse_i64 (option_or old ''0'') of
        None \<Rightarrow> Inl (CommandError ''value is not an integer'')
      | Some n \<Rightarrow> if i64_ok (n + by) then Inr (n + by) else Inl (CommandError ''overflow''))"

definition d_incrby :: "string \<Rightarrow> int \<Rightarrow> (vdata, int) vm" where
  "d_incrby k by =
     edit_key as_str (\<lambda>x. result_bind (add_to x by) (\<lambda>n. Inr (n, Some (VStr (string_of_int n))))) k"

definition d_publish :: "string \<Rightarrow> string \<Rightarrow> (vdata, unit) vm" where
  "d_publish ch msg d = (Inr (), d\<lparr>vd_published := vd_published d @ [(ch, msg)]\<rparr>)"

subsection \<open>Hashes\<close>

definition d_hget :: "string \<Rightarrow> string \<Rightarrow> (vdata, string option) vm" where
  "d_hget k f = read_key as_hash (\<lambda>h. h f) k"

definition d_hmget :: "string \<Rightarrow> string list \<Rightarrow> (vdata, string option list) vm" where
  "d_hmget k fs = read_key as_hash (\<lambda>h. map h fs) k"

fun hset_all :: "(string \<rightharpoonup> string) \<Rightarrow> (string \<times> string) list \<Rightarrow> (string \<rightharpoonup> string)" where
  "hset_all h [] = h"
| "hset_all h ((f, v) # fvs) = hset_all (h(f \<mapsto> v)) fvs"

definition d_hset :: "string \<Rightarrow> (string \<times> string) list \<Rightarrow> (vdata, unit) vm" where
  "d_hset k fvs = edit_key as_hash (\<lambda>h. Inr ((), Some (VHash (hset_all h fvs)))) k"

definition d_hincrby :: "string \<Rightarrow> string \<Rightarrow> int \<Rightarrow> (vdata, int) vm" where
  "d_hincrby k f by =
     edit_key as_hash (\<lambda>h. result_bind (add_to (h f) by)
        (\<lambda>n. Inr (n, Some (VHash (h(f \<mapsto> string_of_int n)))))) k"

subsection \<open>Sorted sets\<close>

definition zset_remove :: "string \<Rightarrow> (int \<times> string) list \<Rightarrow> (int \<times> string) list" where
  "zset_remove m z = filter (\<lambda>e. snd e \<noteq> m) z"

definition zset_add :: "int \<Rightarrow> string \<Rightarrow> (int \<times> string) list \<Rightarrow> (int \<times> string) list" where
  "zset_add sc m z = insort (sc, m) (zset_remove m z)"

definition d_zadd :: "string \<Rightarrow> int \<Rightarrow> string \<Rightarrow> (vdata, unit) vm" where
  "d_zadd k sc m = edit_key as_zset (\<lambda>z. Inr ((), zset_value (zset_add sc m z))) k"

definition d_zrem :: "string \<Rightarrow> string \<Rightarrow> (vdata, unit) vm" where
  "d_zrem k m = edit_key as_zset (\<lambda>z. Inr ((), zset_value (zset_remove m z))) k"

text \<open>The clause \<open>LIMIT offset count\<close>: a negative count means all.\<close>

definition zlimit :: "(int \<times> int) option \<Rightarrow> 'a list \<Rightarrow> 'a list" where
  "zlimit lmt xs =
     (case lmt of None \<Rightarrow> xs
      | Some (off, cnt) \<Rightarrow>
          if off < 0 then []
          else let ys = drop (nat off) xs in if cnt < 0 then ys else take (nat cnt) ys)"

text \<open>\<open>ZRANGEBYSCORE k -inf max\<close>, \<open>None\<close> for \<open>+inf\<close>.\<close>

definition zrange_upto :: "int option \<Rightarrow> (int \<times> int) option \<Rightarrow> (int \<times> string) list \<Rightarrow> string list" where
  "zrange_upto hi lmt z =
     zlimit lmt (map snd (filter (\<lambda>e. case hi of None \<Rightarrow> True | Some b \<Rightarrow> fst e \<le> b) z))"

definition d_zrangebyscore :: "string \<Rightarrow> int option \<Rightarrow> (int \<times> int) option \<Rightarrow> (vdata, string list) vm" where
  "d_zrangebyscore k hi lmt = read_key as_zset (zrange_upto hi lmt) k"

subsection \<open>Sets and lists\<close>

definition d_sadd :: "string \<Rightarrow> string \<Rightarrow> (vdata, unit) vm" where
  "d_sadd k m = edit_key as_set (\<lambda>z. Inr ((), Some (VSet (if m \<in> set z then z else z @ [m])))) k"

definition d_srem :: "string \<Rightarrow> string \<Rightarrow> (vdata, unit) vm" where
  "d_srem k m = edit_key as_set (\<lambda>z. Inr ((), set_value (filter (\<lambda>x. x \<noteq> m) z))) k"

definition d_smembers :: "string \<Rightarrow> (vdata, string list) vm" where
  "d_smembers = read_key as_set id"

definition d_lpush :: "string \<Rightarrow> string \<Rightarrow> (vdata, unit) vm" where
  "d_lpush k v = edit_key as_list (\<lambda>z. Inr ((), Some (VList (v # z)))) k"

definition d_rpop :: "string \<Rightarrow> (vdata, string option) vm" where
  "d_rpop = edit_key as_list
     (\<lambda>z. Inr (if z = [] then (None, None) else (Some (last z), list_value (butlast z))))"

text \<open>List ranges: a negative index counts from the end.\<close>

definition list_range :: "int \<Rightarrow> int \<Rightarrow> 'a list \<Rightarrow> 'a list" where
  "list_range a b xs =
     (let n = int (length xs); i = max 0 (if a < 0 then n + a else a); j = (if b < 0 then n + b else b)
      in if j < i then [] else take (nat (j - i + 1)) (drop (nat i) xs))"

definition d_lrange :: "string \<Rightarrow> int \<Rightarrow> int \<Rightarrow> (vdata, string list) vm" where
  "d_lrange k a b = read_key as_list (list_range a b) k"

definition d_ltrim :: "string \<Rightarrow> int \<Rightarrow> int \<Rightarrow> (vdata, unit) vm" where
  "d_ltrim k a b = edit_key as_list (\<lambda>z. Inr ((), list_value (list_range a b z))) k"

section \<open>The parameter and its laws\<close>

record 's valkey =
  vk_conn :: "('s, unit) vm"
  vk_get :: "string \<Rightarrow> ('s, string option) vm"
  vk_set :: "string \<Rightarrow> string \<Rightarrow> ('s, unit) vm"
  vk_set_nx_px :: "string \<Rightarrow> string \<Rightarrow> int \<Rightarrow> ('s, bool) vm"
  vk_del :: "string \<Rightarrow> ('s, unit) vm"
  vk_exists :: "string \<Rightarrow> ('s, bool) vm"
  vk_expire :: "string \<Rightarrow> int \<Rightarrow> ('s, unit) vm"
  vk_incrby :: "string \<Rightarrow> int \<Rightarrow> ('s, int) vm"
  vk_publish :: "string \<Rightarrow> string \<Rightarrow> ('s, unit) vm"
  vk_hget :: "string \<Rightarrow> string \<Rightarrow> ('s, string option) vm"
  vk_hmget :: "string \<Rightarrow> string list \<Rightarrow> ('s, string option list) vm"
  vk_hset :: "string \<Rightarrow> (string \<times> string) list \<Rightarrow> ('s, unit) vm"
  vk_hincrby :: "string \<Rightarrow> string \<Rightarrow> int \<Rightarrow> ('s, int) vm"
  vk_zadd :: "string \<Rightarrow> int \<Rightarrow> string \<Rightarrow> ('s, unit) vm"
  vk_zrem :: "string \<Rightarrow> string \<Rightarrow> ('s, unit) vm"
  vk_zrangebyscore :: "string \<Rightarrow> int option \<Rightarrow> (int \<times> int) option \<Rightarrow> ('s, string list) vm"
  vk_sadd :: "string \<Rightarrow> string \<Rightarrow> ('s, unit) vm"
  vk_srem :: "string \<Rightarrow> string \<Rightarrow> ('s, unit) vm"
  vk_smembers :: "string \<Rightarrow> ('s, string list) vm"
  vk_lpush :: "string \<Rightarrow> string \<Rightarrow> ('s, unit) vm"
  vk_rpop :: "string \<Rightarrow> ('s, string option) vm"
  vk_lrange :: "string \<Rightarrow> int \<Rightarrow> int \<Rightarrow> ('s, string list) vm"
  vk_ltrim :: "string \<Rightarrow> int \<Rightarrow> int \<Rightarrow> ('s, unit) vm"

definition ref_valkey :: "vdata valkey" where
  "ref_valkey =
     \<lparr>vk_conn = d_conn, vk_get = d_get, vk_set = d_set, vk_set_nx_px = d_set_nx_px, vk_del = d_del,
      vk_exists = d_exists, vk_expire = d_expire, vk_incrby = d_incrby, vk_publish = d_publish,
      vk_hget = d_hget, vk_hmget = d_hmget, vk_hset = d_hset, vk_hincrby = d_hincrby,
      vk_zadd = d_zadd, vk_zrem = d_zrem, vk_zrangebyscore = d_zrangebyscore,
      vk_sadd = d_sadd, vk_srem = d_srem, vk_smembers = d_smembers,
      vk_lpush = d_lpush, vk_rpop = d_rpop, vk_lrange = d_lrange, vk_ltrim = d_ltrim\<rparr>"

lemma ref_valkey_ops [simp]:
  "vk_conn ref_valkey = d_conn" "vk_get ref_valkey = d_get" "vk_set ref_valkey = d_set"
  "vk_set_nx_px ref_valkey = d_set_nx_px" "vk_del ref_valkey = d_del"
  "vk_exists ref_valkey = d_exists" "vk_expire ref_valkey = d_expire"
  "vk_incrby ref_valkey = d_incrby" "vk_publish ref_valkey = d_publish"
  "vk_hget ref_valkey = d_hget" "vk_hmget ref_valkey = d_hmget" "vk_hset ref_valkey = d_hset"
  "vk_hincrby ref_valkey = d_hincrby" "vk_zadd ref_valkey = d_zadd" "vk_zrem ref_valkey = d_zrem"
  "vk_zrangebyscore ref_valkey = d_zrangebyscore"
  "vk_sadd ref_valkey = d_sadd" "vk_srem ref_valkey = d_srem" "vk_smembers ref_valkey = d_smembers"
  "vk_lpush ref_valkey = d_lpush" "vk_rpop ref_valkey = d_rpop"
  "vk_lrange ref_valkey = d_lrange" "vk_ltrim ref_valkey = d_ltrim"
  by (simp_all add: ref_valkey_def)

locale valkey_spec =
  fixes V :: "'s valkey" and \<alpha> :: "'s \<Rightarrow> vdata"
  assumes sim_conn [sim_rules]: "simulates \<alpha> (vk_conn V) d_conn"
    and sim_get [sim_rules]: "simulates \<alpha> (vk_get V k) (d_get k)"
    and sim_set [sim_rules]: "simulates \<alpha> (vk_set V k v) (d_set k v)"
    and sim_set_nx_px [sim_rules]: "simulates \<alpha> (vk_set_nx_px V k v ms) (d_set_nx_px k v ms)"
    and sim_del [sim_rules]: "simulates \<alpha> (vk_del V k) (d_del k)"
    and sim_exists [sim_rules]: "simulates \<alpha> (vk_exists V k) (d_exists k)"
    and sim_expire [sim_rules]: "simulates \<alpha> (vk_expire V k secs) (d_expire k secs)"
    and sim_incrby [sim_rules]: "simulates \<alpha> (vk_incrby V k by) (d_incrby k by)"
    and sim_publish [sim_rules]: "simulates \<alpha> (vk_publish V k v) (d_publish k v)"
    and sim_hget [sim_rules]: "simulates \<alpha> (vk_hget V k f) (d_hget k f)"
    and sim_hmget [sim_rules]: "simulates \<alpha> (vk_hmget V k fs) (d_hmget k fs)"
    and sim_hset [sim_rules]: "simulates \<alpha> (vk_hset V k fvs) (d_hset k fvs)"
    and sim_hincrby [sim_rules]: "simulates \<alpha> (vk_hincrby V k f by) (d_hincrby k f by)"
    and sim_zadd [sim_rules]: "simulates \<alpha> (vk_zadd V k sc m) (d_zadd k sc m)"
    and sim_zrem [sim_rules]: "simulates \<alpha> (vk_zrem V k m) (d_zrem k m)"
    and sim_zrangebyscore [sim_rules]:
      "simulates \<alpha> (vk_zrangebyscore V k hi lmt) (d_zrangebyscore k hi lmt)"
    and sim_sadd [sim_rules]: "simulates \<alpha> (vk_sadd V k m) (d_sadd k m)"
    and sim_srem [sim_rules]: "simulates \<alpha> (vk_srem V k m) (d_srem k m)"
    and sim_smembers [sim_rules]: "simulates \<alpha> (vk_smembers V k) (d_smembers k)"
    and sim_lpush [sim_rules]: "simulates \<alpha> (vk_lpush V k v) (d_lpush k v)"
    and sim_rpop [sim_rules]: "simulates \<alpha> (vk_rpop V k) (d_rpop k)"
    and sim_lrange [sim_rules]: "simulates \<alpha> (vk_lrange V k a b) (d_lrange k a b)"
    and sim_ltrim [sim_rules]: "simulates \<alpha> (vk_ltrim V k a b) (d_ltrim k a b)"

interpretation ref: valkey_spec ref_valkey id
  by unfold_locales (simp_all add: sim_rules)

end
