(* ===== verification/Key_Space.thy ===== *)
theory Key_Space
  imports Valkey Domain
begin

text \<open>
  The keys the program builds, the type of value each kind of key holds, and the
  effect of the documented commands on a key space in which every key holds the
  type its name announces (\<open>well_keyed\<close>). Every command of the program keeps
  \<open>well_keyed\<close>, so that no command of the program fails with a type error.
\<close>

section \<open>Keys\<close>

definition bids_key :: "string \<Rightarrow> string" where
  "bids_key pair_id = ''book:'' @ pair_id @ '':bids''"

definition asks_key :: "string \<Rightarrow> string" where
  "asks_key pair_id = ''book:'' @ pair_id @ '':asks''"

definition version_key :: "string \<Rightarrow> string" where
  "version_key pair_id = ''version:'' @ pair_id"

definition book_key :: "string \<Rightarrow> side \<Rightarrow> string" where
  "book_key pair_id sd = (case sd of Buy \<Rightarrow> bids_key pair_id | Sell \<Rightarrow> asks_key pair_id)"

definition okey :: "string \<Rightarrow> string" where
  "okey oid = ''order:'' @ oid"

definition balance_key :: "string \<Rightarrow> string \<Rightarrow> string" where
  "balance_key user_id asset = ''balance:'' @ user_id @ '':'' @ asset"

definition lock_key :: "string \<Rightarrow> string" where
  "lock_key pair_id = ''book:'' @ pair_id @ '':lock''"

definition fence_key :: "string \<Rightarrow> string" where
  "fence_key pair_id = ''book:'' @ pair_id @ '':fence''"

datatype kind = KStr | KHash | KZset | KSet | KList

fun kind_of :: "vvalue \<Rightarrow> kind" where
  "kind_of (VStr _) = KStr"
| "kind_of (VHash _) = KHash"
| "kind_of (VZset _) = KZset"
| "kind_of (VSet _) = KSet"
| "kind_of (VList _) = KList"

definition key_kind :: "string \<Rightarrow> kind option" where
  "key_kind k =
     (if prefix ''order:'' k \<or> prefix ''balance:'' k then Some KHash
      else if prefix ''book:'' k then
        (if suffix '':lock'' k \<or> suffix '':fence'' k then Some KStr else Some KZset)
      else if prefix ''version:'' k \<or> prefix ''cache:'' k \<or> prefix ''state:'' k then Some KStr
      else if prefix ''ws:'' k then Some KSet
      else if prefix ''queue:'' k then Some KList
      else if prefix ''metrics:'' k then
        (if suffix '':latency'' k \<or> suffix '':lock_wait'' k then Some KList else Some KStr)
      else None)"

definition well_keyed :: "vdata \<Rightarrow> bool" where
  "well_keyed d \<longleftrightarrow> (\<forall>k v kd. vd_keys d k = Some v \<longrightarrow> key_kind k = Some kd \<longrightarrow> kind_of v = kd)"

lemma well_keyed_empty [simp]: "well_keyed empty_vdata"
  by (simp add: well_keyed_def empty_vdata_def)

lemma suffix_last: "suffix s t \<Longrightarrow> s \<noteq> [] \<Longrightarrow> last s = last t"
  by (auto simp: suffix_def)

lemma side_key_suffix:
  "\<not> suffix '':lock'' (bids_key p)" "\<not> suffix '':fence'' (bids_key p)"
  "\<not> suffix '':lock'' (asks_key p)" "\<not> suffix '':fence'' (asks_key p)"
  by (auto simp: bids_key_def asks_key_def dest!: suffix_last)

lemma key_kinds [key_simps]:
  "key_kind (bids_key p) = Some KZset" "key_kind (asks_key p) = Some KZset"
  "key_kind (book_key p sd) = Some KZset" "key_kind (version_key p) = Some KStr"
  "key_kind (okey i) = Some KHash" "key_kind (balance_key u a) = Some KHash"
  "key_kind (lock_key p) = Some KStr" "key_kind (fence_key p) = Some KStr"
proof -
  show "key_kind (lock_key p) = Some KStr" "key_kind (fence_key p) = Some KStr"
    by (auto simp: key_kind_def lock_key_def fence_key_def suffix_def)
  show b: "key_kind (bids_key p) = Some KZset" "key_kind (asks_key p) = Some KZset"
    using side_key_suffix [of p] by (auto simp: key_kind_def) (auto simp: bids_key_def asks_key_def)
  then show "key_kind (book_key p sd) = Some KZset" by (simp add: book_key_def split: side.split)
qed (auto simp: key_kind_def version_key_def okey_def balance_key_def)

lemma key_kind_neq: "key_kind k \<noteq> key_kind k' \<Longrightarrow> k \<noteq> k'"
  by auto

lemma keys_distinct [key_simps]:
  "bids_key p \<noteq> asks_key q" "asks_key p \<noteq> bids_key q"
  "bids_key p = bids_key q \<longleftrightarrow> p = q" "asks_key p = asks_key q \<longleftrightarrow> p = q"
  "book_key p sd = book_key q sd' \<longleftrightarrow> p = q \<and> sd = sd'"
  "okey i = okey j \<longleftrightarrow> i = j" "version_key p = version_key q \<longleftrightarrow> p = q"
  "okey i \<noteq> bids_key p" "okey i \<noteq> asks_key p" "okey i \<noteq> book_key p sd" "okey i \<noteq> version_key p"
  "okey i \<noteq> balance_key u a"
  "bids_key p \<noteq> okey i" "asks_key p \<noteq> okey i" "book_key p sd \<noteq> okey i" "version_key p \<noteq> okey i"
  "balance_key u a \<noteq> okey i"
  "balance_key u a \<noteq> bids_key p" "balance_key u a \<noteq> asks_key p" "balance_key u a \<noteq> book_key p sd"
  "balance_key u a \<noteq> version_key p"
  "bids_key p \<noteq> balance_key u a" "asks_key p \<noteq> balance_key u a" "book_key p sd \<noteq> balance_key u a"
  "version_key p \<noteq> balance_key u a"
  "version_key p \<noteq> bids_key q" "version_key p \<noteq> asks_key q" "version_key p \<noteq> book_key q sd"
  "bids_key q \<noteq> version_key p" "asks_key q \<noteq> version_key p" "book_key q sd \<noteq> version_key p"
  by (auto simp: bids_key_def asks_key_def book_key_def version_key_def okey_def balance_key_def
      split: side.splits)

section \<open>Reading and writing a key\<close>

definition hash_at :: "vdata \<Rightarrow> string \<Rightarrow> (string \<rightharpoonup> string)" where
  "hash_at d k = (case vd_keys d k of Some (VHash h) \<Rightarrow> h | _ \<Rightarrow> Map.empty)"

definition zset_at :: "vdata \<Rightarrow> string \<Rightarrow> (int \<times> string) list" where
  "zset_at d k = (case vd_keys d k of Some (VZset z) \<Rightarrow> z | _ \<Rightarrow> [])"

definition str_at :: "vdata \<Rightarrow> string \<Rightarrow> string option" where
  "str_at d k = (case vd_keys d k of Some (VStr s) \<Rightarrow> Some s | _ \<Rightarrow> None)"

definition set_at :: "vdata \<Rightarrow> string \<Rightarrow> string list" where
  "set_at d k = (case vd_keys d k of Some (VSet s) \<Rightarrow> s | _ \<Rightarrow> [])"

definition list_at :: "vdata \<Rightarrow> string \<Rightarrow> string list" where
  "list_at d k = (case vd_keys d k of Some (VList s) \<Rightarrow> s | _ \<Rightarrow> [])"

lemmas at_defs = hash_at_def zset_at_def str_at_def set_at_def list_at_def

lemma put_key_keys [simp]: "vd_keys (put_key k v d) k' = (if k' = k then v else vd_keys d k')"
  by (simp add: put_key_def)

lemma put_key_rest [simp]: "vd_pool (put_key k v d) = vd_pool d"
  "vd_published (put_key k v d) = vd_published d"
  by (simp_all add: put_key_def)

lemma at_put_same [simp]:
  "hash_at (put_key k (Some (VHash h)) d) k = h"
  "hash_at (put_key k None d) k = Map.empty"
  "zset_at (put_key k (zset_value z) d) k = z"
  "str_at (put_key k (Some (VStr s)) d) k = Some s"
  "set_at (put_key k (set_value l) d) k = l"
  "set_at (put_key k (Some (VSet l)) d) k = l"
  "list_at (put_key k (list_value l) d) k = l"
  "list_at (put_key k (Some (VList l)) d) k = l"
  by (simp_all add: at_defs zset_value_def set_value_def list_value_def)

lemma at_put_other [simp]:
  "k' \<noteq> k \<Longrightarrow> hash_at (put_key k v d) k' = hash_at d k'"
  "k' \<noteq> k \<Longrightarrow> zset_at (put_key k v d) k' = zset_at d k'"
  "k' \<noteq> k \<Longrightarrow> str_at (put_key k v d) k' = str_at d k'"
  "k' \<noteq> k \<Longrightarrow> set_at (put_key k v d) k' = set_at d k'"
  "k' \<noteq> k \<Longrightarrow> list_at (put_key k v d) k' = list_at d k'"
  by (simp_all add: at_defs)

lemma well_keyed_put [simp]:
  "well_keyed d \<Longrightarrow> well_keyed (put_key k None d)"
  "well_keyed d \<Longrightarrow> key_kind k = Some (kind_of w) \<Longrightarrow> well_keyed (put_key k (Some w) d)"
  "well_keyed d \<Longrightarrow> key_kind k = Some KZset \<Longrightarrow> well_keyed (put_key k (zset_value z) d)"
  "well_keyed d \<Longrightarrow> key_kind k = Some KSet \<Longrightarrow> well_keyed (put_key k (set_value l) d)"
  "well_keyed d \<Longrightarrow> key_kind k = Some KList \<Longrightarrow> well_keyed (put_key k (list_value l) d)"
  by (auto simp: well_keyed_def zset_value_def set_value_def list_value_def split: if_splits)

lemma well_keyed_view:
  assumes "well_keyed d"
  shows "key_kind k = Some KHash \<Longrightarrow> as_hash (vd_keys d k) = Inr (hash_at d k)"
    "key_kind k = Some KZset \<Longrightarrow> as_zset (vd_keys d k) = Inr (zset_at d k)"
    "key_kind k = Some KStr \<Longrightarrow> as_str (vd_keys d k) = Inr (str_at d k)"
    "key_kind k = Some KSet \<Longrightarrow> as_set (vd_keys d k) = Inr (set_at d k)"
    "key_kind k = Some KList \<Longrightarrow> as_list (vd_keys d k) = Inr (list_at d k)"
  using assms
  by (cases "vd_keys d k"; fastforce simp: well_keyed_def at_defs split: vvalue.splits)+

lemma hash_ops [run_simps]:
  assumes "well_keyed d" "key_kind k = Some KHash"
  shows "d_hget k f d = (Inr (hash_at d k f), d)"
    "d_hmget k fs d = (Inr (map (hash_at d k) fs), d)"
    "d_hset k fvs d = (Inr (), put_key k (Some (VHash (hset_all (hash_at d k) fvs))) d)"
    "d_hincrby k f by d = (case add_to (hash_at d k f) by of Inl e \<Rightarrow> (Inl e, d)
       | Inr n \<Rightarrow> (Inr n, put_key k (Some (VHash ((hash_at d k)(f \<mapsto> string_of_int n)))) d))"
  using assms
  by (simp_all add: d_hget_def d_hmget_def d_hset_def d_hincrby_def read_key_def edit_key_def
      well_keyed_view split: sum.splits)

lemma zset_ops [run_simps]:
  assumes "well_keyed d" "key_kind k = Some KZset"
  shows "d_zadd k sc m d = (Inr (), put_key k (zset_value (zset_add sc m (zset_at d k))) d)"
    "d_zrem k m d = (Inr (), put_key k (zset_value (zset_remove m (zset_at d k))) d)"
    "d_zrangebyscore k hi lmt d = (Inr (zrange_upto hi lmt (zset_at d k)), d)"
  using assms
  by (simp_all add: d_zadd_def d_zrem_def d_zrangebyscore_def read_key_def edit_key_def well_keyed_view)

lemma str_ops [run_simps]:
  assumes "well_keyed d" "key_kind k = Some KStr"
  shows "d_get k d = (Inr (str_at d k), d)"
    "d_incrby k by d = (case add_to (str_at d k) by of Inl e \<Rightarrow> (Inl e, d)
       | Inr n \<Rightarrow> (Inr n, put_key k (Some (VStr (string_of_int n))) d))"
  using assms
  by (simp_all add: d_get_def d_incrby_def read_key_def edit_key_def well_keyed_view split: sum.splits)

lemma del_op [run_simps]: "d_del k d = (Inr (), put_key k None d)"
  by (simp add: d_del_def)

lemma d_conn_up [run_simps]: "vd_pool d = [] \<Longrightarrow> d_conn d = (Inr (), d)"
  by simp

lemma d_conn_keys: "d_conn d = (r, d') \<Longrightarrow> vd_keys d' = vd_keys d \<and> vd_published d' = vd_published d"
  by (auto split: list.splits)

lemma hset_all_map: "hset_all h fvs = h ++ map_of (rev fvs)"
  by (induction fvs arbitrary: h) auto

section \<open>Sorted sets\<close>

definition zset_ok :: "(int \<times> string) list \<Rightarrow> bool" where
  "zset_ok z \<longleftrightarrow> sorted z \<and> distinct (map snd z)"

lemma zset_ok_Nil [simp]: "zset_ok []"
  by (simp add: zset_ok_def)

lemma zset_remove_set [simp]: "set (zset_remove m z) = {e \<in> set z. snd e \<noteq> m}"
  by (simp add: zset_remove_def)

lemma zset_add_set [simp]: "set (zset_add sc m z) = insert (sc, m) {e \<in> set z. snd e \<noteq> m}"
  by (simp add: zset_add_def set_insort_key)

lemma zset_remove_ok [simp]: "zset_ok z \<Longrightarrow> zset_ok (zset_remove m z)"
  by (auto simp: zset_ok_def zset_remove_def sorted_wrt_filter distinct_map intro: inj_on_subset)

lemma distinct_snd_insort:
  "distinct (map snd z) \<Longrightarrow> m \<notin> snd ` set z \<Longrightarrow> distinct (map snd (insort (sc :: int, m :: string) z))"
  by (induction z) (auto simp: set_insort_key)

lemma zset_add_ok [simp]: "zset_ok z \<Longrightarrow> zset_ok (zset_add sc m z)"
  using zset_remove_ok [of z m]
  by (auto simp: zset_ok_def zset_add_def sorted_insort intro!: distinct_snd_insort)

lemma zset_add_fresh_length:
  "m \<notin> snd ` set z \<Longrightarrow> length (zset_add sc m z) = Suc (length z)"
  by (simp add: zset_add_def zset_remove_def) (subst filter_True, auto simp: image_iff)

end
