(* ===== verification/Externals.thy ===== *)
theory Externals
  imports Domain "HOL-Library.Signed_Division"
begin

text \<open>
  Third-party code that the program calls for its values: \<open>uuid\<close> (text of an
  identifier), \<open>rust_decimal\<close> (text of a decimal) and \<open>chrono\<close> (time stamps). It is
  the parameter \<open>X\<close>; what the program relies on is the locale \<open>ext_spec\<close>: reading
  a written value gives the value back, and the instant built from a number of
  milliseconds has that number of milliseconds. \<open>ref_ext\<close> is an instance.
\<close>

record 'd ext =
  x_uuid_str :: "uuid \<Rightarrow> string"
  x_uuid_parse :: "string \<Rightarrow> uuid option"
  x_dec_str :: "'d \<Rightarrow> string"
  x_dec_parse :: "string \<Rightarrow> 'd option"
  x_millis :: "instant \<Rightarrow> int"
  x_timestamp :: "int \<Rightarrow> int \<Rightarrow> instant option"
  x_time_str :: "instant \<Rightarrow> string"
  x_time_parse :: "string \<Rightarrow> instant option"

locale ext_spec =
  fixes X :: "'d::floor_ceiling ext"
  assumes uuid_round_trip: "x_uuid_parse X (x_uuid_str X u) = Some u"
    and uuid_str_ne: "x_uuid_str X u \<noteq> []"
    and dec_round_trip: "x_dec_parse X (x_dec_str X d) = Some d"
    and timestamp_millis: "0 \<le> x_millis X t \<Longrightarrow>
      \<exists>t'. x_timestamp X (x_millis X t div 1000) ((x_millis X t mod 1000) * 1000000) = Some t' \<and>
        x_millis X t' = x_millis X t"
    and time_round_trip: "x_time_parse X (x_time_str X t) = Some t"
begin

lemma uuid_str_inj: "x_uuid_str X u = x_uuid_str X v \<longleftrightarrow> u = v"
  using uuid_round_trip by (metis option.inject)

end

text \<open>
  An instance over the rationals: identifiers as decimal numbers, decimals as
  fractions, instants in nanoseconds.
\<close>

definition rat_str :: "rat \<Rightarrow> string" where
  "rat_str d = (case quotient_of d of (a, b) \<Rightarrow> string_of_int a @ CHR ''/'' # string_of_int b)"

definition rat_parse :: "string \<Rightarrow> rat option" where
  "rat_parse s =
     (case split_on (CHR ''/'') s of
        [a, b] \<Rightarrow> (case (parse_int a, parse_int b) of
                    (Some m, Some n) \<Rightarrow> Some (of_int m / of_int n) | _ \<Rightarrow> None)
      | _ \<Rightarrow> None)"

definition ref_ext :: "rat ext" where
  "ref_ext =
     \<lparr>x_uuid_str = string_of_nat, x_uuid_parse = parse_nat, x_dec_str = rat_str, x_dec_parse = rat_parse,
      x_millis = (\<lambda>t. t div 1000000), x_timestamp = (\<lambda>secs nanos. Some (secs * 1000000000 + nanos)),
      x_time_str = string_of_int, x_time_parse = parse_int\<rparr>"

lemma ref_ext_sel:
  "x_uuid_str ref_ext = string_of_nat" "x_uuid_parse ref_ext = parse_nat"
  "x_dec_str ref_ext = rat_str" "x_dec_parse ref_ext = rat_parse"
  "x_millis ref_ext t = t div 1000000" "x_timestamp ref_ext secs nanos = Some (secs * 1000000000 + nanos)"
  "x_time_str ref_ext = string_of_int" "x_time_parse ref_ext = parse_int"
  by (simp_all add: ref_ext_def)

lemma string_of_int_no_slash: "CHR ''/'' \<notin> set (string_of_int n)"
proof -
  have "CHR ''/'' \<notin> set (string_of_nat m)" for m
    using string_of_nat_digits [of m] by (auto simp: list_all_iff is_digit_def dest!: bspec)
  then show ?thesis by (simp add: string_of_int_def)
qed

lemma rat_round_trip: "rat_parse (rat_str d) = Some d"
proof -
  obtain a b where q: "quotient_of d = (a, b)" by force
  then have "d = of_int a / of_int b" by (rule quotient_of_div)
  with q show ?thesis
    by (simp add: rat_parse_def rat_str_def split_on_append string_of_int_no_slash codec_simps)
qed

interpretation ref_ext: ext_spec ref_ext
proof
  fix t :: instant
  let ?m = "t div 1000000"
  have "(?m div 1000 * 1000000000 + ?m mod 1000 * 1000000) div 1000000 = ?m"
    by (simp add: algebra_simps)
  then show "0 \<le> x_millis ref_ext t \<Longrightarrow>
    \<exists>t'. x_timestamp ref_ext (x_millis ref_ext t div 1000) (x_millis ref_ext t mod 1000 * 1000000) = Some t' \<and>
      x_millis ref_ext t' = x_millis ref_ext t"
    by (simp add: ref_ext_def)
qed (simp_all add: ref_ext_def codec_simps rat_round_trip)

end
