(* ===== verification/Book_Cache.thy ===== *)
theory Book_Cache
  imports Key_Space Externals Codecs
begin

text \<open>
  \<open>crates/shared/src/cache.rs\<close>: the order book in the cache. Prices are sorted-set
  scores, orders are hashes of text fields. The cache service is the parameter
  \<open>V\<close> (theory \<open>Valkey\<close>), the texts of identifiers and the time stamps come from the
  parameter \<open>X\<close> (theory \<open>Externals\<close>); \<open>now\<close> is what \<open>Utc::now\<close> would return.
\<close>

section \<open>Model\<close>

subsection \<open>Orders as hashes\<close>

definition ORDER_FIELDS :: "string list" where
  "ORDER_FIELDS =
     [''id'', ''pair_id'', ''side'', ''order_type'', ''tif'', ''price_i'', ''qty_i'', ''remaining_i'',
      ''status'', ''stp'', ''user_id'', ''ts_ms'', ''version'']"

text \<open>\<open>-n\<close> on \<open>i64\<close>, which wraps for the least value.\<close>

definition i64_neg :: "int \<Rightarrow> int" where
  "i64_neg n = (if n = - (2 ^ 63) then n else - n)"

definition price_scaled :: "'d::floor_ceiling order \<Rightarrow> int" where
  "price_scaled ord = (case o_price ord of None \<Rightarrow> 0 | Some p \<Rightarrow> decimal_to_i64 p)"

definition order_score :: "'d::floor_ceiling order \<Rightarrow> int" where
  "order_score ord =
     f64_round (case o_side ord of Buy \<Rightarrow> i64_neg (price_scaled ord) | Sell \<Rightarrow> price_scaled ord)"

definition order_fields :: "'d::floor_ceiling ext \<Rightarrow> 'd order \<Rightarrow> (string \<times> string) list" where
  "order_fields X ord =
     [(''id'', x_uuid_str X (o_id ord)),
      (''pair_id'', o_pair_id ord),
      (''side'', side_char (o_side ord)),
      (''order_type'', order_type_char (o_order_type ord)),
      (''tif'', tif_char (o_tif ord)),
      (''price_i'', string_of_int (price_scaled ord)),
      (''qty_i'', string_of_int (decimal_to_i64 (o_quantity ord))),
      (''remaining_i'', string_of_int (decimal_to_i64 (o_remaining ord))),
      (''status'', status_char (o_status ord)),
      (''stp'', stp_char (o_stp_mode ord)),
      (''user_id'', o_user_id ord),
      (''ts_ms'', string_of_int (x_millis X (o_created_at ord))),
      (''version'', string_of_int (o_version ord))]"

text \<open>
  \<open>parse_order_from_hmget\<close>: the thirteen fields in the order of \<open>ORDER_FIELDS\<close>;
  \<open>None\<close> where the code leaves with \<open>?\<close> or \<open>return None\<close>. The division and the
  remainder of the milliseconds truncate, and a negative remainder wraps in the
  conversion to \<open>u32\<close>.
\<close>

definition created_from_ms :: "'d ext \<Rightarrow> instant \<Rightarrow> int \<Rightarrow> instant" where
  "created_from_ms X now ts_ms =
     option_or (x_timestamp X (ts_ms sdiv 1000) (((ts_ms smod 1000) * 1000000) mod 2 ^ 32)) now"

definition parse_order_from_hmget ::
  "'d::floor_ceiling ext \<Rightarrow> instant \<Rightarrow> string option list \<Rightarrow> 'd order option" where
  "parse_order_from_hmget X now values =
     (if length values < 13 then None
      else
        Option.bind (values ! 0) (\<lambda>id_str. if id_str = [] then None else
        Option.bind (x_uuid_parse X id_str) (\<lambda>oid.
        Option.bind (values ! 1) (\<lambda>pair_id.
        Option.bind (Option.bind (values ! 2) parse_side_char) (\<lambda>sd.
        Option.bind (Option.bind (values ! 3) parse_type_char) (\<lambda>ot.
        Option.bind (Option.bind (values ! 4) parse_tif_char) (\<lambda>tif.
        Option.bind (parse_i64 (option_or (values ! 5) ''0'')) (\<lambda>price_i.
        Option.bind (Option.bind (values ! 6) parse_i64) (\<lambda>qty_i.
        Option.bind (Option.bind (values ! 7) parse_i64) (\<lambda>remaining_i.
        Option.bind (map_option parse_status_char (values ! 8)) (\<lambda>st.
        Option.bind (map_option parse_stp_char (values ! 9)) (\<lambda>stp.
        Option.bind (values ! 10) (\<lambda>user_id.
        Option.bind (Option.bind (values ! 11) parse_i64) (\<lambda>ts_ms.
          let version = option_or (parse_i64 (option_or (values ! 12) ''1'')) 1;
              price = (if ot = Market \<or> price_i = 0 then None else Some (i64_to_decimal price_i));
              created_at = created_from_ms X now ts_ms
          in Some \<lparr>o_id = oid, o_user_id = user_id, o_pair_id = pair_id, o_side = sd, o_order_type = ot,
                   o_tif = tif, o_price = price, o_quantity = i64_to_decimal qty_i,
                   o_remaining = i64_to_decimal remaining_i, o_status = st, o_stp_mode = stp,
                   o_version = version, o_sequence = 0, o_created_at = created_at,
                   o_updated_at = created_at, o_client_order_id = None, o_received_at = None,
                   o_matched_at = None, o_persisted_at = None\<rparr>))))))))))))))"

subsection \<open>Operations on the book\<close>

definition fetch_orders_by_ids ::
  "'s valkey \<Rightarrow> 'd::floor_ceiling ext \<Rightarrow> instant \<Rightarrow> string list \<Rightarrow> ('s, 'd order list) vm" where
  "fetch_orders_by_ids V X now ids =
     (if ids = [] then vret []
      else vbind (vk_conn V) (\<lambda>_.
           vbind (vmapM (\<lambda>i. vk_hmget V (okey i) ORDER_FIELDS) ids) (\<lambda>results.
           vret (List.map_filter (parse_order_from_hmget X now) results))))"

definition load_order_book ::
  "'s valkey \<Rightarrow> 'd::floor_ceiling ext \<Rightarrow> instant \<Rightarrow> string \<Rightarrow> side \<Rightarrow> ('s, 'd order list) vm" where
  "load_order_book V X now pair_id sd =
     vbind (vk_conn V) (\<lambda>_.
     vbind (vk_zrangebyscore V (book_key pair_id sd) None None) (\<lambda>ids.
     fetch_orders_by_ids V X now ids))"

definition save_order_to_book ::
  "'s valkey \<Rightarrow> 'd::floor_ceiling ext \<Rightarrow> 'd order \<Rightarrow> ('s, unit) vm" where
  "save_order_to_book V X ord =
     (let book = (case o_side ord of Buy \<Rightarrow> bids_key (o_pair_id ord) | Sell \<Rightarrow> asks_key (o_pair_id ord))
      in vbind (vk_conn V) (\<lambda>_.
         vpipe [vk_zadd V book (order_score ord) (x_uuid_str X (o_id ord)),
                vk_hset V (okey (x_uuid_str X (o_id ord))) (order_fields X ord)]))"

definition remove_order_from_book ::
  "'s valkey \<Rightarrow> 'd ext \<Rightarrow> 'd order \<Rightarrow> ('s, unit) vm" where
  "remove_order_from_book V X ord =
     vbind (vk_conn V) (\<lambda>_.
     vpipe [vk_zrem V (book_key (o_pair_id ord) (o_side ord)) (x_uuid_str X (o_id ord)),
            vk_del V (okey (x_uuid_str X (o_id ord)))])"

definition get_order ::
  "'s valkey \<Rightarrow> 'd::floor_ceiling ext \<Rightarrow> instant \<Rightarrow> uuid \<Rightarrow> ('s, 'd order option) vm" where
  "get_order V X now order_id =
     vbind (vk_conn V) (\<lambda>_.
     vbind (vk_hmget V (okey (x_uuid_str X order_id)) ORDER_FIELDS) (\<lambda>values.
     vret (if list_all (\<lambda>v. v = None) values then None else parse_order_from_hmget X now values)))"

definition increment_version :: "'s valkey \<Rightarrow> string \<Rightarrow> ('s, int) vm" where
  "increment_version V pair_id =
     vbind (vk_conn V) (\<lambda>_. vk_incrby V (version_key pair_id) 1)"

text \<open>The reply is converted to \<open>Option<i64>\<close>: a value that is no integer is an error.\<close>

definition get_version :: "'s valkey \<Rightarrow> string \<Rightarrow> ('s, int) vm" where
  "get_version V pair_id =
     vbind (vk_conn V) (\<lambda>_.
     vbind (vk_get V (version_key pair_id)) (\<lambda>v.
     case v of None \<Rightarrow> vret 0
       | Some s \<Rightarrow> vlift (ok_or (ParseError ''GET version'') (parse_i64 s))))"

text \<open>The score bound of the price filter: \<open>None\<close> is \<open>+inf\<close>.\<close>

definition filter_bound :: "side \<Rightarrow> 'd::floor_ceiling option \<Rightarrow> int option" where
  "filter_bound sd limit_price =
     (case limit_price of None \<Rightarrow> None
      | Some price \<Rightarrow>
          (let price_i = decimal_to_i64 price
           in case sd of Sell \<Rightarrow> Some (f64_round price_i) | Buy \<Rightarrow> Some (- f64_round price_i)))"

definition load_order_book_filtered ::
  "'s valkey \<Rightarrow> 'd::floor_ceiling ext \<Rightarrow> instant \<Rightarrow> string \<Rightarrow> side \<Rightarrow> 'd option \<Rightarrow> ('s, 'd order list) vm" where
  "load_order_book_filtered V X now pair_id sd limit_price =
     vbind (vk_conn V) (\<lambda>_.
     vbind (vk_zrangebyscore V (book_key pair_id sd) (filter_bound sd limit_price) None) (\<lambda>ids.
     fetch_orders_by_ids V X now ids))"

definition load_order_book_batched ::
  "'s valkey \<Rightarrow> 'd::floor_ceiling ext \<Rightarrow> instant \<Rightarrow> string \<Rightarrow> side \<Rightarrow> int \<Rightarrow> int \<Rightarrow> ('s, 'd order list) vm" where
  "load_order_book_batched V X now pair_id sd offset count =
     vbind (vk_conn V) (\<lambda>_.
     vbind (vk_zrangebyscore V (book_key pair_id sd) None (Some (offset, count))) (\<lambda>ids.
     fetch_orders_by_ids V X now ids))"

subsection \<open>Publication\<close>

definition CACHE_UPDATES_CHANNEL :: string where
  "CACHE_UPDATES_CHANNEL = ''cache_updates''"

definition update_message :: "string \<Rightarrow> string \<Rightarrow> string" where
  "update_message key val = key @ CHR 0x0A # val"

definition set_and_publish :: "'s valkey \<Rightarrow> string \<Rightarrow> string \<Rightarrow> ('s, unit) vm" where
  "set_and_publish V key val =
     vbind (vk_conn V) (\<lambda>_.
     vbind (vk_set V key val) (\<lambda>_.
     vk_publish V CACHE_UPDATES_CHANNEL (update_message key val)))"

definition set_and_publish_batch :: "'s valkey \<Rightarrow> (string \<times> string) list \<Rightarrow> ('s, unit) vm" where
  "set_and_publish_batch V entries =
     (if entries = [] then vret ()
      else vbind (vk_conn V) (\<lambda>_.
           vpipe (concat (map (\<lambda>(key, val).
             [vk_set V key val, vk_publish V CACHE_UPDATES_CHANNEL (update_message key val)]) entries))))"

subsection \<open>Versioned snapshots\<close>

definition load_order_book_snapshot ::
  "'s valkey \<Rightarrow> 'd::floor_ceiling ext \<Rightarrow> instant \<Rightarrow> string \<Rightarrow> side \<Rightarrow> 'd option
   \<Rightarrow> ('s, 'd order list \<times> int) vm" where
  "load_order_book_snapshot V X now pair_id sd limit_price =
     vbind (vk_conn V) (\<lambda>_.
     vbind (vk_get V (version_key pair_id)) (\<lambda>version_raw.
     vbind (vk_zrangebyscore V (book_key pair_id sd) (filter_bound sd limit_price) None) (\<lambda>ids.
     let version = option_or (Option.bind version_raw parse_i64) 0
     in if ids = [] then vret ([], version)
        else vbind (vmapM (\<lambda>i. vk_hmget V (okey i) ORDER_FIELDS) ids) (\<lambda>data_list.
             vret (List.map_filter (parse_order_from_hmget X now) data_list, version)))))"

datatype cas_result = CasOk | CasConflict

datatype mutation_op = RemoveBid | RemoveAsk | UpsertBid | UpsertAsk

record mutation =
  mu_op :: mutation_op
  mu_oid :: string
  mu_order_key :: string
  mu_score :: int

definition update_op :: "'d order \<Rightarrow> mutation_op" where
  "update_op upd =
     (let gone = (o_status upd = Filled \<or> o_status upd = Cancelled)
      in case o_side upd of Buy \<Rightarrow> (if gone then RemoveBid else UpsertBid)
         | Sell \<Rightarrow> (if gone then RemoveAsk else UpsertAsk))"

definition needs_hset :: "'d order \<Rightarrow> bool" where
  "needs_hset upd \<longleftrightarrow> update_op upd \<in> {UpsertBid, UpsertAsk}"

definition make_mutation :: "'d::floor_ceiling ext \<Rightarrow> mutation_op \<Rightarrow> 'd order \<Rightarrow> mutation" where
  "make_mutation X op ord =
     \<lparr>mu_op = op, mu_oid = x_uuid_str X (o_id ord), mu_order_key = okey (x_uuid_str X (o_id ord)),
      mu_score = order_score ord\<rparr>"

definition cas_mutations ::
  "'d::floor_ceiling ext \<Rightarrow> 'd order list \<Rightarrow> 'd order option \<Rightarrow> mutation list" where
  "cas_mutations X book_updates incoming_if_resting =
     map (\<lambda>upd. make_mutation X (update_op upd) upd) book_updates @
     (case incoming_if_resting of None \<Rightarrow> []
      | Some incoming \<Rightarrow>
          [make_mutation X (case o_side incoming of Buy \<Rightarrow> UpsertBid | Sell \<Rightarrow> UpsertAsk) incoming])"

text \<open>The script: \<open>tostring\<close> of a missing version is the text \<open>false\<close>.\<close>

definition cas_mutation :: "'s valkey \<Rightarrow> string \<Rightarrow> string \<Rightarrow> mutation \<Rightarrow> ('s, unit) vm" where
  "cas_mutation V bids asks m =
     (case mu_op m of
        RemoveBid \<Rightarrow> vbind (vk_zrem V bids (mu_oid m)) (\<lambda>_. vk_del V (mu_order_key m))
      | RemoveAsk \<Rightarrow> vbind (vk_zrem V asks (mu_oid m)) (\<lambda>_. vk_del V (mu_order_key m))
      | UpsertBid \<Rightarrow> vk_zadd V bids (mu_score m) (mu_oid m)
      | UpsertAsk \<Rightarrow> vk_zadd V asks (mu_score m) (mu_oid m))"

definition CAS_SCRIPT :: "'s valkey \<Rightarrow> string \<Rightarrow> int \<Rightarrow> mutation list \<Rightarrow> ('s, unit) vm" where
  "CAS_SCRIPT V pair_id expected_version mutations =
     vbind (vk_get V (version_key pair_id)) (\<lambda>current.
     if option_or current ''false'' \<noteq> string_of_int expected_version
     then vfail (ScriptError ''VERSION_CONFLICT'')
     else vbind (vforM (cas_mutation V (bids_key pair_id) (asks_key pair_id)) mutations) (\<lambda>_.
          vbind (vk_incrby V (version_key pair_id) 1) (\<lambda>_. vret ())))"

definition apply_book_mutations_cas ::
  "'s valkey \<Rightarrow> 'd::floor_ceiling ext \<Rightarrow> string \<Rightarrow> int \<Rightarrow> 'd order list \<Rightarrow> 'd order option
   \<Rightarrow> ('s, cas_result) vm" where
  "apply_book_mutations_cas V X pair_id expected_version book_updates incoming_if_resting =
     (let mutations = cas_mutations X book_updates incoming_if_resting;
          upsert_orders = filter needs_hset book_updates @
            (case incoming_if_resting of None \<Rightarrow> [] | Some incoming \<Rightarrow> [incoming])
      in vbind (vk_conn V) (\<lambda>_.
         vbind (if upsert_orders = [] then vret ()
                else vpipe (map (\<lambda>ord. vk_hset V (okey (x_uuid_str X (o_id ord))) (order_fields X ord))
                       upsert_orders)) (\<lambda>_.
         vbind (vtry (CAS_SCRIPT V pair_id expected_version mutations)) (\<lambda>r.
         case r of Inr _ \<Rightarrow> vret CasOk
           | Inl e \<Rightarrow> if e = ScriptError ''VERSION_CONFLICT'' then vret CasConflict
                      else vfail (ScriptError ''CAS script error'')))))"

end
