(* ===== verification/Book_Cache_Props.thy ===== *)
theory Book_Cache_Props
  imports Book_Cache Engine_Props
begin

text \<open>
  What the book cache guarantees. First every operation is shown to depend on the
  cache service only through its documented behaviour (one simulation lemma per
  operation, in the context of \<open>valkey_spec\<close>); the properties are then proved on
  the documented key space and hold for every service that satisfies the laws.
\<close>

section \<open>Independence of the service\<close>

context valkey_spec
begin

lemma sim_fetch_orders_by_ids [sim_rules]:
  "simulates \<alpha> (fetch_orders_by_ids V X now ids) (fetch_orders_by_ids ref_valkey X now ids)"
  unfolding fetch_orders_by_ids_def ref_valkey_ops by (intro sim_rules)

lemma sim_load_order_book [sim_rules]:
  "simulates \<alpha> (load_order_book V X now p sd) (load_order_book ref_valkey X now p sd)"
  unfolding load_order_book_def ref_valkey_ops by (intro sim_rules)

lemma sim_load_order_book_filtered [sim_rules]:
  "simulates \<alpha> (load_order_book_filtered V X now p sd lp) (load_order_book_filtered ref_valkey X now p sd lp)"
  unfolding load_order_book_filtered_def ref_valkey_ops by (intro sim_rules)

lemma sim_load_order_book_batched [sim_rules]:
  "simulates \<alpha> (load_order_book_batched V X now p sd a b) (load_order_book_batched ref_valkey X now p sd a b)"
  unfolding load_order_book_batched_def ref_valkey_ops by (intro sim_rules)

lemma sim_save_order_to_book [sim_rules]:
  "simulates \<alpha> (save_order_to_book V X ord) (save_order_to_book ref_valkey X ord)"
  unfolding save_order_to_book_def ref_valkey_ops Let_def by (intro sim_rules)

lemma sim_remove_order_from_book [sim_rules]:
  "simulates \<alpha> (remove_order_from_book V X ord) (remove_order_from_book ref_valkey X ord)"
  unfolding remove_order_from_book_def ref_valkey_ops by (intro sim_rules)

lemma sim_get_order [sim_rules]:
  "simulates \<alpha> (get_order V X now i) (get_order ref_valkey X now i)"
  unfolding get_order_def ref_valkey_ops by (intro sim_rules)

lemma sim_increment_version [sim_rules]:
  "simulates \<alpha> (increment_version V p) (increment_version ref_valkey p)"
  unfolding increment_version_def ref_valkey_ops by (intro sim_rules)

lemma sim_get_version [sim_rules]: "simulates \<alpha> (get_version V p) (get_version ref_valkey p)"
  unfolding get_version_def ref_valkey_ops by (intro sim_rules)

lemma sim_set_and_publish [sim_rules]:
  "simulates \<alpha> (set_and_publish V k v) (set_and_publish ref_valkey k v)"
  unfolding set_and_publish_def ref_valkey_ops by (intro sim_rules)

lemma sim_set_and_publish_batch [sim_rules]:
  "simulates \<alpha> (set_and_publish_batch V es) (set_and_publish_batch ref_valkey es)"
proof -
  have "list_all2 (simulates \<alpha>)
      (concat (map (\<lambda>(k, v). [vk_set V k v, vk_publish V CACHE_UPDATES_CHANNEL (update_message k v)]) es))
      (concat (map (\<lambda>(k, v). [d_set k v, d_publish CACHE_UPDATES_CHANNEL (update_message k v)]) es))"
    by (induction es) (auto intro!: sim_rules)
  then show ?thesis
    unfolding set_and_publish_batch_def ref_valkey_ops
    by (intro simulates_if simulates_vbind simulates_vpipe sim_rules)
qed

lemma sim_load_order_book_snapshot [sim_rules]:
  "simulates \<alpha> (load_order_book_snapshot V X now p sd lp) (load_order_book_snapshot ref_valkey X now p sd lp)"
  unfolding load_order_book_snapshot_def ref_valkey_ops Let_def by (intro sim_rules)

lemma sim_cas_mutation [sim_rules]:
  "simulates \<alpha> (cas_mutation V b a m) (cas_mutation ref_valkey b a m)"
  by (cases "mu_op m") (simp_all add: cas_mutation_def sim_rules)

lemma sim_CAS_SCRIPT [sim_rules]:
  "simulates \<alpha> (CAS_SCRIPT V p ev ms) (CAS_SCRIPT ref_valkey p ev ms)"
  unfolding CAS_SCRIPT_def ref_valkey_ops by (intro sim_rules)

lemma sim_apply_book_mutations_cas [sim_rules]:
  "simulates \<alpha> (apply_book_mutations_cas V X p ev us inc) (apply_book_mutations_cas ref_valkey X p ev us inc)"
  unfolding apply_book_mutations_cas_def ref_valkey_ops Let_def by (intro sim_rules)

end

section \<open>The hash of an order\<close>

text \<open>
  What survives in the cache: amounts truncated to eight decimals, no price for a
  market order, no fields that only the database has.
\<close>

definition cached :: "'d::floor_ceiling ext \<Rightarrow> instant \<Rightarrow> 'd order \<Rightarrow> 'd order" where
  "cached X now ord =
     (let created = created_from_ms X now (x_millis X (o_created_at ord))
      in ord\<lparr>o_price := (if o_order_type ord = Market \<or> price_scaled ord = 0 then None
                         else Some (i64_to_decimal (price_scaled ord))),
             o_quantity := i64_to_decimal (decimal_to_i64 (o_quantity ord)),
             o_remaining := i64_to_decimal (decimal_to_i64 (o_remaining ord)),
             o_status := (if o_status ord = Rejected then Cancelled else o_status ord),
             o_sequence := 0, o_created_at := created, o_updated_at := created,
             o_client_order_id := None, o_received_at := None, o_matched_at := None,
             o_persisted_at := None\<rparr>)"

text \<open>The machine integers of an order that the cache writes as text.\<close>

definition storable :: "'d ext \<Rightarrow> 'd order \<Rightarrow> bool" where
  "storable X ord \<longleftrightarrow> i64_ok (x_millis X (o_created_at ord)) \<and> i64_ok (o_version ord)"

lemma i64_ok_decimal [simp]: "i64_ok (decimal_to_i64 d)"
  by (simp add: decimal_to_i64_def Let_def)

lemma i64_ok_price_scaled [simp]: "i64_ok (price_scaled ord)"
  by (simp add: price_scaled_def split: option.split)

definition order_hash :: "'d::floor_ceiling ext \<Rightarrow> 'd order \<Rightarrow> (string \<rightharpoonup> string)" where
  "order_hash X ord = map_of (order_fields X ord)"

lemma order_hash_fields:
  "map (hset_all h (order_fields X ord)) ORDER_FIELDS = map (\<lambda>f. Some (snd f)) (order_fields X ord)"
  by (simp add: hset_all_map ORDER_FIELDS_def order_fields_def)

context ext_spec
begin

lemma parse_stored_order:
  assumes "storable X ord"
  shows "parse_order_from_hmget X now (map (hset_all h (order_fields X ord)) ORDER_FIELDS) =
    Some (cached X now ord)"
  using assms unfolding order_hash_fields
  by (simp add: parse_order_from_hmget_def order_fields_def codec_simps storable_def
      uuid_round_trip uuid_str_ne cached_def Let_def)

end

section \<open>Saving and reading an order\<close>

abbreviation connected :: "vdata \<Rightarrow> bool" where
  "connected d \<equiv> well_keyed d \<and> vd_pool d = []"

definition saved :: "'d::floor_ceiling ext \<Rightarrow> 'd order \<Rightarrow> vdata \<Rightarrow> vdata" where
  "saved X ord d =
     (let i = x_uuid_str X (o_id ord); b = book_key (o_pair_id ord) (o_side ord);
          d' = put_key b (zset_value (zset_add (order_score ord) i (zset_at d b))) d
      in put_key (okey i) (Some (VHash (hset_all (hash_at d (okey i)) (order_fields X ord)))) d')"

definition removed :: "'d ext \<Rightarrow> 'd order \<Rightarrow> vdata \<Rightarrow> vdata" where
  "removed X ord d =
     (let i = x_uuid_str X (o_id ord); b = book_key (o_pair_id ord) (o_side ord)
      in put_key (okey i) None (put_key b (zset_value (zset_remove i (zset_at d b))) d))"

lemma book_key_side:
  "(case sd of Buy \<Rightarrow> bids_key p | Sell \<Rightarrow> asks_key p) = book_key p sd"
  by (simp add: book_key_def)

lemma run_save_order:
  "connected d \<Longrightarrow> save_order_to_book ref_valkey X ord d = (Inr (), saved X ord d)"
  by (simp add: save_order_to_book_def book_key_side run_simps key_simps saved_def Let_def)

lemma run_remove_order:
  "connected d \<Longrightarrow> remove_order_from_book ref_valkey X ord d = (Inr (), removed X ord d)"
  by (simp add: remove_order_from_book_def run_simps key_simps removed_def Let_def)

lemma saved_connected [simp]: "connected d \<Longrightarrow> connected (saved X ord d)"
  and removed_connected [simp]: "connected d \<Longrightarrow> connected (removed X ord d)"
  by (simp_all add: saved_def removed_def Let_def key_simps)

lemma run_get_order:
  assumes "connected d"
  shows "get_order ref_valkey X now i d =
    (Inr (let values = map (hash_at d (okey (x_uuid_str X i))) ORDER_FIELDS
          in if list_all (\<lambda>v. v = None) values then None else parse_order_from_hmget X now values), d)"
  using assms by (simp add: get_order_def run_simps key_simps)

lemma hash_at_saved [simp]:
  "hash_at (saved X ord d) (okey (x_uuid_str X (o_id ord))) =
     hset_all (hash_at d (okey (x_uuid_str X (o_id ord)))) (order_fields X ord)"
  by (simp add: saved_def Let_def)

text \<open>An amount that eight decimals represent.\<close>

definition on_grid :: "'d::floor_ceiling \<Rightarrow> bool" where
  "on_grid d \<longleftrightarrow> i64_to_decimal (decimal_to_i64 d) = d"

lemma cached_exact:
  assumes "on_grid (o_quantity ord)" "on_grid (o_remaining ord)"
    "\<forall>p. o_price ord = Some p \<longrightarrow> on_grid p \<and> p \<noteq> 0"
    "(o_order_type ord = Market) = (o_price ord = None)"
  shows "order_core (cached X now ord) = order_core ord \<and> o_remaining (cached X now ord) = o_remaining ord"
proof -
  have "decimal_to_i64 p \<noteq> 0" if "o_price ord = Some p" for p
    using that assms(3) by (auto simp: on_grid_def dest: arg_cong [where f = i64_to_decimal])
  with assms show ?thesis
    by (auto simp: order_core_def cached_def Let_def on_grid_def price_scaled_def split: option.splits)
qed

lemma run_get_saved:
  assumes "ext_spec X" "connected d" "storable X ord"
  shows "get_order ref_valkey X now (o_id ord) (saved X ord d) = (Inr (Some (cached X now ord)), saved X ord d)"
proof -
  have "parse_order_from_hmget X now
      (map (hset_all (hash_at d (okey (x_uuid_str X (o_id ord)))) (order_fields X ord)) ORDER_FIELDS)
      = Some (cached X now ord)" (is "parse_order_from_hmget X now ?vs = _")
    using ext_spec.parse_stored_order [OF assms(1,3)] .
  moreover have "\<not> list_all (\<lambda>v. v = None) ?vs"
    unfolding order_hash_fields by (simp add: order_fields_def)
  ultimately show ?thesis
    using assms(2) by (simp add: run_get_order)
qed

text \<open>
  Saving an order and reading it back gives the order. \<open>save_order_to_book\<close>
  succeeds when a connection is available, and \<open>get_order\<close> then returns the order
  as the cache keeps it; for an order whose amounts have at most eight decimals
  nothing that matching looks at is lost.
\<close>

theorem save_then_get_order:
  assumes "valkey_spec V \<alpha>" and "ext_spec X" and "connected (\<alpha> s)" and "storable X ord"
    and "on_grid (o_quantity ord)" "on_grid (o_remaining ord)"
    and "\<forall>p. o_price ord = Some p \<longrightarrow> on_grid p \<and> p \<noteq> 0"
    and "(o_order_type ord = Market) = (o_price ord = None)"
  shows "\<exists>s' s'' ord'. save_order_to_book V X ord s = (Inr (), s') \<and>
    get_order V X now (o_id ord) s' = (Inr (Some ord'), s'') \<and>
    order_core ord' = order_core ord \<and> o_remaining ord' = o_remaining ord"
proof -
  note sims = valkey_spec.sim_save_order_to_book [OF assms(1)] valkey_spec.sim_get_order [OF assms(1)]
  obtain s' where s': "save_order_to_book V X ord s = (Inr (), s')" "\<alpha> s' = saved X ord (\<alpha> s)"
    using simulates_run [OF sims(1) run_save_order [OF assms(3)]] .
  obtain s'' where "get_order V X now (o_id ord) s' = (Inr (Some (cached X now ord)), s'')"
    using simulates_run [OF sims(2), of X now "o_id ord" s'] run_get_saved [OF assms(2-4)] s'(2) by metis
  with s'(1) cached_exact [OF assms(5-8)] show ?thesis by blast
qed

text \<open>Orders with amounts that are easy to evaluate.\<close>

definition grid_order :: "uuid \<Rightarrow> side \<Rightarrow> int \<Rightarrow> int \<Rightarrow> string \<Rightarrow> rat order" where
  "grid_order i sd p q u =
     \<lparr>o_id = i, o_user_id = u, o_pair_id = ''BTC-USDT'', o_side = sd, o_order_type = Limit,
      o_tif = GTC, o_price = Some (i64_to_decimal p), o_quantity = i64_to_decimal q,
      o_remaining = i64_to_decimal q, o_status = New, o_stp_mode = StpNone, o_version = 1,
      o_sequence = 0, o_created_at = int i * 1000000, o_updated_at = 0, o_client_order_id = None,
      o_received_at = None, o_matched_at = None, o_persisted_at = None\<rparr>"

lemma on_grid_i64 [simp]: "i64_ok n \<Longrightarrow> on_grid (i64_to_decimal n :: 'd::floor_ceiling)"
  by (simp add: on_grid_def decimal_to_i64_of_i64)

lemma grid_order_sel [simp]:
  "o_id (grid_order i sd p q u) = i" "o_side (grid_order i sd p q u) = sd"
  "o_pair_id (grid_order i sd p q u) = ''BTC-USDT''"
  "o_price (grid_order i sd p q u) = Some (i64_to_decimal p)"
  "o_quantity (grid_order i sd p q u) = i64_to_decimal q"
  "o_remaining (grid_order i sd p q u) = i64_to_decimal q"
  "o_order_type (grid_order i sd p q u) = Limit" "o_user_id (grid_order i sd p q u) = u"
  "o_status (grid_order i sd p q u) = New" "o_tif (grid_order i sd p q u) = GTC"
  "o_stp_mode (grid_order i sd p q u) = StpNone"
  by (simp_all add: grid_order_def)

lemma grid_order_storable: "i < 2 ^ 63 \<Longrightarrow> storable ref_ext (grid_order i sd p q u)"
  by (simp add: grid_order_def storable_def ref_ext_def i64_ok_def)

lemma i64_to_decimal_eq_0 [simp]: "(i64_to_decimal n :: 'd::floor_ceiling) = 0 \<longleftrightarrow> n = 0"
  using i64_to_decimal_inj [of n 0] by (simp del: i64_to_decimal_inj)

theorem save_then_get_order_witness:
  "\<exists>s' s'' ord'. save_order_to_book ref_valkey ref_ext (grid_order 1 Buy 5 7 ''u1'') empty_vdata = (Inr (), s') \<and>
    get_order ref_valkey ref_ext 0 1 s' = (Inr (Some ord'), s'') \<and> o_price ord' = Some (i64_to_decimal 5)"
proof -
  let ?o = "grid_order 1 Buy 5 7 ''u1''"
  have "connected (id empty_vdata)" by (simp add: empty_vdata_def well_keyed_def)
  moreover have "i64_ok 5" "i64_ok 7" by (simp_all add: i64_ok_def)
  ultimately show ?thesis
    using save_then_get_order [OF ref.valkey_spec_axioms ref_ext.ext_spec_axioms, of empty_vdata ?o 0]
    by (force simp: order_core_def grid_order_storable)
qed

section \<open>The book as a list\<close>

definition stored_order :: "'d::floor_ceiling ext \<Rightarrow> instant \<Rightarrow> vdata \<Rightarrow> string \<Rightarrow> 'd order option" where
  "stored_order X now d i = parse_order_from_hmget X now (map (hash_at d (okey i)) ORDER_FIELDS)"

definition book_members :: "vdata \<Rightarrow> string \<Rightarrow> side \<Rightarrow> string list" where
  "book_members d p sd = map snd (zset_at d (book_key p sd))"

lemma map_filter_o: "List.map_filter f (map g xs) = List.map_filter (f \<circ> g) xs"
  by (simp add: List.map_filter_def comp_assoc filter_map o_def)

lemma run_fetch:
  assumes "connected d"
  shows "fetch_orders_by_ids ref_valkey X now ids d = (Inr (List.map_filter (stored_order X now d) ids), d)"
proof -
  have "vmapM (\<lambda>i. d_hmget (okey i) ORDER_FIELDS) ids d
      = (Inr (map (\<lambda>i. map (hash_at d (okey i)) ORDER_FIELDS) ids), d)"
    using assms by (intro vmapM_pure) (simp add: run_simps key_simps)
  with assms show ?thesis
    by (simp add: fetch_orders_by_ids_def run_simps map_filter_o o_def stored_order_def [abs_def])
qed

lemma zrange_all [simp]: "zrange_upto None None z = map snd z"
  by (simp add: zrange_upto_def zlimit_def)

lemma run_load:
  "connected d \<Longrightarrow> load_order_book ref_valkey X now p sd d =
     (Inr (List.map_filter (stored_order X now d) (book_members d p sd)), d)"
  by (simp add: load_order_book_def run_simps key_simps run_fetch book_members_def)

text \<open>
  The book invariant: the sorted set is a sorted set, and each of its members has
  a readable hash of a limit order of this book whose score is its price.
\<close>

definition entry_ok :: "'d::floor_ceiling ext \<Rightarrow> instant \<Rightarrow> vdata \<Rightarrow> string \<Rightarrow> side \<Rightarrow> int \<times> string \<Rightarrow> bool" where
  "entry_ok X now d p sd e \<longleftrightarrow>
     (case stored_order X now d (snd e) of None \<Rightarrow> False
      | Some ord \<Rightarrow> x_uuid_str X (o_id ord) = snd e \<and> o_pair_id ord = p \<and> o_side ord = sd \<and>
          o_price ord = Some (i64_to_decimal (case sd of Buy \<Rightarrow> - fst e | Sell \<Rightarrow> fst e)))"

definition book_inv :: "'d::floor_ceiling ext \<Rightarrow> instant \<Rightarrow> vdata \<Rightarrow> string \<Rightarrow> side \<Rightarrow> bool" where
  "book_inv X now d p sd \<longleftrightarrow>
     zset_ok (zset_at d (book_key p sd)) \<and> list_all (entry_ok X now d p sd) (zset_at d (book_key p sd))"

text \<open>A limit order whose price doubles represent exactly.\<close>

definition bookable :: "'d::floor_ceiling ext \<Rightarrow> 'd order \<Rightarrow> bool" where
  "bookable X ord \<longleftrightarrow> storable X ord \<and> o_order_type ord = Limit \<and> price_scaled ord \<noteq> 0 \<and>
     \<bar>price_scaled ord\<bar> \<le> 2 ^ 53"

lemma order_score_bookable:
  "bookable X ord \<Longrightarrow>
     order_score ord = (case o_side ord of Buy \<Rightarrow> - price_scaled ord | Sell \<Rightarrow> price_scaled ord)"
  by (auto simp: bookable_def order_score_def i64_neg_def split: side.splits)

lemma saved_zset:
  "zset_at (saved X ord d) (book_key p sd) =
     (if p = o_pair_id ord \<and> sd = o_side ord
      then zset_add (order_score ord) (x_uuid_str X (o_id ord)) (zset_at d (book_key p sd))
      else zset_at d (book_key p sd))"
  by (auto simp: saved_def Let_def key_simps)

lemma removed_zset:
  "zset_at (removed X ord d) (book_key p sd) =
     (if p = o_pair_id ord \<and> sd = o_side ord
      then zset_remove (x_uuid_str X (o_id ord)) (zset_at d (book_key p sd))
      else zset_at d (book_key p sd))"
  by (auto simp: removed_def Let_def key_simps)

lemma stored_saved:
  assumes "ext_spec X" "storable X ord"
  shows "stored_order X now (saved X ord d) i =
    (if i = x_uuid_str X (o_id ord) then Some (cached X now ord) else stored_order X now d i)"
proof (cases "i = x_uuid_str X (o_id ord)")
  case True
  then show ?thesis
    using ext_spec.parse_stored_order [OF assms] by (simp add: stored_order_def del: list.map)
next
  case False
  then show ?thesis by (simp add: stored_order_def saved_def Let_def key_simps)
qed

lemma stored_removed:
  "i \<noteq> x_uuid_str X (o_id ord) \<Longrightarrow> stored_order X now (removed X ord d) i = stored_order X now d i"
  by (simp add: stored_order_def removed_def Let_def key_simps)

lemma book_inv_saved:
  assumes "ext_spec X" "bookable X ord" "book_inv X now d (o_pair_id ord) (o_side ord)"
  shows "book_inv X now (saved X ord d) (o_pair_id ord) (o_side ord)"
proof -
  let ?i = "x_uuid_str X (o_id ord)"
  have st: "storable X ord" using assms(2) by (simp add: bookable_def)
  have "entry_ok X now (saved X ord d) (o_pair_id ord) (o_side ord) (order_score ord, ?i)"
    using assms(2) by (auto simp: entry_ok_def stored_saved [OF assms(1) st] cached_def Let_def
        order_score_bookable bookable_def split: side.splits)
  moreover have "entry_ok X now (saved X ord d) (o_pair_id ord) (o_side ord) e"
    if "entry_ok X now d (o_pair_id ord) (o_side ord) e" "snd e \<noteq> ?i" for e
    using that by (simp add: entry_ok_def stored_saved [OF assms(1) st])
  ultimately show ?thesis
    using assms(3) by (auto simp: book_inv_def saved_zset list_all_iff)
qed

lemma book_inv_removed:
  assumes "book_inv X now d (o_pair_id ord) (o_side ord)"
  shows "book_inv X now (removed X ord d) (o_pair_id ord) (o_side ord)"
  using assms by (auto simp: book_inv_def removed_zset list_all_iff entry_ok_def stored_removed)

lemma same_keys:
  assumes "vd_keys d = vd_keys d'"
  shows "well_keyed d = well_keyed d'" "book_inv X now d = book_inv X now d'"
    "zset_at d = zset_at d'" "hash_at d = hash_at d'" "stored_order X now d = stored_order X now d'"
proof -
  show z: "zset_at d = zset_at d'" and h: "hash_at d = hash_at d'"
    using assms by (auto simp: at_defs fun_eq_iff)
  show st: "stored_order X now d = stored_order X now d'"
    by (simp add: fun_eq_iff stored_order_def h)
  show "well_keyed d = well_keyed d'" using assms by (simp add: well_keyed_def)
  show "book_inv X now d = book_inv X now d'"
    by (simp add: fun_eq_iff book_inv_def z entry_ok_def [abs_def] st)
qed

lemma conn_cases:
  obtains (down) e d' where "d_conn d = (Inl e, d')" "vd_keys d' = vd_keys d"
    | (up) d' where "d_conn d = (Inr (), d')" "vd_keys d' = vd_keys d"
proof (cases "vd_pool d")
  case Nil
  then show thesis using up by simp
next
  case (Cons b bs)
  then show thesis using up [of "d\<lparr>vd_pool := bs\<rparr>"] down [of PoolError "d\<lparr>vd_pool := bs\<rparr>"]
    by (cases b) simp_all
qed

lemma save_order_cases:
  assumes "save_order_to_book ref_valkey X ord d = (r, d')" "well_keyed d"
  obtains (down) "r \<noteq> Inr ()" "vd_keys d' = vd_keys d" | (up) d1 where "r = Inr ()" "vd_keys d1 = vd_keys d" "d' = saved X ord d1"
proof (cases d rule: conn_cases)
  case (down e d1)
  with assms(1) have "d' = d1" "r \<noteq> Inr ()" by (auto simp: save_order_to_book_def run_simps)
  with down that(1) show thesis by simp
next
  case (up d1)
  with assms have "d' = saved X ord d1" "r = Inr ()"
    by (simp_all add: save_order_to_book_def book_key_side run_simps key_simps saved_def Let_def
        same_keys(1) [OF up(2)])
  with up that(2) show thesis by blast
qed

lemma remove_order_cases:
  assumes "remove_order_from_book ref_valkey X ord d = (r, d')" "well_keyed d"
  obtains (down) "r \<noteq> Inr ()" "vd_keys d' = vd_keys d" | (up) d1 where "r = Inr ()" "vd_keys d1 = vd_keys d" "d' = removed X ord d1"
proof (cases d rule: conn_cases)
  case (down e d1)
  with assms(1) have "d' = d1" "r \<noteq> Inr ()" by (auto simp: remove_order_from_book_def run_simps)
  with down that(1) show thesis by simp
next
  case (up d1)
  with assms have "d' = removed X ord d1" "r = Inr ()"
    by (simp_all add: remove_order_from_book_def run_simps key_simps removed_def Let_def
        same_keys(1) [OF up(2)])
  with up that(2) show thesis by blast
qed

text \<open>
  The states that sequences of saves and removals of one book reach, with the orders that are in the book then: those whose
  last successful operation was a save, as they were saved.
\<close>

inductive book_run :: "'s valkey \<Rightarrow> 'd::floor_ceiling ext \<Rightarrow> string \<Rightarrow> side \<Rightarrow> 's \<Rightarrow> (uuid \<rightharpoonup> 'd order) \<Rightarrow> 's \<Rightarrow> bool"
  for V X p sd s0 where
  start: "book_run V X p sd s0 Map.empty s0"
| save: "book_run V X p sd s0 m s \<Longrightarrow> bookable X ord \<Longrightarrow> o_pair_id ord = p \<Longrightarrow> o_side ord = sd \<Longrightarrow>
    save_order_to_book V X ord s = (r, s') \<Longrightarrow>
    book_run V X p sd s0 (if r = Inr () then m(o_id ord \<mapsto> ord) else m) s'"
| remove: "book_run V X p sd s0 m s \<Longrightarrow> o_pair_id ord = p \<Longrightarrow> o_side ord = sd \<Longrightarrow>
    remove_order_from_book V X ord s = (r, s') \<Longrightarrow>
    book_run V X p sd s0 (if r = Inr () then m(o_id ord := None) else m) s'"

text \<open>The members of the sorted set are the orders of \<open>m\<close>, each with its hash.\<close>

definition book_holds :: "'d::floor_ceiling ext \<Rightarrow> instant \<Rightarrow> vdata \<Rightarrow> string \<Rightarrow> side \<Rightarrow> (uuid \<rightharpoonup> 'd order) \<Rightarrow> bool" where
  "book_holds X now d p sd m \<longleftrightarrow> set (book_members d p sd) = x_uuid_str X ` dom m \<and>
     (\<forall>i ord. m i = Some ord \<longrightarrow> o_id ord = i \<and> stored_order X now d (x_uuid_str X i) = Some (cached X now ord))"

lemma saved_well_keyed [simp]: "well_keyed d \<Longrightarrow> well_keyed (saved X ord d)"
  and removed_well_keyed [simp]: "well_keyed d \<Longrightarrow> well_keyed (removed X ord d)"
  by (simp_all add: saved_def removed_def Let_def key_simps)

lemma book_members_saved:
  "set (book_members (saved X ord d) (o_pair_id ord) (o_side ord)) =
     insert (x_uuid_str X (o_id ord)) (set (book_members d (o_pair_id ord) (o_side ord)))"
  by (force simp: book_members_def saved_zset)

lemma book_members_removed:
  "set (book_members (removed X ord d) (o_pair_id ord) (o_side ord)) =
     set (book_members d (o_pair_id ord) (o_side ord)) - {x_uuid_str X (o_id ord)}"
  by (force simp: book_members_def removed_zset zset_remove_def)

lemma book_holds_saved:
  assumes "ext_spec X" "bookable X ord" "book_holds X now d (o_pair_id ord) (o_side ord) m"
  shows "book_holds X now (saved X ord d) (o_pair_id ord) (o_side ord) (m(o_id ord \<mapsto> ord))"
proof -
  have st: "storable X ord" using assms(2) by (simp add: bookable_def)
  show ?thesis using assms(3)
    by (auto simp: book_holds_def book_members_saved stored_saved [OF assms(1) st] ext_spec.uuid_str_inj [OF assms(1)])
qed

lemma book_holds_removed:
  assumes "ext_spec X" "book_holds X now d (o_pair_id ord) (o_side ord) m"
  shows "book_holds X now (removed X ord d) (o_pair_id ord) (o_side ord) (m(o_id ord := None))"
  using assms(2)
  by (auto simp: book_holds_def book_members_removed stored_removed ext_spec.uuid_str_inj [OF assms(1)])

lemma book_run_inv:
  assumes "book_run V X p sd s0 m s" and "valkey_spec V \<alpha>" and "ext_spec X"
    and "well_keyed (\<alpha> s0)" and "book_inv X now (\<alpha> s0) p sd"
  shows "well_keyed (\<alpha> s) \<and> book_inv X now (\<alpha> s) p sd \<and>
    (zset_at (\<alpha> s0) (book_key p sd) = [] \<longrightarrow> book_holds X now (\<alpha> s) p sd m)"
  using assms(1)
proof (induction rule: book_run.induct)
  case (save m s ord r s')
  then have "save_order_to_book ref_valkey X ord (\<alpha> s) = (r, \<alpha> s')"
    using simulatesD [OF valkey_spec.sim_save_order_to_book [OF assms(2)]] by blast
  then show ?case
  proof (cases rule: save_order_cases [consumes 1, case_names wk down up])
    case (up d1)
    note k = same_keys [OF up(2)]
    have "book_inv X now d1 p sd" using save.IH by (simp add: k)
    then have "book_inv X now (saved X ord d1) p sd"
      using book_inv_saved [OF assms(3) \<open>bookable X ord\<close>, of now d1] save.hyps by simp
    moreover have "book_holds X now d1 p sd m \<Longrightarrow> book_holds X now (saved X ord d1) p sd (m(o_id ord \<mapsto> ord))"
      using book_holds_saved [OF assms(3) \<open>bookable X ord\<close>, of now d1 m] save.hyps by simp
    moreover have "book_holds X now d1 p sd m = book_holds X now (\<alpha> s) p sd m" by (simp add: book_holds_def book_members_def k)
    ultimately show ?thesis using up save.IH k(1) by (simp add: fun_upd_def)
  next
    case down
    note k = same_keys [OF down(2)]
    show ?thesis using down(1) save.IH by (simp add: k book_holds_def book_members_def)
  qed (simp add: save.IH)
next
  case (remove m s ord r s')
  then have "remove_order_from_book ref_valkey X ord (\<alpha> s) = (r, \<alpha> s')"
    using simulatesD [OF valkey_spec.sim_remove_order_from_book [OF assms(2)]] by blast
  then show ?case
  proof (cases rule: remove_order_cases [consumes 1, case_names wk down up])
    case (up d1)
    note k = same_keys [OF up(2)]
    have "book_inv X now d1 p sd" using remove.IH by (simp add: k)
    then have "book_inv X now (removed X ord d1) p sd"
      using book_inv_removed [of X now d1 ord] remove.hyps by simp
    moreover have "book_holds X now d1 p sd m \<Longrightarrow> book_holds X now (removed X ord d1) p sd (m(o_id ord := None))"
      using book_holds_removed [OF assms(3), of now d1 ord m] remove.hyps by simp
    moreover have "book_holds X now d1 p sd m = book_holds X now (\<alpha> s) p sd m" by (simp add: book_holds_def book_members_def k)
    ultimately show ?thesis using up remove.IH k(1) by (simp add: fun_upd_def)
  next
    case down
    note k = same_keys [OF down(2)]
    show ?thesis using down(1) remove.IH by (simp add: k book_holds_def book_members_def)
  qed (simp add: remove.IH)
qed (use assms in \<open>simp add: book_holds_def book_members_def\<close>)

section \<open>Priority order\<close>

lemma map_filter_all:
  "(\<And>x. x \<in> set xs \<Longrightarrow> f x \<noteq> None) \<Longrightarrow> List.map_filter f xs = map (\<lambda>x. the (f x)) xs"
  by (induction xs) (force simp: List.map_filter_simps split: option.splits)+

lemma book_inv_stored:
  assumes "book_inv X now d p sd" "e \<in> set (zset_at d (book_key p sd))"
  shows "stored_order X now d (snd e) \<noteq> None"
    "x_uuid_str X (o_id (the (stored_order X now d (snd e)))) = snd e"
    "o_pair_id (the (stored_order X now d (snd e))) = p"
    "o_side (the (stored_order X now d (snd e))) = sd"
    "o_price (the (stored_order X now d (snd e))) =
       Some (i64_to_decimal (case sd of Buy \<Rightarrow> - fst e | Sell \<Rightarrow> fst e))"
  using assms by (auto simp: book_inv_def list_all_iff entry_ok_def split: option.splits)

definition book_list :: "'d::floor_ceiling ext \<Rightarrow> instant \<Rightarrow> vdata \<Rightarrow> string \<Rightarrow> side \<Rightarrow> 'd order list" where
  "book_list X now d p sd = map (\<lambda>e. the (stored_order X now d (snd e))) (zset_at d (book_key p sd))"

lemma run_load_inv:
  assumes "connected d" "book_inv X now d p sd"
  shows "load_order_book ref_valkey X now p sd d = (Inr (book_list X now d p sd), d)"
proof -
  have "List.map_filter (stored_order X now d) (book_members d p sd) = book_list X now d p sd"
    unfolding book_members_def book_list_def map_filter_o
    by (subst map_filter_all) (auto dest: book_inv_stored(1) [OF assms(2)])
  with assms(1) show ?thesis by (simp add: run_load)
qed

lemma book_list_sorted:
  assumes "book_inv X now d p sd"
  shows "book_sorted (opposite sd) (book_list X now d p sd)"
proof -
  let ?z = "zset_at d (book_key p sd)"
  have le: "fst a \<le> fst b" if "a \<le> b" for a b :: "int \<times> string"
    using that by (auto simp: less_eq_prod_def)
  have "sorted_wrt (\<lambda>a b. fst a \<le> fst b) ?z"
    using sorted_wrt_mono_rel [of ?z "(\<le>)", OF le] assms by (simp add: book_inv_def zset_ok_def)
  then show ?thesis
    unfolding book_sorted_def book_list_def sorted_wrt_map
    by (rule sorted_wrt_mono_rel [rotated])
       (cases sd; simp add: book_inv_stored(5) [OF assms])
qed

lemma book_list_ids:
  assumes "book_inv X now d p sd"
  shows "map (\<lambda>ord. x_uuid_str X (o_id ord)) (book_list X now d p sd) = book_members d p sd"
  by (simp add: book_list_def book_members_def book_inv_stored(2) [OF assms])

lemma book_list_distinct:
  assumes "book_inv X now d p sd"
  shows "distinct (map o_id (book_list X now d p sd))"
proof -
  have "distinct (map (\<lambda>ord. x_uuid_str X (o_id ord)) (book_list X now d p sd))"
    using assms unfolding book_list_ids [OF assms] by (simp add: book_members_def book_inv_def zset_ok_def)
  then show ?thesis
    using distinct_map [of "x_uuid_str X" "map o_id (book_list X now d p sd)"] by (simp add: o_def)
qed

text \<open>
  C22: the cached book is what was saved, in priority order. Whatever sequence of saves of limit orders and
  removals has run on a book that was empty, with connection failures in between,
  \<open>load_order_book\<close> returns exactly the orders whose last successful operation was a save (in the form in which the cache
  holds them), each once, the way the matching engine expects them: asks by
  ascending price, bids by descending price.
\<close>

theorem loaded_book_sorted:
  assumes "valkey_spec V \<alpha>" and "ext_spec X" and "well_keyed (\<alpha> s0)"
    and "zset_at (\<alpha> s0) (book_key p sd) = []" and "book_run V X p sd s0 m s" and "vd_pool (\<alpha> s) = []"
  shows "\<exists>book s'. load_order_book V X now p sd s = (Inr book, s') \<and>
    set book = cached X now ` ran m \<and> distinct (map o_id book) \<and>
    book_sorted (opposite sd) book \<and> (\<forall>ord \<in> set book. o_pair_id ord = p \<and> o_side ord = sd)"
proof -
  have "book_inv X now (\<alpha> s0) p sd" using assms(4) by (simp add: book_inv_def)
  from book_run_inv [OF assms(5,1-3) this] assms(4)
  have wk: "well_keyed (\<alpha> s)" and inv: "book_inv X now (\<alpha> s) p sd" and h: "book_holds X now (\<alpha> s) p sd m" by simp_all
  obtain s' where "load_order_book V X now p sd s = (Inr (book_list X now (\<alpha> s) p sd), s')"
    using simulates_run [OF valkey_spec.sim_load_order_book [OF assms(1)] run_load_inv [OF _ inv]]
      wk assms(6) by blast
  moreover have "\<forall>ord \<in> set (book_list X now (\<alpha> s) p sd). o_pair_id ord = p \<and> o_side ord = sd"
    by (auto simp: book_list_def book_inv_stored(3,4) [OF inv])
  moreover have "set (book_list X now (\<alpha> s) p sd) = (\<lambda>i. the (stored_order X now (\<alpha> s) i)) ` set (book_members (\<alpha> s) p sd)"
    by (simp add: book_list_def book_members_def image_image)
  then have "set (book_list X now (\<alpha> s) p sd) = cached X now ` ran m"
    using h by (force simp: book_holds_def ran_def dom_def image_iff)
  ultimately show ?thesis
    using book_list_sorted [OF inv] book_list_distinct [OF inv] by blast
qed

text \<open>Two asks at one price: order 2 was created before order 10.\<close>

definition two_asks :: vdata where
  "two_asks = saved ref_ext (grid_order 10 Sell 9 5 ''u2'') (saved ref_ext (grid_order 2 Sell 9 5 ''u1'') empty_vdata)"

lemma grid_order_price: "i64_ok p \<Longrightarrow> price_scaled (grid_order i sd p q u) = p"
  by (simp add: price_scaled_def decimal_to_i64_of_i64)

lemma grid_order_bookable:
  "i < 2 ^ 63 \<Longrightarrow> p \<noteq> 0 \<Longrightarrow> \<bar>p\<bar> \<le> 2 ^ 53 \<Longrightarrow> bookable ref_ext (grid_order i sd p q u)"
  by (simp add: bookable_def grid_order_storable grid_order_price i64_ok_exact)

lemma connected_empty [simp]: "connected empty_vdata"
  by (simp add: empty_vdata_def well_keyed_def)

lemma empty_zset [simp]: "zset_at empty_vdata k = []"
  by (simp add: empty_vdata_def zset_at_def)

lemma two_asks_run:
  "book_run ref_valkey ref_ext ''BTC-USDT'' Sell empty_vdata
     [2 \<mapsto> grid_order 2 Sell 9 5 ''u1'', 10 \<mapsto> grid_order 10 Sell 9 5 ''u2''] two_asks"
proof -
  let ?a = "grid_order 2 Sell 9 5 ''u1''" and ?b = "grid_order 10 Sell 9 5 ''u2''"
  have "book_run ref_valkey ref_ext ''BTC-USDT'' Sell empty_vdata
      (if Inr () = (Inr () :: unit result) then Map.empty(o_id ?a \<mapsto> ?a) else Map.empty) (saved ref_ext ?a empty_vdata)"
    by (rule book_run.save [OF book_run.start grid_order_bookable _ _ run_save_order]) simp_all
  then have "book_run ref_valkey ref_ext ''BTC-USDT'' Sell empty_vdata
      (if Inr () = (Inr () :: unit result) then [2 \<mapsto> ?a](o_id ?b \<mapsto> ?b) else [2 \<mapsto> ?a]) two_asks"
    unfolding two_asks_def
    by (intro book_run.save [OF _ grid_order_bookable _ _ run_save_order]) simp_all
  then show ?thesis by simp
qed

lemma two_asks_connected: "connected two_asks"
  by (simp add: two_asks_def)

theorem loaded_book_sorted_witness:
  "\<exists>book s'. load_order_book ref_valkey ref_ext 0 ''BTC-USDT'' Sell two_asks = (Inr book, s') \<and>
     set book = {cached ref_ext 0 (grid_order 2 Sell 9 5 ''u1''), cached ref_ext 0 (grid_order 10 Sell 9 5 ''u2'')} \<and>
     distinct (map o_id book) \<and> book_sorted Buy book"
proof -
  have "cached ref_ext 0 ` ran [2 :: uuid \<mapsto> grid_order 2 Sell 9 5 ''u1'', 10 \<mapsto> grid_order 10 Sell 9 5 ''u2''] =
      {cached ref_ext 0 (grid_order 2 Sell 9 5 ''u1''), cached ref_ext 0 (grid_order 10 Sell 9 5 ''u2'')}"
    by auto
  then show ?thesis
    using loaded_book_sorted [OF ref.valkey_spec_axioms ref_ext.ext_spec_axioms _ _ two_asks_run, of 0]
      two_asks_connected by (fastforce simp del: ran_map_upd)
qed

text \<open>
  At one price the book is ordered by the text of the order identifier. The
  sorted set breaks ties by its members, so the time of an order plays no part in
  its priority, although the book is described as sorted by price and time.
\<close>

theorem equal_prices_by_identifier:
  assumes "valkey_spec V \<alpha>" and "ext_spec X" and "well_keyed (\<alpha> s0)"
    and "zset_at (\<alpha> s0) (book_key p sd) = []" and "book_run V X p sd s0 m s" and "vd_pool (\<alpha> s) = []"
    and "load_order_book V X now p sd s = (Inr book, s')"
    and "i < j" "j < length book" "o_price (book ! i) = o_price (book ! j)"
  shows "x_uuid_str X (o_id (book ! i)) < x_uuid_str X (o_id (book ! j))"
proof -
  have "book_inv X now (\<alpha> s0) p sd" using assms(4) by (simp add: book_inv_def)
  from book_run_inv [OF assms(5,1-3) this]
  have wk: "connected (\<alpha> s)" and inv: "book_inv X now (\<alpha> s) p sd" using assms(6) by simp_all
  let ?z = "zset_at (\<alpha> s) (book_key p sd)"
  have book: "book = book_list X now (\<alpha> s) p sd"
    using simulatesD [OF valkey_spec.sim_load_order_book [OF assms(1)] assms(7)] run_load_inv [OF wk inv]
    by auto
  with assms(8,9) have len: "i < length ?z" "j < length ?z" by (simp_all add: book_list_def)
  then have mem: "?z ! i \<in> set ?z" "?z ! j \<in> set ?z" by simp_all
  have "fst (?z ! i) = fst (?z ! j)"
    using assms(10) len book_inv_stored(5) [OF inv mem(1)] book_inv_stored(5) [OF inv mem(2)]
    by (cases sd) (simp_all add: book book_list_def)
  moreover have "?z ! i \<le> ?z ! j" "snd (?z ! i) \<noteq> snd (?z ! j)"
    using inv len assms(8) nth_eq_iff_index_eq [of "map snd ?z" i j]
    by (auto simp: book_inv_def zset_ok_def intro: sorted_nth_mono)
  ultimately have "snd (?z ! i) < snd (?z ! j)"
    by (auto simp: less_eq_prod_def)
  then show ?thesis
    using len by (simp add: book book_list_def book_inv_stored(2) [OF inv mem(1)]
        book_inv_stored(2) [OF inv mem(2)])
qed

lemma two_asks_zset: "zset_at two_asks (book_key ''BTC-USDT'' Sell) = [(9, ''10''), (9, ''2'')]"
proof -
  have "order_score (grid_order i Sell 9 5 u) = 9" for i u
    by (simp add: order_score_def grid_order_price i64_ok_def)
  then show ?thesis
    by (simp add: two_asks_def saved_zset ref_ext_def zset_add_def zset_remove_def string_of_nat.simps
        less_eq_prod_def less_char_def)
qed

lemma two_asks_list:
  "book_list ref_ext 0 two_asks ''BTC-USDT'' Sell =
     [cached ref_ext 0 (grid_order 10 Sell 9 5 ''u2''), cached ref_ext 0 (grid_order 2 Sell 9 5 ''u1'')]"
proof -
  have "x_uuid_str ref_ext 10 = ''10''" "x_uuid_str ref_ext 2 = ''2''"
    by (simp_all add: ref_ext_def string_of_nat.simps)
  then show ?thesis
    unfolding book_list_def two_asks_zset
    by (simp add: two_asks_def stored_saved [OF ref_ext.ext_spec_axioms grid_order_storable])
qed

theorem equal_prices_by_identifier_witness:
  "\<exists>book s'. load_order_book ref_valkey ref_ext 0 ''BTC-USDT'' Sell two_asks = (Inr book, s') \<and>
     x_uuid_str ref_ext (o_id (book ! 0)) < x_uuid_str ref_ext (o_id (book ! 1)) \<and>
     o_created_at (book ! 1) < o_created_at (book ! 0)"
proof -
  let ?l = "book_list ref_ext 0 two_asks ''BTC-USDT'' Sell"
  have inv: "book_inv ref_ext 0 two_asks ''BTC-USDT'' Sell"
    using book_run_inv [OF two_asks_run ref.valkey_spec_axioms ref_ext.ext_spec_axioms, of 0]
    by (simp add: book_inv_def)
  have load: "load_order_book ref_valkey ref_ext 0 ''BTC-USDT'' Sell two_asks = (Inr ?l, two_asks)"
    by (rule run_load_inv [OF two_asks_connected inv])
  moreover have "x_uuid_str ref_ext (o_id (?l ! 0)) < x_uuid_str ref_ext (o_id (?l ! 1))"
    by (rule equal_prices_by_identifier [OF ref.valkey_spec_axioms ref_ext.ext_spec_axioms _ _ two_asks_run _ load])
       (use two_asks_connected in \<open>simp_all add: two_asks_list cached_def Let_def grid_order_price i64_ok_def\<close>)
  moreover have "o_created_at (?l ! 1) < o_created_at (?l ! 0)"
    by (simp add: two_asks_list cached_def Let_def created_from_ms_def ref_ext_sel grid_order_def
        signed_divide_int_def signed_modulo_int_def)
  ultimately show ?thesis by blast
qed

end
