(* ===== verification/Book_Versions.thy ===== *)
theory Book_Versions
  imports Book_Cache_Props
begin

text \<open>
  The versioned update of the book (\<open>load_order_book_snapshot\<close>,
  \<open>apply_book_mutations_cas\<close>): the update is applied exactly when the version is
  the one of the snapshot, and of two updates prepared on one snapshot at most one
  is applied. The hashes of the orders to be upserted are written before the version is
  compared, also when the update is then refused.
\<close>

section \<open>Execution\<close>

definition prewritten :: "'d::floor_ceiling ext \<Rightarrow> 'd order list \<Rightarrow> vdata \<Rightarrow> vdata" where
  "prewritten X ords d =
     fold (\<lambda>ord d. let k = okey (x_uuid_str X (o_id ord))
                   in put_key k (Some (VHash (hset_all (hash_at d k) (order_fields X ord)))) d) ords d"

lemma prewritten_Nil [simp]: "prewritten X [] d = d"
  by (simp add: prewritten_def)

lemma prewritten_keeps:
  "well_keyed d \<Longrightarrow> well_keyed (prewritten X ords d)"
  "vd_pool (prewritten X ords d) = vd_pool d"
  "zset_at (prewritten X ords d) (book_key p sd) = zset_at d (book_key p sd)"
  "str_at (prewritten X ords d) (version_key p) = str_at d (version_key p)"
  by (induction ords arbitrary: d) (simp_all add: prewritten_def Let_def key_simps)

lemma run_prewrite:
  "well_keyed d \<Longrightarrow>
     vpipe (map (\<lambda>ord. d_hset (okey (x_uuid_str X (o_id ord))) (order_fields X ord)) ords) d
     = (Inr (), prewritten X ords d)"
  by (induction ords arbitrary: d) (simp_all add: prewritten_def Let_def run_simps key_simps)

definition mutation_effect :: "string \<Rightarrow> mutation \<Rightarrow> vdata \<Rightarrow> vdata" where
  "mutation_effect p m d =
     (let b = book_key p Buy; a = book_key p Sell in
      case mu_op m of
        RemoveBid \<Rightarrow> put_key (mu_order_key m) None (put_key b (zset_value (zset_remove (mu_oid m) (zset_at d b))) d)
      | RemoveAsk \<Rightarrow> put_key (mu_order_key m) None (put_key a (zset_value (zset_remove (mu_oid m) (zset_at d a))) d)
      | UpsertBid \<Rightarrow> put_key b (zset_value (zset_add (mu_score m) (mu_oid m) (zset_at d b))) d
      | UpsertAsk \<Rightarrow> put_key a (zset_value (zset_add (mu_score m) (mu_oid m) (zset_at d a))) d)"

text \<open>The same effect on the sorted set of one side.\<close>

fun zset_mutation :: "side \<Rightarrow> mutation \<Rightarrow> (int \<times> string) list \<Rightarrow> (int \<times> string) list" where
  "zset_mutation sd m z =
     (if mu_op m = (case sd of Buy \<Rightarrow> RemoveBid | Sell \<Rightarrow> RemoveAsk) then zset_remove (mu_oid m) z
      else if mu_op m = (case sd of Buy \<Rightarrow> UpsertBid | Sell \<Rightarrow> UpsertAsk) then zset_add (mu_score m) (mu_oid m) z
      else z)"

definition order_mutations :: "mutation list \<Rightarrow> bool" where
  "order_mutations ms \<longleftrightarrow> list_all (\<lambda>m. mu_order_key m = okey (mu_oid m)) ms"

lemma order_mutations_cas [simp]: "order_mutations (cas_mutations X us inc)"
  by (auto simp: order_mutations_def cas_mutations_def make_mutation_def list_all_iff split: option.splits)

lemma mutation_effect_keeps:
  assumes "mu_order_key m = okey (mu_oid m)"
  shows "well_keyed d \<Longrightarrow> well_keyed (mutation_effect p m d)"
    "vd_pool (mutation_effect p m d) = vd_pool d"
    "str_at (mutation_effect p m d) (version_key q) = str_at d (version_key q)"
    "zset_at (mutation_effect p m d) (book_key p sd) = zset_mutation sd m (zset_at d (book_key p sd))"
  using assms
  by (cases "mu_op m"; cases sd; simp add: mutation_effect_def Let_def key_simps)+

lemma mutations_keep:
  assumes "order_mutations ms"
  shows "well_keyed d \<Longrightarrow> well_keyed (fold (mutation_effect p) ms d)"
    "vd_pool (fold (mutation_effect p) ms d) = vd_pool d"
    "str_at (fold (mutation_effect p) ms d) (version_key q) = str_at d (version_key q)"
    "zset_at (fold (mutation_effect p) ms d) (book_key p sd) =
       fold (zset_mutation sd) ms (zset_at d (book_key p sd))"
  using assms
  by (induction ms arbitrary: d) (simp_all add: order_mutations_def mutation_effect_keeps del: zset_mutation.simps)

lemma run_mutation:
  assumes "well_keyed d" "mu_order_key m = okey (mu_oid m)"
  shows "cas_mutation ref_valkey (bids_key p) (asks_key p) m d = (Inr (), mutation_effect p m d)"
  using assms
  by (cases "mu_op m") (simp_all add: cas_mutation_def mutation_effect_def Let_def book_key_def run_simps key_simps)

lemma run_mutations:
  assumes "well_keyed d" "order_mutations ms"
  shows "vforM (cas_mutation ref_valkey (bids_key p) (asks_key p)) ms d = (Inr (), fold (mutation_effect p) ms d)"
  using assms
  by (induction ms arbitrary: d) (simp_all add: order_mutations_def run_simps run_mutation mutation_effect_keeps)

definition upserts :: "'d order list \<Rightarrow> 'd order option \<Rightarrow> 'd order list" where
  "upserts us inc = filter needs_hset us @ (case inc of None \<Rightarrow> [] | Some i \<Rightarrow> [i])"

lemma false_no_int: "''false'' \<noteq> string_of_int n"
proof
  assume "''false'' = string_of_int n"
  then have "parse_int ''false'' = Some n" using parse_int_string_of_int by simp
  then show False by (simp add: parse_int_def parse_nat_def is_digit_def)
qed

lemma run_cas:
  assumes "connected d"
  shows "apply_book_mutations_cas ref_valkey X p ev us inc d =
    (if str_at d (version_key p) = Some (string_of_int ev) then
       (let d' = fold (mutation_effect p) (cas_mutations X us inc) (prewritten X (upserts us inc) d)
        in case add_to (Some (string_of_int ev)) 1 of
             Inl e \<Rightarrow> (Inl (ScriptError ''CAS script error''), d')
           | Inr n \<Rightarrow> (Inr CasOk, put_key (version_key p) (Some (VStr (string_of_int n))) d'))
     else (Inr CasConflict, prewritten X (upserts us inc) d))"
proof -
  let ?d1 = "prewritten X (upserts us inc) d"
  have wk: "well_keyed ?d1" and pre: "(if upserts us inc = [] then vret () else
      vpipe (map (\<lambda>ord. d_hset (okey (x_uuid_str X (o_id ord))) (order_fields X ord)) (upserts us inc))) d
      = (Inr (), ?d1)"
    using assms run_prewrite [of d X "upserts us inc"] by (auto simp: prewritten_keeps run_simps)
  have cond: "option_or (str_at d (version_key p)) ''false'' \<noteq> string_of_int ev \<longleftrightarrow>
      str_at d (version_key p) \<noteq> Some (string_of_int ev)"
    using false_no_int by (cases "str_at d (version_key p)") auto
  have script: "CAS_SCRIPT ref_valkey p ev (cas_mutations X us inc) ?d1 =
      (if str_at d (version_key p) = Some (string_of_int ev) then
         (let d' = fold (mutation_effect p) (cas_mutations X us inc) ?d1
          in case add_to (Some (string_of_int ev)) 1 of Inl e \<Rightarrow> (Inl e, d')
             | Inr n \<Rightarrow> (Inr (), put_key (version_key p) (Some (VStr (string_of_int n))) d'))
       else (Inl (ScriptError ''VERSION_CONFLICT''), ?d1))"
    using wk cond
    by (auto simp: CAS_SCRIPT_def vbind_def run_simps key_simps prewritten_keeps run_mutations mutations_keep
        Let_def split: sum.splits)
  have err: "add_to x b \<noteq> Inl (ScriptError e)" for x b e
    by (auto simp: add_to_def split: option.splits)
  show ?thesis
    unfolding apply_book_mutations_cas_def upserts_def [symmetric] Let_def ref_valkey_ops
    using assms pre script err
    by (auto simp: vbind_def vtry_def run_simps Let_def split: sum.splits)
qed

text \<open>The keys the update writes before the script runs, and what the hashes read as afterwards.\<close>

definition upsert_keys :: "'d ext \<Rightarrow> 'd order list \<Rightarrow> 'd order option \<Rightarrow> string set" where
  "upsert_keys X us inc = (\<lambda>ord. okey (x_uuid_str X (o_id ord))) ` set (upserts us inc)"

lemma prewritten_frame:
  "k \<notin> (\<lambda>ord. okey (x_uuid_str X (o_id ord))) ` set ords \<Longrightarrow> vd_keys (prewritten X ords d) k = vd_keys d k"
  by (induction ords arbitrary: d) (simp_all add: prewritten_def Let_def put_key_def)

lemma prewritten_stored:
  assumes "ext_spec X" "distinct (map o_id ords)" "ord \<in> set ords" "storable X ord"
  shows "stored_order X now (prewritten X ords d) (x_uuid_str X (o_id ord)) = Some (cached X now ord)"
  using assms(2,3)
proof (induction ords arbitrary: d)
  case (Cons a ords)
  let ?k = "\<lambda>ord. okey (x_uuid_str X (o_id ord))"
  let ?d = "put_key (?k a) (Some (VHash (hset_all (hash_at d (?k a)) (order_fields X a)))) d"
  have step: "prewritten X (a # ords) d = prewritten X ords ?d" by (simp add: prewritten_def Let_def)
  show ?case
  proof (cases "ord = a")
    case True
    then have "?k a \<notin> ?k ` set ords"
      using Cons.prems ext_spec.uuid_str_inj [OF assms(1)] by (auto simp: key_simps)
    then have "hash_at (prewritten X ords ?d) (?k a) = hash_at ?d (?k a)"
      using prewritten_frame [of "?k a" X ords ?d] by (simp add: hash_at_def)
    then show ?thesis
      using ext_spec.parse_stored_order [OF assms(1,4)] True
      by (simp add: step stored_order_def key_simps del: list.map)
  next
    case False
    then show ?thesis using Cons.IH [of ?d] Cons.prems by (simp add: step)
  qed
qed simp

section \<open>Properties\<close>

text \<open>
  C23: what a conflict leaves behind. When the version of the pair is not the
  expected one, \<open>apply_book_mutations_cas\<close> reports a conflict and changes no sorted set and no
  version counter of any pair: no key at all but the hashes of the orders to be
  upserted. Those are written before the script compares the versions, so after the conflict they hold the
  fields of the refused update: an order that is still in a book is then loaded as the refused update has it.
\<close>

theorem cas_conflict_keeps_sides:
  assumes "valkey_spec V \<alpha>" and "connected (\<alpha> s)" and "ext_spec X"
    and "str_at (\<alpha> s) (version_key p) \<noteq> Some (string_of_int ev)" and "distinct (map o_id (upserts us inc))"
  shows "\<exists>s'. apply_book_mutations_cas V X p ev us inc s = (Inr CasConflict, s') \<and>
    (\<forall>q sd. zset_at (\<alpha> s') (book_key q sd) = zset_at (\<alpha> s) (book_key q sd)) \<and>
    (\<forall>q. str_at (\<alpha> s') (version_key q) = str_at (\<alpha> s) (version_key q)) \<and>
    (\<forall>k. k \<notin> upsert_keys X us inc \<longrightarrow> vd_keys (\<alpha> s') k = vd_keys (\<alpha> s) k) \<and>
    (\<forall>ord \<in> set (upserts us inc). storable X ord \<longrightarrow>
       stored_order X now (\<alpha> s') (x_uuid_str X (o_id ord)) = Some (cached X now ord))"
proof -
  have "apply_book_mutations_cas ref_valkey X p ev us inc (\<alpha> s) =
      (Inr CasConflict, prewritten X (upserts us inc) (\<alpha> s))"
    using assms(2,4) by (simp add: run_cas)
  from simulates_run [OF valkey_spec.sim_apply_book_mutations_cas [OF assms(1)] this]
  obtain s' where "apply_book_mutations_cas V X p ev us inc s = (Inr CasConflict, s')"
    "\<alpha> s' = prewritten X (upserts us inc) (\<alpha> s)" .
  then show ?thesis
    using prewritten_stored [OF assms(3,5)] by (auto simp: prewritten_keeps prewritten_frame upsert_keys_def)
qed

definition with_version :: "string \<Rightarrow> int \<Rightarrow> vdata" where
  "with_version p v = put_key (version_key p) (Some (VStr (string_of_int v))) empty_vdata"

lemma with_version_connected [simp]: "connected (with_version p v)"
  "str_at (with_version p v) (version_key p) = Some (string_of_int v)"
  "zset_at (with_version p v) (book_key q sd) = []"
  using connected_empty by (simp_all add: with_version_def key_simps)

theorem cas_conflict_keeps_sides_witness:
  "\<exists>s'. apply_book_mutations_cas ref_valkey ref_ext ''BTC-USDT'' 3 [grid_order 1 Buy 5 7 ''u1''] None
      (with_version ''BTC-USDT'' 4) = (Inr CasConflict, s') \<and> zset_at s' (book_key ''BTC-USDT'' Buy) = [] \<and>
     stored_order ref_ext 0 s' (x_uuid_str ref_ext 1) = Some (cached ref_ext 0 (grid_order 1 Buy 5 7 ''u1''))"
proof -
  have ups: "upserts [grid_order 1 Buy 5 7 ''u1''] None = [grid_order 1 Buy 5 7 ''u1'']"
    by (simp add: upserts_def needs_hset_def update_op_def)
  have "storable ref_ext (grid_order 1 Buy 5 7 ''u1'')" by (simp add: grid_order_storable)
  with cas_conflict_keeps_sides [OF ref.valkey_spec_axioms _ ref_ext.ext_spec_axioms,
      of "with_version ''BTC-USDT'' 4" "''BTC-USDT''" 3 "[grid_order 1 Buy 5 7 ''u1'']" None 0]
  show ?thesis unfolding ups by auto
qed

text \<open>
  C30: an update is applied at most once per version. When the version is the
  expected one (and it and its successor fit into 64 bits), \<open>apply_book_mutations_cas\<close> applies every mutation to the two sorted
  sets in the order given, raises the version by one, and any further update
  prepared for the old version is refused.
\<close>

theorem cas_applies_once:
  assumes "valkey_spec V \<alpha>" and "connected (\<alpha> s)"
    and "str_at (\<alpha> s) (version_key p) = Some (string_of_int ev)" and "i64_ok ev" and "i64_ok (ev + 1)"
  shows "\<exists>s' s''. apply_book_mutations_cas V X p ev us inc s = (Inr CasOk, s') \<and>
    (\<forall>sd. zset_at (\<alpha> s') (book_key p sd) =
       fold (zset_mutation sd) (cas_mutations X us inc) (zset_at (\<alpha> s) (book_key p sd))) \<and>
    str_at (\<alpha> s') (version_key p) = Some (string_of_int (ev + 1)) \<and>
    apply_book_mutations_cas V X p ev us' inc' s' = (Inr CasConflict, s'')"
proof -
  let ?d = "put_key (version_key p) (Some (VStr (string_of_int (ev + 1))))
      (fold (mutation_effect p) (cas_mutations X us inc) (prewritten X (upserts us inc) (\<alpha> s)))"
  have "add_to (Some (string_of_int ev)) 1 = Inr (ev + 1)"
    using assms(4,5) by (simp add: add_to_def codec_simps)
  then have "apply_book_mutations_cas ref_valkey X p ev us inc (\<alpha> s) = (Inr CasOk, ?d)"
    using assms(2,3) by (simp add: run_cas Let_def)
  from simulates_run [OF valkey_spec.sim_apply_book_mutations_cas [OF assms(1)] this]
  obtain s' where s': "apply_book_mutations_cas V X p ev us inc s = (Inr CasOk, s')" "\<alpha> s' = ?d" .
  have conn: "connected (\<alpha> s')" and ver: "str_at (\<alpha> s') (version_key p) = Some (string_of_int (ev + 1))"
    using assms(2) by (simp_all add: s' mutations_keep prewritten_keeps key_simps)
  have "apply_book_mutations_cas ref_valkey X p ev us' inc' (\<alpha> s') =
      (Inr CasConflict, prewritten X (upserts us' inc') (\<alpha> s'))"
    using conn ver by (simp add: run_cas)
  from simulates_run [OF valkey_spec.sim_apply_book_mutations_cas [OF assms(1)] this]
  obtain s'' where "apply_book_mutations_cas V X p ev us' inc' s' = (Inr CasConflict, s'')" .
  moreover have "zset_at (\<alpha> s') (book_key p sd) =
      fold (zset_mutation sd) (cas_mutations X us inc) (zset_at (\<alpha> s) (book_key p sd))" for sd
    by (simp add: s' mutations_keep prewritten_keeps key_simps del: zset_mutation.simps)
  ultimately show ?thesis using s'(1) ver by blast
qed

theorem cas_applies_once_witness:
  "\<exists>s' s''. apply_book_mutations_cas ref_valkey ref_ext ''BTC-USDT'' 4 [grid_order 1 Buy 5 7 ''u1''] None
      (with_version ''BTC-USDT'' 4) = (Inr CasOk, s') \<and>
     zset_at s' (book_key ''BTC-USDT'' Buy) = [(-5, x_uuid_str ref_ext 1)] \<and>
     apply_book_mutations_cas ref_valkey ref_ext ''BTC-USDT'' 4 [] None s' = (Inr CasConflict, s'')"
proof -
  have "fold (zset_mutation Buy) (cas_mutations ref_ext [grid_order 1 Buy 5 7 ''u1''] None) []
      = [(-5, x_uuid_str ref_ext 1)]"
    by (simp add: cas_mutations_def make_mutation_def update_op_def order_score_def i64_neg_def
        grid_order_price i64_ok_def zset_add_def zset_remove_def)
  moreover have "i64_ok 4" "i64_ok (4 + 1)" by (simp_all add: i64_ok_def)
  ultimately show ?thesis
    using cas_applies_once [OF ref.valkey_spec_axioms, of "with_version ''BTC-USDT'' 4" "''BTC-USDT''" 4
        ref_ext "[grid_order 1 Buy 5 7 ''u1'']" None "[]" None]
    by fastforce
qed

text \<open>
  On a pair that has no version yet, no versioned update can succeed. The
  snapshot reports version 0 for a missing counter, but the script compares the
  expected version with the string \<open>false\<close>, so an update prepared from the snapshot
  always ends in a conflict, however often it is repeated.
\<close>

theorem cas_never_succeeds_on_fresh_pair:
  assumes "valkey_spec V \<alpha>" and "connected (\<alpha> s)" and "str_at (\<alpha> s) (version_key p) = None"
    and "load_order_book_snapshot V X now p sd lp s = (Inr (book, v), s')"
  shows "v = 0 \<and> (\<exists>s''. apply_book_mutations_cas V X p v us inc s' = (Inr CasConflict, s'') \<and>
    str_at (\<alpha> s'') (version_key p) = None)"
proof -
  have "load_order_book_snapshot ref_valkey X now p sd lp (\<alpha> s) = (Inr (book, v), \<alpha> s')"
    using simulatesD [OF valkey_spec.sim_load_order_book_snapshot [OF assms(1)] assms(4)] .
  moreover have "vmapM (\<lambda>i. d_hmget (okey i) ORDER_FIELDS) ids (\<alpha> s) =
      (Inr (map (\<lambda>i. map (hash_at (\<alpha> s) (okey i)) ORDER_FIELDS) ids), \<alpha> s)" for ids
    using assms(2) by (intro vmapM_pure) (simp add: run_simps key_simps)
  ultimately have v: "v = 0" "\<alpha> s' = \<alpha> s"
    using assms(2,3)
    by (auto simp: load_order_book_snapshot_def Let_def run_simps key_simps split: if_splits)
  have "apply_book_mutations_cas ref_valkey X p v us inc (\<alpha> s') =
      (Inr CasConflict, prewritten X (upserts us inc) (\<alpha> s'))"
    using assms(2,3) v by (simp add: run_cas)
  from simulates_run [OF valkey_spec.sim_apply_book_mutations_cas [OF assms(1)] this]
  obtain s'' where "apply_book_mutations_cas V X p v us inc s' = (Inr CasConflict, s'')"
    "\<alpha> s'' = prewritten X (upserts us inc) (\<alpha> s')" .
  with v assms(3) show ?thesis by (auto simp: prewritten_keeps)
qed

theorem cas_never_succeeds_on_fresh_pair_witness:
  "\<exists>s''. apply_book_mutations_cas ref_valkey ref_ext ''BTC-USDT'' 0 [] (Some (grid_order 1 Buy 5 7 ''u1''))
      empty_vdata = (Inr CasConflict, s'')"
proof -
  have none: "str_at empty_vdata k = None" for k by (simp add: str_at_def empty_vdata_def)
  have wk: "well_keyed empty_vdata" "vd_pool empty_vdata = []" using connected_empty by simp_all
  have "load_order_book_snapshot ref_valkey ref_ext 0 ''BTC-USDT'' Sell None empty_vdata
      = (Inr ([], 0), empty_vdata)"
    using wk none by (simp add: load_order_book_snapshot_def run_simps key_simps filter_bound_def)
  from cas_never_succeeds_on_fresh_pair [OF ref.valkey_spec_axioms _ _ this, of "[]"
      "Some (grid_order 1 Buy 5 7 ''u1'')"] wk none
  show ?thesis by auto
qed

end
