(* ===== verification/Lua_Num.thy ===== *)
theory Lua_Num
  imports Prelude
begin

text \<open>
  Numbers of the Lua scripts. A Lua 5.1 number is a double; every number of the
  scripts is an integral double, represented by the integer it denotes.
  \<open>lua_tonumber\<close> reads a decimal text (with fraction and exponent) to the nearest
  double; a text with a fractional value, which no writer of the fields that the
  scripts read produces, is outside the model and gives \<open>None\<close>.
  \<open>lua_tostring\<close> is the format \<open>%.14g\<close> that \<open>tostring\<close> uses: plain digits below
  \<open>10 ^ 14\<close>, 14 significant digits with an exponent from there on.
\<close>

fun strip_sign :: "string \<Rightarrow> bool \<times> string" where
  "strip_sign [] = (False, [])"
| "strip_sign (c # cs) =
     (if c = CHR ''-'' then (True, cs) else if c = CHR ''+'' then (False, cs) else (False, c # cs))"

definition lua_exponent :: "string \<Rightarrow> int option" where
  "lua_exponent r =
     (case r of [] \<Rightarrow> Some 0
      | c # cs \<Rightarrow> if c = CHR ''e'' \<or> c = CHR ''E'' then parse_int cs else None)"

definition lua_scale :: "int \<Rightarrow> int \<Rightarrow> int option" where
  "lua_scale m k =
     (if 0 \<le> k then Some (m * 10 ^ nat k)
      else if m mod 10 ^ nat (- k) = 0 then Some (m div 10 ^ nat (- k)) else None)"

definition lua_tonumber :: "string \<Rightarrow> int option" where
  "lua_tonumber s =
     (let (neg, t) = strip_sign s;
          ip = takeWhile is_digit t; r1 = dropWhile is_digit t;
          fp = (case r1 of [] \<Rightarrow> [] | c # cs \<Rightarrow> if c = CHR ''.'' then takeWhile is_digit cs else []);
          r2 = (case r1 of [] \<Rightarrow> [] | c # cs \<Rightarrow> if c = CHR ''.'' then dropWhile is_digit cs else r1)
      in if ip = [] \<and> fp = [] then None
         else case lua_exponent r2 of None \<Rightarrow> None
           | Some e \<Rightarrow>
               map_option (\<lambda>n. f64_round (if neg then - n else n))
                 (lua_scale (int (digits_value (ip @ fp))) (e - int (length fp))))"

definition strip_zeros :: "string \<Rightarrow> string" where
  "strip_zeros s = rev (dropWhile (\<lambda>c. c = CHR ''0'') (rev s))"

definition round_even_div :: "nat \<Rightarrow> nat \<Rightarrow> nat" where
  "round_even_div a b =
     (let q = a div b; r = a mod b in if b < 2 * r \<or> (2 * r = b \<and> odd q) then Suc q else q)"

definition exponent_str :: "nat \<Rightarrow> string" where
  "exponent_str e = ''e+'' @ (if e < 10 then ''0'' else '''') @ string_of_nat e"

definition lua_sci :: "nat \<Rightarrow> string" where
  "lua_sci a =
     (let e = length (string_of_nat a) - 1;
          q = round_even_div a (10 ^ (e - 13));
          (q', e') = (if q = 10 ^ 14 then (10 ^ 13, Suc e) else (q, e));
          m = string_of_nat q'; frac = strip_zeros (tl m)
      in [hd m] @ (if frac = [] then [] else CHR ''.'' # frac) @ exponent_str e')"

definition lua_tostring :: "int \<Rightarrow> string" where
  "lua_tostring n =
     (if \<bar>n\<bar> < 10 ^ 14 then string_of_int n
      else (if n < 0 then ''-'' else '''') @ lua_sci (nat \<bar>n\<bar>))"

section \<open>Reading back\<close>

lemma takeWhile_string_of_nat [simp]:
  "takeWhile is_digit (string_of_nat n) = string_of_nat n"
  "dropWhile is_digit (string_of_nat n) = []"
  using string_of_nat_digits [of n] by (simp_all add: list_all_iff)

lemma strip_sign_nat [simp]: "strip_sign (string_of_nat n) = (False, string_of_nat n)"
proof -
  obtain d rest where "string_of_nat n = digit_char d # rest" "d < 10"
    using string_of_nat_hd by blast
  then show ?thesis by simp
qed

lemma lua_tonumber_int [codec_simps]: "lua_tonumber (string_of_int n) = Some (f64_round n)"
  by (cases "n < 0")
     (simp_all add: lua_tonumber_def string_of_int_def lua_exponent_def lua_scale_def
        digits_value_string_of_nat)

text \<open>Every text that \<open>parse::<i64>\<close> accepts is a number of the scripts.\<close>

lemma lua_tonumber_digits:
  assumes "t \<noteq> []" "list_all is_digit t" "strip_sign s = (neg, t)"
  shows "lua_tonumber s = Some (f64_round (if neg then - int (digits_value t) else int (digits_value t)))"
proof -
  have td: "takeWhile is_digit t = t" "dropWhile is_digit t = []"
    using assms(2) by (simp_all add: list_all_iff)
  from assms(1,3) show ?thesis by (simp add: td lua_tonumber_def Let_def lua_exponent_def lua_scale_def)
qed

lemma lua_tonumber_parse: "parse_i64 s = Some n \<Longrightarrow> lua_tonumber s = Some (f64_round n)"
proof (cases s)
  case (Cons c cs)
  assume "parse_i64 s = Some n"
  then have n: "parse_int s = Some n" by (auto simp: parse_i64_def split: option.splits if_splits)
  consider "c = CHR ''-''" | "c = CHR ''+''" | "c \<noteq> CHR ''-''" "c \<noteq> CHR ''+''" by blast
  then show ?thesis
    using n Cons
    lua_tonumber_digits [of cs s True] lua_tonumber_digits [of cs s False] lua_tonumber_digits [of s s False]
    by cases (auto simp: parse_int_def parse_nat_def split: if_splits)
qed (simp add: parse_i64_def parse_int_def)

lemma lua_tonumber_zero [simp]: "lua_tonumber ''0'' = Some 0"
  by (simp add: lua_tonumber_def is_digit_def lua_exponent_def lua_scale_def digits_value_def digit_val_def)

lemma lua_tostring_small [codec_simps]: "\<bar>n\<bar> < 10 ^ 14 \<Longrightarrow> lua_tostring n = string_of_int n"
  by (simp add: lua_tostring_def)

lemma i64_ok_small: "\<bar>n\<bar> < 10 ^ 14 \<Longrightarrow> i64_ok n"
  by (auto simp: i64_ok_def)

lemma lua_number_round_trip [codec_simps]:
  assumes "\<bar>n\<bar> < 10 ^ 14"
  shows "lua_tonumber (lua_tostring n) = Some n" "parse_i64 (lua_tostring n) = Some n"
  using assms
  by (simp_all add: lua_tostring_small lua_tonumber_int parse_i64_string_of_int i64_ok_small)

text \<open>From \<open>10 ^ 14\<close> on the text has an exponent, which \<open>parse::<i64>\<close> refuses.\<close>

lemma parse_nat_letter: "CHR ''e'' \<in> set s \<Longrightarrow> parse_nat s = None"
  by (auto simp: parse_nat_def list_all_iff is_digit_def dest!: bspec)

lemma parse_i64_letter: "CHR ''e'' \<in> set s \<Longrightarrow> parse_i64 s = None"
  by (cases s) (auto simp: parse_i64_def parse_int_def parse_nat_letter)

lemma lua_sci_letter: "CHR ''e'' \<in> set (lua_sci a)"
  by (simp add: lua_sci_def Let_def exponent_str_def split: prod.split)

lemma lua_tostring_large: "10 ^ 14 \<le> \<bar>n\<bar> \<Longrightarrow> parse_i64 (lua_tostring n) = None"
  by (rule parse_i64_letter) (simp add: lua_tostring_def lua_sci_letter)

end
