(* ===== verification/Balance_Cache.thy ===== *)
theory Balance_Cache
  imports Book_Cache_Props Lua_Num
begin

text \<open>
  Balances in the cache (\<open>cache.rs\<close>): the script \<open>LOCK_BALANCE_LUA\<close>,
  \<open>lock_balance_redis\<close> and \<open>unlock_balance_redis\<close>. The hash \<open>balance:user:asset\<close> has
  the fields \<open>available\<close> and \<open>locked\<close> in units of \<open>1 / SCALE\<close>.
\<close>

section \<open>Model\<close>

text \<open>
  An integer argument of a command inside a script: an integral double in the
  range of \<open>i64\<close> is sent as its digits; outside the range the command refuses it.
\<close>

definition lua_hincrby :: "'s valkey \<Rightarrow> string \<Rightarrow> string \<Rightarrow> int \<Rightarrow> ('s, int) vm" where
  "lua_hincrby V k f n =
     (if i64_ok n then vk_hincrby V k f n else vfail (CommandError ''value is not an integer''))"

definition LOCK_BALANCE_LUA :: "'s valkey \<Rightarrow> string \<Rightarrow> string \<Rightarrow> ('s, string) vm" where
  "LOCK_BALANCE_LUA V key arg =
     vbind (vlift (ok_or (ScriptError ''attempt to compare with nil'') (lua_tonumber arg))) (\<lambda>amount.
     vbind (vk_hget V key ''available'') (\<lambda>v.
     case lua_tonumber (option_or v ''0'') of
       None \<Rightarrow> vfail (ScriptError ''INSUFFICIENT_BALANCE'')
     | Some avail \<Rightarrow>
         if avail < amount then vfail (ScriptError ''INSUFFICIENT_BALANCE'')
         else vbind (lua_hincrby V key ''available'' (- amount)) (\<lambda>_.
              vbind (lua_hincrby V key ''locked'' amount) (\<lambda>_.
              vret ''OK''))))"

definition lock_balance_redis :: "'s valkey \<Rightarrow> string \<Rightarrow> string \<Rightarrow> int \<Rightarrow> ('s, unit) vm" where
  "lock_balance_redis V user_id asset amount_scaled =
     vbind (vk_conn V) (\<lambda>_.
     vbind (vtry (LOCK_BALANCE_LUA V (balance_key user_id asset) (string_of_int amount_scaled))) (\<lambda>r.
     case r of
       Inr _ \<Rightarrow> vret ()
     | Inl e \<Rightarrow> if e = ScriptError ''INSUFFICIENT_BALANCE'' then vfail (InsufficientBalance asset user_id)
                else vfail (ScriptError ''lock_balance Lua error'')))"

definition unlock_balance_redis :: "'s valkey \<Rightarrow> string \<Rightarrow> string \<Rightarrow> int \<Rightarrow> ('s, unit) vm" where
  "unlock_balance_redis V user_id asset amount_scaled =
     (let key = balance_key user_id asset
      in vbind (vk_conn V) (\<lambda>_.
         vpipe [vbind (vk_hincrby V key ''available'' amount_scaled) (\<lambda>_. vret ()),
                vbind (vk_hincrby V key ''locked'' (i64_neg amount_scaled)) (\<lambda>_. vret ())]))"

section \<open>Independence of the service\<close>

context valkey_spec
begin

lemma sim_lua_hincrby [sim_rules]: "simulates \<alpha> (lua_hincrby V k f n) (lua_hincrby ref_valkey k f n)"
  unfolding lua_hincrby_def ref_valkey_ops by (intro sim_rules)

lemma sim_LOCK_BALANCE_LUA [sim_rules]:
  "simulates \<alpha> (LOCK_BALANCE_LUA V k a) (LOCK_BALANCE_LUA ref_valkey k a)"
  unfolding LOCK_BALANCE_LUA_def ref_valkey_ops by (intro sim_rules)

lemma sim_lock_balance_redis [sim_rules]:
  "simulates \<alpha> (lock_balance_redis V u a n) (lock_balance_redis ref_valkey u a n)"
  unfolding lock_balance_redis_def ref_valkey_ops by (intro sim_rules)

lemma sim_unlock_balance_redis [sim_rules]:
  "simulates \<alpha> (unlock_balance_redis V u a n) (unlock_balance_redis ref_valkey u a n)"
  unfolding unlock_balance_redis_def ref_valkey_ops Let_def by (intro sim_rules)

end

section \<open>Execution\<close>

text \<open>The balance a hash holds: missing fields count as zero.\<close>

definition int_field :: "(string \<rightharpoonup> string) \<Rightarrow> string \<Rightarrow> int option" where
  "int_field h f = parse_i64 (option_or (h f) ''0'')"

definition balance_at :: "vdata \<Rightarrow> string \<Rightarrow> string \<Rightarrow> (int \<times> int) option" where
  "balance_at d u a =
     (let h = hash_at d (balance_key u a)
      in case (int_field h ''available'', int_field h ''locked'') of
           (Some av, Some lo) \<Rightarrow> Some (av, lo) | _ \<Rightarrow> None)"

text \<open>Fields that are missing or hold the digits of an integer, as every writer leaves them.\<close>

definition plain_field :: "(string \<rightharpoonup> string) \<Rightarrow> string \<Rightarrow> int \<Rightarrow> bool" where
  "plain_field h f n \<longleftrightarrow> (h f = None \<and> n = 0) \<or> (h f = Some (string_of_int n) \<and> i64_ok n)"

definition holds_balance :: "vdata \<Rightarrow> string \<Rightarrow> string \<Rightarrow> int \<Rightarrow> int \<Rightarrow> bool" where
  "holds_balance d u a av lo \<longleftrightarrow>
     plain_field (hash_at d (balance_key u a)) ''available'' av \<and>
     plain_field (hash_at d (balance_key u a)) ''locked'' lo"

lemma holds_balance_fields:
  assumes "holds_balance d u a av lo"
  shows "plain_field (hash_at d (balance_key u a)) ''available'' av"
    "plain_field (hash_at d (balance_key u a)) ''locked'' lo"
  using assms by (simp_all add: holds_balance_def)

lemma zero_text: "''0'' = string_of_int 0"
  by (simp add: string_of_int_def string_of_nat.simps)

lemma plain_field_read:
  assumes "plain_field h f n"
  shows "lua_tonumber (option_or (h f) ''0'') = Some (f64_round n)"
    "add_to (h f) m = (if i64_ok (n + m) then Inr (n + m) else Inl (CommandError ''overflow''))"
  using assms by (auto simp: plain_field_def add_to_def zero_text codec_simps option_or_def)

lemma plain_field_upd [simp]:
  "i64_ok n \<Longrightarrow> plain_field (h(f \<mapsto> string_of_int n)) f n"
  "f' \<noteq> f \<Longrightarrow> plain_field (h(f \<mapsto> v)) f' n = plain_field h f' n"
  by (simp_all add: plain_field_def)

lemma plain_field_i64: "plain_field h f n \<Longrightarrow> i64_ok n"
  by (auto simp: plain_field_def)

text \<open>The script on a plain balance.\<close>

definition moved :: "vdata \<Rightarrow> string \<Rightarrow> string \<Rightarrow> int \<Rightarrow> int \<Rightarrow> vdata" where
  "moved d u a av lo =
     (let k = balance_key u a;
          d1 = put_key k (Some (VHash ((hash_at d k)(''available'' \<mapsto> string_of_int av)))) d
      in put_key k (Some (VHash ((hash_at d1 k)(''locked'' \<mapsto> string_of_int lo)))) d1)"

lemma moved_props:
  assumes "i64_ok av" "i64_ok lo"
  shows "holds_balance (moved d u a av lo) u a av lo" "well_keyed d \<Longrightarrow> well_keyed (moved d u a av lo)"
    "vd_pool (moved d u a av lo) = vd_pool d"
    "balance_key u' a' \<noteq> balance_key u a \<Longrightarrow> holds_balance (moved d u a av lo) u' a' = holds_balance d u' a'"
    "zset_at (moved d u a av lo) (book_key p sd) = zset_at d (book_key p sd)"
    "hash_at (moved d u a av lo) (okey i) = hash_at d (okey i)"
    "str_at (moved d u a av lo) (version_key p) = str_at d (version_key p)"
  using assms by (auto simp: moved_def holds_balance_def fun_eq_iff Let_def key_simps)

lemma run_hincrby_pair:
  assumes "well_keyed d" "holds_balance d u a av lo"
    and "i64_ok m" "i64_ok n" "i64_ok (av + m)" "i64_ok (lo + n)"
  shows "lua_hincrby ref_valkey (balance_key u a) ''available'' m d =
      (Inr (av + m), put_key (balance_key u a)
        (Some (VHash ((hash_at d (balance_key u a))(''available'' \<mapsto> string_of_int (av + m))))) d)"
    "lua_hincrby ref_valkey (balance_key u a) ''locked'' n
        (put_key (balance_key u a)
          (Some (VHash ((hash_at d (balance_key u a))(''available'' \<mapsto> string_of_int (av + m))))) d)
      = (Inr (lo + n), moved d u a (av + m) (lo + n))"
proof -
  note f = holds_balance_fields [OF assms(2)]
  show "lua_hincrby ref_valkey (balance_key u a) ''available'' m d =
      (Inr (av + m), put_key (balance_key u a)
        (Some (VHash ((hash_at d (balance_key u a))(''available'' \<mapsto> string_of_int (av + m))))) d)"
    using assms by (simp add: lua_hincrby_def run_simps key_simps plain_field_read(2) [OF f(1)])
  show "lua_hincrby ref_valkey (balance_key u a) ''locked'' n
        (put_key (balance_key u a)
          (Some (VHash ((hash_at d (balance_key u a))(''available'' \<mapsto> string_of_int (av + m))))) d)
      = (Inr (lo + n), moved d u a (av + m) (lo + n))"
    using assms by (simp add: lua_hincrby_def run_simps key_simps plain_field_read(2) [OF f(2)] moved_def Let_def)
qed

lemma run_lock_script:
  assumes "well_keyed d" "holds_balance d u a av lo" "i64_ok n"
    and "i64_ok (f64_round n)" "i64_ok (- f64_round n)"
    "i64_ok (av - f64_round n)" "i64_ok (lo + f64_round n)"
  shows "LOCK_BALANCE_LUA ref_valkey (balance_key u a) (string_of_int n) d =
    (if f64_round av < f64_round n then (Inl (ScriptError ''INSUFFICIENT_BALANCE''), d)
     else (Inr ''OK'', moved d u a (av - f64_round n) (lo + f64_round n)))"
proof -
  note read = plain_field_read(1) [OF holds_balance_fields(1) [OF assms(2)]]
  note run = run_hincrby_pair [OF assms(1,2), of "- f64_round n" "f64_round n"]
  show ?thesis
  proof (cases "f64_round av < f64_round n")
    case True
    with assms(1) read show ?thesis
      by (simp add: LOCK_BALANCE_LUA_def vbind_def run_simps key_simps codec_simps)
  next
    case False
    with assms read run show ?thesis
      by (simp add: LOCK_BALANCE_LUA_def vbind_def run_simps key_simps codec_simps)
  qed
qed

lemma run_lock_balance:
  assumes "connected d" "holds_balance d u a av lo" "\<bar>av\<bar> \<le> 2 ^ 53" "\<bar>n\<bar> \<le> 2 ^ 53" "\<bar>lo + n\<bar> \<le> 2 ^ 62"
  shows "lock_balance_redis ref_valkey u a n d =
    (if av < n then (Inl (InsufficientBalance a u), d) else (Inr (), moved d u a (av - n) (lo + n)))"
proof -
  have b: "i64_ok n" "i64_ok (- n)" "i64_ok (av - n)" "i64_ok (lo + n)"
    using assms(3-5) by (auto simp: i64_ok_def)
  have r: "f64_round n = n" "f64_round av = av" using assms(3,4) by simp_all
  have "LOCK_BALANCE_LUA ref_valkey (balance_key u a) (string_of_int n) d =
      (if av < n then (Inl (ScriptError ''INSUFFICIENT_BALANCE''), d) else (Inr ''OK'', moved d u a (av - n) (lo + n)))"
    using run_lock_script [of d u a av lo n] assms(1,2) b r by simp
  with assms(1) show ?thesis
    by (simp add: lock_balance_redis_def vbind_def vtry_def run_simps)
qed

lemma run_unlock_balance:
  assumes "connected d" "holds_balance d u a av lo" "i64_ok (av + n)" "i64_ok (lo - n)" "n \<noteq> - (2 ^ 63)"
  shows "unlock_balance_redis ref_valkey u a n d = (Inr (), moved d u a (av + n) (lo - n))"
proof -
  note f = holds_balance_fields [OF assms(2)]
  show ?thesis
    using assms
    by (simp add: unlock_balance_redis_def vbind_def run_simps key_simps plain_field_read(2) [OF f(1)]
        plain_field_read(2) [OF f(2)] moved_def Let_def i64_neg_def)
qed

end
