(* ===== verification/Balance_Spec.thy ===== *)
theory Balance_Spec
  imports Prelude
begin

text \<open>
  The contract of a balance account that supports locking: locking moves an
  amount from available to locked when it is covered and otherwise changes
  nothing, unlocking moves it back, covered or not, as long as the available amount
  stays below a capacity. What follows for every sequence of such
  operations is proved here once; the contract is interpreted for the balances in
  the cache (theory \<open>Balance_Props\<close>).
\<close>

datatype 'q balance_op = Lock (op_amount: 'q) | Unlock (op_amount: 'q)

primrec unlocks :: "'q::linordered_ab_group_add balance_op list \<Rightarrow> 'q" where
  "unlocks [] = 0"
| "unlocks (x # xs) = (case x of Lock n \<Rightarrow> 0 | Unlock n \<Rightarrow> n) + unlocks xs"

lemma unlocks_nonneg: "\<forall>x \<in> set xs. 0 \<le> op_amount x \<Longrightarrow> 0 \<le> unlocks xs"
  by (induction xs) (auto split: balance_op.splits)

locale balance_store =
  fixes ok :: "'s \<Rightarrow> bool"
    and avail :: "'s \<Rightarrow> 'q::linordered_ab_group_add"
    and lockd :: "'s \<Rightarrow> 'q"
    and lock :: "'q \<Rightarrow> 's \<Rightarrow> bool \<times> 's"
    and unlock :: "'q \<Rightarrow> 's \<Rightarrow> 's"
    and cap :: 'q
  assumes lock_covered: "ok s \<Longrightarrow> 0 \<le> n \<Longrightarrow> n \<le> avail s \<Longrightarrow>
        fst (lock n s) \<and> ok (snd (lock n s)) \<and> avail (snd (lock n s)) = avail s - n \<and>
        lockd (snd (lock n s)) = lockd s + n"
    and lock_refused: "ok s \<Longrightarrow> 0 \<le> n \<Longrightarrow> avail s < n \<Longrightarrow>
        \<not> fst (lock n s) \<and> ok (snd (lock n s)) \<and> avail (snd (lock n s)) = avail s \<and>
        lockd (snd (lock n s)) = lockd s"
    and unlock_moves: "ok s \<Longrightarrow> 0 \<le> n \<Longrightarrow> avail s + n < cap \<Longrightarrow>
        ok (unlock n s) \<and> avail (unlock n s) = avail s + n \<and> lockd (unlock n s) = lockd s - n"
    and ok_avail: "ok s \<Longrightarrow> 0 \<le> avail s"
begin

fun exec :: "'q balance_op \<Rightarrow> 's \<Rightarrow> 's" where
  "exec (Lock n) s = snd (lock n s)"
| "exec (Unlock n) s = unlock n s"

fun exec_all :: "'q balance_op list \<Rightarrow> 's \<Rightarrow> 's" where
  "exec_all [] s = s"
| "exec_all (x # xs) s = exec_all xs (exec x s)"

text \<open>No step unlocks more than is locked at the time.\<close>

fun covered :: "'q balance_op list \<Rightarrow> 's \<Rightarrow> bool" where
  "covered [] s = True"
| "covered (x # xs) s = ((case x of Lock n \<Rightarrow> True | Unlock n \<Rightarrow> n \<le> lockd s) \<and> covered xs (exec x s))"

lemma exec_keeps:
  assumes "ok s" "0 \<le> op_amount x" "avail s + unlocks [x] < cap"
  shows "ok (exec x s) \<and> avail (exec x s) + lockd (exec x s) = avail s + lockd s \<and>
    avail (exec x s) \<le> avail s + unlocks [x] \<and>
    (0 \<le> lockd s \<and> (case x of Lock n \<Rightarrow> True | Unlock n \<Rightarrow> n \<le> lockd s) \<longrightarrow> 0 \<le> lockd (exec x s))"
proof (cases x)
  case (Lock n)
  with assms show ?thesis
    using lock_covered [of s n] lock_refused [of s n] by (cases "n \<le> avail s") (auto simp: not_le)
next
  case (Unlock n)
  with assms show ?thesis using unlock_moves [of s n] by auto
qed

lemma exec_all_keeps:
  "ok s \<Longrightarrow> \<forall>x \<in> set xs. 0 \<le> op_amount x \<Longrightarrow> avail s + unlocks xs < cap \<Longrightarrow>
     ok (exec_all xs s) \<and> avail (exec_all xs s) + lockd (exec_all xs s) = avail s + lockd s \<and>
     (0 \<le> lockd s \<and> covered xs s \<longrightarrow> 0 \<le> lockd (exec_all xs s))"
proof (induction xs arbitrary: s)
  case Nil
  then show ?case by simp
next
  case (Cons x xs)
  have u: "unlocks (x # xs) = unlocks [x] + unlocks xs" by simp
  have "0 \<le> unlocks xs" using Cons.prems(2) by (intro unlocks_nonneg) simp
  then have "avail s + unlocks [x] < cap"
    using Cons.prems(3) u by (metis add.assoc add.right_neutral add_left_mono le_less_trans)
  then have step: "ok (exec x s) \<and> avail (exec x s) + lockd (exec x s) = avail s + lockd s \<and>
      avail (exec x s) \<le> avail s + unlocks [x] \<and>
      (0 \<le> lockd s \<and> (case x of Lock n \<Rightarrow> True | Unlock n \<Rightarrow> n \<le> lockd s) \<longrightarrow> 0 \<le> lockd (exec x s))"
    using exec_keeps [of s x] Cons.prems by simp
  then have "avail (exec x s) + unlocks xs < cap"
    using Cons.prems(3) u by (metis add.assoc add_right_mono le_less_trans)
  with Cons step show ?case by simp
qed

end

end
