(* ===== verification/Balance_Props.thy ===== *)
theory Balance_Props
  imports Balance_Cache Balance_Spec
begin

text \<open>
  The balances in the cache keep the contract of \<open>balance_store\<close> as long as the
  amounts of the account stay below \<open>2 ^ 53\<close> units; beyond that the doubles of the script no
  longer represent the amounts and the contract breaks.
\<close>

section \<open>The account in the cache\<close>

text \<open>
  An account that holds less than \<open>2 ^ 53\<close> units in all and has less than that available. The
  locked part may be negative: nothing keeps an unlock from exceeding it.
\<close>

definition account_ok :: "string \<Rightarrow> string \<Rightarrow> vdata \<Rightarrow> bool" where
  "account_ok u a d \<longleftrightarrow> connected d \<and>
     (case balance_at d u a of None \<Rightarrow> False
      | Some (av, lo) \<Rightarrow> holds_balance d u a av lo \<and> 0 \<le> av \<and> av < 2 ^ 53 \<and> 0 \<le> av + lo \<and> av + lo < 2 ^ 53)"

definition account_avail :: "string \<Rightarrow> string \<Rightarrow> vdata \<Rightarrow> int" where
  "account_avail u a d = (case balance_at d u a of None \<Rightarrow> 0 | Some b \<Rightarrow> fst b)"

definition account_locked :: "string \<Rightarrow> string \<Rightarrow> vdata \<Rightarrow> int" where
  "account_locked u a d = (case balance_at d u a of None \<Rightarrow> 0 | Some b \<Rightarrow> snd b)"

lemma holds_balance_at: "holds_balance d u a av lo \<Longrightarrow> balance_at d u a = Some (av, lo)"
  by (auto simp: holds_balance_def balance_at_def int_field_def plain_field_def option_or_def zero_text
      codec_simps Let_def)

lemma account_okE:
  assumes "account_ok u a d"
  obtains av lo where "connected d" "holds_balance d u a av lo" "0 \<le> av" "av < 2 ^ 53" "0 \<le> av + lo" "av + lo < 2 ^ 53"
    "account_avail u a d = av" "account_locked u a d = lo"
  using assms that
  by (auto simp: account_ok_def account_avail_def account_locked_def split: option.splits)

lemma account_okI:
  assumes "connected d" "holds_balance d u a av lo" "0 \<le> av" "av < 2 ^ 53" "0 \<le> av + lo" "av + lo < 2 ^ 53"
  shows "account_ok u a d" "account_avail u a d = av" "account_locked u a d = lo"
  using assms by (simp_all add: account_ok_def account_avail_def account_locked_def holds_balance_at)

lemma moved_account:
  assumes "connected d" "0 \<le> av" "av < 2 ^ 53" "0 \<le> av + lo" "av + lo < 2 ^ 53"
  shows "account_ok u a (moved d u a av lo)" "account_avail u a (moved d u a av lo) = av"
    "account_locked u a (moved d u a av lo) = lo"
proof -
  have "i64_ok av" "i64_ok lo" using assms(2-5) by (auto simp: i64_ok_def)
  with assms show "account_ok u a (moved d u a av lo)" "account_avail u a (moved d u a av lo) = av"
    "account_locked u a (moved d u a av lo) = lo"
    using account_okI [of "moved d u a av lo" u a av lo] by (simp_all add: moved_props)
qed

lemma run_account_lock:
  assumes "account_ok u a d" "0 \<le> n"
  shows "lock_balance_redis ref_valkey u a n d =
    (if account_avail u a d < n then (Inl (InsufficientBalance a u), d)
     else (Inr (), moved d u a (account_avail u a d - n) (account_locked u a d + n)))"
  using assms(1)
proof (cases rule: account_okE)
  case (1 av lo)
  show ?thesis
  proof (cases "n \<le> 2 ^ 53")
    case True
    with 1 show ?thesis using assms(2) run_lock_balance [of d u a av lo n] by auto
  next
    case False
    then have "av < f64_round n" using f64_round_ge [of n] 1 by linarith
    moreover have "f64_round av = av" using 1 by simp
    ultimately have "LOCK_BALANCE_LUA ref_valkey (balance_key u a) (string_of_int n) d =
        (Inl (ScriptError ''INSUFFICIENT_BALANCE''), d)"
      using 1 plain_field_read(1) [OF holds_balance_fields(1) [OF 1(2)]]
      by (simp add: LOCK_BALANCE_LUA_def vbind_def run_simps key_simps codec_simps)
    with 1 False show ?thesis by (simp add: lock_balance_redis_def vbind_def vtry_def run_simps)
  qed
qed

lemma run_account_unlock:
  assumes "account_ok u a d" "0 \<le> n" "account_avail u a d + n < 2 ^ 53"
  shows "unlock_balance_redis ref_valkey u a n d =
    (Inr (), moved d u a (account_avail u a d + n) (account_locked u a d - n))"
  using assms(1)
proof (cases rule: account_okE)
  case (1 av lo)
  then have "i64_ok (av + n)" "i64_ok (lo - n)" "n \<noteq> - (2 ^ 63)"
    using assms(2,3) by (auto simp: i64_ok_def)
  with 1 show ?thesis using run_unlock_balance [of d u a av lo n] by simp
qed

definition cache_lock :: "string \<Rightarrow> string \<Rightarrow> int \<Rightarrow> vdata \<Rightarrow> bool \<times> vdata" where
  "cache_lock u a n d = map_prod is_ok id (lock_balance_redis ref_valkey u a n d)"

definition cache_unlock :: "string \<Rightarrow> string \<Rightarrow> int \<Rightarrow> vdata \<Rightarrow> vdata" where
  "cache_unlock u a n d = snd (unlock_balance_redis ref_valkey u a n d)"

interpretation cache_account: balance_store "account_ok u a" "account_avail u a" "account_locked u a"
  "cache_lock u a" "cache_unlock u a" "2 ^ 53" for u a
proof (unfold_locales, goal_cases)
  case (1 d n)
  then show ?case
  proof (cases rule: account_okE)
    case (1 av lo)
    with \<open>0 \<le> n\<close> \<open>n \<le> account_avail u a d\<close> \<open>account_ok u a d\<close> show ?thesis
      by (simp add: cache_lock_def run_account_lock moved_account)
  qed
next
  case (2 d n)
  then show ?case by (simp add: cache_lock_def run_account_lock)
next
  case (3 d n)
  then show ?case
  proof (cases rule: account_okE)
    case (1 av lo)
    with \<open>0 \<le> n\<close> \<open>account_avail u a d + n < 2 ^ 53\<close> \<open>account_ok u a d\<close> show ?thesis
      by (simp add: cache_unlock_def run_account_unlock moved_account)
  qed
next
  case (4 d)
  then show ?case by (elim account_okE) simp
qed

section \<open>Properties\<close>

fun balance_step :: "'s valkey \<Rightarrow> string \<Rightarrow> string \<Rightarrow> int balance_op \<Rightarrow> 's \<Rightarrow> 's" where
  "balance_step V u a (Lock n) s = snd (lock_balance_redis V u a n s)"
| "balance_step V u a (Unlock n) s = snd (unlock_balance_redis V u a n s)"

text \<open>No step unlocks more than is locked at the time.\<close>

fun unlocks_covered :: "'s valkey \<Rightarrow> ('s \<Rightarrow> vdata) \<Rightarrow> string \<Rightarrow> string \<Rightarrow> int balance_op list \<Rightarrow> 's \<Rightarrow> bool" where
  "unlocks_covered V \<alpha> u a [] s = True"
| "unlocks_covered V \<alpha> u a (x # xs) s =
     ((case x of Lock n \<Rightarrow> True | Unlock n \<Rightarrow> n \<le> account_locked u a (\<alpha> s)) \<and>
      unlocks_covered V \<alpha> u a xs (balance_step V u a x s))"

lemma balance_step_sim:
  assumes "valkey_spec V \<alpha>"
  shows "\<alpha> (balance_step V u a x s) = cache_account.exec u a x (\<alpha> s)"
proof (cases x)
  case (Lock n)
  then show ?thesis
    using simulatesD [OF valkey_spec.sim_lock_balance_redis [OF assms] prod.collapse [symmetric]]
    by (simp add: cache_account.exec.simps cache_lock_def)
next
  case (Unlock n)
  then show ?thesis
    using simulatesD [OF valkey_spec.sim_unlock_balance_redis [OF assms] prod.collapse [symmetric]]
    by (simp add: cache_account.exec.simps cache_unlock_def)
qed

lemma balance_steps_sim:
  assumes "valkey_spec V \<alpha>"
  shows "\<alpha> (fold (balance_step V u a) xs s) = cache_account.exec_all u a xs (\<alpha> s)"
    "unlocks_covered V \<alpha> u a xs s = cache_account.covered u a xs (\<alpha> s)"
  by (induction xs arbitrary: s)
     (simp_all add: cache_account.exec_all.simps cache_account.covered.simps balance_step_sim [OF assms]
       split: balance_op.splits)

text \<open>
  C27: locking and unlocking conserve an account. After any sequence of
  \<open>lock_balance_redis\<close> and \<open>unlock_balance_redis\<close> calls with amounts that are not negative, refused locks and
  unlocks of more than is locked included, an account has the same total and its available part is
  not negative, provided that the total and the available amount with everything the sequence unlocks stay below \<open>2 ^ 53\<close>
  units. The locked part stays non-negative when
  no call unlocks more than is locked at the time, which the code leaves to its callers.
\<close>

theorem balance_steps_conserve:
  assumes "valkey_spec V \<alpha>" and "account_ok u a (\<alpha> s)" and "\<forall>x \<in> set ops. 0 \<le> op_amount x"
    and "account_avail u a (\<alpha> s) + unlocks ops < 2 ^ 53"
  shows "let d = \<alpha> (fold (balance_step V u a) ops s) in
    account_avail u a d + account_locked u a d = account_avail u a (\<alpha> s) + account_locked u a (\<alpha> s) \<and>
    0 \<le> account_avail u a d \<and>
    (0 \<le> account_locked u a (\<alpha> s) \<and> unlocks_covered V \<alpha> u a ops s \<longrightarrow> 0 \<le> account_locked u a d)"
  using cache_account.exec_all_keeps [OF assms(2-4)] cache_account.ok_avail
  by (simp add: Let_def balance_steps_sim [OF assms(1)])

definition account_of :: "string \<Rightarrow> string \<Rightarrow> int \<Rightarrow> int \<Rightarrow> vdata" where
  "account_of u a av lo = moved empty_vdata u a av lo"

lemma account_of_ok:
  "0 \<le> av \<Longrightarrow> av < 2 ^ 53 \<Longrightarrow> 0 \<le> av + lo \<Longrightarrow> av + lo < 2 ^ 53 \<Longrightarrow>
     account_ok u a (account_of u a av lo) \<and> account_avail u a (account_of u a av lo) = av \<and>
     account_locked u a (account_of u a av lo) = lo"
  using moved_account [OF connected_empty] by (simp add: account_of_def)

theorem balance_steps_conserve_witness:
  "let d = fold (balance_step ref_valkey ''u1'' ''BTC'') [Lock 5, Lock 100, Unlock 7] (account_of ''u1'' ''BTC'' 10 0)
   in account_avail ''u1'' ''BTC'' d + account_locked ''u1'' ''BTC'' d = 10 \<and> 0 \<le> account_avail ''u1'' ''BTC'' d"
  using balance_steps_conserve [OF ref.valkey_spec_axioms, of "''u1''" "''BTC''" "account_of ''u1'' ''BTC'' 10 0"
      "[Lock 5, Lock 100, Unlock 7]"] account_of_ok [of 10 0 "''u1''" "''BTC''"]
  by (auto simp: Let_def)

text \<open>
  What a lock does. On an account of less than \<open>2 ^ 53\<close> units
  \<open>lock_balance_redis\<close> succeeds exactly when the amount is available; then it moves
  exactly that amount, and otherwise it reports the shortage and changes nothing.
  No other account is touched.
\<close>

theorem lock_balance_exact:
  assumes "valkey_spec V \<alpha>" and "account_ok u a (\<alpha> s)" and "0 \<le> n"
  shows "\<exists>s'. lock_balance_redis V u a n s =
      (if n \<le> account_avail u a (\<alpha> s) then Inr () else Inl (InsufficientBalance a u), s') \<and>
    account_ok u a (\<alpha> s') \<and>
    account_avail u a (\<alpha> s') = account_avail u a (\<alpha> s) - (if n \<le> account_avail u a (\<alpha> s) then n else 0) \<and>
    account_locked u a (\<alpha> s') = account_locked u a (\<alpha> s) + (if n \<le> account_avail u a (\<alpha> s) then n else 0) \<and>
    (\<forall>u' a'. balance_key u' a' \<noteq> balance_key u a \<longrightarrow> balance_at (\<alpha> s') u' a' = balance_at (\<alpha> s) u' a')"
proof -
  obtain av lo where acc: "connected (\<alpha> s)" "0 \<le> av" "av < 2 ^ 53" "0 \<le> av + lo" "av + lo < 2 ^ 53"
    "account_avail u a (\<alpha> s) = av" "account_locked u a (\<alpha> s) = lo"
    using account_okE [OF assms(2)] by metis
  let ?d = "if n \<le> av then moved (\<alpha> s) u a (av - n) (lo + n) else \<alpha> s"
  have "lock_balance_redis ref_valkey u a n (\<alpha> s) =
      (if n \<le> account_avail u a (\<alpha> s) then Inr () else Inl (InsufficientBalance a u), ?d)"
    using run_account_lock [OF assms(2,3)] acc by auto
  from simulates_run [OF valkey_spec.sim_lock_balance_redis [OF assms(1)] this]
  obtain s' where s': "lock_balance_redis V u a n s =
      (if n \<le> account_avail u a (\<alpha> s) then Inr () else Inl (InsufficientBalance a u), s')" "\<alpha> s' = ?d" .
  have "balance_at (moved (\<alpha> s) u a x y) u' a' = balance_at (\<alpha> s) u' a'"
    if "balance_key u' a' \<noteq> balance_key u a" for x y u' a'
    using that by (simp add: balance_at_def moved_def Let_def)
  with s' acc assms(2,3) show ?thesis
    using moved_account [OF acc(1), of "av - n" "lo + n" u a] by auto
qed

theorem lock_balance_exact_witness:
  "\<exists>s'. lock_balance_redis ref_valkey ''u1'' ''BTC'' 4 (account_of ''u1'' ''BTC'' 10 0) = (Inr (), s') \<and>
     account_avail ''u1'' ''BTC'' s' = 6 \<and> account_locked ''u1'' ''BTC'' s' = 4"
  using lock_balance_exact [OF ref.valkey_spec_axioms, of "''u1''" "''BTC''" "account_of ''u1'' ''BTC'' 10 0" 4]
    account_of_ok [of 10 0 "''u1''" "''BTC''"] by fastforce

text \<open>
  The bound is needed. The script compares and moves doubles: with
  \<open>2 ^ 53 + 3\<close> units available a request for \<open>2 ^ 53 + 4\<close> units passes the comparison,
  and the account is overdrawn.
\<close>

theorem lock_balance_can_overdraw:
  "\<exists>s'. lock_balance_redis ref_valkey ''u1'' ''USDT'' (2 ^ 53 + 4) (account_of ''u1'' ''USDT'' (2 ^ 53 + 3) 0)
       = (Inr (), s') \<and> balance_at s' ''u1'' ''USDT'' = Some (-1, 2 ^ 53 + 4)"
proof -
  let ?d = "account_of ''u1'' ''USDT'' (2 ^ 53 + 3) 0"
  have "nbits (nat (2 ^ 53 + 3)) = 54" "nbits (nat (2 ^ 53 + 4)) = 54"
    using nbits_eqI [of 53 "nat (2 ^ 53 + 3)"] nbits_eqI [of 53 "nat (2 ^ 53 + 4)"] by simp_all
  then have r: "f64_round (2 ^ 53 + 3) = 2 ^ 53 + 4" "f64_round (2 ^ 53 + 4) = 2 ^ 53 + 4"
    by (simp_all add: f64_round_def Let_def)
  have i: "i64_ok (2 ^ 53 + 3)" "i64_ok (2 ^ 53 + 4)" "i64_ok (- (2 ^ 53 + 4))" "i64_ok (-1)"
    by (simp_all add: i64_ok_def)
  have h: "holds_balance ?d ''u1'' ''USDT'' (2 ^ 53 + 3) 0" "connected ?d"
    using moved_props(1-3) [of "2 ^ 53 + 3" 0 empty_vdata "''u1''" "''USDT''"] i connected_empty
    by (simp_all add: account_of_def)
  have "LOCK_BALANCE_LUA ref_valkey (balance_key ''u1'' ''USDT'') (string_of_int (2 ^ 53 + 4)) ?d =
      (Inr ''OK'', moved ?d ''u1'' ''USDT'' (-1) (2 ^ 53 + 4))"
    using run_lock_script [of ?d "''u1''" "''USDT''" "2 ^ 53 + 3" 0 "2 ^ 53 + 4"] h r i by simp
  then have "lock_balance_redis ref_valkey ''u1'' ''USDT'' (2 ^ 53 + 4) ?d = (Inr (), moved ?d ''u1'' ''USDT'' (-1) (2 ^ 53 + 4))"
    using h by (simp add: lock_balance_redis_def vbind_def vtry_def run_simps)
  moreover have "balance_at (moved ?d ''u1'' ''USDT'' (-1) (2 ^ 53 + 4)) ''u1'' ''USDT'' = Some (-1, 2 ^ 53 + 4)"
    using moved_props(1) [of "-1" "2 ^ 53 + 4" ?d "''u1''" "''USDT''"] i by (intro holds_balance_at) simp
  ultimately show ?thesis by blast
qed

end
