(* ===== verification/Lua_Match.thy ===== *)
theory Lua_Match
  imports Balance_Cache Matching_Spec
begin

text \<open>
  The atomic match inside the cache service: the script
  \<open>crates/shared/src/lua/match_order.lua\<close> and its caller \<open>match_order_lua\<close> of
  \<open>cache.rs\<close>. The script runs without interruption, so it is one computation on the
  state of the service. The loop body is \<open>match_one\<close>, whose local variables are
  the record \<open>lua_loop\<close>; the \<open>repeat ... until true\<close> block with \<open>break\<close> for
  "continue" is its early return.
\<close>

section \<open>The script\<close>

record match_args =
  ma_order_id :: string
  ma_side :: string
  ma_order_type :: string
  ma_tif :: string
  ma_price :: string
  ma_qty :: string
  ma_user :: string
  ma_stp :: string
  ma_ts :: string
  ma_pair :: string
  ma_score :: int
  ma_max_score :: "int option"
  ma_lock_asset :: string
  ma_lock_amount :: string

record pair_keys =
  pk_bids :: string
  pk_asks :: string
  pk_version :: string

definition new_pair_keys :: "string \<Rightarrow> pair_keys" where
  "new_pair_keys pair_id =
     \<lparr>pk_bids = ''book:'' @ pair_id @ '':bids'', pk_asks = ''book:'' @ pair_id @ '':asks'',
      pk_version = ''version:'' @ pair_id\<rparr>"

record raw_trade =
  rt_resting_id :: string
  rt_price_i :: int
  rt_qty_i :: int
  rt_buyer_id :: string
  rt_seller_id :: string

record lua_loop =
  ll_remaining :: int
  ll_status :: string
  ll_trades :: "raw_trade list"
  ll_break :: bool

definition ma_price_i :: "match_args \<Rightarrow> int" where
  "ma_price_i A = option_or (lua_tonumber (ma_price A)) 0"

definition match_fields :: "string list" where
  "match_fields = [''price_i'', ''remaining_i'', ''user_id'', ''stp'', ''status'', ''order_type'']"

text \<open>The fields of a resting order with the defaults of the script.\<close>

record resting =
  re_price :: int
  re_remaining :: int
  re_user :: string
  re_stp :: string
  re_status :: string
  re_type :: string

definition read_resting :: "string option list \<Rightarrow> resting" where
  "read_resting r =
     \<lparr>re_price = option_or (Option.bind (r ! 0) lua_tonumber) 0,
      re_remaining = option_or (Option.bind (r ! 1) lua_tonumber) 0,
      re_user = option_or (r ! 2) '''', re_stp = option_or (r ! 3) ''N'',
      re_status = option_or (r ! 4) '''', re_type = option_or (r ! 5) ''L''\<rparr>"

definition ghost :: "resting \<Rightarrow> bool" where
  "ghost R \<longleftrightarrow> re_status R = ''F'' \<or> re_status R = ''C'' \<or> re_remaining R \<le> 0"

definition crosses :: "match_args \<Rightarrow> resting \<Rightarrow> bool" where
  "crosses A R \<longleftrightarrow>
     (if ma_order_type A = ''M'' then True
      else if ma_side A = ''B'' then re_price R \<le> ma_price_i A
      else ma_price_i A \<le> re_price R)"

definition stp_action :: "match_args \<Rightarrow> resting \<Rightarrow> string" where
  "stp_action A R =
     (if ma_user A = re_user R then (if ma_stp A = ''N'' then re_stp R else ma_stp A) else ''N'')"

definition fill_amount :: "lua_loop \<Rightarrow> resting \<Rightarrow> int" where
  "fill_amount st R = (if re_remaining R < ll_remaining st then re_remaining R else ll_remaining st)"

definition raw_fill :: "match_args \<Rightarrow> string \<Rightarrow> lua_loop \<Rightarrow> resting \<Rightarrow> raw_trade" where
  "raw_fill A rid st R =
     \<lparr>rt_resting_id = rid, rt_price_i = (if re_type R = ''M'' then ma_price_i A else re_price R),
      rt_qty_i = fill_amount st R,
      rt_buyer_id = (if ma_side A = ''B'' then ma_user A else re_user R),
      rt_seller_id = (if ma_side A = ''B'' then re_user R else ma_user A)\<rparr>"

definition drop_resting :: "'s valkey \<Rightarrow> string \<Rightarrow> string \<Rightarrow> ('s, unit) vm" where
  "drop_resting V opp rid = vbind (vk_zrem V opp rid) (\<lambda>_. vk_del V (okey rid))"

definition match_one ::
  "'s valkey \<Rightarrow> match_args \<Rightarrow> string \<Rightarrow> lua_loop \<Rightarrow> string \<Rightarrow> ('s, lua_loop) vm" where
  "match_one V A opp st rid =
     vbind (vk_hmget V (okey rid) match_fields) (\<lambda>rfields.
     let R = read_resting rfields; act = stp_action A R in
     if ghost R then vret st
     else if \<not> crosses A R then vret (st\<lparr>ll_break := True\<rparr>)
     else if act = ''CM'' then vbind (drop_resting V opp rid) (\<lambda>_. vret st)
     else if act = ''CT'' then vret (st\<lparr>ll_status := ''C'', ll_remaining := 0, ll_break := True\<rparr>)
     else if act = ''CB'' then
       vbind (drop_resting V opp rid)
         (\<lambda>_. vret (st\<lparr>ll_status := ''C'', ll_remaining := 0, ll_break := True\<rparr>))
     else
       let fill_i = fill_amount st R;
           st' = st\<lparr>ll_trades := ll_trades st @ [raw_fill A rid st R],
                    ll_remaining := f64_round (ll_remaining st - fill_i)\<rparr>;
           new_r = f64_round (re_remaining R - fill_i)
       in if new_r \<le> 0 then vbind (drop_resting V opp rid) (\<lambda>_. vret st')
          else vbind (vk_hset V (okey rid) [(''remaining_i'', lua_tostring new_r), (''status'', ''PF'')])
                 (\<lambda>_. vret st'))"

fun match_loop ::
  "'s valkey \<Rightarrow> match_args \<Rightarrow> string \<Rightarrow> lua_loop \<Rightarrow> string list \<Rightarrow> ('s, lua_loop) vm" where
  "match_loop V A opp st [] = vret st"
| "match_loop V A opp st (rid # rids) =
     (if ll_remaining st \<le> 0 \<or> ll_break st then vret st
      else vbind (match_one V A opp st rid) (\<lambda>st'. match_loop V A opp st' rids))"

text \<open>
  The balance lock. Unlike \<open>LOCK_BALANCE_LUA\<close> it does not check for a balance
  that is no number: the comparison with nil is an error of the script. \<open>False\<close>
  is the early return with \<open>INSUFFICIENT_BALANCE\<close>.
\<close>

definition match_lock :: "'s valkey \<Rightarrow> match_args \<Rightarrow> ('s, bool) vm" where
  "match_lock V A =
     (case lua_tonumber (ma_lock_amount A) of
        None \<Rightarrow> vret True
      | Some lock_amount \<Rightarrow>
          if ma_lock_asset A = '''' \<or> lock_amount \<le> 0 then vret True
          else
            let bal_key = balance_key (ma_user A) (ma_lock_asset A) in
            vbind (vk_hget V bal_key ''available'') (\<lambda>v.
            vbind (vlift (ok_or (ScriptError ''attempt to compare with nil'')
                     (lua_tonumber (option_or v ''0'')))) (\<lambda>avail.
            if avail < lock_amount then vret False
            else vbind (lua_hincrby V bal_key ''available'' (- lock_amount)) (\<lambda>_.
                 vbind (lua_hincrby V bal_key ''locked'' lock_amount) (\<lambda>_.
                 vret True)))))"

definition final_status :: "match_args \<Rightarrow> int \<Rightarrow> lua_loop \<Rightarrow> string" where
  "final_status A qty_i st =
     (let s1 = (if ll_status st \<noteq> ''C'' then
                  (if ll_remaining st \<le> 0 then ''F'' else if ll_remaining st < qty_i then ''PF'' else ''N'')
                else ll_status st)
      in if ma_tif A = ''I'' \<and> ll_remaining st > 0 \<and> s1 \<noteq> ''C'' then ''C'' else s1)"

definition rest_fields :: "match_args \<Rightarrow> int \<Rightarrow> int \<Rightarrow> string \<Rightarrow> (string \<times> string) list" where
  "rest_fields A qty_i remaining_i status =
     [(''id'', ma_order_id A), (''pair_id'', ma_pair A), (''side'', ma_side A),
      (''order_type'', ma_order_type A), (''tif'', ma_tif A),
      (''price_i'', lua_tostring (ma_price_i A)), (''qty_i'', lua_tostring qty_i),
      (''remaining_i'', lua_tostring remaining_i), (''status'', status), (''stp'', ma_stp A),
      (''user_id'', ma_user A), (''ts_ms'', ma_ts A), (''version'', ''1'')]"

definition rest_incoming ::
  "'s valkey \<Rightarrow> match_args \<Rightarrow> string \<Rightarrow> string \<Rightarrow> int \<Rightarrow> lua_loop \<Rightarrow> ('s, unit) vm" where
  "rest_incoming V A own order_key qty_i st =
     (let status = final_status A qty_i st in
      if ma_tif A = ''G'' \<and> ll_remaining st > 0 \<and> status \<noteq> ''C'' then
        vbind (vk_zadd V own (ma_score A) (ma_order_id A)) (\<lambda>_.
        vbind (vk_hset V order_key (rest_fields A qty_i (ll_remaining st) status)) (\<lambda>_.
        vk_expire V order_key 3600))
      else vret ())"

text \<open>Replies of the service, as the client library hands them over.\<close>

datatype redis_value =
    BulkString string
  | SimpleString string
  | IntVal int
  | NilVal
  | ArrayVal "redis_value list"

definition trade_texts :: "raw_trade \<Rightarrow> string list" where
  "trade_texts t =
     [rt_resting_id t, lua_tostring (rt_price_i t), lua_tostring (rt_qty_i t), rt_buyer_id t, rt_seller_id t]"

definition match_reply :: "match_args \<Rightarrow> int \<Rightarrow> lua_loop \<Rightarrow> redis_value" where
  "match_reply A qty_i st =
     ArrayVal (map BulkString
       ([''OK'', lua_tostring (ll_remaining st), final_status A qty_i st,
         lua_tostring (int (length (ll_trades st)))] @ concat (map trade_texts (ll_trades st))))"

definition match_script :: "'s valkey \<Rightarrow> pair_keys \<Rightarrow> string \<Rightarrow> match_args \<Rightarrow> ('s, redis_value) vm" where
  "match_script V K order_key A =
     vbind (match_lock V A) (\<lambda>locked.
     if \<not> locked then vret (ArrayVal [BulkString ''INSUFFICIENT_BALANCE''])
     else
       let opp = (if ma_side A = ''B'' then pk_asks K else pk_bids K);
           own = (if ma_side A = ''B'' then pk_bids K else pk_asks K) in
       vbind (vk_zrangebyscore V opp (ma_max_score A) (Some (0, 50))) (\<lambda>resting_ids.
       vbind (vlift (ok_or (ScriptError ''attempt to compare nil'') (lua_tonumber (ma_qty A)))) (\<lambda>qty_i.
       vbind (match_loop V A opp
                \<lparr>ll_remaining = qty_i, ll_status = ''N'', ll_trades = [], ll_break = False\<rparr> resting_ids) (\<lambda>st.
       vbind (rest_incoming V A own order_key qty_i st) (\<lambda>_.
       vbind (vk_incrby V (pk_version K) 1) (\<lambda>_.
       vret (match_reply A qty_i st)))))))"

section \<open>The caller\<close>

record 'd lua_trade =
  lt_resting_order_id :: uuid
  lt_price :: 'd
  lt_quantity :: 'd
  lt_buyer_id :: string
  lt_seller_id :: string

record 'd lua_match_result =
  lr_remaining :: 'd
  lr_status :: order_status
  lr_trades :: "'d lua_trade list"

fun redis_value_to_string :: "redis_value \<Rightarrow> string option" where
  "redis_value_to_string (BulkString s) = Some s"
| "redis_value_to_string (SimpleString s) = Some s"
| "redis_value_to_string (IntVal n) = Some (string_of_int n)"
| "redis_value_to_string _ = None"

text \<open>\<open>parse::<usize>\<close>: digits with an optional plus sign.\<close>

definition parse_usize :: "string \<Rightarrow> nat option" where
  "parse_usize s =
     (case parse_nat (case s of [] \<Rightarrow> [] | c # cs \<Rightarrow> if c = CHR ''+'' then cs else s) of
        None \<Rightarrow> None | Some n \<Rightarrow> if n < 2 ^ 64 then Some n else None)"

definition lua_status :: "string \<Rightarrow> order_status result" where
  "lua_status s =
     (if s = ''N'' then Inr New else if s = ''PF'' then Inr PartiallyFilled
      else if s = ''F'' then Inr Filled else if s = ''C'' then Inr Cancelled
      else Inl (ScriptError ''unknown status from Lua''))"

definition max_score_of :: "'d::floor_ceiling order \<Rightarrow> int option" where
  "max_score_of ord =
     (case (o_side ord, o_price ord) of
        (Buy, Some price) \<Rightarrow> Some (f64_round (decimal_to_i64 price))
      | (Sell, Some price) \<Rightarrow> Some (- f64_round (decimal_to_i64 price))
      | _ \<Rightarrow> None)"

definition lua_args :: "'d::floor_ceiling ext \<Rightarrow> 'd order \<Rightarrow> string \<Rightarrow> int \<Rightarrow> match_args" where
  "lua_args X ord lock_asset lock_amount_scaled =
     \<lparr>ma_order_id = x_uuid_str X (o_id ord), ma_side = side_char (o_side ord),
      ma_order_type = order_type_char (o_order_type ord), ma_tif = tif_char (o_tif ord),
      ma_price = string_of_int (price_scaled ord),
      ma_qty = string_of_int (decimal_to_i64 (o_quantity ord)), ma_user = o_user_id ord,
      ma_stp = stp_char (o_stp_mode ord), ma_ts = string_of_int (x_millis X (o_created_at ord)),
      ma_pair = o_pair_id ord, ma_score = order_score ord, ma_max_score = max_score_of ord,
      ma_lock_asset = lock_asset, ma_lock_amount = string_of_int lock_amount_scaled\<rparr>"

definition field_text :: "string \<Rightarrow> redis_value \<Rightarrow> string result" where
  "field_text what v = ok_or (ParseError what) (redis_value_to_string v)"

text \<open>The trade number \<open>i\<close> of the reply; \<open>?\<close> leaves at the first field that cannot be read.\<close>

definition parse_trade :: "'d::floor_ceiling ext \<Rightarrow> redis_value list \<Rightarrow> nat \<Rightarrow> 'd lua_trade result" where
  "parse_trade X items i =
     (let base = 4 + i * 5 in
      result_bind (field_text ''missing resting_id'' (items ! base)) (\<lambda>rid.
      result_bind (ok_or (ParseError ''invalid resting_id UUID'') (x_uuid_parse X rid)) (\<lambda>resting_order_id.
      result_bind (field_text ''missing price_i'' (items ! (base + 1))) (\<lambda>price_s.
      result_bind (ok_or (ParseError ''invalid price_i'') (parse_i64 price_s)) (\<lambda>trade_price_i.
      result_bind (field_text ''missing qty_i'' (items ! (base + 2))) (\<lambda>qty_s.
      result_bind (ok_or (ParseError ''invalid qty_i'') (parse_i64 qty_s)) (\<lambda>trade_qty_i.
      result_bind (field_text ''missing buyer_id'' (items ! (base + 3))) (\<lambda>buyer_id.
      result_bind (field_text ''missing seller_id'' (items ! (base + 4))) (\<lambda>seller_id.
      Inr \<lparr>lt_resting_order_id = resting_order_id, lt_price = i64_to_decimal trade_price_i,
           lt_quantity = i64_to_decimal trade_qty_i, lt_buyer_id = buyer_id, lt_seller_id = seller_id\<rparr>)))))))))"

fun collect :: "'a result list \<Rightarrow> 'a list result" where
  "collect [] = Inr []"
| "collect (r # rs) = result_bind r (\<lambda>a. result_bind (collect rs) (\<lambda>as. Inr (a # as)))"

definition parse_reply ::
  "'d::floor_ceiling ext \<Rightarrow> 'd order \<Rightarrow> string \<Rightarrow> redis_value \<Rightarrow> 'd lua_match_result result" where
  "parse_reply X ord lock_asset raw =
     (case raw of
        ArrayVal items \<Rightarrow>
          if items \<noteq> [] \<and> redis_value_to_string (items ! 0) = Some ''INSUFFICIENT_BALANCE'' then
            Inl (InsufficientBalance lock_asset (o_user_id ord))
          else if length items < 4 then Inl (ScriptError ''Lua script returned too few fields'')
          else if option_or (redis_value_to_string (items ! 0)) '''' \<noteq> ''OK'' then
            Inl (ScriptError ''Lua script returned error'')
          else
            let remaining_i = option_or (Option.bind (redis_value_to_string (items ! 1)) parse_i64) 0 in
            result_bind (lua_status (option_or (redis_value_to_string (items ! 2)) '''')) (\<lambda>status.
            let trade_count = option_or (Option.bind (redis_value_to_string (items ! 3)) parse_usize) 0 in
            if length items < 4 + trade_count * 5 then Inl (ScriptError ''Lua returned too few items'')
            else result_bind (collect (map (parse_trade X items) [0..<trade_count])) (\<lambda>trades.
                 Inr \<lparr>lr_remaining = i64_to_decimal remaining_i, lr_status = status, lr_trades = trades\<rparr>))
      | _ \<Rightarrow> Inl (ScriptError ''unexpected Lua return type''))"

definition match_order_lua ::
  "'s valkey \<Rightarrow> 'd::floor_ceiling ext \<Rightarrow> 'd order \<Rightarrow> pair_keys \<Rightarrow> string \<Rightarrow> int
   \<Rightarrow> ('s, 'd lua_match_result) vm" where
  "match_order_lua V X ord K lock_asset lock_amount_scaled =
     vbind (vk_conn V) (\<lambda>_.
     vbind (vmap_err (\<lambda>_. ScriptError ''Lua match_order EVAL'')
              (match_script V K (okey (x_uuid_str X (o_id ord)))
                 (lua_args X ord lock_asset lock_amount_scaled))) (\<lambda>raw.
     vlift (parse_reply X ord lock_asset raw)))"

section \<open>Independence of the service\<close>

context valkey_spec
begin

lemma sim_drop_resting [sim_rules]: "simulates \<alpha> (drop_resting V k r) (drop_resting ref_valkey k r)"
  unfolding drop_resting_def ref_valkey_ops by (intro sim_rules)

lemma sim_match_one [sim_rules]: "simulates \<alpha> (match_one V A opp st r) (match_one ref_valkey A opp st r)"
  unfolding match_one_def ref_valkey_ops Let_def by (intro sim_rules)

lemma sim_match_loop [sim_rules]:
  "simulates \<alpha> (match_loop V A opp st rs) (match_loop ref_valkey A opp st rs)"
  by (induction rs arbitrary: st) (simp_all add: sim_rules)

lemma sim_match_lock [sim_rules]: "simulates \<alpha> (match_lock V A) (match_lock ref_valkey A)"
  unfolding match_lock_def ref_valkey_ops Let_def by (intro sim_rules)

lemma sim_rest_incoming [sim_rules]:
  "simulates \<alpha> (rest_incoming V A own k q st) (rest_incoming ref_valkey A own k q st)"
  unfolding rest_incoming_def ref_valkey_ops Let_def by (intro sim_rules)

lemma sim_match_script [sim_rules]:
  "simulates \<alpha> (match_script V K k A) (match_script ref_valkey K k A)"
  unfolding match_script_def ref_valkey_ops Let_def by (intro sim_rules)

lemma sim_match_order_lua [sim_rules]:
  "simulates \<alpha> (match_order_lua V X ord K la n) (match_order_lua ref_valkey X ord K la n)"
  unfolding match_order_lua_def ref_valkey_ops by (intro sim_rules)

end

end
