(* ===== verification/Lua_Walk.thy ===== *)
theory Lua_Walk
  imports Lua_Match
begin

text \<open>
  The loop of the matching script on the documented key space, as a function on
  the loop variables and the data, and its interpretation as a price-time loop.
\<close>

section \<open>The loop as a function\<close>

definition resting_at :: "vdata \<Rightarrow> string \<Rightarrow> resting" where
  "resting_at d rid = read_resting (map (hash_at d (okey rid)) match_fields)"

definition dropped :: "string \<Rightarrow> string \<Rightarrow> vdata \<Rightarrow> vdata" where
  "dropped opp rid d = put_key (okey rid) None (put_key opp (zset_value (zset_remove rid (zset_at d opp))) d)"

definition reduced :: "string \<Rightarrow> int \<Rightarrow> vdata \<Rightarrow> vdata" where
  "reduced rid n d =
     put_key (okey rid) (Some (VHash (hset_all (hash_at d (okey rid))
       [(''remaining_i'', lua_tostring n), (''status'', ''PF'')]))) d"

definition lua_verdict :: "match_args \<Rightarrow> resting \<Rightarrow> verdict" where
  "lua_verdict A R =
     (if ghost R then Skip else if \<not> crosses A R then Stop
      else if stp_action A R = ''CM'' then Skip
      else if stp_action A R \<in> {''CT'', ''CB''} then CancelStop else Take)"

definition lua_step :: "match_args \<Rightarrow> string \<Rightarrow> lua_loop \<times> vdata \<Rightarrow> string \<Rightarrow> lua_loop \<times> vdata" where
  "lua_step A opp sd rid =
     (let st = fst sd; d = snd sd; R = resting_at d rid; act = stp_action A R in
      if ghost R then (st, d)
      else if \<not> crosses A R then (st\<lparr>ll_break := True\<rparr>, d)
      else if act = ''CM'' then (st, dropped opp rid d)
      else if act = ''CT'' then (st\<lparr>ll_status := ''C'', ll_remaining := 0, ll_break := True\<rparr>, d)
      else if act = ''CB'' then
        (st\<lparr>ll_status := ''C'', ll_remaining := 0, ll_break := True\<rparr>, dropped opp rid d)
      else
        let fill_i = fill_amount st R;
            st' = st\<lparr>ll_trades := ll_trades st @ [raw_fill A rid st R],
                     ll_remaining := f64_round (ll_remaining st - fill_i)\<rparr>;
            new_r = f64_round (re_remaining R - fill_i)
        in (st', if new_r \<le> 0 then dropped opp rid d else reduced rid new_r d))"

fun lua_walk :: "match_args \<Rightarrow> string \<Rightarrow> lua_loop \<times> vdata \<Rightarrow> string list \<Rightarrow> lua_loop \<times> vdata" where
  "lua_walk A opp sd [] = sd"
| "lua_walk A opp sd (rid # rids) =
     (if ll_remaining (fst sd) \<le> 0 \<or> ll_break (fst sd) then sd
      else lua_walk A opp (lua_step A opp sd rid) rids)"

lemma dropped_keeps [simp]:
  "well_keyed d \<Longrightarrow> key_kind opp = Some KZset \<Longrightarrow> well_keyed (dropped opp rid d)"
  "vd_pool (dropped opp rid d) = vd_pool d"
  by (simp_all add: dropped_def)

lemma reduced_keeps [simp]:
  "well_keyed d \<Longrightarrow> well_keyed (reduced rid n d)" "vd_pool (reduced rid n d) = vd_pool d"
  by (simp_all add: reduced_def key_simps)

lemma run_drop:
  "well_keyed d \<Longrightarrow> key_kind opp = Some KZset \<Longrightarrow>
     drop_resting ref_valkey opp rid d = (Inr (), dropped opp rid d)"
  by (simp add: drop_resting_def run_simps dropped_def)

lemma run_match_one:
  assumes "well_keyed d" "key_kind opp = Some KZset"
  shows "match_one ref_valkey A opp st rid d =
    (Inr (fst (lua_step A opp (st, d) rid)), snd (lua_step A opp (st, d) rid))"
  using assms
  by (simp add: match_one_def lua_step_def Let_def vbind_def run_simps key_simps run_drop
      resting_at_def [symmetric] reduced_def)

lemma lua_step_keeps:
  assumes "well_keyed (snd sd)" "key_kind opp = Some KZset"
  shows "well_keyed (snd (lua_step A opp sd rid))"
  using assms by (simp add: lua_step_def Let_def)

lemma lua_step_pool: "vd_pool (snd (lua_step A opp sd rid)) = vd_pool (snd sd)"
  by (simp add: lua_step_def Let_def)

lemma run_match_loop:
  assumes "well_keyed d" "key_kind opp = Some KZset"
  shows "match_loop ref_valkey A opp st rids d =
    (Inr (fst (lua_walk A opp (st, d) rids)), snd (lua_walk A opp (st, d) rids))"
  using assms
proof (induction rids arbitrary: st d)
  case (Cons rid rids)
  have "match_loop ref_valkey A opp (fst (lua_step A opp (st, d) rid)) rids (snd (lua_step A opp (st, d) rid)) =
      (Inr (fst (lua_walk A opp (lua_step A opp (st, d) rid) rids)),
       snd (lua_walk A opp (lua_step A opp (st, d) rid) rids))"
    using Cons.IH [of "snd (lua_step A opp (st, d) rid)" "fst (lua_step A opp (st, d) rid)"]
      Cons.prems lua_step_keeps [of "(st, d)"] by simp
  with Cons.prems show ?case
    by (simp add: vbind_def run_simps run_match_one)
qed (simp add: run_simps)

lemma lua_walk_keeps:
  "well_keyed (snd sd) \<Longrightarrow> key_kind opp = Some KZset \<Longrightarrow> well_keyed (snd (lua_walk A opp sd rids))"
  "vd_pool (snd (lua_walk A opp sd rids)) = vd_pool (snd sd)"
  by (induction rids arbitrary: sd) (auto simp: lua_step_keeps lua_step_pool)

section \<open>The loop as an instance of the matching interface\<close>

lemma resting_at_other [simp]:
  assumes "rid' \<noteq> rid" "key_kind opp = Some KZset"
  shows "resting_at (dropped opp rid d) rid' = resting_at d rid'"
    "resting_at (reduced rid n d) rid' = resting_at d rid'"
proof -
  have "okey rid' \<noteq> opp" using assms(2) key_kinds(5) [of rid'] by auto
  with assms show "resting_at (dropped opp rid d) rid' = resting_at d rid'"
    "resting_at (reduced rid n d) rid' = resting_at d rid'"
    by (simp_all add: resting_at_def dropped_def reduced_def key_simps)
qed

lemma lua_step_other:
  assumes "rid' \<noteq> rid" "key_kind opp = Some KZset"
  shows "resting_at (snd (lua_step A opp sd rid)) rid' = resting_at (snd sd) rid'"
  using assms by (simp add: lua_step_def Let_def)

lemma fill_amount_min: "fill_amount st R = min (ll_remaining st) (re_remaining R)"
  by (simp add: fill_amount_def min_def)

lemma lua_step_take:
  assumes "lua_verdict A (resting_at (snd sd) rid) = Take"
    and "0 \<le> ll_remaining (fst sd)" "ll_remaining (fst sd) \<le> 2 ^ 53"
  shows "fst (lua_step A opp sd rid) =
    (fst sd)\<lparr>ll_trades := ll_trades (fst sd) @ [raw_fill A rid (fst sd) (resting_at (snd sd) rid)],
      ll_remaining := ll_remaining (fst sd) -
        min (ll_remaining (fst sd)) (re_remaining (resting_at (snd sd) rid))\<rparr>"
proof -
  let ?R = "resting_at (snd sd) rid"
  have v: "\<not> ghost ?R" "crosses A ?R" "stp_action A ?R \<notin> {''CM'', ''CT'', ''CB''}"
    using assms(1) by (auto simp: lua_verdict_def split: if_splits)
  then have "0 < re_remaining ?R" by (simp add: ghost_def)
  with assms(2,3) have "f64_round (ll_remaining (fst sd) - fill_amount (fst sd) ?R) =
      ll_remaining (fst sd) - min (ll_remaining (fst sd)) (re_remaining ?R)"
    unfolding fill_amount_min by (intro f64_round_exact) auto
  with v show ?thesis by (simp add: lua_step_def Let_def)
qed

definition lua_fills :: "lua_loop \<Rightarrow> (string \<times> int) list" where
  "lua_fills st = map (\<lambda>t. (rt_resting_id t, rt_qty_i t)) (ll_trades st)"

definition lua_ok :: "lua_loop \<times> vdata \<Rightarrow> bool" where
  "lua_ok sd \<longleftrightarrow> 0 \<le> ll_remaining (fst sd) \<and> ll_remaining (fst sd) \<le> 2 ^ 53 \<and> \<not> ll_break (fst sd)"

lemma lua_step_skip:
  assumes "lua_verdict A (resting_at (snd sd) rid) = Skip"
  shows "fst (lua_step A opp sd rid) = fst sd"
  using assms by (auto simp: lua_verdict_def lua_step_def Let_def split: if_splits)

lemma lua_step_halt:
  assumes "lua_verdict A (resting_at (snd sd) rid) \<in> {Stop, CancelStop}"
  shows "ll_break (fst (lua_step A opp sd rid))"
    "ll_trades (fst (lua_step A opp sd rid)) = ll_trades (fst sd)"
    "lua_verdict A (resting_at (snd sd) rid) = Stop \<Longrightarrow>
       ll_remaining (fst (lua_step A opp sd rid)) = ll_remaining (fst sd)"
  using assms by (auto simp: lua_verdict_def lua_step_def Let_def split: if_splits)

lemma lua_walk_broken: "ll_break (fst sd) \<Longrightarrow> lua_walk A opp sd rids = sd"
  by (cases rids) simp_all

interpretation lua: price_time_loop lua_ok "lua_walk A (book_key p sd)" "lua_step A (book_key p sd)"
  "lua_step A (book_key p sd)" "\<lambda>st rid. lua_verdict A (resting_at (snd st) rid)"
  "\<lambda>st rid. re_remaining (resting_at (snd st) rid)" id "\<lambda>st. lua_fills (fst st)"
  "\<lambda>st. ll_remaining (fst st)" "(\<noteq>)" for A p sd
proof (unfold_locales, goal_cases)
  case (2 st xs)
  then show ?case by (cases xs) simp_all
next
  case (3 st x xs)
  then show ?case by (simp add: lua_ok_def lua_walk_broken lua_step_halt)
next
  case (4 st x xs)
  then show ?case by (simp add: lua_ok_def)
next
  case (5 st x)
  then show ?case by (simp add: lua_fills_def lua_step_halt)
next
  case (9 st x)
  then show ?case
    by (simp add: lua_ok_def lua_step_take lua_fills_def raw_fill_def fill_amount_min)
next
  case (11 st x)
  then show ?case
    by (auto simp: lua_ok_def lua_step_take lua_step_skip lua_verdict_def ghost_def split: if_splits)
qed (auto simp: lua_ok_def lua_fills_def lua_step_halt lua_step_skip lua_step_take lua_step_other key_simps)

end
