(* ===== verification/Lua_Match_Props.thy ===== *)
theory Lua_Match_Props
  imports Lua_Walk Engine_Props Balance_Props
begin

text \<open>
  What the atomic match guarantees: on a book the cache operations maintain, the
  script produces the trades of the reference engine (theory \<open>Engine\<close>), it keeps
  the book, and it changes nothing when the balance is too small. The amounts are
  bounded by \<open>10 ^ 14\<close> units, from where on the script writes numbers with an
  exponent; the last section shows what happens beyond.
\<close>

section \<open>Resting orders as the script reads them\<close>

lemma stored_fields:
  assumes "stored_order X now d i = Some ord"
  obtains pi ri st stp ot where
    "parse_i64 (option_or (hash_at d (okey i) ''price_i'') ''0'') = Some pi"
    "o_price ord = (if o_order_type ord = Market \<or> pi = 0 then None else Some (i64_to_decimal pi))"
    "Option.bind (hash_at d (okey i) ''remaining_i'') parse_i64 = Some ri" "o_remaining ord = i64_to_decimal ri"
    "hash_at d (okey i) ''status'' = Some st" "o_status ord = parse_status_char st"
    "hash_at d (okey i) ''stp'' = Some stp" "o_stp_mode ord = parse_stp_char stp"
    "hash_at d (okey i) ''user_id'' = Some (o_user_id ord)"
    "hash_at d (okey i) ''order_type'' = Some ot" "parse_type_char ot = Some (o_order_type ord)"
  using assms
  unfolding stored_order_def parse_order_from_hmget_def ORDER_FIELDS_def
  by (auto simp: bind_eq_Some_conv Let_def split: if_splits)

lemma resting_of_stored:
  assumes "stored_order X now d i = Some ord"
  obtains pi ri where
    "re_price (resting_at d i) = f64_round pi" "re_remaining (resting_at d i) = f64_round ri"
    "o_price ord = (if o_order_type ord = Market \<or> pi = 0 then None else Some (i64_to_decimal pi))"
    "o_remaining ord = i64_to_decimal ri" "i64_ok pi" "i64_ok ri"
    "re_user (resting_at d i) = o_user_id ord" "(re_type (resting_at d i) = ''M'') = (o_order_type ord = Market)"
    "o_status ord = parse_status_char (re_status (resting_at d i))"
    "o_stp_mode ord = parse_stp_char (re_stp (resting_at d i))"
  using assms
proof (cases rule: stored_fields)
  case (1 pi ri st stp ot)
  let ?h = "hash_at d (okey i)"
  have "option_or (Option.bind (?h ''price_i'') lua_tonumber) 0 = f64_round pi"
    using 1(1) by (cases "?h ''price_i''") (auto simp: zero_text codec_simps dest: lua_tonumber_parse)
  moreover have "option_or (Option.bind (?h ''remaining_i'') lua_tonumber) 0 = f64_round ri"
    using 1(3) by (auto simp: bind_eq_Some_conv dest: lua_tonumber_parse)
  moreover have "(ot = ''M'') = (o_order_type ord = Market)"
    using 1(11) by (auto simp: parse_type_char_def split: if_splits)
  moreover have "i64_ok pi" "i64_ok ri"
    using 1(1,3) by (auto simp: bind_eq_Some_conv dest: parse_i64_range)
  ultimately show thesis
    using that [of pi ri] 1 by (simp add: resting_at_def match_fields_def read_resting_def)
qed

section \<open>The reply\<close>

lemma nth_concat_5:
  assumes "\<forall>x \<in> set xs. length (f x) = 5" "i < length xs" "j < 5"
  shows "concat (map f xs) ! (i * 5 + j) = f (xs ! i) ! j"
  using assms
proof (induction xs arbitrary: i)
  case (Cons x xs)
  then show ?case by (cases i) (simp_all add: nth_append)
qed simp

lemma length_concat_5: "\<forall>x \<in> set xs. length (f x) = 5 \<Longrightarrow> length (concat (map f xs)) = length xs * 5"
  by (induction xs) auto

definition lua_trade_of :: "'d::floor_ceiling ext \<Rightarrow> raw_trade \<Rightarrow> 'd lua_trade" where
  "lua_trade_of X t =
     \<lparr>lt_resting_order_id = the (x_uuid_parse X (rt_resting_id t)), lt_price = i64_to_decimal (rt_price_i t),
      lt_quantity = i64_to_decimal (rt_qty_i t), lt_buyer_id = rt_buyer_id t, lt_seller_id = rt_seller_id t\<rparr>"

definition readable_trade :: "'d ext \<Rightarrow> raw_trade \<Rightarrow> bool" where
  "readable_trade X t \<longleftrightarrow> x_uuid_parse X (rt_resting_id t) \<noteq> None \<and>
     \<bar>rt_price_i t\<bar> < 10 ^ 14 \<and> \<bar>rt_qty_i t\<bar> < 10 ^ 14"

lemma collect_map: "(\<And>x. x \<in> set xs \<Longrightarrow> f x = Inr (g x)) \<Longrightarrow> collect (map f xs) = Inr (map g xs)"
  by (induction xs) auto

lemma trade_texts_length [simp]: "length (trade_texts t) = 5"
  by (simp add: trade_texts_def)

lemma parse_trade_reply:
  assumes "i < length ts" "readable_trade X (ts ! i)"
  shows "parse_trade X (a # b # c # e # map BulkString (concat (map trade_texts ts))) i =
    Inr (lua_trade_of X (ts ! i))"
proof -
  let ?l = "a # b # c # e # map BulkString (concat (map trade_texts ts))"
  have nth: "?l ! (4 + i * 5 + j) = BulkString (trade_texts (ts ! i) ! j)" if "j < 5" for j
  proof -
    have "?l ! (4 + i * 5 + j) = map BulkString (concat (map trade_texts ts)) ! (i * 5 + j)"
      by (simp add: numeral_eq_Suc)
    moreover have "i * 5 + j < length (concat (map trade_texts ts))"
      using assms(1) that by (simp add: length_concat_5)
    ultimately show ?thesis
      using nth_concat_5 [of ts trade_texts i j] assms(1) that by simp
  qed
  obtain u where u: "x_uuid_parse X (rt_resting_id (ts ! i)) = Some u"
    using assms(2) by (auto simp: readable_trade_def)
  have num: "parse_i64 (lua_tostring (rt_price_i (ts ! i))) = Some (rt_price_i (ts ! i))"
    "parse_i64 (lua_tostring (rt_qty_i (ts ! i))) = Some (rt_qty_i (ts ! i))"
    using assms(2) by (simp_all add: readable_trade_def lua_number_round_trip)
  show ?thesis
    using nth [of 0] nth [of 1] nth [of 2] nth [of 3] nth [of 4]
    by (simp add: parse_trade_def Let_def field_text_def trade_texts_def u num lua_trade_of_def
        del: nth_Cons_numeral nth_Cons_Suc)
qed

lemma parse_usize_count: "n < 10 ^ 14 \<Longrightarrow> parse_usize (lua_tostring (int n)) = Some n"
proof -
  assume n: "n < 10 ^ 14"
  obtain dg rest where s: "string_of_nat n = digit_char dg # rest" and d: "dg < 10"
    using string_of_nat_hd by blast
  have "lua_tostring (int n) = string_of_nat n"
    using n by (simp add: lua_tostring_def string_of_int_def)
  moreover have "parse_nat (digit_char dg # rest) = Some n"
    using parse_nat_string_of_nat [of n] by (simp add: s)
  moreover have "n < 2 ^ 64" using n by simp
  ultimately show ?thesis using d by (simp add: parse_usize_def s)
qed

lemma parse_match_reply:
  assumes "\<bar>ll_remaining st\<bar> < 10 ^ 14" "length (ll_trades st) < 10 ^ 14"
    "\<forall>t \<in> set (ll_trades st). readable_trade X t" "lua_status (final_status A q st) = Inr status"
  shows "parse_reply X ord la (match_reply A q st) =
    Inr \<lparr>lr_remaining = i64_to_decimal (ll_remaining st), lr_status = status,
         lr_trades = map (lua_trade_of X) (ll_trades st)\<rparr>"
proof -
  let ?ts = "ll_trades st"
  let ?items = "map BulkString ([''OK'', lua_tostring (ll_remaining st), final_status A q st,
      lua_tostring (int (length ?ts))] @ concat (map trade_texts ?ts))"
  have len: "length ?items = 4 + length ?ts * 5"
    by (simp add: length_concat_5)
  have "collect (map (parse_trade X ?items) [0..<length ?ts]) =
      Inr (map (\<lambda>i. lua_trade_of X (?ts ! i)) [0..<length ?ts])"
    using assms(3) by (intro collect_map) (simp add: parse_trade_reply)
  also have "map (\<lambda>i. lua_trade_of X (?ts ! i)) [0..<length ?ts] = map (lua_trade_of X) ?ts"
    by (intro nth_equalityI) simp_all
  finally have tr: "collect (map (parse_trade X ?items) [0..<length ?ts]) = Inr (map (lua_trade_of X) ?ts)" .
  have num: "parse_i64 (lua_tostring (ll_remaining st)) = Some (ll_remaining st)"
    "parse_usize (lua_tostring (int (length ?ts))) = Some (length ?ts)"
    using assms(1,2) by (simp_all add: lua_number_round_trip parse_usize_count)
  have head: "?items ! 0 = BulkString ''OK''" "?items ! 1 = BulkString (lua_tostring (ll_remaining st))"
    "?items ! 2 = BulkString (final_status A q st)" "?items ! 3 = BulkString (lua_tostring (int (length ?ts)))"
    "?items \<noteq> []"
    by simp_all
  have "parse_reply X ord la (ArrayVal ?items) =
    Inr \<lparr>lr_remaining = i64_to_decimal (ll_remaining st), lr_status = status,
         lr_trades = map (lua_trade_of X) ?ts\<rparr>"
    unfolding parse_reply_def redis_value.case head len Let_def
    by (simp only: head redis_value_to_string.simps option.inject option_or_simps bind.bind_lunit num tr assms(4)
        result_bind.simps) simp
  then show ?thesis by (simp add: match_reply_def)
qed

section \<open>The book the script sees\<close>

text \<open>Open orders with amounts below \<open>10 ^ 14\<close> units.\<close>

definition open_entry :: "'d::floor_ceiling ext \<Rightarrow> instant \<Rightarrow> vdata \<Rightarrow> int \<times> string \<Rightarrow> bool" where
  "open_entry X now d e \<longleftrightarrow>
     (case stored_order X now d (snd e) of None \<Rightarrow> False
      | Some ord \<Rightarrow> o_status ord \<in> {New, PartiallyFilled} \<and> 0 < o_remaining ord \<and>
          o_remaining ord < i64_to_decimal (10 ^ 14) \<and> \<bar>fst e\<bar> < 10 ^ 14)"

definition open_book :: "'d::floor_ceiling ext \<Rightarrow> instant \<Rightarrow> vdata \<Rightarrow> string \<Rightarrow> side \<Rightarrow> bool" where
  "open_book X now d p sd \<longleftrightarrow>
     book_inv X now d p sd \<and> list_all (open_entry X now d) (zset_at d (book_key p sd))"

text \<open>An incoming order with amounts below \<open>10 ^ 14\<close> units.\<close>

definition script_order :: "'d::floor_ceiling order \<Rightarrow> bool" where
  "script_order ord \<longleftrightarrow> o_remaining ord = o_quantity ord \<and> o_status ord = New \<and>
     on_grid (o_quantity ord) \<and> 0 < decimal_to_i64 (o_quantity ord) \<and> decimal_to_i64 (o_quantity ord) < 10 ^ 14 \<and>
     (case o_price ord of None \<Rightarrow> o_order_type ord = Market
      | Some p \<Rightarrow> o_order_type ord = Limit \<and> on_grid p \<and> 0 < decimal_to_i64 p \<and> decimal_to_i64 p < 10 ^ 14)"

text \<open>
  The script falls back to the mode of the resting order when the incoming order
  has none; the engine looks at the incoming order only.
\<close>

definition stp_agrees :: "'d order \<Rightarrow> 'd order \<Rightarrow> bool" where
  "stp_agrees incoming maker \<longleftrightarrow>
     (o_user_id incoming = o_user_id maker \<and> o_stp_mode incoming = StpNone \<longrightarrow> o_stp_mode maker = StpNone)"

abbreviation entry_price :: "side \<Rightarrow> int \<times> string \<Rightarrow> int" where
  "entry_price sd e \<equiv> (case sd of Buy \<Rightarrow> - fst e | Sell \<Rightarrow> fst e)"

lemma open_book_entry:
  assumes "open_book X now d p sd" "e \<in> set (zset_at d (book_key p sd))"
  obtains ord where "stored_order X now d (snd e) = Some ord" "x_uuid_str X (o_id ord) = snd e"
    "o_side ord = sd" "o_price ord = Some (i64_to_decimal (entry_price sd e))"
    "re_price (resting_at d (snd e)) = entry_price sd e"
    "o_remaining ord = i64_to_decimal (re_remaining (resting_at d (snd e)))"
    "0 < re_remaining (resting_at d (snd e))" "re_remaining (resting_at d (snd e)) < 10 ^ 14"
    "\<bar>entry_price sd e\<bar> < 10 ^ 14" "\<not> ghost (resting_at d (snd e))"
    "re_user (resting_at d (snd e)) = o_user_id ord" "re_type (resting_at d (snd e)) \<noteq> ''M''"
    "o_stp_mode ord = parse_stp_char (re_stp (resting_at d (snd e)))"
proof -
  let ?R = "resting_at d (snd e)"
  have oe: "open_entry X now d e" and inv: "book_inv X now d p sd"
    using assms by (auto simp: open_book_def list_all_iff)
  then obtain ord where st: "stored_order X now d (snd e) = Some ord"
    and o: "o_status ord \<in> {New, PartiallyFilled}" "0 < o_remaining ord"
      "o_remaining ord < i64_to_decimal (10 ^ 14)" "\<bar>fst e\<bar> < 10 ^ 14"
    by (auto simp: open_entry_def split: option.splits)
  note b = book_inv_stored [OF inv assms(2)]
  have pr: "o_price ord = Some (i64_to_decimal (entry_price sd e))" using b(5) st by simp
  from st obtain pi ri where R: "re_price ?R = f64_round pi" "re_remaining ?R = f64_round ri"
    "o_price ord = (if o_order_type ord = Market \<or> pi = 0 then None else Some (i64_to_decimal pi))"
    "o_remaining ord = i64_to_decimal ri" "re_user ?R = o_user_id ord"
    "(re_type ?R = ''M'') = (o_order_type ord = Market)" "o_status ord = parse_status_char (re_status ?R)"
    "o_stp_mode ord = parse_stp_char (re_stp ?R)"
    by (rule resting_of_stored)
  have p: "pi = entry_price sd e" "o_order_type ord \<noteq> Market"
    using R(3) pr by (auto split: if_splits)
  have r: "0 < ri" "ri < 10 ^ 14"
    using o(2,3) unfolding R(4) i64_to_decimal_less i64_to_decimal_pos by simp_all
  have pb: "\<bar>entry_price sd e\<bar> < 10 ^ 14" using o(4) by (cases sd) simp_all
  have "re_status ?R \<noteq> ''F''" "re_status ?R \<noteq> ''C''"
    using o(1) R(7) by (auto simp: parse_status_char_def)
  with r R have "\<not> ghost ?R" by (simp add: ghost_def)
  with that [OF st] b st pr R p r pb show thesis by simp
qed

lemma stp_char_cases: "stp_char m \<in> {''CM'', ''CT'', ''CB''} \<longleftrightarrow> m \<noteq> StpNone" "stp_char m = ''N'' \<longleftrightarrow> m = StpNone"
  "stp_char m = ''CM'' \<longleftrightarrow> m = CancelMaker" "stp_char m = ''CT'' \<longleftrightarrow> m = CancelTaker"
  "stp_char m = ''CB'' \<longleftrightarrow> m = CancelBoth"
  by (cases m; simp)+

lemma script_price:
  assumes "script_order ord"
  shows "ma_price_i (lua_args X ord la n) = price_scaled ord" "0 \<le> price_scaled ord" "price_scaled ord < 10 ^ 14"
    "o_order_type ord = Limit \<Longrightarrow> o_price ord = Some (i64_to_decimal (price_scaled ord))"
    "max_score_of ord = (if o_order_type ord = Market then None
       else Some (case o_side ord of Buy \<Rightarrow> price_scaled ord | Sell \<Rightarrow> - price_scaled ord))"
proof -
  show b: "0 \<le> price_scaled ord" "price_scaled ord < 10 ^ 14"
    using assms by (auto simp: script_order_def price_scaled_def split: option.splits)
  then have r: "f64_round (price_scaled ord) = price_scaled ord" by simp
  then show "ma_price_i (lua_args X ord la n) = price_scaled ord"
    by (simp add: ma_price_i_def lua_args_def codec_simps)
  show "o_order_type ord = Limit \<Longrightarrow> o_price ord = Some (i64_to_decimal (price_scaled ord))"
    "max_score_of ord = (if o_order_type ord = Market then None
       else Some (case o_side ord of Buy \<Rightarrow> price_scaled ord | Sell \<Rightarrow> - price_scaled ord))"
    using assms r
    by (auto simp: script_order_def price_scaled_def on_grid_def max_score_of_def split: option.splits side.splits)
qed

lemma verdict_agrees:
  assumes "script_order ord" "open_book X now d p (opposite (o_side ord))"
    and "e \<in> set (zset_at d (book_key p (opposite (o_side ord))))"
    and "stp_agrees ord (the (stored_order X now d (snd e)))"
  shows "lua_verdict (lua_args X ord la n) (resting_at d (snd e)) =
    engine_verdict ord (the (stored_order X now d (snd e)))"
  using assms(2,3)
proof (cases rule: open_book_entry)
  case (1 maker)
  let ?R = "resting_at d (snd e)" and ?A = "lua_args X ord la n"
  have "crosses ?A ?R \<longleftrightarrow> price_matches ord maker"
    using 1 script_price(1) [OF assms(1), of X la n] script_price(4) [OF assms(1)]
    by (cases "o_side ord"; cases "o_order_type ord") (simp_all add: crosses_def price_matches_def lua_args_def)
  moreover have "stp_action ?A ?R = ''CM'' \<longleftrightarrow> o_user_id ord = o_user_id maker \<and> o_stp_mode ord = CancelMaker"
    "stp_action ?A ?R \<in> {''CT'', ''CB''} \<longleftrightarrow>
       o_user_id ord = o_user_id maker \<and> o_stp_mode ord \<in> {CancelTaker, CancelBoth}"
    using 1 assms(4)
    by (auto simp: stp_action_def lua_args_def stp_char_cases stp_agrees_def parse_stp_char_def split: if_splits)
  ultimately show ?thesis
    using 1 by (cases "o_stp_mode ord") (auto simp: lua_verdict_def engine_verdict_def)
qed

section \<open>Running the script\<close>

definition after_lock :: "string \<Rightarrow> string \<Rightarrow> int \<Rightarrow> vdata \<Rightarrow> vdata" where
  "after_lock u a n d =
     (if a = '''' \<or> n \<le> 0 then d else moved d u a (account_avail u a d - n) (account_locked u a d + n))"

definition lock_fails :: "string \<Rightarrow> string \<Rightarrow> int \<Rightarrow> vdata \<Rightarrow> bool" where
  "lock_fails u a n d \<longleftrightarrow> a \<noteq> '''' \<and> 0 < n \<and> account_avail u a d < n"

lemma run_match_lock:
  assumes "well_keyed d" "a \<noteq> '''' \<Longrightarrow> 0 < n \<Longrightarrow> account_ok (o_user_id ord) a d"
  shows "match_lock ref_valkey (lua_args X ord a n) d =
    (if lock_fails (o_user_id ord) a n d then (Inr False, d) else (Inr True, after_lock (o_user_id ord) a n d))"
proof (cases "a = '''' \<or> n \<le> 0")
  case True
  have "a = '''' \<or> f64_round n \<le> 0"
  proof (cases "a = ''''")
    case False
    with True have "0 \<le> f64_round (- n)"
      using f64_round_ge [of "- n"] by (cases "- n \<le> 2 ^ 53") auto
    then show ?thesis by (simp add: f64_round_uminus)
  qed simp
  with True show ?thesis
    by (auto simp: match_lock_def lua_args_def codec_simps run_simps after_lock_def lock_fails_def)
next
  case False
  let ?u = "o_user_id ord"
  have acc: "account_ok ?u a d" using assms(2) False by simp
  from acc show ?thesis
  proof (cases rule: account_okE)
    case (1 av lo)
    note read = plain_field_read(1) [OF holds_balance_fields(1) [OF 1(2)]]
    have av: "f64_round av = av" using 1 by simp
    show ?thesis
    proof (cases "av < n")
      case True
      have "av < f64_round n"
        using True 1 f64_round_ge [of n] by (cases "n \<le> 2 ^ 53") auto
      moreover from this have "0 < f64_round n" using 1 by simp
      ultimately show ?thesis
        using 1 False True read av assms(1)
        by (simp add: match_lock_def lua_args_def Let_def codec_simps vbind_def run_simps key_simps lock_fails_def)
    next
      case nlt: False
      then have n: "f64_round n = n" "i64_ok n" "i64_ok (- n)" "i64_ok (av - n)" "i64_ok (lo + n)"
        using False 1 by (auto simp: i64_ok_def)
      note run = run_hincrby_pair [OF assms(1) 1(2), of "- n" n]
      show ?thesis
        using 1 False nlt n read av run assms(1)
        by (simp add: match_lock_def lua_args_def Let_def codec_simps vbind_def run_simps key_simps lock_fails_def
            after_lock_def)
    qed
  qed
qed

lemma after_lock_keeps:
  assumes "well_keyed d" "a \<noteq> '''' \<Longrightarrow> 0 < n \<Longrightarrow> account_ok u a d" "\<not> lock_fails u a n d"
  shows "well_keyed (after_lock u a n d)" "vd_pool (after_lock u a n d) = vd_pool d"
    "zset_at (after_lock u a n d) (book_key p sd) = zset_at d (book_key p sd)"
    "hash_at (after_lock u a n d) (okey i) = hash_at d (okey i)"
    "str_at (after_lock u a n d) (version_key p) = str_at d (version_key p)"
proof -
  have "i64_ok (account_avail u a d - n) \<and> i64_ok (account_locked u a d + n)" if c: "a \<noteq> ''''" "0 < n"
    using assms(2) [OF c]
  proof (cases rule: account_okE)
    case (1 av lo)
    with assms(3) c show ?thesis by (auto simp: lock_fails_def i64_ok_def)
  qed
  with assms(1) show "well_keyed (after_lock u a n d)" "vd_pool (after_lock u a n d) = vd_pool d"
    "zset_at (after_lock u a n d) (book_key p sd) = zset_at d (book_key p sd)"
    "hash_at (after_lock u a n d) (okey i) = hash_at d (okey i)"
    "str_at (after_lock u a n d) (version_key p) = str_at d (version_key p)"
    by (auto simp: after_lock_def moved_props)
qed

definition rested :: "match_args \<Rightarrow> string \<Rightarrow> string \<Rightarrow> int \<Rightarrow> lua_loop \<Rightarrow> vdata \<Rightarrow> vdata" where
  "rested A own k q st d =
     (if ma_tif A = ''G'' \<and> ll_remaining st > 0 \<and> final_status A q st \<noteq> ''C'' then
        let d1 = put_key own (zset_value (zset_add (ma_score A) (ma_order_id A) (zset_at d own))) d;
            d2 = put_key k (Some (VHash (hset_all (hash_at d1 k)
                   (rest_fields A q (ll_remaining st) (final_status A q st))))) d1
        in d2\<lparr>vd_ttl := (vd_ttl d2)(k \<mapsto> 3600 * 1000)\<rparr>
      else d)"

lemma run_rest_incoming:
  assumes "well_keyed d" "key_kind own = Some KZset" "key_kind k = Some KHash"
  shows "rest_incoming ref_valkey A own k q st d = (Inr (), rested A own k q st d)"
  using assms
  by (simp add: rest_incoming_def rested_def Let_def vbind_def run_simps d_expire_def)

lemma lua_step_str: "str_at (snd (lua_step A (book_key q sd) s rid)) (version_key p) = str_at (snd s) (version_key p)"
  by (simp add: lua_step_def Let_def dropped_def reduced_def key_simps)

lemma lua_walk_str: "str_at (snd (lua_walk A (book_key q sd) s rids)) (version_key p) = str_at (snd s) (version_key p)"
  by (induction rids arbitrary: s) (auto simp: lua_step_str)

lemma vd_ttl_upd [simp]:
  "hash_at (d\<lparr>vd_ttl := t\<rparr>) k = hash_at d k" "zset_at (d\<lparr>vd_ttl := t\<rparr>) k = zset_at d k"
  "str_at (d\<lparr>vd_ttl := t\<rparr>) k = str_at d k" "well_keyed (d\<lparr>vd_ttl := t\<rparr>) = well_keyed d"
  by (simp_all add: at_defs well_keyed_def)

lemma rested_keeps:
  assumes "well_keyed d" "key_kind own = Some KZset" "key_kind k = Some KHash"
  shows "well_keyed (rested A own k q st d)"
    "str_at (rested A own k q st d) (version_key p) = str_at d (version_key p)"
    "vd_pool (rested A own k q st d) = vd_pool d"
proof -
  have "version_key p \<noteq> own" "version_key p \<noteq> k"
    using assms(2,3) key_kinds(4) [of p] by auto
  with assms show "well_keyed (rested A own k q st d)"
    "str_at (rested A own k q st d) (version_key p) = str_at d (version_key p)"
    "vd_pool (rested A own k q st d) = vd_pool d"
    by (simp_all add: rested_def Let_def)
qed

abbreviation loop_start :: "int \<Rightarrow> lua_loop" where
  "loop_start q \<equiv> \<lparr>ll_remaining = q, ll_status = ''N'', ll_trades = [], ll_break = False\<rparr>"

text \<open>The loop of one call and the state it leaves.\<close>

definition call_walk :: "'d::floor_ceiling ext \<Rightarrow> 'd order \<Rightarrow> string \<Rightarrow> int \<Rightarrow> vdata \<Rightarrow> lua_loop \<times> vdata" where
  "call_walk X ord la n d =
     lua_walk (lua_args X ord la n) (book_key (o_pair_id ord) (opposite (o_side ord)))
       (loop_start (f64_round (decimal_to_i64 (o_quantity ord))), after_lock (o_user_id ord) la n d)
       (zrange_upto (max_score_of ord) (Some (0, 50)) (zset_at d (book_key (o_pair_id ord) (opposite (o_side ord)))))"

definition call_state :: "'d::floor_ceiling ext \<Rightarrow> 'd order \<Rightarrow> string \<Rightarrow> int \<Rightarrow> int \<Rightarrow> vdata \<Rightarrow> vdata" where
  "call_state X ord la n v d =
     put_key (version_key (o_pair_id ord)) (Some (VStr (string_of_int v)))
       (rested (lua_args X ord la n) (book_key (o_pair_id ord) (o_side ord)) (okey (x_uuid_str X (o_id ord)))
          (f64_round (decimal_to_i64 (o_quantity ord))) (fst (call_walk X ord la n d)) (snd (call_walk X ord la n d)))"

lemma script_keys:
  "(if ma_side (lua_args X ord la n) = ''B'' then pk_asks (new_pair_keys p) else pk_bids (new_pair_keys p)) =
     book_key p (opposite (o_side ord))"
  "(if ma_side (lua_args X ord la n) = ''B'' then pk_bids (new_pair_keys p) else pk_asks (new_pair_keys p)) =
     book_key p (o_side ord)"
  "pk_version (new_pair_keys p) = version_key p"
  by (cases "o_side ord"; simp add: lua_args_def new_pair_keys_def book_key_def bids_key_def asks_key_def version_key_def)+

lemma run_match_script:
  assumes "well_keyed d" "la \<noteq> '''' \<Longrightarrow> 0 < n \<Longrightarrow> account_ok (o_user_id ord) la d"
    and "add_to (str_at d (version_key (o_pair_id ord))) 1 = Inr v"
  shows "match_script ref_valkey (new_pair_keys (o_pair_id ord)) (okey (x_uuid_str X (o_id ord))) (lua_args X ord la n) d =
    (if lock_fails (o_user_id ord) la n d then (Inr (ArrayVal [BulkString ''INSUFFICIENT_BALANCE'']), d)
     else (Inr (match_reply (lua_args X ord la n) (f64_round (decimal_to_i64 (o_quantity ord)))
             (fst (call_walk X ord la n d))), call_state X ord la n v d))"
proof (cases "lock_fails (o_user_id ord) la n d")
  case True
  with run_match_lock [of d la n ord X, OF assms(1,2)] show ?thesis
    by (simp add: match_script_def vbind_def run_simps)
next
  case False
  let ?A = "lua_args X ord la n" and ?d1 = "after_lock (o_user_id ord) la n d"
  note keeps = after_lock_keeps [of d la n "o_user_id ord", OF assms(1,2) False]
  have qty: "lua_tonumber (ma_qty ?A) = Some (f64_round (decimal_to_i64 (o_quantity ord)))"
    and max: "ma_max_score ?A = max_score_of ord"
    by (simp_all add: lua_args_def codec_simps)
  have wk: "well_keyed (snd (call_walk X ord la n d))"
    and ver: "str_at (snd (call_walk X ord la n d)) (version_key (o_pair_id ord)) = str_at d (version_key (o_pair_id ord))"
    using keeps by (simp_all add: call_walk_def lua_walk_keeps lua_walk_str key_simps)
  have "match_script ref_valkey (new_pair_keys (o_pair_id ord)) (okey (x_uuid_str X (o_id ord))) ?A d =
    (Inr (match_reply ?A (f64_round (decimal_to_i64 (o_quantity ord))) (fst (call_walk X ord la n d))),
     call_state X ord la n v d)"
    using run_match_lock [of d la n ord X, OF assms(1,2)] False keeps wk ver assms(3)
    unfolding match_script_def script_keys Let_def
    by (simp add: vbind_def run_simps key_simps qty max run_match_loop run_rest_incoming rested_keeps
        call_walk_def [symmetric] call_state_def)
  with False show ?thesis by simp
qed

end
