(* ===== verification/Lua_Engine.thy ===== *)
theory Lua_Engine
  imports Lua_Match_Props
begin

text \<open>
  The script against the reference engine: both compute the price-time plan of the
  same book, the script in integer units, the engine in decimals.
\<close>

section \<open>The plan of one call\<close>

text \<open>What a call needs: room in the fixed-point range, a book of at most 50 orders.\<close>

definition callable :: "'d::floor_ceiling ext \<Rightarrow> instant \<Rightarrow> 'd order \<Rightarrow> string \<Rightarrow> int \<Rightarrow> vdata \<Rightarrow> bool" where
  "callable X now ord la n d \<longleftrightarrow>
     connected d \<and> script_order ord \<and> open_book X now d (o_pair_id ord) (opposite (o_side ord)) \<and>
     length (zset_at d (book_key (o_pair_id ord) (opposite (o_side ord)))) \<le> 50 \<and>
     is_ok (add_to (str_at d (version_key (o_pair_id ord))) 1) \<and>
     (la \<noteq> '''' \<and> 0 < n \<longrightarrow> account_ok (o_user_id ord) la d)"

abbreviation opp_zset :: "'d order \<Rightarrow> vdata \<Rightarrow> (int \<times> string) list" where
  "opp_zset ord d \<equiv> zset_at d (book_key (o_pair_id ord) (opposite (o_side ord)))"

abbreviation opp_book :: "'d::floor_ceiling ext \<Rightarrow> instant \<Rightarrow> 'd order \<Rightarrow> vdata \<Rightarrow> 'd order list" where
  "opp_book X now ord d \<equiv> book_list X now d (o_pair_id ord) (opposite (o_side ord))"

lemma callableD:
  assumes "callable X now ord la n d"
  shows "well_keyed d" "vd_pool d = []" "script_order ord"
    "open_book X now d (o_pair_id ord) (opposite (o_side ord))" "length (opp_zset ord d) \<le> 50"
    "\<exists>v. add_to (str_at d (version_key (o_pair_id ord))) 1 = Inr v"
    "la \<noteq> [] \<Longrightarrow> 0 < n \<Longrightarrow> account_ok (o_user_id ord) la d"
  using assms by (auto simp: callable_def elim: is_ok.elims)

lemma resting_at_after_lock:
  assumes "callable X now ord la n d" "\<not> lock_fails (o_user_id ord) la n d"
  shows "resting_at (after_lock (o_user_id ord) la n d) = resting_at d"
proof -
  note c = callableD [OF assms(1)]
  show ?thesis
    by (simp add: resting_at_def [abs_def] after_lock_keeps(4) [OF c(1) c(7) assms(2)])
qed

lemma beyond_bound_stops:
  assumes "script_order ord" "open_book X now d (o_pair_id ord) (opposite (o_side ord))"
    and "e \<in> set (opp_zset ord d)" "max_score_of ord = Some b" "\<not> fst e \<le> b"
  shows "lua_verdict (lua_args X ord la n) (resting_at d (snd e)) = Stop"
  using assms(2,3)
proof (cases rule: open_book_entry)
  case (1 maker)
  note p = script_price(1) [OF assms(1), of X la n] script_price(5) [OF assms(1)]
  have "o_order_type ord = Limit" using p(2) assms(4) by (cases "o_order_type ord") simp_all
  then have "\<not> crosses (lua_args X ord la n) (resting_at d (snd e))"
    using 1 p assms(4,5) by (cases "o_side ord") (auto simp: crosses_def lua_args_def)
  with 1 show ?thesis by (simp add: lua_verdict_def)
qed

lemma call_ids:
  assumes "callable X now ord la n d"
  shows "zrange_upto (max_score_of ord) (Some (0, 50)) (opp_zset ord d) =
    map snd (takeWhile (\<lambda>e. case max_score_of ord of None \<Rightarrow> True | Some b \<Rightarrow> fst e \<le> b) (opp_zset ord d))"
proof -
  let ?P = "\<lambda>e :: int \<times> string. case max_score_of ord of None \<Rightarrow> True | Some b \<Rightarrow> fst e \<le> b"
  have "sorted (opp_zset ord d)"
    using assms by (simp add: callable_def open_book_def book_inv_def zset_ok_def)
  then have "filter ?P (opp_zset ord d) = takeWhile ?P (opp_zset ord d)"
    by (rule takeWhile_eq_filter_sorted) (auto simp: less_eq_prod_def split: option.splits)
  moreover have "length (map snd (filter ?P (opp_zset ord d))) \<le> 50"
    using le_trans [OF length_filter_le callableD(5) [OF assms]] by simp
  ultimately show ?thesis by (simp add: zrange_upto_def zlimit_def)
qed

definition taken :: "'d::floor_ceiling ext \<Rightarrow> instant \<Rightarrow> 'd order \<Rightarrow> vdata \<Rightarrow> (int \<times> string) list" where
  "taken X now ord d =
     eligible (\<lambda>e. engine_verdict ord (the (stored_order X now d (snd e)))) (opp_zset ord d)"

lemma opp_book_map: "opp_book X now ord d = map (\<lambda>e. the (stored_order X now d (snd e))) (opp_zset ord d)"
  by (simp add: book_list_def)

lemma call_offers:
  assumes "callable X now ord la n d" "\<not> lock_fails (o_user_id ord) la n d"
    and "\<forall>maker \<in> set (opp_book X now ord d). stp_agrees ord maker"
  shows "lua.offers (lua_args X ord la n) (st, after_lock (o_user_id ord) la n d)
      (zrange_upto (max_score_of ord) (Some (0, 50)) (opp_zset ord d)) =
    map (\<lambda>e. (snd e, re_remaining (resting_at d (snd e)))) (taken X now ord d)"
proof -
  let ?v = "\<lambda>e. lua_verdict (lua_args X ord la n) (resting_at d (snd e))"
  let ?P = "\<lambda>e :: int \<times> string. case max_score_of ord of None \<Rightarrow> True | Some b \<Rightarrow> fst e \<le> b"
  have c: "script_order ord" "open_book X now d (o_pair_id ord) (opposite (o_side ord))"
    using assms(1) by (simp_all add: callable_def)
  have "eligible ?v (takeWhile ?P (opp_zset ord d)) = eligible ?v (opp_zset ord d)"
    by (rule eligible_takeWhile_cut) (auto intro: beyond_bound_stops [OF c] split: option.splits)
  also have "\<dots> = taken X now ord d"
    unfolding taken_def
    by (rule eligible_cong) (use assms(3) in \<open>auto intro!: verdict_agrees [OF c] simp: opp_book_map\<close>)
  finally show ?thesis
    unfolding lua.offers_def call_ids [OF assms(1)]
    by (simp add: eligible_map resting_at_after_lock [OF assms(1,2)])
qed

lemma call_qty:
  assumes "script_order ord"
  shows "f64_round (decimal_to_i64 (o_quantity ord)) = decimal_to_i64 (o_quantity ord)"
    "o_quantity ord = i64_to_decimal (decimal_to_i64 (o_quantity ord))"
    "lua_ok (loop_start (decimal_to_i64 (o_quantity ord)), d)"
  using assms by (auto simp: script_order_def on_grid_def lua_ok_def)

lemma ids_distinct:
  assumes "callable X now ord la n d"
  shows "distinct (zrange_upto (max_score_of ord) (Some (0, 50)) (opp_zset ord d))"
proof -
  have "distinct (map snd (opp_zset ord d))"
    using assms by (simp add: callable_def open_book_def book_inv_def zset_ok_def)
  then show ?thesis
    unfolding call_ids [OF assms] by (subst takeWhile_eq_take) (simp add: take_map [symmetric])
qed

abbreviation unit_offers :: "'d::floor_ceiling ext \<Rightarrow> instant \<Rightarrow> 'd order \<Rightarrow> vdata \<Rightarrow> (string \<times> int) list" where
  "unit_offers X now ord d \<equiv> map (\<lambda>e. (snd e, re_remaining (resting_at d (snd e)))) (taken X now ord d)"

lemma call_fills:
  assumes "callable X now ord la n d" "\<not> lock_fails (o_user_id ord) la n d"
    and "\<forall>maker \<in> set (opp_book X now ord d). stp_agrees ord maker"
  shows "lua_fills (fst (call_walk X ord la n d)) =
    fill_plan (decimal_to_i64 (o_quantity ord)) (unit_offers X now ord d)"
proof -
  let ?q = "decimal_to_i64 (o_quantity ord)" and ?d1 = "after_lock (o_user_id ord) la n d"
  have so: "script_order ord" using callableD(3) [OF assms(1)] .
  have "lua_fills (fst (lua_walk (lua_args X ord la n) (book_key (o_pair_id ord) (opposite (o_side ord)))
      (loop_start ?q, ?d1) (zrange_upto (max_score_of ord) (Some (0, 50)) (opp_zset ord d)))) =
    lua_fills (loop_start ?q) @ fill_plan ?q (lua.offers (lua_args X ord la n) (loop_start ?q, ?d1)
      (zrange_upto (max_score_of ord) (Some (0, 50)) (opp_zset ord d)))"
    using ids_distinct [OF assms(1)] so
      lua.run_fills [of "(loop_start ?q, ?d1)" "zrange_upto (max_score_of ord) (Some (0, 50)) (opp_zset ord d)"
        "lua_args X ord la n" "o_pair_id ord" "opposite (o_side ord)", OF call_qty(3) [OF so]]
    by (force simp: distinct_sorted_wrt script_order_def lua_verdict_def ghost_def split: if_splits)
  then show ?thesis
    by (simp add: call_walk_def call_qty(1) [OF so] call_offers [OF assms] lua_fills_def)
qed

lemma call_rest:
  assumes "callable X now ord la n d" "\<not> lock_fails (o_user_id ord) la n d"
    and "\<forall>maker \<in> set (opp_book X now ord d). stp_agrees ord maker \<and> engine_verdict ord maker \<noteq> CancelStop"
  shows "ll_remaining (fst (call_walk X ord la n d)) =
    decimal_to_i64 (o_quantity ord) -
    sum_list (map snd (fill_plan (decimal_to_i64 (o_quantity ord)) (unit_offers X now ord d)))"
proof -
  let ?q = "decimal_to_i64 (o_quantity ord)" and ?d1 = "after_lock (o_user_id ord) la n d"
  let ?ids = "zrange_upto (max_score_of ord) (Some (0, 50)) (opp_zset ord d)"
  note c = callableD [OF assms(1)]
  have "lua_verdict (lua_args X ord la n) (resting_at ?d1 x) \<noteq> CancelStop" if x: "x \<in> set ?ids" for x
  proof -
    obtain e where e: "e \<in> set (opp_zset ord d)" "x = snd e"
      using x unfolding call_ids [OF assms(1)] by (auto dest: set_takeWhileD)
    then have "the (stored_order X now d (snd e)) \<in> set (opp_book X now ord d)" by (simp add: opp_book_map)
    with assms(3) e show ?thesis
      by (simp add: resting_at_after_lock [OF assms(1,2)] verdict_agrees [OF c(3,4)])
  qed
  then have "ll_remaining (fst (lua_walk (lua_args X ord la n) (book_key (o_pair_id ord) (opposite (o_side ord)))
      (loop_start ?q, ?d1) ?ids)) +
    sum_list (map snd (fill_plan ?q (lua.offers (lua_args X ord la n) (loop_start ?q, ?d1) ?ids))) = ?q"
    using ids_distinct [OF assms(1)] c(3)
      lua.run_rest [of "(loop_start ?q, ?d1)" ?ids "lua_args X ord la n" "o_pair_id ord" "opposite (o_side ord)",
        OF call_qty(3) [OF c(3)]]
    by (force simp: distinct_sorted_wrt script_order_def lua_verdict_def ghost_def split: if_splits)
  moreover have "\<forall>maker \<in> set (opp_book X now ord d). stp_agrees ord maker" using assms(3) by blast
  ultimately show ?thesis
    by (simp add: call_walk_def call_qty(1) [OF c(3)] call_offers [OF assms(1,2)])
qed

text \<open>The same plan in decimals is the one of the engine.\<close>

lemma taken_entry:
  assumes "e \<in> set (taken X now ord d)"
  shows "e \<in> set (opp_zset ord d)" "engine_verdict ord (the (stored_order X now d (snd e))) = Take"
  using assms eligible_subset unfolding taken_def by fastforce+

lemma engine_offers:
  assumes "ext_spec X" "callable X now ord la n d"
  shows "map (\<lambda>r. (o_id r, o_remaining r)) (eligible (engine_verdict ord) (opp_book X now ord d)) =
    map (map_prod (\<lambda>rid. the (x_uuid_parse X rid)) i64_to_decimal) (unit_offers X now ord d)"
proof -
  have "(o_id (the (stored_order X now d (snd e))), o_remaining (the (stored_order X now d (snd e)))) =
      (the (x_uuid_parse X (snd e)), i64_to_decimal (re_remaining (resting_at d (snd e))))"
    if "e \<in> set (taken X now ord d)" for e
    using callableD(4) [OF assms(2)] taken_entry(1) [OF that]
  proof (cases rule: open_book_entry)
    case (1 maker)
    with ext_spec.uuid_round_trip [OF assms(1), of "o_id maker"] show ?thesis by simp
  qed
  then show ?thesis
    by (simp add: opp_book_map eligible_map taken_def [symmetric])
qed

lemma engine_plan:
  assumes "ext_spec X" "callable X now ord la n d"
  shows "fill_plan (o_remaining ord)
      (map (\<lambda>r. (o_id r, o_remaining r)) (eligible (engine_verdict ord) (opp_book X now ord d))) =
    map (map_prod (\<lambda>rid. the (x_uuid_parse X rid)) i64_to_decimal)
      (fill_plan (decimal_to_i64 (o_quantity ord)) (unit_offers X now ord d))"
proof -
  have "o_remaining ord = i64_to_decimal (decimal_to_i64 (o_quantity ord))"
    using callableD(3) [OF assms(2)] by (simp add: script_order_def on_grid_def)
  then show ?thesis
    unfolding engine_offers [OF assms]
    by (simp only: fill_plan_scale [where f = i64_to_decimal, OF i64_to_decimal_le i64_to_decimal_diff])
qed

lemma opp_book_nonneg:
  assumes "callable X now ord la n d"
  shows "\<forall>r \<in> set (opp_book X now ord d). 0 < o_remaining r"
proof
  fix r assume "r \<in> set (opp_book X now ord d)"
  then obtain e where e: "e \<in> set (opp_zset ord d)" "r = the (stored_order X now d (snd e))"
    by (auto simp: opp_book_map)
  with callableD(4) [OF assms] show "0 < o_remaining r"
    by (cases rule: open_book_entry) simp_all
qed

section \<open>The trades of one call\<close>

lemma lua_step_trades:
  "ll_trades (fst (lua_step A opp sd rid)) = ll_trades (fst sd) \<or>
   (lua_verdict A (resting_at (snd sd) rid) = Take \<and>
    ll_trades (fst (lua_step A opp sd rid)) =
      ll_trades (fst sd) @ [raw_fill A rid (fst sd) (resting_at (snd sd) rid)])"
  by (simp add: lua_step_def lua_verdict_def Let_def)

lemma lua_walk_trades:
  assumes "distinct rids" "key_kind opp = Some KZset" "t \<in> set (ll_trades (fst (lua_walk A opp sd rids)))"
  shows "t \<in> set (ll_trades (fst sd)) \<or>
    (\<exists>rid \<in> set rids. \<exists>st. t = raw_fill A rid st (resting_at (snd sd) rid) \<and>
       lua_verdict A (resting_at (snd sd) rid) = Take)"
  using assms
proof (induction rids arbitrary: sd)
  case (Cons rid rids)
  show ?case
  proof (cases "ll_remaining (fst sd) \<le> 0 \<or> ll_break (fst sd)")
    case False
    let ?s = "lua_step A opp sd rid"
    have same: "resting_at (snd ?s) r = resting_at (snd sd) r" if "r \<in> set rids" for r
      using Cons.prems(1,2) that by (intro lua_step_other) auto
    have "t \<in> set (ll_trades (fst ?s)) \<or> (\<exists>r \<in> set rids. \<exists>st. t = raw_fill A r st (resting_at (snd ?s) r) \<and>
        lua_verdict A (resting_at (snd ?s) r) = Take)"
      using Cons.prems False by (intro Cons.IH) auto
    then show ?thesis
      using same lua_step_trades [of A opp sd rid] by fastforce
  qed (use Cons.prems in auto)
qed simp

lemma call_trade:
  assumes "callable X now ord la n d" "\<not> lock_fails (o_user_id ord) la n d"
    and "t \<in> set (ll_trades (fst (call_walk X ord la n d)))"
  obtains e st where "e \<in> set (opp_zset ord d)"
    "t = raw_fill (lua_args X ord la n) (snd e) st (resting_at d (snd e))"
    "lua_verdict (lua_args X ord la n) (resting_at d (snd e)) = Take"
proof -
  let ?ids = "zrange_upto (max_score_of ord) (Some (0, 50)) (opp_zset ord d)"
  obtain rid st where r: "rid \<in> set ?ids" "t = raw_fill (lua_args X ord la n) rid st (resting_at d rid)"
    "lua_verdict (lua_args X ord la n) (resting_at d rid) = Take"
    using lua_walk_trades [OF ids_distinct [OF assms(1)] key_kinds(3) assms(3) [unfolded call_walk_def]]
      resting_at_after_lock [OF assms(1,2)] by auto
  then obtain e where "e \<in> set (opp_zset ord d)" "rid = snd e"
    unfolding call_ids [OF assms(1)] by (auto dest: set_takeWhileD)
  with r that show thesis by blast
qed

lemma call_trade_qty:
  assumes "callable X now ord la n d" "\<not> lock_fails (o_user_id ord) la n d"
    and "\<forall>maker \<in> set (opp_book X now ord d). stp_agrees ord maker"
    and "t \<in> set (ll_trades (fst (call_walk X ord la n d)))"
  shows "0 < rt_qty_i t \<and> rt_qty_i t < 10 ^ 14"
proof -
  have pos: "0 < re_remaining (resting_at d (snd e)) \<and> re_remaining (resting_at d (snd e)) < 10 ^ 14"
    if "e \<in> set (taken X now ord d)" for e
    using callableD(4) [OF assms(1)] taken_entry(1) [OF that] by (cases rule: open_book_entry) simp_all
  have mem: "(rt_resting_id t, rt_qty_i t) \<in>
      set (fill_plan (decimal_to_i64 (o_quantity ord)) (unit_offers X now ord d))"
    using assms(4) unfolding call_fills [OF assms(1-3), symmetric] by (auto simp: lua_fills_def)
  from fill_plan_mem [OF mem] obtain e where e: "e \<in> set (taken X now ord d)"
    and "rt_qty_i t \<le> re_remaining (resting_at d (snd e))" by auto
  moreover have "0 < rt_qty_i t"
    by (rule fill_plan_pos [OF _ mem]) (use pos in auto)
  ultimately show ?thesis using pos [OF e] by simp
qed

lemma call_trade_readable:
  assumes "ext_spec X" "callable X now ord la n d" "\<not> lock_fails (o_user_id ord) la n d"
    and "\<forall>maker \<in> set (opp_book X now ord d). stp_agrees ord maker"
    and "t \<in> set (ll_trades (fst (call_walk X ord la n d)))"
  shows "readable_trade X t"
  using assms(2,3,5)
proof (cases rule: call_trade)
  case (1 e st)
  with callableD(4) [OF assms(2)] show ?thesis
  proof (cases rule: open_book_entry)
    case e: (1 maker)
    with 1 ext_spec.uuid_round_trip [OF assms(1), of "o_id maker"] call_trade_qty [OF assms(2-5)]
    show ?thesis by (simp add: readable_trade_def raw_fill_def)
  qed
qed

lemma call_trades_count:
  assumes "callable X now ord la n d" "\<not> lock_fails (o_user_id ord) la n d"
    and "\<forall>maker \<in> set (opp_book X now ord d). stp_agrees ord maker"
  shows "length (ll_trades (fst (call_walk X ord la n d))) \<le> 50"
proof -
  have "length (ll_trades (fst (call_walk X ord la n d))) =
      length (map fst (fill_plan (decimal_to_i64 (o_quantity ord)) (unit_offers X now ord d)))"
    using call_fills [OF assms] by (metis length_map lua_fills_def)
  also have "\<dots> \<le> length (unit_offers X now ord d)"
    using prefix_length_le [OF fill_plan_prefix [of "decimal_to_i64 (o_quantity ord)" "unit_offers X now ord d"]]
    by simp
  also have "\<dots> \<le> length (opp_zset ord d)"
    using list_emb_length [OF eligible_subseq] by (simp add: taken_def)
  finally show ?thesis using callableD(5) [OF assms(1)] by simp
qed

section \<open>The engine on the same book\<close>

lemma walk_not_cancelled:
  assumes "walk_book fresh clock (init_loop incoming) book = (st, book')"
    and "0 < o_remaining incoming" "o_status incoming = New" "\<forall>r \<in> set book. 0 \<le> o_remaining r"
    and "\<forall>r \<in> set book. engine_verdict incoming r \<noteq> CancelStop"
  shows "o_status (ls_incoming st) \<noteq> Cancelled"
proof -
  let ?I = "\<lambda>s. order_core (ls_incoming s) = order_core incoming \<and> taker_inv (o_remaining incoming) s \<and>
      o_status (ls_incoming s) \<noteq> Cancelled"
  have "?I st"
    using assms(1)
  proof (rule walk_book_invariant)
    show "?I (init_loop incoming)"
      using assms(2,3) by (auto simp: init_loop_def taker_inv_def)
  next
    fix r s go s' r'
    assume r: "r \<in> set book" and I: "?I s" and b: "match_body fresh clock s r = (go, s', r')"
    then have core: "order_core (ls_incoming s') = order_core incoming" and inv: "taker_inv (o_remaining incoming) s'"
      using match_body_coreD [OF b] match_body_taker_inv [OF b] assms(4) by simp_all
    have v: "engine_verdict (ls_incoming s) r \<noteq> CancelStop"
      using assms(5) r I engine_verdict_core(1) [of "ls_incoming s" incoming r] by simp
    have "o_status (ls_incoming (fst (snd (match_body fresh clock s r)))) \<noteq> Cancelled"
    proof (cases "o_remaining (ls_incoming s) = 0")
      case True
      with I show ?thesis by (simp add: body_done)
    next
      case False
      with I have pos: "0 < o_remaining (ls_incoming s)" by (auto simp: taker_inv_def less_le)
      show ?thesis
      proof (cases "engine_verdict (ls_incoming s) r")
        case Take
        then show ?thesis by (simp add: engine_take_state(3) [OF Take pos] filled_status_def)
      next
        case Skip
        with I show ?thesis by (simp add: engine_skip_state [OF Skip pos])
      next
        case Stop
        then have "\<not> price_matches (ls_incoming s) r"
          by (cases "o_stp_mode (ls_incoming s)") (auto simp: engine_verdict_def split: if_splits)
        with I show ?thesis by (simp add: match_body_def Let_def)
      qed (use v in simp)
    qed
    with core inv b show "?I s'" by simp
  qed
  then show ?thesis by simp
qed

text \<open>The final status by what remains, when self-trade prevention does not cancel the order.\<close>

lemma engine_outcome:
  assumes "0 < o_remaining incoming" "o_status incoming = New" "\<forall>r \<in> set book. 0 \<le> o_remaining r"
    and "\<forall>r \<in> set book. engine_verdict incoming r \<noteq> CancelStop" "o_tif incoming \<noteq> FOK"
  defines "plan \<equiv> fill_plan (o_remaining incoming)
      (map (\<lambda>r. (o_id r, o_remaining r)) (eligible (engine_verdict incoming) book))"
  shows "let res = fst (match_order fresh clock incoming book);
             rest = o_remaining incoming - sum_list (map snd plan) in
    map (\<lambda>t. (maker_id (o_side incoming) t, t_quantity t)) (mr_trades res) = plan \<and>
    o_remaining (mr_incoming res) = rest \<and>
    o_status (mr_incoming res) = (if rest = 0 then Filled else if effective_tif incoming \<noteq> GTC then Cancelled
      else if plan = [] then New else PartiallyFilled)"
proof -
  obtain res book' where m: "match_order fresh clock incoming book = (res, book')" by (cases "match_order fresh clock incoming book")
  have nr: "\<not> fok_rejected incoming book" using assms(5) by (simp add: fok_rejected_def)
  have plan: "map (\<lambda>t. (maker_id (o_side incoming) t, t_quantity t)) (mr_trades res) = plan"
    using match_order_plan [OF m nr] assms(1,3) by (simp add: plan_def)
  from m show ?thesis
  proof (cases rule: match_orderE)
    case (walk st)
    have fin: "fst (walk_book fresh clock (init_loop incoming) book) = st" using walk(2) by simp
    have rest: "o_remaining (ls_incoming st) + sum_list (map snd plan) = o_remaining incoming"
      using engine.run_rest [of book "init_loop incoming" fresh clock] assms(1,3,4)
      by (simp add: fin [unfolded init_loop_def] engine.offers_def init_loop_def plan_def)
    have inv: "taker_inv (o_remaining incoming) st"
      using walk_taker_inv [OF walk(2) assms(1-3)] .
    have nc: "o_status (ls_incoming st) \<noteq> Cancelled"
      using walk_not_cancelled [OF walk(2) assms(1-4)] .
    have empty: "ls_trades st = [] \<longleftrightarrow> plan = []" using plan walk(3) by auto
    have "o_remaining (ls_incoming st) = o_remaining incoming - sum_list (map snd plan)"
      using rest by (simp add: algebra_simps)
    with inv nc empty plan show ?thesis
      by (cases "effective_tif incoming")
         (auto simp: m walk apply_tif_def taker_inv_def Let_def)
  qed (use nr in simp)
qed

end
