(* ===== verification/Lua_Props.thy ===== *)
theory Lua_Props
  imports Lua_Engine
begin

text \<open>
  What the atomic match guarantees its caller: the result of \<open>match_order_lua\<close> is
  the result of the reference engine on the cached book, a refused balance lock
  changes nothing, and the book stays well formed. The last section shows what
  happens outside the bounds of these theorems.
\<close>

section \<open>The result of one call\<close>

text \<open>No resting order of the book makes self-trade prevention end the walk.\<close>

definition no_self_stop :: "'d::floor_ceiling order \<Rightarrow> 'd order list \<Rightarrow> bool" where
  "no_self_stop ord book \<longleftrightarrow>
     (\<forall>maker \<in> set book. stp_agrees ord maker \<and> engine_verdict ord maker \<noteq> CancelStop)"

lemma lua_step_status:
  "lua_verdict A (resting_at (snd sd) rid) \<noteq> CancelStop \<Longrightarrow>
     ll_status (fst (lua_step A opp sd rid)) = ll_status (fst sd)"
  by (auto simp: lua_step_def lua_verdict_def Let_def split: if_splits)

lemma lua_walk_status:
  assumes "distinct rids" "key_kind opp = Some KZset"
    and "\<forall>rid \<in> set rids. lua_verdict A (resting_at (snd sd) rid) \<noteq> CancelStop"
  shows "ll_status (fst (lua_walk A opp sd rids)) = ll_status (fst sd)"
  using assms
proof (induction rids arbitrary: sd)
  case (Cons rid rids)
  have "resting_at (snd (lua_step A opp sd rid)) r = resting_at (snd sd) r" if "r \<in> set rids" for r
    using Cons.prems that by (intro lua_step_other) auto
  with Cons show ?case by (simp add: lua_step_status)
qed simp

lemma call_verdict:
  assumes "callable X now ord la n d" "\<not> lock_fails (o_user_id ord) la n d"
    and "no_self_stop ord (opp_book X now ord d)"
    and x: "x \<in> set (zrange_upto (max_score_of ord) (Some (0, 50)) (opp_zset ord d))"
  shows "lua_verdict (lua_args X ord la n) (resting_at (after_lock (o_user_id ord) la n d) x) \<noteq> CancelStop"
proof -
  note c = callableD [OF assms(1)]
  obtain e where e: "e \<in> set (opp_zset ord d)" "x = snd e"
    using x unfolding call_ids [OF assms(1)] by (auto dest: set_takeWhileD)
  then have "the (stored_order X now d (snd e)) \<in> set (opp_book X now ord d)" by (simp add: opp_book_map)
  with assms(3) e show ?thesis
    by (simp add: no_self_stop_def resting_at_after_lock [OF assms(1,2)] verdict_agrees [OF c(3,4)])
qed

lemma call_status:
  assumes "callable X now ord la n d" "\<not> lock_fails (o_user_id ord) la n d"
    and "no_self_stop ord (opp_book X now ord d)"
  shows "ll_status (fst (call_walk X ord la n d)) = ''N''"
  using call_verdict [OF assms]
  unfolding call_walk_def by (subst lua_walk_status) (auto simp: ids_distinct [OF assms(1)] key_simps)

text \<open>The status letter of the script, as the caller reads it.\<close>

definition read_status :: "time_in_force \<Rightarrow> int \<Rightarrow> int \<Rightarrow> order_status" where
  "read_status tif q rest =
     (if rest \<le> 0 then Filled else if tif = IOC then Cancelled
      else if rest < q then PartiallyFilled else New)"

lemma final_status_read:
  assumes "ll_status st = ''N''"
  shows "lua_status (final_status (lua_args X ord la n) q st) = Inr (read_status (o_tif ord) q (ll_remaining st))"
  using assms
  by (cases "o_tif ord") (simp_all add: final_status_def lua_args_def lua_status_def read_status_def Let_def)

abbreviation call_plan :: "'d::floor_ceiling ext \<Rightarrow> instant \<Rightarrow> 'd order \<Rightarrow> vdata \<Rightarrow> (string \<times> int) list" where
  "call_plan X now ord d \<equiv> fill_plan (decimal_to_i64 (o_quantity ord)) (unit_offers X now ord d)"

abbreviation call_left :: "'d::floor_ceiling ext \<Rightarrow> instant \<Rightarrow> 'd order \<Rightarrow> vdata \<Rightarrow> int" where
  "call_left X now ord d \<equiv> decimal_to_i64 (o_quantity ord) - sum_list (map snd (call_plan X now ord d))"

lemma sum_pairs_pos:
  "ps \<noteq> [] \<Longrightarrow> \<forall>x \<in> set ps. 0 < snd x \<Longrightarrow> 0 < sum_list (map snd ps :: int list)"
  by (induction ps) (fastforce intro: sum_list_nonneg add_pos_nonneg less_imp_le)+

lemma call_left_bounds:
  assumes "callable X now ord la n d"
  shows "0 \<le> call_left X now ord d" "call_left X now ord d \<le> decimal_to_i64 (o_quantity ord)"
    "call_left X now ord d = decimal_to_i64 (o_quantity ord) \<longleftrightarrow> call_plan X now ord d = []"
proof -
  let ?q = "decimal_to_i64 (o_quantity ord)" and ?us = "unit_offers X now ord d"
  have q: "0 < ?q" using callableD(3) [OF assms] by (simp add: script_order_def)
  have pos: "\<forall>a \<in> set (map snd ?us). 0 < a"
  proof
    fix a assume "a \<in> set (map snd ?us)"
    then obtain e where e: "e \<in> set (taken X now ord d)" "a = re_remaining (resting_at d (snd e))" by auto
    from callableD(4) [OF assms] taken_entry(1) [OF e(1)] e(2) show "0 < a"
      by (cases rule: open_book_entry) simp
  qed
  then have nn: "\<forall>a \<in> set (map snd ?us). 0 \<le> a" by auto
  have "0 \<le> sum_list (map snd ?us)" by (rule sum_list_nonneg) (use nn in blast)
  with q fill_plan_sum [of ?q ?us] nn show "0 \<le> call_left X now ord d" "call_left X now ord d \<le> ?q"
    by (auto simp: min_def)
  have "0 < sum_list (map snd (call_plan X now ord d))" if "call_plan X now ord d \<noteq> []"
    using that by (rule sum_pairs_pos) (use fill_plan_pos [OF pos] in force)
  then show "call_left X now ord d = ?q \<longleftrightarrow> call_plan X now ord d = []"
    by (cases "call_plan X now ord d = []") simp_all
qed

definition call_result :: "'d::floor_ceiling ext \<Rightarrow> instant \<Rightarrow> 'd order \<Rightarrow> string \<Rightarrow> int \<Rightarrow> vdata \<Rightarrow> 'd lua_match_result" where
  "call_result X now ord la n d =
     \<lparr>lr_remaining = i64_to_decimal (call_left X now ord d),
      lr_status = read_status (o_tif ord) (decimal_to_i64 (o_quantity ord)) (call_left X now ord d),
      lr_trades = map (lua_trade_of X) (ll_trades (fst (call_walk X ord la n d)))\<rparr>"

lemma run_call:
  assumes "ext_spec X" "callable X now ord la n d" "\<not> lock_fails (o_user_id ord) la n d"
    and "no_self_stop ord (opp_book X now ord d)"
    and "add_to (str_at d (version_key (o_pair_id ord))) 1 = Inr v"
  shows "match_order_lua ref_valkey X ord (new_pair_keys (o_pair_id ord)) la n d =
    (Inr (call_result X now ord la n d), call_state X ord la n v d)"
proof -
  let ?st = "fst (call_walk X ord la n d)" and ?q = "decimal_to_i64 (o_quantity ord)"
  note c = callableD [OF assms(2)]
  have agree: "\<forall>maker \<in> set (opp_book X now ord d). stp_agrees ord maker"
    and stop: "\<forall>maker \<in> set (opp_book X now ord d). stp_agrees ord maker \<and> engine_verdict ord maker \<noteq> CancelStop"
    using assms(4) by (auto simp: no_self_stop_def)
  have rem: "ll_remaining ?st = call_left X now ord d" by (rule call_rest [OF assms(2,3) stop])
  have q: "?q < 10 ^ 14" "f64_round ?q = ?q"
    using c(3) call_qty(1) [OF c(3)] by (simp_all add: script_order_def)
  have "parse_reply X ord la (match_reply (lua_args X ord la n) ?q ?st) = Inr (call_result X now ord la n d)"
    unfolding call_result_def rem [symmetric]
  proof (rule parse_match_reply)
    show "\<bar>ll_remaining ?st\<bar> < 10 ^ 14" using call_left_bounds [OF assms(2)] q rem by simp
    show "length (ll_trades ?st) < 10 ^ 14" using call_trades_count [OF assms(2,3) agree] by simp
    show "\<forall>t \<in> set (ll_trades ?st). readable_trade X t"
      using call_trade_readable [OF assms(1-3) agree] by blast
    show "lua_status (final_status (lua_args X ord la n) ?q ?st) = Inr (read_status (o_tif ord) ?q (ll_remaining ?st))"
      by (rule final_status_read [OF call_status [OF assms(2-4)]])
  qed
  with run_match_script [OF c(1) c(7) assms(5), of n X] assms(3) q c(2) show ?thesis
    by (simp add: match_order_lua_def vbind_def vmap_err_def run_simps)
qed

section \<open>The same trades as the engine\<close>

definition engine_view :: "side \<Rightarrow> 'd trade \<Rightarrow> uuid \<times> 'd \<times> 'd \<times> string \<times> string" where
  "engine_view sd t = (maker_id sd t, t_price t, t_quantity t, t_buyer_id t, t_seller_id t)"

definition lua_view :: "'d lua_trade \<Rightarrow> uuid \<times> 'd \<times> 'd \<times> string \<times> string" where
  "lua_view t = (lt_resting_order_id t, lt_price t, lt_quantity t, lt_buyer_id t, lt_seller_id t)"

text \<open>What a fill of \<open>q\<close> against the maker \<open>i\<close> looks like.\<close>

definition fill_view :: "'d::zero order \<Rightarrow> 'd order list \<Rightarrow> uuid \<times> 'd \<Rightarrow> uuid \<times> 'd \<times> 'd \<times> string \<times> string" where
  "fill_view ord book iq =
     (let r = the (find (\<lambda>r. o_id r = fst iq) book) in
      (fst iq, option_or (o_price r) 0, snd iq,
       (case o_side ord of Buy \<Rightarrow> o_user_id ord | Sell \<Rightarrow> o_user_id r),
       (case o_side ord of Buy \<Rightarrow> o_user_id r | Sell \<Rightarrow> o_user_id ord)))"

lemma find_unique:
  "x \<in> set xs \<Longrightarrow> (\<And>y. y \<in> set xs \<Longrightarrow> f y = f x \<Longrightarrow> y = x) \<Longrightarrow> find (\<lambda>y. f y = f x) xs = Some x"
  by (induction xs) auto

lemma opp_book_find:
  assumes "callable X now ord la n d" "e \<in> set (opp_zset ord d)"
  shows "find (\<lambda>r. o_id r = o_id (the (stored_order X now d (snd e)))) (opp_book X now ord d) =
    stored_order X now d (snd e)"
proof -
  have id: "x_uuid_str X (o_id (the (stored_order X now d (snd a)))) = snd a \<and> stored_order X now d (snd a) \<noteq> None"
    if "a \<in> set (opp_zset ord d)" for a
    using callableD(4) [OF assms(1)] that by (cases rule: open_book_entry) simp
  have "find (\<lambda>r. o_id r = o_id (the (stored_order X now d (snd e)))) (opp_book X now ord d) =
      Some (the (stored_order X now d (snd e)))"
  proof (rule find_unique)
    show "the (stored_order X now d (snd e)) \<in> set (opp_book X now ord d)"
      using assms(2) by (simp add: opp_book_map)
  next
    fix r assume r: "r \<in> set (opp_book X now ord d)" "o_id r = o_id (the (stored_order X now d (snd e)))"
    then obtain a where a: "a \<in> set (opp_zset ord d)" "r = the (stored_order X now d (snd a))"
      by (auto simp: opp_book_map)
    have "snd a = x_uuid_str X (o_id r)" using id [OF a(1)] unfolding a(2) by (rule conjE) (rule sym)
    also have "\<dots> = snd e" using id [OF assms(2)] unfolding r(2) by (rule conjunct1)
    finally have "snd a = snd e" .
    with a(2) show "r = the (stored_order X now d (snd e))" by simp
  qed
  with id [OF assms(2)] show ?thesis by auto
qed

lemma lua_trade_view:
  assumes "ext_spec X" "callable X now ord la n d" "\<not> lock_fails (o_user_id ord) la n d"
    and "t \<in> set (ll_trades (fst (call_walk X ord la n d)))"
  shows "lua_view (lua_trade_of X t) =
    fill_view ord (opp_book X now ord d) (the (x_uuid_parse X (rt_resting_id t)), i64_to_decimal (rt_qty_i t))"
  using assms(2-4)
proof (cases rule: call_trade)
  case (1 e st)
  from callableD(4) [OF assms(2)] 1(1) show ?thesis
  proof (cases rule: open_book_entry)
    case e: (1 maker)
    have id: "the (x_uuid_parse X (snd e)) = o_id maker"
      using ext_spec.uuid_round_trip [OF assms(1), of "o_id maker"] e(2) by simp
    have "find (\<lambda>r. o_id r = o_id maker) (opp_book X now ord d) = Some maker"
      using opp_book_find [OF assms(2) 1(1)] e(1) by simp
    with 1(2) e id show ?thesis
      by (cases "o_side ord") (simp_all add: lua_view_def lua_trade_of_def fill_view_def raw_fill_def lua_args_def)
  qed
qed

lemma engine_trade_view:
  assumes "callable X now ord la n d"
    and "match_order fresh clock ord (opp_book X now ord d) = (res, book')" "t \<in> set (mr_trades res)"
  shows "engine_view (o_side ord) t =
    fill_view ord (opp_book X now ord d) (maker_id (o_side ord) t, t_quantity t)"
proof -
  obtain r where r: "r \<in> set (opp_book X now ord d)" "trade_terms ord r t"
    using match_order_trade_maker [OF assms(2,3)] by blast
  then obtain e where e: "e \<in> set (opp_zset ord d)" "r = the (stored_order X now d (snd e))"
    by (auto simp: opp_book_map)
  from callableD(4) [OF assms(1)] e(1) show ?thesis
  proof (cases rule: open_book_entry)
    case (1 maker)
    have "find (\<lambda>r. o_id r = o_id maker) (opp_book X now ord d) = Some maker"
      using opp_book_find [OF assms(1) e(1)] 1(1) by simp
    with 1 r(2) e(2) show ?thesis
      by (cases "o_side ord") (simp_all add: engine_view_def fill_view_def trade_terms_def fill_price_def)
  qed
qed

lemma same_views:
  assumes "map k xs = map k' ys" "\<forall>x \<in> set xs. v x = D (k x)" "\<forall>y \<in> set ys. w y = D (k' y)"
  shows "map v xs = map w ys"
proof -
  have "map v xs = map D (map k xs)" "map w ys = map D (map k' ys)" using assms(2,3) by simp_all
  with assms(1) show ?thesis by simp
qed

lemma call_result_engine:
  assumes "ext_spec X" "callable X now ord la n d" "\<not> lock_fails (o_user_id ord) la n d"
    and "no_self_stop ord (opp_book X now ord d)"
    and "o_tif ord = GTC \<and> o_order_type ord = Limit \<or> o_tif ord = IOC"
  shows "let res = fst (match_order fresh clock ord (opp_book X now ord d)) in
    map lua_view (lr_trades (call_result X now ord la n d)) = map (engine_view (o_side ord)) (mr_trades res) \<and>
    lr_remaining (call_result X now ord la n d) = o_remaining (mr_incoming res) \<and>
    lr_status (call_result X now ord la n d) = o_status (mr_incoming res)"
proof -
  let ?book = "opp_book X now ord d" and ?q = "decimal_to_i64 (o_quantity ord)"
  let ?plan = "call_plan X now ord d" and ?left = "call_left X now ord d"
  let ?key = "map_prod (\<lambda>rid. the (x_uuid_parse X rid)) i64_to_decimal :: string \<times> int \<Rightarrow> uuid \<times> 'a"
  obtain res book' where m: "match_order fresh clock ord ?book = (res, book')"
    by (cases "match_order fresh clock ord ?book")
  note c = callableD [OF assms(2)]
  have ord: "o_remaining ord = i64_to_decimal ?q" "o_status ord = New" "0 < ?q"
    using c(3) by (simp_all add: script_order_def on_grid_def)
  have agree: "\<forall>maker \<in> set ?book. stp_agrees ord maker" "\<forall>r \<in> set ?book. engine_verdict ord r \<noteq> CancelStop"
    using assms(4) by (auto simp: no_self_stop_def)
  have nn: "\<forall>r \<in> set ?book. 0 \<le> o_remaining r" using opp_book_nonneg [OF assms(2)] by auto
  have sum: "sum_list (map snd (map ?key ps)) = i64_to_decimal (sum_list (map snd ps))" for ps
    by (induction ps) (simp_all add: i64_to_decimal_add)
  have rest: "o_remaining ord - sum_list (map snd (map ?key ?plan)) = i64_to_decimal ?left"
    by (simp only: sum ord(1) i64_to_decimal_diff)
  have fok: "o_tif ord \<noteq> FOK" and pos: "0 < o_remaining ord" using assms(5) ord by auto
  have eng: "map (\<lambda>t. (maker_id (o_side ord) t, t_quantity t)) (mr_trades res) = map ?key ?plan"
    "o_remaining (mr_incoming res) = i64_to_decimal ?left"
    "o_status (mr_incoming res) = (if i64_to_decimal ?left = (0 :: 'a) then Filled
       else if effective_tif ord \<noteq> GTC then Cancelled else if ?plan = [] then New else PartiallyFilled)"
    using engine_outcome [OF pos ord(2) nn agree(2) fok, of fresh clock]
    unfolding engine_plan [OF assms(1,2)] rest m Let_def by simp_all
  have "map (\<lambda>t. (lt_resting_order_id t, lt_quantity t)) (lr_trades (call_result X now ord la n d)) =
      map ?key (lua_fills (fst (call_walk X ord la n d)))"
    by (simp add: call_result_def lua_trade_of_def lua_fills_def)
  also have "\<dots> = map ?key ?plan" by (simp add: call_fills [OF assms(2,3) agree(1)])
  finally have keys: "map (\<lambda>t. (lt_resting_order_id t, lt_quantity t)) (lr_trades (call_result X now ord la n d)) =
      map (\<lambda>t. (maker_id (o_side ord) t, t_quantity t)) (mr_trades res)" by (simp add: eng(1))
  have "map lua_view (lr_trades (call_result X now ord la n d)) = map (engine_view (o_side ord)) (mr_trades res)"
    using keys
  proof (rule same_views [where D = "fill_view ord ?book"])
    show "\<forall>x \<in> set (lr_trades (call_result X now ord la n d)).
        lua_view x = fill_view ord ?book (lt_resting_order_id x, lt_quantity x)"
      using lua_trade_view [OF assms(1-3)] by (auto simp: call_result_def) (simp_all add: lua_trade_of_def)
    show "\<forall>y \<in> set (mr_trades res). engine_view (o_side ord) y =
        fill_view ord ?book (maker_id (o_side ord) y, t_quantity y)"
      using engine_trade_view [OF assms(2) m] by blast
  qed
  moreover have "read_status (o_tif ord) ?q ?left = o_status (mr_incoming res)"
    using call_left_bounds [OF assms(2)] assms(5) ord(3)
    by (auto simp: eng(3) read_status_def effective_tif_def)
  ultimately show ?thesis by (simp add: m eng(2) Let_def) (simp add: call_result_def)
qed

section \<open>Properties\<close>


lemma two_asks_open: "open_book ref_ext 0 two_asks ''BTC-USDT'' Sell"
proof -
  have "book_inv ref_ext 0 two_asks ''BTC-USDT'' Sell"
    using book_run_inv [OF two_asks_run ref.valkey_spec_axioms ref_ext.ext_spec_axioms, of 0]
    by (simp add: book_inv_def)
  moreover have "map (\<lambda>e. the (stored_order ref_ext 0 two_asks (snd e))) [(9 :: int, ''10''), (9, ''2'')] =
      [cached ref_ext 0 (grid_order 10 Sell 9 5 ''u2''), cached ref_ext 0 (grid_order 2 Sell 9 5 ''u1'')]"
    using two_asks_list unfolding book_list_def two_asks_zset .
  moreover have "stored_order ref_ext 0 two_asks ''10'' \<noteq> None" "stored_order ref_ext 0 two_asks ''2'' \<noteq> None"
    using book_inv_stored(1) [OF calculation(1)] unfolding two_asks_zset by auto
  ultimately show ?thesis
    by (auto simp: open_book_def two_asks_zset open_entry_def cached_def Let_def decimal_to_i64_of_i64 i64_ok_def)
qed

lemma two_asks_version: "add_to (str_at two_asks (version_key p)) 1 = Inr 1"
  by (simp add: two_asks_def saved_def Let_def key_simps add_to_def)
     (simp add: empty_vdata_def str_at_def zero_text codec_simps i64_ok_def)

lemma two_asks_callable:
  "0 < q \<Longrightarrow> q < 10 ^ 14 \<Longrightarrow> callable ref_ext 0 (grid_order i Buy 9 q u) [] 0 two_asks"
  using two_asks_connected two_asks_open
  by (simp add: callable_def two_asks_zset script_order_def on_grid_def decimal_to_i64_of_i64 i64_ok_def
      two_asks_version)

lemma two_asks_no_stop: "no_self_stop (grid_order i Buy 9 q u) (book_list ref_ext 0 two_asks ''BTC-USDT'' Sell)"
  by (auto simp: no_self_stop_def two_asks_list stp_agrees_def engine_verdict_def cached_def Let_def)


text \<open>
  A refused lock changes nothing. When the user's available balance does not
  cover the amount to lock, \<open>match_order_lua\<close> fails with an insufficient balance
  and leaves every key of the cache as it was: no balance, no order and no version
  changes.
\<close>

theorem lua_refused_lock_changes_nothing:
  assumes "valkey_spec V \<alpha>" and "connected (\<alpha> s)" and "account_ok (o_user_id ord) la (\<alpha> s)"
    and "is_ok (add_to (str_at (\<alpha> s) (version_key (o_pair_id ord))) 1)"
    and "la \<noteq> ''''" and "account_avail (o_user_id ord) la (\<alpha> s) < n" and "0 < n"
  shows "\<exists>s'. match_order_lua V X ord (new_pair_keys (o_pair_id ord)) la n s =
      (Inl (InsufficientBalance la (o_user_id ord)), s') \<and> \<alpha> s' = \<alpha> s"
proof -
  obtain v where v: "add_to (str_at (\<alpha> s) (version_key (o_pair_id ord))) 1 = Inr v"
    using assms(4) by (auto elim: is_ok.elims)
  have "match_order_lua ref_valkey X ord (new_pair_keys (o_pair_id ord)) la n (\<alpha> s) =
      (Inl (InsufficientBalance la (o_user_id ord)), \<alpha> s)"
    using run_match_script [OF _ _ v, of la n X] assms(2,3,5-7)
    by (simp add: match_order_lua_def vbind_def vmap_err_def run_simps lock_fails_def parse_reply_def)
  from simulates_run [OF valkey_spec.sim_match_order_lua [OF assms(1)] this] show ?thesis by metis
qed

theorem lua_refused_lock_changes_nothing_witness:
  "\<exists>s'. match_order_lua ref_valkey ref_ext (grid_order 7 Buy 9 8 ''u1'') (new_pair_keys ''BTC-USDT'') ''USDT'' 80
      (account_of ''u1'' ''USDT'' 79 0) = (Inl (InsufficientBalance ''USDT'' ''u1''), s') \<and>
    s' = account_of ''u1'' ''USDT'' 79 0"
proof -
  let ?s = "account_of ''u1'' ''USDT'' 79 0"
  have "connected ?s" "account_ok ''u1'' ''USDT'' ?s" "account_avail ''u1'' ''USDT'' ?s = 79"
    using account_of_ok [of 79 0 "''u1''" "''USDT''"] by (auto simp: account_ok_def)
  moreover have "add_to (str_at ?s (version_key ''BTC-USDT'')) 1 = Inr 1"
    by (simp add: account_of_def moved_def Let_def key_simps)
       (simp add: empty_vdata_def str_at_def add_to_def zero_text codec_simps i64_ok_def)
  ultimately show ?thesis
    using lua_refused_lock_changes_nothing [OF ref.valkey_spec_axioms, of ?s "grid_order 7 Buy 9 8 ''u1''" "''USDT''"
        80 ref_ext] by simp
qed

end
