(* ===== verification/Lua_Book.thy ===== *)
theory Lua_Book
  imports Lua_Props
begin

text \<open>
  The atomic match keeps the cached book well formed: every entry of a sorted set
  still has its order hash, with the price of its score, and the sets stay sorted.
  The states of the loop are related to the operations of the book cache: an entry
  consumed is a removal, a remainder that rests is a save.
\<close>

section \<open>Steps of the loop on the book\<close>

lemma book_inv_cong:
  assumes "zset_at d (book_key p sd) = zset_at d' (book_key p sd)"
    and "\<And>e. e \<in> set (zset_at d (book_key p sd)) \<Longrightarrow> hash_at d (okey (snd e)) = hash_at d' (okey (snd e))"
  shows "book_inv X now d p sd = book_inv X now d' p sd" "open_book X now d p sd = open_book X now d' p sd"
proof -
  have "stored_order X now d (snd e) = stored_order X now d' (snd e)"
    if "e \<in> set (zset_at d (book_key p sd))" for e
    using assms(2) [OF that] by (simp add: stored_order_def)
  then show "book_inv X now d p sd = book_inv X now d' p sd" "open_book X now d p sd = open_book X now d' p sd"
    using assms(1) by (auto simp: open_book_def book_inv_def list_all_iff entry_ok_def open_entry_def)
qed

text \<open>No order rests on both sides.\<close>

lemma sides_disjoint:
  assumes "book_inv X now d p sd" "book_inv X now d p (opposite sd)"
    and "e \<in> set (zset_at d (book_key p sd))" "e' \<in> set (zset_at d (book_key p (opposite sd)))"
  shows "snd e \<noteq> snd e'"
  using book_inv_stored(4) [OF assms(1,3)] book_inv_stored(4) [OF assms(2,4)] by (cases sd) auto

lemma dropped_book:
  assumes "zset_at d (book_key p sd) = z"
  shows "zset_at (dropped (book_key p sd) rid d) (book_key p sd) = zset_remove rid z"
    "sd' \<noteq> sd \<Longrightarrow> zset_at (dropped (book_key p sd) rid d) (book_key p sd') = zset_at d (book_key p sd')"
    "i \<noteq> rid \<Longrightarrow> hash_at (dropped (book_key p sd) rid d) (okey i) = hash_at d (okey i)"
  using assms by (simp_all add: dropped_def key_simps)

lemma dropped_open:
  assumes "open_book X now d p sd"
  shows "open_book X now (dropped (book_key p sd) rid d) p sd"
proof -
  let ?d = "dropped (book_key p sd) rid d"
  have st: "stored_order X now ?d (snd e) = stored_order X now d (snd e)" if "snd e \<noteq> rid" for e :: "int \<times> string"
    using that by (simp add: stored_order_def dropped_book(3))
  show ?thesis
    using assms st by (auto simp: open_book_def book_inv_def dropped_book(1) list_all_iff entry_ok_def open_entry_def)
qed

lemma reduced_book:
  "zset_at (reduced rid n d) (book_key p sd) = zset_at d (book_key p sd)"
  "i \<noteq> rid \<Longrightarrow> hash_at (reduced rid n d) (okey i) = hash_at d (okey i)"
  by (simp_all add: reduced_def key_simps)

lemma parse_reduced:
  assumes "parse_order_from_hmget X now vs = Some ord" "parse_i64 t = Some n"
  shows "parse_order_from_hmget X now (vs[7 := Some t, 8 := Some ''PF'']) =
    Some (ord\<lparr>o_remaining := i64_to_decimal n, o_status := PartiallyFilled\<rparr>)"
proof -
  have "13 \<le> length vs" using assms(1) by (auto simp: parse_order_from_hmget_def split: if_splits)
  then show ?thesis
    using assms
    by (simp add: parse_order_from_hmget_def Let_def parse_status_char_def split: Option.bind_split_asm if_split_asm)
       auto
qed

lemma stored_reduced:
  assumes "stored_order X now d rid = Some ord" "\<bar>n\<bar> < 10 ^ 14"
  shows "stored_order X now (reduced rid n d) rid =
    Some (ord\<lparr>o_remaining := i64_to_decimal n, o_status := PartiallyFilled\<rparr>)"
proof -
  let ?h = "hash_at d (okey rid)"
  have "map (hash_at (reduced rid n d) (okey rid)) ORDER_FIELDS =
      (map ?h ORDER_FIELDS)[7 := Some (lua_tostring n), 8 := Some ''PF'']"
    by (simp add: reduced_def ORDER_FIELDS_def)
  with parse_reduced [of X now "map ?h ORDER_FIELDS" ord "lua_tostring n" n] assms
    lua_number_round_trip(2) [OF assms(2)]
  show ?thesis by (simp add: stored_order_def)
qed

lemma reduced_open:
  assumes "open_book X now d p sd" "e \<in> set (zset_at d (book_key p sd))" "0 < n" "n < 10 ^ 14"
  shows "open_book X now (reduced (snd e) n d) p sd"
proof -
  let ?d = "reduced (snd e) n d"
  have inv: "book_inv X now d p sd" using assms(1) by (simp add: open_book_def)
  obtain ord where ord: "stored_order X now d (snd e) = Some ord"
    using book_inv_stored(1) [OF inv assms(2)] by blast
  have st: "stored_order X now ?d i = (if i = snd e
      then Some (ord\<lparr>o_remaining := i64_to_decimal n, o_status := PartiallyFilled\<rparr>) else stored_order X now d i)" for i
  proof (cases "i = snd e")
    case True
    with stored_reduced [OF ord, of n] assms(3,4) show ?thesis by simp
  qed (simp add: stored_order_def reduced_book)
  have lt: "i64_to_decimal n < (i64_to_decimal (10 ^ 14) :: 'a)"
    using assms(4) by (simp only: i64_to_decimal_less)
  have "entry_ok X now ?d p sd a \<and> open_entry X now ?d a" if "a \<in> set (zset_at d (book_key p sd))" for a
    using assms(1) that ord assms(3) lt
    by (auto simp: open_book_def book_inv_def list_all_iff entry_ok_def open_entry_def st split: option.splits)
  with assms(1) show ?thesis
    by (simp add: open_book_def book_inv_def reduced_book list_all_iff)
qed

lemma own_side_kept:
  assumes "open_book X now d p (opposite sd)" "book_inv X now d p sd"
    and "e \<in> set (zset_at d (book_key p (opposite sd)))"
  shows "book_inv X now (dropped (book_key p (opposite sd)) (snd e) d) p sd"
    "book_inv X now (reduced (snd e) n d) p sd"
proof -
  have opp: "book_inv X now d p (opposite sd)" using assms(1) by (simp add: open_book_def)
  have ne: "snd a \<noteq> snd e" if "a \<in> set (zset_at d (book_key p sd))" for a
    using sides_disjoint [OF assms(2) opp that assms(3)] .
  have sd: "sd \<noteq> opposite sd" by (cases sd) simp_all
  show "book_inv X now (dropped (book_key p (opposite sd)) (snd e) d) p sd"
    using assms(2) ne by (subst book_inv_cong(1) [where d' = d]) (auto simp: dropped_book sd)
  show "book_inv X now (reduced (snd e) n d) p sd"
    using assms(2) ne by (subst book_inv_cong(1) [where d' = d]) (auto simp: reduced_book)
qed

lemma lua_step_state:
  assumes "re_remaining (resting_at d rid) < 10 ^ 14" "0 < ll_remaining st"
  shows "snd (lua_step A opp (st, d) rid) \<in> {d, dropped opp rid d} \<or>
    (\<exists>n. 0 < n \<and> n < 10 ^ 14 \<and> snd (lua_step A opp (st, d) rid) = reduced rid n d)"
proof (cases "lua_verdict A (resting_at d rid) = Take")
  case False
  then show ?thesis by (auto simp: lua_step_def lua_verdict_def Let_def)
next
  case True
  let ?R = "resting_at d rid"
  have "0 < re_remaining ?R" using True by (auto simp: lua_verdict_def ghost_def split: if_splits)
  with assms have b: "0 \<le> re_remaining ?R - fill_amount st ?R" "re_remaining ?R - fill_amount st ?R < 10 ^ 14"
    by (auto simp: fill_amount_def)
  then have "f64_round (re_remaining ?R - fill_amount st ?R) = re_remaining ?R - fill_amount st ?R"
    by (intro f64_round_exact) simp
  with True have "snd (lua_step A opp (st, d) rid) =
      (if re_remaining ?R - fill_amount st ?R \<le> 0 then dropped opp rid d
       else reduced rid (re_remaining ?R - fill_amount st ?R) d)"
    by (auto simp: lua_step_def lua_verdict_def Let_def split: if_splits)
  with b(2) show ?thesis
    by (cases "re_remaining ?R - fill_amount st ?R \<le> 0")
       (auto intro!: exI [of _ "re_remaining ?R - fill_amount st ?R"])
qed

lemma lua_step_book:
  fixes A :: match_args
  assumes "open_book X now d p (opposite sd)" "book_inv X now d p sd" "0 < ll_remaining st"
    and e: "e \<in> set (zset_at d (book_key p (opposite sd)))"
  defines "d' \<equiv> snd (lua_step A (book_key p (opposite sd)) (st, d) (snd e))"
  shows "open_book X now d' p (opposite sd)" "book_inv X now d' p sd"
    "{x \<in> snd ` set (zset_at d (book_key p (opposite sd))). x \<noteq> snd e}
       \<subseteq> snd ` set (zset_at d' (book_key p (opposite sd)))"
proof -
  have lt: "re_remaining (resting_at d (snd e)) < 10 ^ 14"
    using assms(1) e by (cases rule: open_book_entry) simp
  consider "d' = d" | "d' = dropped (book_key p (opposite sd)) (snd e) d"
    | n where "0 < n" "n < 10 ^ 14" "d' = reduced (snd e) n d"
    using lua_step_state [OF lt assms(3), of A "book_key p (opposite sd)"] unfolding d'_def by blast
  then have "open_book X now d' p (opposite sd) \<and> book_inv X now d' p sd \<and>
    {x \<in> snd ` set (zset_at d (book_key p (opposite sd))). x \<noteq> snd e}
       \<subseteq> snd ` set (zset_at d' (book_key p (opposite sd)))"
  proof cases
    case 1
    with assms(1,2) show ?thesis by auto
  next
    case 2
    with assms(1) own_side_kept(1) [OF assms(1,2) e] show ?thesis
      by (auto simp: dropped_open dropped_book(1) image_iff)
  next
    case 3
    with reduced_open [OF assms(1) e 3(1,2)] own_side_kept(2) [OF assms(1,2) e] show ?thesis
      by (auto simp: reduced_book)
  qed
  then show "open_book X now d' p (opposite sd)" "book_inv X now d' p sd"
    "{x \<in> snd ` set (zset_at d (book_key p (opposite sd))). x \<noteq> snd e}
       \<subseteq> snd ` set (zset_at d' (book_key p (opposite sd)))"
    by simp_all
qed

lemma lua_walk_book:
  assumes "open_book X now d p (opposite sd)" "book_inv X now d p sd"
    and "distinct rids" "set rids \<subseteq> snd ` set (zset_at d (book_key p (opposite sd)))"
  shows "open_book X now (snd (lua_walk A (book_key p (opposite sd)) (st, d) rids)) p (opposite sd) \<and>
    book_inv X now (snd (lua_walk A (book_key p (opposite sd)) (st, d) rids)) p sd"
  using assms
proof (induction rids arbitrary: st d)
  case (Cons rid rids)
  show ?case
  proof (cases "ll_remaining st \<le> 0 \<or> ll_break st")
    case False
    let ?s = "lua_step A (book_key p (opposite sd)) (st, d) rid"
    obtain e where e: "e \<in> set (zset_at d (book_key p (opposite sd)))" "rid = snd e"
      using Cons.prems(4) by auto
    have pos: "0 < ll_remaining st" using False by simp
    note step = lua_step_book [OF Cons.prems(1,2) pos e(1), where A = A, folded e(2)]
    have "set rids \<subseteq> snd ` set (zset_at (snd ?s) (book_key p (opposite sd)))"
      using step(3) Cons.prems(3,4) by auto
    from Cons.IH [OF step(1,2) _ this, of "fst ?s"] False Cons.prems(3) show ?thesis by simp
  qed (use Cons.prems in simp)
qed simp

text \<open>The walk adds no entry.\<close>

lemma walk_ids_subset:
  "snd ` set (zset_at (snd (lua_walk A (book_key p sd) s rids)) (book_key p sd)) \<subseteq>
   snd ` set (zset_at (snd s) (book_key p sd))"
proof (induction rids arbitrary: s)
  case (Cons rid rids)
  have "snd ` set (zset_at (snd (lua_step A (book_key p sd) s rid)) (book_key p sd)) \<subseteq>
      snd ` set (zset_at (snd s) (book_key p sd))"
    by (auto simp: lua_step_def Let_def dropped_book(1) reduced_book)
  with Cons.IH [of "lua_step A (book_key p sd) s rid"] show ?case by auto
qed simp

section \<open>A remainder that rests\<close>

text \<open>The order as the script writes it.\<close>

definition rested_order :: "'d::floor_ceiling order \<Rightarrow> int \<Rightarrow> order_status \<Rightarrow> 'd order" where
  "rested_order ord n st = ord\<lparr>o_remaining := i64_to_decimal n, o_status := st, o_version := 1\<rparr>"

lemma rested_order_sel [simp]:
  "o_id (rested_order ord n st) = o_id ord" "o_pair_id (rested_order ord n st) = o_pair_id ord"
  "o_side (rested_order ord n st) = o_side ord" "o_price (rested_order ord n st) = o_price ord"
  "o_order_type (rested_order ord n st) = o_order_type ord" "o_version (rested_order ord n st) = 1"
  "o_created_at (rested_order ord n st) = o_created_at ord" "o_remaining (rested_order ord n st) = i64_to_decimal n"
  "o_quantity (rested_order ord n st) = o_quantity ord" "o_status (rested_order ord n st) = st"
  "o_tif (rested_order ord n st) = o_tif ord" "o_stp_mode (rested_order ord n st) = o_stp_mode ord"
  "o_user_id (rested_order ord n st) = o_user_id ord"
  by (simp_all add: rested_order_def)

lemma rested_order_price [simp]:
  "price_scaled (rested_order ord n st) = price_scaled ord" "order_score (rested_order ord n st) = order_score ord"
proof -
  show p: "price_scaled (rested_order ord n st) = price_scaled ord" by (simp add: price_scaled_def)
  show "order_score (rested_order ord n st) = order_score ord" by (cases "o_side ord") (simp_all add: order_score_def p)
qed

lemma rest_fields_order:
  assumes "script_order ord" "\<bar>m\<bar> < 10 ^ 14"
  shows "rest_fields (lua_args X ord la n) (decimal_to_i64 (o_quantity ord)) m (status_char st) =
    order_fields X (rested_order ord m st)"
proof -
  have q: "\<bar>decimal_to_i64 (o_quantity ord)\<bar> < 10 ^ 14" using assms(1) by (simp add: script_order_def)
  note p = script_price(1) [OF assms(1), of X la n] script_price(2,3) [OF assms(1)]
  have one: "''1'' = string_of_int 1" by (simp add: string_of_int_def string_of_nat.simps)
  show ?thesis
    unfolding rest_fields_def order_fields_def p(1) one
    using p q assms(2)
    by (simp add: lua_args_def lua_tostring_small decimal_to_i64_of_i64 i64_ok_small)
qed

lemma rested_saved:
  assumes "script_order ord" "\<bar>ll_remaining st\<bar> < 10 ^ 14"
  obtains "rested (lua_args X ord la n) (book_key (o_pair_id ord) (o_side ord)) (okey (x_uuid_str X (o_id ord)))
      (decimal_to_i64 (o_quantity ord)) st d = d"
  | status ttl where "rested (lua_args X ord la n) (book_key (o_pair_id ord) (o_side ord))
      (okey (x_uuid_str X (o_id ord))) (decimal_to_i64 (o_quantity ord)) st d =
      (saved X (rested_order ord (ll_remaining st) status) d)\<lparr>vd_ttl := ttl\<rparr>"
proof (cases "ma_tif (lua_args X ord la n) = ''G'' \<and> ll_remaining st > 0 \<and>
    final_status (lua_args X ord la n) (decimal_to_i64 (o_quantity ord)) st \<noteq> ''C''")
  case False
  with that(1) show thesis by (simp add: rested_def)
next
  case True
  let ?A = "lua_args X ord la n" and ?q = "decimal_to_i64 (o_quantity ord)"
  obtain status where s: "final_status ?A ?q st = status_char status"
  proof (cases "ll_status st = ''C''")
    case c: True
    with True show thesis by (auto simp: final_status_def)
  next
    case False
    with True that [of PartiallyFilled] that [of New] show thesis
      by (auto simp: final_status_def Let_def split: if_splits)
  qed
  have "rested ?A (book_key (o_pair_id ord) (o_side ord)) (okey (x_uuid_str X (o_id ord))) ?q st d =
    (saved X (rested_order ord (ll_remaining st) status) d)\<lparr>vd_ttl :=
       (vd_ttl (saved X (rested_order ord (ll_remaining st) status) d))(okey (x_uuid_str X (o_id ord)) \<mapsto> 3600 * 1000)\<rparr>"
    using True unfolding rested_def s rest_fields_order [OF assms]
    by (simp add: saved_def Let_def lua_args_def key_simps)
  then show thesis by (rule that(2))
qed

text \<open>Saving an order on one side leaves the other side alone when its identifier does not rest there.\<close>

lemma other_side_saved:
  assumes "ext_spec X" "storable X ord" "book_inv X now d (o_pair_id ord) (opposite (o_side ord))"
    and "x_uuid_str X (o_id ord) \<notin> snd ` set (zset_at d (book_key (o_pair_id ord) (opposite (o_side ord))))"
  shows "book_inv X now (saved X ord d) (o_pair_id ord) (opposite (o_side ord))"
proof -
  have sd: "opposite (o_side ord) \<noteq> o_side ord" by (cases "o_side ord") simp_all
  show ?thesis
    using assms(3,4)
    by (subst book_inv_cong(1) [where d' = d]) (auto simp: saved_zset sd saved_def Let_def key_simps image_iff)
qed

section \<open>One call\<close>

lemma lua_step_remaining:
  assumes "0 \<le> ll_remaining (fst sd)" "ll_remaining (fst sd) \<le> 2 ^ 53"
  shows "0 \<le> ll_remaining (fst (lua_step A opp sd rid)) \<and>
    ll_remaining (fst (lua_step A opp sd rid)) \<le> ll_remaining (fst sd)"
proof (cases "lua_verdict A (resting_at (snd sd) rid)")
  case Take
  then have "0 < re_remaining (resting_at (snd sd) rid)"
    by (auto simp: lua_verdict_def ghost_def split: if_splits)
  with lua_step_take [OF Take assms] show ?thesis using assms(1) by (simp add: min_def)
next
  case Skip
  with lua_step_skip [OF Skip] assms show ?thesis by simp
next
  case Stop
  with lua_step_halt(3) [of A sd rid opp] assms show ?thesis by simp
next
  case CancelStop
  then show ?thesis
    using assms by (auto simp: lua_step_def lua_verdict_def Let_def split: if_splits)
qed

lemma lua_walk_remaining:
  assumes "0 \<le> ll_remaining (fst sd)" "ll_remaining (fst sd) \<le> 2 ^ 53"
  shows "0 \<le> ll_remaining (fst (lua_walk A opp sd rids)) \<and>
    ll_remaining (fst (lua_walk A opp sd rids)) \<le> ll_remaining (fst sd)"
  using assms
proof (induction rids arbitrary: sd)
  case (Cons rid rids)
  note step = lua_step_remaining [OF Cons.prems, of A opp rid]
  with Cons.prems have "ll_remaining (fst (lua_step A opp sd rid)) \<le> 2 ^ 53" by linarith
  with Cons.IH [of "lua_step A opp sd rid"] step Cons.prems show ?case by auto
qed simp

lemma call_remaining:
  assumes "script_order ord"
  shows "\<bar>ll_remaining (fst (call_walk X ord la n d))\<bar> < 10 ^ 14"
proof -
  let ?q = "decimal_to_i64 (o_quantity ord)"
  have q: "0 < ?q" "?q < 10 ^ 14" using assms by (simp_all add: script_order_def)
  then have "\<bar>ll_remaining (fst (lua_walk (lua_args X ord la n) opp (loop_start ?q, d') rids))\<bar> < 10 ^ 14" for opp d' rids
    using lua_walk_remaining [of "(loop_start ?q, d')" "lua_args X ord la n" opp rids] by simp
  then show ?thesis by (simp add: call_walk_def call_qty(1) [OF assms])
qed

lemma put_version_keeps [simp]:
  "zset_at (put_key (version_key q) v d) (book_key p sd) = zset_at d (book_key p sd)"
  "hash_at (put_key (version_key q) v d) (okey i) = hash_at d (okey i)"
  by (simp_all add: key_simps)

lemma call_state_book:
  assumes "ext_spec X" "callable X now ord la n d" "\<not> lock_fails (o_user_id ord) la n d"
    and "book_inv X now d (o_pair_id ord) (o_side ord)" "bookable X ord"
    and "x_uuid_str X (o_id ord) \<notin> snd ` set (opp_zset ord d)"
  shows "book_inv X now (call_state X ord la n v d) (o_pair_id ord) (o_side ord)"
    "book_inv X now (call_state X ord la n v d) (o_pair_id ord) (opposite (o_side ord))"
proof -
  let ?d1 = "after_lock (o_user_id ord) la n d" and ?p = "o_pair_id ord" and ?sd = "o_side ord"
  let ?w = "call_walk X ord la n d" and ?q = "decimal_to_i64 (o_quantity ord)"
  let ?ids = "zrange_upto (max_score_of ord) (Some (0, 50)) (opp_zset ord d)"
  note c = callableD [OF assms(2)]
  note keep = after_lock_keeps [OF c(1) c(7) assms(3)]
  have z: "zset_at ?d1 (book_key p' sd') = zset_at d (book_key p' sd')" for p' sd' by (rule keep(3)) simp_all
  have h: "hash_at ?d1 (okey i) = hash_at d (okey i)" for i by (rule keep(4)) simp_all
  have o1: "open_book X now ?d1 ?p (opposite ?sd)"
    using c(4) by (subst book_inv_cong(2) [where d' = d]) (simp_all add: z h)
  have o2: "book_inv X now ?d1 ?p ?sd"
    using assms(4) by (subst book_inv_cong(1) [where d' = d]) (simp_all add: z h)
  have ids: "set ?ids \<subseteq> snd ` set (zset_at ?d1 (book_key ?p (opposite ?sd)))"
    unfolding call_ids [OF assms(2)] z by (auto dest: set_takeWhileD)
  note w = lua_walk_book [OF o1 o2 ids_distinct [OF assms(2)] ids, where A = "lua_args X ord la n"
      and st = "loop_start (f64_round ?q)", folded call_walk_def]
  have fresh: "x_uuid_str X (o_id ord) \<notin> snd ` set (zset_at (snd ?w) (book_key ?p (opposite ?sd)))"
    using assms(6) walk_ids_subset [of "lua_args X ord la n" ?p "opposite ?sd" "(loop_start (f64_round ?q), ?d1)" ?ids]
    by (auto simp: call_walk_def z)
  have inv: "book_inv X now (rested (lua_args X ord la n) (book_key ?p ?sd) (okey (x_uuid_str X (o_id ord))) ?q
      (fst ?w) (snd ?w)) ?p ?sd \<and>
    book_inv X now (rested (lua_args X ord la n) (book_key ?p ?sd) (okey (x_uuid_str X (o_id ord))) ?q
      (fst ?w) (snd ?w)) ?p (opposite ?sd)" (is "book_inv X now ?r _ _ \<and> _")
  proof (rule rested_saved [OF c(3) call_remaining [OF c(3), of X la n d], where X = X and la = la and n = n
        and d = "snd ?w"], goal_cases)
    case 1
    with w show ?case by (simp add: open_book_def)
  next
    case (2 status ttl)
    let ?o = "rested_order ord (ll_remaining (fst ?w)) status"
    have b: "bookable X ?o" "storable X ?o" using assms(5) by (simp_all add: bookable_def storable_def i64_ok_def)
    have "book_inv X now (saved X ?o (snd ?w)) ?p ?sd" "book_inv X now (saved X ?o (snd ?w)) ?p (opposite ?sd)"
      using book_inv_saved [OF assms(1) b(1), of now "snd ?w"] other_side_saved [OF assms(1) b(2), of now "snd ?w"]
        w fresh by (simp_all add: open_book_def)
    with 2 show ?case by (simp add: same_keys(2) [of "saved X ?o (snd ?w)\<lparr>vd_ttl := ttl\<rparr>" "saved X ?o (snd ?w)"])
  qed
  show "book_inv X now (call_state X ord la n v d) ?p ?sd"
    "book_inv X now (call_state X ord la n v d) ?p (opposite ?sd)"
    using inv unfolding call_state_def call_qty(1) [OF c(3)]
    by (subst book_inv_cong(1) [where d' = ?r]; simp)+
qed

section \<open>Properties\<close>

text \<open>
  C12: the atomic match keeps the book. For a limit order that the cache can hold (a price that
  doubles represent), whose identifier is not in the opposite side, on a well-formed book with at most 50
  open orders and amounts below \<open>10 ^ 14\<close> units opposite: whether the call trades, rests, is refused
  or fails while reading the reply, both sides of the pair are well formed
  afterwards (sorted, one hash per entry, scores that are the prices). A refused balance lock changes
  nothing at all, and otherwise the version of the pair has grown by one.
\<close>

theorem lua_match_keeps_book:
  assumes "valkey_spec V \<alpha>" and "ext_spec X" and "callable X now ord la n (\<alpha> s)" and "bookable X ord"
    and "book_inv X now (\<alpha> s) (o_pair_id ord) (o_side ord)"
    and "x_uuid_str X (o_id ord) \<notin> snd ` set (zset_at (\<alpha> s) (book_key (o_pair_id ord) (opposite (o_side ord))))"
    and "match_order_lua V X ord (new_pair_keys (o_pair_id ord)) la n s = (r, s')"
  shows "book_inv X now (\<alpha> s') (o_pair_id ord) sd \<and>
    (if lock_fails (o_user_id ord) la n (\<alpha> s) then \<alpha> s' = \<alpha> s
     else \<exists>v. add_to (str_at (\<alpha> s) (version_key (o_pair_id ord))) 1 = Inr v \<and>
       str_at (\<alpha> s') (version_key (o_pair_id ord)) = Some (string_of_int v))"
proof -
  note c = callableD [OF assms(3)]
  obtain v where v: "add_to (str_at (\<alpha> s) (version_key (o_pair_id ord))) 1 = Inr v" using c(6) by blast
  have opp: "book_inv X now (\<alpha> s) (o_pair_id ord) (opposite (o_side ord))" using c(4) by (simp add: open_book_def)
  have sd: "sd = o_side ord \<or> sd = opposite (o_side ord)" by (cases sd; cases "o_side ord") simp_all
  have "\<alpha> s' = (if lock_fails (o_user_id ord) la n (\<alpha> s) then \<alpha> s else call_state X ord la n v (\<alpha> s))"
    using simulatesD [OF valkey_spec.sim_match_order_lua [OF assms(1)] assms(7)]
      run_match_script [OF c(1) c(7) v, of n X] c(2)
    by (auto simp: match_order_lua_def vbind_def vmap_err_def run_simps split: if_splits)
  moreover have "str_at (call_state X ord la n v (\<alpha> s)) (version_key (o_pair_id ord)) = Some (string_of_int v)"
    by (simp add: call_state_def)
  ultimately show ?thesis
    using call_state_book [OF assms(2,3) _ assms(5,4,6), of v] opp assms(5) sd v by auto
qed

theorem lua_match_keeps_book_witness:
  "\<exists>r s'. match_order_lua ref_valkey ref_ext (grid_order 7 Buy 9 8 ''u3'') (new_pair_keys ''BTC-USDT'') [] 0 two_asks
      = (r, s') \<and> book_inv ref_ext 0 s' ''BTC-USDT'' Buy \<and>
    str_at s' (version_key ''BTC-USDT'') = Some ''1''"
proof -
  let ?o = "grid_order 7 Buy 9 8 ''u3''"
  obtain r s' where m: "match_order_lua ref_valkey ref_ext ?o (new_pair_keys ''BTC-USDT'') [] 0 two_asks = (r, s')"
    by fastforce
  have "zset_at two_asks (book_key ''BTC-USDT'' Buy) = []" by (simp add: two_asks_def saved_zset)
  then have "book_inv ref_ext 0 two_asks ''BTC-USDT'' Buy" by (simp add: book_inv_def)
  moreover have "x_uuid_str ref_ext 7 \<notin> snd ` set (zset_at two_asks (book_key ''BTC-USDT'' Sell))"
    by (simp add: two_asks_zset ref_ext_def string_of_nat.simps)
  moreover have "string_of_int 1 = ''1''" by (simp add: string_of_int_def string_of_nat.simps)
  ultimately show ?thesis
    using m lua_match_keeps_book [OF ref.valkey_spec_axioms ref_ext.ext_spec_axioms, of 0 ?o "[]" 0 two_asks r s' Buy]
      two_asks_callable [of 8 7 "''u3''"] grid_order_bookable [of 7 9 Buy 8 "''u3''"]
    by (auto simp: two_asks_version lock_fails_def)
qed

lemma match_loop_trades:
  assumes "match_loop V A opp st rids s = (Inr st', s')"
  shows "length (ll_trades st') \<le> length (ll_trades st) + length rids"
  using assms
proof (induction rids arbitrary: st s)
  case (Cons rid rids)
  show ?case
  proof (cases "ll_remaining st \<le> 0 \<or> ll_break st")
    case False
    then obtain st1 s1 where one: "match_one V A opp st rid s = (Inr st1, s1)"
      and rest: "match_loop V A opp st1 rids s1 = (Inr st', s')"
      using Cons.prems by (auto simp: vbind_Inr)
    have "length (ll_trades st1) \<le> Suc (length (ll_trades st))"
      using one by (auto simp: match_one_def Let_def vbind_Inr vret_def split: if_splits)
    with Cons.IH [OF rest] show ?thesis by simp
  qed (use Cons.prems in \<open>simp add: vret_def\<close>)
qed (simp add: vret_def)

lemma collect_length: "collect rs = Inr xs \<Longrightarrow> length xs = length rs"
proof (induction rs arbitrary: xs)
  case (Cons r rs)
  then show ?case by (cases r; cases "collect rs") auto
qed simp

lemma parse_reply_trades:
  assumes "parse_reply X ord la (match_reply A q st) = Inr res" "length (ll_trades st) \<le> 50"
  shows "length (lr_trades res) \<le> 50"
proof -
  have "parse_usize (lua_tostring (int (length (ll_trades st)))) = Some (length (ll_trades st))"
    using assms(2) by (intro parse_usize_count) simp
  with assms show ?thesis
    by (auto simp: parse_reply_def match_reply_def Let_def result_bind_Inr split: if_splits
        dest!: collect_length)
qed

lemma zrange_fifty:
  assumes "d_zrangebyscore k hi (Some (0, 50)) d = (Inr ids, d')"
  shows "length ids \<le> 50"
  using assms
  by (auto simp: d_zrangebyscore_def read_key_def zrange_upto_def zlimit_def split: sum.splits)

lemma script_trades:
  assumes "match_script ref_valkey K k A d = (Inr raw, d')"
  shows "raw = ArrayVal [BulkString ''INSUFFICIENT_BALANCE''] \<or>
    (\<exists>q st. raw = match_reply A q st \<and> length (ll_trades st) \<le> 50)"
proof -
  let ?opp = "if ma_side A = ''B'' then pk_asks K else pk_bids K"
  from assms obtain b d1 where "match_lock ref_valkey A d = (Inr b, d1)"
    and rest: "(if \<not> b then vret (ArrayVal [BulkString ''INSUFFICIENT_BALANCE'']) else
      let opp = ?opp; own = (if ma_side A = ''B'' then pk_bids K else pk_asks K) in
      vbind (d_zrangebyscore opp (ma_max_score A) (Some (0, 50))) (\<lambda>resting_ids.
      vbind (vlift (ok_or (ScriptError ''attempt to compare nil'') (lua_tonumber (ma_qty A)))) (\<lambda>qty_i.
      vbind (match_loop ref_valkey A opp (loop_start qty_i) resting_ids) (\<lambda>st.
      vbind (rest_incoming ref_valkey A own k qty_i st) (\<lambda>_.
      vbind (d_incrby (pk_version K) 1) (\<lambda>_. vret (match_reply A qty_i st))))))) d1 = (Inr raw, d')"
    unfolding match_script_def vbind_Inr ref_valkey_ops by blast
  show ?thesis
  proof (cases b)
    case False
    with rest show ?thesis by (simp add: vret_def)
  next
    case True
    with rest obtain ids d2 q d3 st d4 where z: "d_zrangebyscore ?opp (ma_max_score A) (Some (0, 50)) d1 = (Inr ids, d2)"
      and l: "match_loop ref_valkey A ?opp (loop_start q) ids d3 = (Inr st, d4)" and r: "raw = match_reply A q st"
      unfolding Let_def by (simp add: vbind_Inr vret_def vlift_def del: if_split) blast
    from match_loop_trades [OF l] zrange_fifty [OF z] have "length (ll_trades st) \<le> 50" by simp
    with r show ?thesis by blast
  qed
qed

text \<open>
  One call makes at most 50 trades, whatever the book, the order and the
  state of the cache are.
\<close>

theorem lua_match_at_most_fifty:
  assumes "valkey_spec V \<alpha>" and "match_order_lua V X ord K la n s = (Inr res, s')"
  shows "length (lr_trades res) \<le> 50"
proof -
  have "match_order_lua ref_valkey X ord K la n (\<alpha> s) = (Inr res, \<alpha> s')"
    using simulatesD [OF valkey_spec.sim_match_order_lua [OF assms(1)] assms(2)] .
  then obtain raw d d' where s: "match_script ref_valkey K (okey (x_uuid_str X (o_id ord))) (lua_args X ord la n) d =
      (Inr raw, d')" and p: "parse_reply X ord la raw = Inr res"
    by (auto simp: match_order_lua_def vbind_Inr vmap_err_Inr vlift_def)
  show ?thesis
    using script_trades [OF s]
  proof
    assume "raw = ArrayVal [BulkString ''INSUFFICIENT_BALANCE'']"
    with p show ?thesis by (simp add: parse_reply_def)
  next
    assume "\<exists>q st. raw = match_reply (lua_args X ord la n) q st \<and> length (ll_trades st) \<le> 50"
    with p parse_reply_trades show ?thesis by blast
  qed
qed

theorem lua_match_at_most_fifty_witness:
  "\<exists>res s'. match_order_lua ref_valkey ref_ext (grid_order 7 Buy 9 8 ''u3'') (new_pair_keys ''BTC-USDT'') [] 0 two_asks
      = (Inr res, s') \<and> length (lr_trades res) \<le> 50"
proof -
  let ?o = "grid_order 7 Buy 9 8 ''u3''"
  have "match_order_lua ref_valkey ref_ext ?o (new_pair_keys ''BTC-USDT'') [] 0 two_asks =
      (Inr (call_result ref_ext 0 ?o [] 0 two_asks), call_state ref_ext ?o [] 0 1 two_asks)"
    using run_call [OF ref_ext.ext_spec_axioms two_asks_callable [of 8 7 "''u3''"], of 1]
      two_asks_version two_asks_no_stop by (simp add: lock_fails_def)
  with lua_match_at_most_fifty [OF ref.valkey_spec_axioms this] show ?thesis by blast
qed

section \<open>Outside the bounds\<close>

text \<open>An order that finds an empty opposite side rests, whatever its size.\<close>

definition rests_alone :: "'d::floor_ceiling ext \<Rightarrow> 'd order \<Rightarrow> vdata \<Rightarrow> bool" where
  "rests_alone X ord d \<longleftrightarrow> connected d \<and> zset_at d (book_key (o_pair_id ord) (opposite (o_side ord))) = [] \<and>
     is_ok (add_to (str_at d (version_key (o_pair_id ord))) 1) \<and> o_tif ord = GTC \<and>
     0 < decimal_to_i64 (o_quantity ord) \<and> decimal_to_i64 (o_quantity ord) \<le> 2 ^ 53"

definition alone_state :: "'d::floor_ceiling ext \<Rightarrow> 'd order \<Rightarrow> vdata \<Rightarrow> vdata" where
  "alone_state X ord d =
     rested (lua_args X ord [] 0) (book_key (o_pair_id ord) (o_side ord)) (okey (x_uuid_str X (o_id ord)))
       (decimal_to_i64 (o_quantity ord)) (loop_start (decimal_to_i64 (o_quantity ord))) d"

lemma run_alone:
  assumes "rests_alone X ord d"
  obtains v where "match_order_lua ref_valkey X ord (new_pair_keys (o_pair_id ord)) [] 0 d =
    (parse_reply X ord [] (match_reply (lua_args X ord [] 0) (decimal_to_i64 (o_quantity ord))
       (loop_start (decimal_to_i64 (o_quantity ord)))),
     put_key (version_key (o_pair_id ord)) (Some (VStr (string_of_int v))) (alone_state X ord d))"
proof -
  let ?q = "decimal_to_i64 (o_quantity ord)"
  obtain v where v: "add_to (str_at d (version_key (o_pair_id ord))) 1 = Inr v"
    using assms by (auto simp: rests_alone_def elim: is_ok.elims)
  have q: "f64_round ?q = ?q" using assms by (simp add: rests_alone_def)
  have w: "call_walk X ord [] 0 d = (loop_start ?q, d)"
    using assms q by (simp add: call_walk_def rests_alone_def zrange_upto_def zlimit_def after_lock_def)
  have "match_script ref_valkey (new_pair_keys (o_pair_id ord)) (okey (x_uuid_str X (o_id ord))) (lua_args X ord [] 0) d =
      (Inr (match_reply (lua_args X ord [] 0) ?q (loop_start ?q)),
       put_key (version_key (o_pair_id ord)) (Some (VStr (string_of_int v))) (alone_state X ord d))"
    using run_match_script [of d "[]" 0 ord v X] v assms
    by (simp add: rests_alone_def lock_fails_def call_state_def w q alone_state_def)
  with assms that [of v] show thesis
    by (simp add: match_order_lua_def vbind_def vmap_err_def run_simps rests_alone_def)
qed

lemma alone_zset:
  assumes "rests_alone X ord d"
  shows "(order_score ord, x_uuid_str X (o_id ord)) \<in>
    set (zset_at (put_key (version_key (o_pair_id ord)) v (alone_state X ord d)) (book_key (o_pair_id ord) (o_side ord)))"
  using assms by (simp add: alone_state_def rested_def rests_alone_def lua_args_def final_status_def Let_def key_simps)

lemma alone_hash:
  assumes "rests_alone X ord d"
  shows "hash_at (put_key (version_key (o_pair_id ord)) v (alone_state X ord d)) (okey (x_uuid_str X (o_id ord))) ''remaining_i'' =
    Some (lua_tostring (decimal_to_i64 (o_quantity ord)))"
  using assms
  by (simp add: alone_state_def rested_def rests_alone_def lua_args_def final_status_def rest_fields_def Let_def key_simps)

text \<open>
  C40: from \<open>10 ^ 14\<close> units on (one million coins at eight decimals) a resting
  order cannot be read back. When a good-til-cancelled order of at least that quantity, with nothing to lock, meets an empty
  opposite side and so rests in full, the script writes its remaining quantity with an exponent: the caller reads
  a remaining quantity of zero for an order that is reported as New, and the order is
  entered into the sorted set, but \<open>parse_order_from_hmget\<close> cannot read its hash. (The script itself
  reads the field with \<open>tonumber\<close> and can still match the order.)
\<close>

theorem lua_large_order_unreadable:
  assumes "valkey_spec V \<alpha>" and "rests_alone X ord (\<alpha> s)" and "10 ^ 14 \<le> decimal_to_i64 (o_quantity ord)"
  shows "\<exists>res s'. match_order_lua V X ord (new_pair_keys (o_pair_id ord)) [] 0 s = (Inr res, s') \<and>
    lr_remaining res = 0 \<and> lr_status res = New \<and> lr_trades res = [] \<and>
    x_uuid_str X (o_id ord) \<in> snd ` set (zset_at (\<alpha> s') (book_key (o_pair_id ord) (o_side ord))) \<and>
    stored_order X now (\<alpha> s') (x_uuid_str X (o_id ord)) = None"
proof -
  let ?q = "decimal_to_i64 (o_quantity ord)"
  obtain v where run: "match_order_lua ref_valkey X ord (new_pair_keys (o_pair_id ord)) [] 0 (\<alpha> s) =
    (parse_reply X ord [] (match_reply (lua_args X ord [] 0) ?q (loop_start ?q)),
     put_key (version_key (o_pair_id ord)) (Some (VStr (string_of_int v))) (alone_state X ord (\<alpha> s)))"
    using assms(2) by (rule run_alone)
  have big: "parse_i64 (lua_tostring ?q) = None" using assms(3) by (intro lua_tostring_large) simp
  have reply: "parse_reply X ord [] (match_reply (lua_args X ord [] 0) ?q (loop_start ?q)) =
      Inr \<lparr>lr_remaining = 0, lr_status = New, lr_trades = []\<rparr>"
    using assms(2) parse_usize_count [of 0]
    by (simp add: match_reply_def parse_reply_def final_status_def rests_alone_def lua_args_def big lua_status_def)
  obtain s' where s': "match_order_lua V X ord (new_pair_keys (o_pair_id ord)) [] 0 s =
      (Inr \<lparr>lr_remaining = 0, lr_status = New, lr_trades = []\<rparr>, s')"
    "\<alpha> s' = put_key (version_key (o_pair_id ord)) (Some (VStr (string_of_int v))) (alone_state X ord (\<alpha> s))"
    using simulates_run [OF valkey_spec.sim_match_order_lua [OF assms(1)] run] reply by metis
  moreover have "stored_order X now (\<alpha> s') (x_uuid_str X (o_id ord)) = None"
  proof (cases "stored_order X now (\<alpha> s') (x_uuid_str X (o_id ord))")
    case (Some ord')
    then show ?thesis using alone_hash [OF assms(2)] big by (cases rule: stored_fields) (simp add: s'(2))
  qed
  ultimately show ?thesis using alone_zset [OF assms(2)] by force
qed

lemma empty_alone:
  "0 < q \<Longrightarrow> q \<le> 2 ^ 53 \<Longrightarrow> rests_alone ref_ext (grid_order i sd p q u) empty_vdata"
  by (simp add: rests_alone_def decimal_to_i64_of_i64 i64_ok_def)
     (simp add: empty_vdata_def str_at_def add_to_def zero_text codec_simps i64_ok_def)

theorem lua_large_order_unreadable_witness:
  "\<exists>res s'. match_order_lua ref_valkey ref_ext (grid_order 7 Sell 9 (10 ^ 14) ''u1'') (new_pair_keys ''BTC-USDT'') [] 0
      empty_vdata = (Inr res, s') \<and> lr_remaining res = 0 \<and> lr_status res = New \<and> lr_trades res = [] \<and>
    x_uuid_str ref_ext 7 \<in> snd ` set (zset_at s' (book_key ''BTC-USDT'' Sell)) \<and>
    stored_order ref_ext 0 s' (x_uuid_str ref_ext 7) = None"
  using lua_large_order_unreadable [OF ref.valkey_spec_axioms, of ref_ext "grid_order 7 Sell 9 (10 ^ 14) ''u1''" empty_vdata 0]
    empty_alone [of "10 ^ 14" 7 Sell 9 "''u1''"]
  by (simp add: decimal_to_i64_of_i64 i64_ok_def)

text \<open>
  C33: a market order with the default time in force rests in the book. The engine
  treats every market order as immediate-or-cancel; the script looks only at the
  time in force. So a good-til-cancelled market order of less than \<open>10 ^ 14\<close> units, with nothing to lock, that meets an empty
  opposite side is cancelled by \<open>match_order\<close>, while \<open>match_order_lua\<close> reports it as New and enters it with the
  score 0, before every real ask.
\<close>

theorem lua_market_order_rests:
  assumes "valkey_spec V \<alpha>" and "rests_alone X ord (\<alpha> s)" and "decimal_to_i64 (o_quantity ord) < 10 ^ 14"
    and "o_order_type ord = Market" and "o_price ord = None" and "0 < o_remaining ord" and "o_status ord = New"
  shows "o_status (mr_incoming (fst (match_order fresh clock ord []))) = Cancelled \<and>
    (\<exists>res s'. match_order_lua V X ord (new_pair_keys (o_pair_id ord)) [] 0 s = (Inr res, s') \<and>
      lr_status res = New \<and>
      (0, x_uuid_str X (o_id ord)) \<in> set (zset_at (\<alpha> s') (book_key (o_pair_id ord) (o_side ord))))"
proof -
  let ?q = "decimal_to_i64 (o_quantity ord)"
  obtain v where run: "match_order_lua ref_valkey X ord (new_pair_keys (o_pair_id ord)) [] 0 (\<alpha> s) =
    (parse_reply X ord [] (match_reply (lua_args X ord [] 0) ?q (loop_start ?q)),
     put_key (version_key (o_pair_id ord)) (Some (VStr (string_of_int v))) (alone_state X ord (\<alpha> s)))"
    using assms(2) by (rule run_alone)
  have q: "0 < ?q" "o_tif ord = GTC" using assms(2) by (simp_all add: rests_alone_def)
  have st: "lua_status (final_status (lua_args X ord [] 0) ?q (loop_start ?q)) = Inr New"
    using q by (simp add: final_status_def lua_status_def lua_args_def)
  have reply: "parse_reply X ord [] (match_reply (lua_args X ord [] 0) ?q (loop_start ?q)) =
      Inr \<lparr>lr_remaining = i64_to_decimal ?q, lr_status = New, lr_trades = []\<rparr>"
    using parse_match_reply [OF _ _ _ st, of X ord "[]"] q assms(3) by simp
  obtain s' where "match_order_lua V X ord (new_pair_keys (o_pair_id ord)) [] 0 s =
      (Inr \<lparr>lr_remaining = i64_to_decimal ?q, lr_status = New, lr_trades = []\<rparr>, s')"
    "\<alpha> s' = put_key (version_key (o_pair_id ord)) (Some (VStr (string_of_int v))) (alone_state X ord (\<alpha> s))"
    using simulates_run [OF valkey_spec.sim_match_order_lua [OF assms(1)] run] reply by metis
  moreover have "order_score ord = 0"
    using assms(5) by (simp add: order_score_def price_scaled_def i64_neg_def split: side.split)
  moreover have "o_status (mr_incoming (fst (match_order fresh clock ord []))) = Cancelled"
    using engine_outcome [of ord "[]" fresh clock] assms(4,6,7) q(2) by (simp add: Let_def effective_tif_def)
  ultimately show ?thesis using alone_zset [OF assms(2)] by force
qed

theorem lua_market_order_rests_witness:
  "\<exists>res s'. match_order_lua ref_valkey ref_ext ((grid_order 7 Sell 9 5 ''u1'')\<lparr>o_order_type := Market, o_price := None\<rparr>)
      (new_pair_keys ''BTC-USDT'') [] 0 empty_vdata = (Inr res, s') \<and>
    lr_status res = New \<and> (0, x_uuid_str ref_ext 7) \<in> set (zset_at s' (book_key ''BTC-USDT'' Sell))"
proof -
  let ?o = "(grid_order 7 Sell 9 5 ''u1'')\<lparr>o_order_type := Market, o_price := None\<rparr>"
  have "rests_alone ref_ext ?o empty_vdata"
    using empty_alone [of 5 7 Sell 9 "''u1''"] by (simp add: rests_alone_def)
  with lua_market_order_rests [OF ref.valkey_spec_axioms, of ref_ext ?o empty_vdata id "\<lambda>_. 0"]
  show ?thesis by (simp add: decimal_to_i64_of_i64 i64_ok_def)
qed

end
