(* ===== verification/Postgres.thy ===== *)
theory Postgres
  imports Effects Codecs "HOL-Library.Char_ord" "HOL-Library.List_Lexorder" "HOL-Library.Product_Lexorder"
begin

text \<open>
  The database: the tables of \<open>migrations/\<close> and the SQL statements of the program
  as functions on them, constraints included (primary keys, the idempotency index,
  the reference from orders to pairs, column widths). The service itself can fail
  at any statement: \<open>pg_outcomes\<close> lists the outcomes of the next statements
  (\<open>False\<close> is a failure; after the end of the list statements succeed), and every
  theorem holds for every such list. A transaction restores the tables when its
  body or its commit fails; sequences are not restored. Statements of other
  connections do not run inside a transaction. The columns of type \<open>DECIMAL\<close> are
  unbounded, \<open>BIGINT\<close> counters are taken not to reach \<open>2 ^ 63\<close>.
\<close>

section \<open>Tables\<close>

record 'd order_row =
  or_id :: uuid
  or_user_id :: string
  or_pair_id :: string
  or_side :: string
  or_order_type :: string
  or_tif :: string
  or_price :: "'d option"
  or_quantity :: 'd
  or_remaining :: 'd
  or_status :: string
  or_stp_mode :: string
  or_version :: int
  or_sequence :: int
  or_created_at :: instant
  or_updated_at :: instant
  or_client_order_id :: "string option"
  or_received_at :: "instant option"
  or_matched_at :: "instant option"
  or_persisted_at :: "instant option"

record 'd tables =
  tb_pairs :: "'d pair list"
  tb_orders :: "'d order_row list"
  tb_trades :: "'d trade list"
  tb_balances :: "'d balance list"

record 'd pg =
  pg_tables :: "'d tables"
  pg_outcomes :: "bool list"
  pg_order_seq :: int
  pg_trade_seq :: int

section \<open>Statements and transactions\<close>

definition pg_apply :: "('d tables \<Rightarrow> 'a result \<times> 'd tables) \<Rightarrow> ('d pg, 'a) vm" where
  "pg_apply f p = (case f (pg_tables p) of (r, T) \<Rightarrow> (r, p\<lparr>pg_tables := T\<rparr>))"

definition pg_stmt :: "('d tables \<Rightarrow> 'a result \<times> 'd tables) \<Rightarrow> ('d pg, 'a) vm" where
  "pg_stmt f p =
     (case pg_outcomes p of [] \<Rightarrow> pg_apply f p
      | b # bs \<Rightarrow> if b then pg_apply f (p\<lparr>pg_outcomes := bs\<rparr>) else (Inl DbError, p\<lparr>pg_outcomes := bs\<rparr>))"

definition pg_query :: "('d tables \<Rightarrow> 'a) \<Rightarrow> ('d pg, 'a) vm" where
  "pg_query q = pg_stmt (\<lambda>T. (Inr (q T), T))"

definition pg_ping :: "('d pg, unit) vm" where
  "pg_ping = pg_stmt (\<lambda>T. (Inr (), T))"

definition pg_rollback :: "('d pg, 'a) vm \<Rightarrow> ('d pg, 'a) vm" where
  "pg_rollback m p =
     (case m p of (Inr a, p') \<Rightarrow> (Inr a, p') | (Inl e, p') \<Rightarrow> (Inl e, p'\<lparr>pg_tables := pg_tables p\<rparr>))"

definition pg_tx :: "('d pg, 'a) vm \<Rightarrow> ('d pg, 'a) vm" where
  "pg_tx m = vbind pg_ping (\<lambda>_. pg_rollback (vbind m (\<lambda>a. vbind pg_ping (\<lambda>_. vret a))))"

text \<open>\<open>nextval\<close> of the two sequences.\<close>

definition next_order_seq :: "('d pg, int) vm" where
  "next_order_seq p = (Inr (pg_order_seq p), p\<lparr>pg_order_seq := pg_order_seq p + 1\<rparr>)"

definition next_trade_seq :: "('d pg, int) vm" where
  "next_trade_seq p = (Inr (pg_trade_seq p), p\<lparr>pg_trade_seq := pg_trade_seq p + 1\<rparr>)"

section \<open>Rows\<close>

subsection \<open>Orders\<close>

definition order_to_row :: "instant \<Rightarrow> instant \<Rightarrow> int \<Rightarrow> 'd order \<Rightarrow> 'd order_row" where
  "order_to_row db_now updated seq ord =
     \<lparr>or_id = o_id ord, or_user_id = o_user_id ord, or_pair_id = o_pair_id ord,
      or_side = side_str (o_side ord), or_order_type = order_type_str (o_order_type ord),
      or_tif = tif_str (o_tif ord), or_price = o_price ord, or_quantity = o_quantity ord,
      or_remaining = o_remaining ord, or_status = status_str (o_status ord),
      or_stp_mode = stp_str (o_stp_mode ord), or_version = o_version ord, or_sequence = seq,
      or_created_at = o_created_at ord, or_updated_at = updated,
      or_client_order_id = o_client_order_id ord, or_received_at = o_received_at ord,
      or_matched_at = o_matched_at ord, or_persisted_at = Some db_now\<rparr>"

text \<open>The primary key and the partial unique index on the client's identifier.\<close>

definition order_conflict :: "'d order_row \<Rightarrow> 'd order_row \<Rightarrow> bool" where
  "order_conflict r r' \<longleftrightarrow> or_id r = or_id r' \<or>
     (or_client_order_id r \<noteq> None \<and> or_user_id r = or_user_id r' \<and>
      or_client_order_id r = or_client_order_id r')"

text \<open>\<open>INSERT INTO orders ... ON CONFLICT DO NOTHING\<close>.\<close>

definition orders_insert :: "'d order_row \<Rightarrow> 'd tables \<Rightarrow> unit result \<times> 'd tables" where
  "orders_insert r T =
     (if length (or_user_id r) > 50 \<or> length (option_or (or_client_order_id r) []) > 64 \<or> length (or_pair_id r) > 20
      then (Inl DbError, T)
      else if \<exists>r' \<in> set (tb_orders T). order_conflict r r' then (Inr (), T)
      else if or_pair_id r \<notin> p_id ` set (tb_pairs T) then (Inl DbError, T)
      else (Inr (), T\<lparr>tb_orders := tb_orders T @ [r]\<rparr>))"

definition orders_update :: "('d order_row \<Rightarrow> bool) \<Rightarrow> ('d order_row \<Rightarrow> 'd order_row) \<Rightarrow> 'd tables \<Rightarrow> 'd tables" where
  "orders_update P f T = T\<lparr>tb_orders := map (\<lambda>r. if P r then f r else r) (tb_orders T)\<rparr>"

text \<open>
  \<open>SET remaining = GREATEST(remaining - $1, 0), status = CASE ...\<close> of the resting
  orders, restricted to open ones.
\<close>

definition row_open :: "'d order_row \<Rightarrow> bool" where
  "row_open r \<longleftrightarrow> or_status r = ''New'' \<or> or_status r = ''PartiallyFilled''"

definition fill_row :: "'d::linordered_ab_group_add \<Rightarrow> instant \<Rightarrow> 'd order_row \<Rightarrow> 'd order_row" where
  "fill_row q now r =
     (let rest = max (or_remaining r - q) 0 in
      r\<lparr>or_remaining := rest, or_status := (if rest = 0 then ''Filled'' else ''PartiallyFilled''),
        or_version := or_version r + 1, or_updated_at := now\<rparr>)"

definition set_row :: "'d \<Rightarrow> string \<Rightarrow> instant \<Rightarrow> 'd order_row \<Rightarrow> 'd order_row" where
  "set_row rest status now r =
     r\<lparr>or_remaining := rest, or_status := status, or_version := or_version r + 1, or_updated_at := now\<rparr>"

subsection \<open>Trades\<close>

definition trade_fits :: "'d trade \<Rightarrow> bool" where
  "trade_fits t \<longleftrightarrow> length (t_pair_id t) \<le> 20 \<and> length (t_buyer_id t) \<le> 50 \<and> length (t_seller_id t) \<le> 50"

definition trades_insert :: "'d trade \<Rightarrow> 'd tables \<Rightarrow> unit result \<times> 'd tables" where
  "trades_insert t T =
     (if \<not> trade_fits t then (Inl DbError, T)
      else if t_id t \<in> t_id ` set (tb_trades T) then (Inr (), T)
      else (Inr (), T\<lparr>tb_trades := tb_trades T @ [t]\<rparr>))"

text \<open>One \<open>INSERT\<close> with several rows: all rows are checked before any is stored.\<close>

definition trades_insert_all :: "'d trade list \<Rightarrow> 'd tables \<Rightarrow> unit result \<times> 'd tables" where
  "trades_insert_all ts T =
     (if list_all trade_fits ts then (Inr (), fold (\<lambda>t T. snd (trades_insert t T)) ts T) else (Inl DbError, T))"

subsection \<open>Balances\<close>

definition balance_is :: "string \<Rightarrow> string \<Rightarrow> 'd balance \<Rightarrow> bool" where
  "balance_is u a b \<longleftrightarrow> b_user_id b = u \<and> b_asset b = a"

definition balances_update :: "('d balance \<Rightarrow> bool) \<Rightarrow> ('d balance \<Rightarrow> 'd balance) \<Rightarrow> 'd tables \<Rightarrow> 'd tables" where
  "balances_update P f T = T\<lparr>tb_balances := map (\<lambda>b. if P b then f b else b) (tb_balances T)\<rparr>"

definition settle_row :: "'d::linordered_ab_group_add \<Rightarrow> 'd \<Rightarrow> 'd balance \<Rightarrow> 'd balance" where
  "settle_row locked_dec avail_inc b =
     b\<lparr>b_available := b_available b + avail_inc, b_locked := max (b_locked b - locked_dec) 0\<rparr>"

text \<open>\<open>INSERT INTO balances ... ON CONFLICT (user_id, asset) DO UPDATE\<close>.\<close>

definition balances_settle ::
  "string \<Rightarrow> string \<Rightarrow> 'd::linordered_ab_group_add \<Rightarrow> 'd \<Rightarrow> 'd tables \<Rightarrow> unit result \<times> 'd tables" where
  "balances_settle u a locked_dec avail_inc T =
     (if length u > 50 \<or> length a > 10 then (Inl DbError, T)
      else if \<exists>b \<in> set (tb_balances T). balance_is u a b
      then (Inr (), balances_update (balance_is u a) (settle_row locked_dec avail_inc) T)
      else (Inr (), T\<lparr>tb_balances := tb_balances T @
             [\<lparr>b_user_id = u, b_asset = a, b_available = avail_inc, b_locked = 0\<rparr>]\<rparr>))"

text \<open>The same statement when only \<open>available\<close> is updated.\<close>

definition balances_credit :: "string \<Rightarrow> string \<Rightarrow> 'd::linordered_ab_group_add \<Rightarrow> 'd tables \<Rightarrow> unit result \<times> 'd tables" where
  "balances_credit u a amount T =
     (if length u > 50 \<or> length a > 10 then (Inl DbError, T)
      else if \<exists>b \<in> set (tb_balances T). balance_is u a b
      then (Inr (), balances_update (balance_is u a) (\<lambda>b. b\<lparr>b_available := b_available b + amount\<rparr>) T)
      else (Inr (), T\<lparr>tb_balances := tb_balances T @
             [\<lparr>b_user_id = u, b_asset = a, b_available = amount, b_locked = 0\<rparr>]\<rparr>))"

text \<open>\<open>UPDATE balances SET available = available + $1, locked = GREATEST(locked - $1, 0)\<close>.\<close>

definition balances_release :: "string \<Rightarrow> string \<Rightarrow> 'd::linordered_ab_group_add \<Rightarrow> 'd tables \<Rightarrow> 'd tables" where
  "balances_release u a amount = balances_update (balance_is u a) (settle_row amount amount)"

section \<open>Execution\<close>

lemma pg_stmt_up [run_simps]: "pg_outcomes p = [] \<Longrightarrow> pg_stmt f p = pg_apply f p"
  by (simp add: pg_stmt_def)

lemma pg_apply_run [run_simps]: "f (pg_tables p) = (r, T) \<Longrightarrow> pg_apply f p = (r, p\<lparr>pg_tables := T\<rparr>)"
  by (simp add: pg_apply_def)

lemma pg_ping_up [run_simps]: "pg_outcomes p = [] \<Longrightarrow> pg_ping p = (Inr (), p)"
  by (simp add: pg_ping_def pg_stmt_def pg_apply_def)

lemma pg_query_up [run_simps]: "pg_outcomes p = [] \<Longrightarrow> pg_query q p = (Inr (q (pg_tables p)), p)"
  by (simp add: pg_query_def pg_stmt_def pg_apply_def)

lemma pg_ping_tables:
  assumes "pg_ping p = (r, p')"
  shows "pg_tables p' = pg_tables p" "pg_order_seq p' = pg_order_seq p" "pg_trade_seq p' = pg_trade_seq p"
  using assms by (auto simp: pg_ping_def pg_stmt_def pg_apply_def split: list.splits if_splits)

lemma pg_query_tables: "pg_query q p = (r, p') \<Longrightarrow> pg_tables p' = pg_tables p"
  by (auto simp: pg_query_def pg_stmt_def pg_apply_def split: list.splits if_splits)

lemma pg_query_Inr: "pg_query q p = (Inr a, p') \<Longrightarrow> a = q (pg_tables p)"
  by (auto simp: pg_query_def pg_stmt_def pg_apply_def split: list.splits if_splits)

lemma pg_rollback_Inr: "pg_rollback m p = (Inr a, p') \<longleftrightarrow> m p = (Inr a, p')"
  by (auto simp: pg_rollback_def split: prod.splits sum.splits)

lemma pg_rollback_Inl: "pg_rollback m p = (Inl e, p') \<Longrightarrow> pg_tables p' = pg_tables p"
  by (cases "m p"; cases "fst (m p)") (auto simp: pg_rollback_def)

text \<open>A transaction that reports an error has changed no table.\<close>

lemma pg_tx_atomic:
  assumes "pg_tx m p = (Inl e, p')"
  shows "pg_tables p' = pg_tables p"
  using assms by (auto simp: pg_tx_def vbind_Inl pg_ping_tables dest!: pg_rollback_Inl)

lemma pg_tx_up:
  assumes "pg_outcomes p = []" "m p = (Inr a, p')" "pg_outcomes p' = []"
  shows "pg_tx m p = (Inr a, p')"
  using assms by (simp add: pg_tx_def pg_rollback_def vbind_def run_simps)

text \<open>A statement that succeeds has run on the tables; so has a transaction.\<close>

lemma pg_stmt_Inr:
  assumes "pg_stmt f p = (Inr a, p')"
  shows "f (pg_tables p) = (Inr a, pg_tables p')" "pg_order_seq p' = pg_order_seq p" "pg_trade_seq p' = pg_trade_seq p"
  using assms by (auto simp: pg_stmt_def pg_apply_def split: list.splits if_splits prod.splits)

lemma pg_tx_Inr:
  assumes "pg_tx m p = (Inr a, p')"
  obtains p1 p2 where "pg_tables p1 = pg_tables p" "m p1 = (Inr a, p2)" "pg_tables p' = pg_tables p2"
    "pg_order_seq p1 = pg_order_seq p" "pg_trade_seq p1 = pg_trade_seq p"
proof -
  obtain p1 p2 where p: "pg_ping p = (Inr (), p1)" "m p1 = (Inr a, p2)" "pg_ping p2 = (Inr (), p')"
    using assms by (auto simp: pg_tx_def vbind_Inr pg_rollback_Inr vret_def)
  then show thesis using that [of p1 p2] pg_ping_tables [OF p(1)] pg_ping_tables [OF p(3)] by simp
qed

end
