(* ===== verification/Json.thy ===== *)
theory Json
  imports Externals Codecs "HOL-Library.Char_ord" "HOL-Library.List_Lexorder"
begin

text \<open>
  \<open>serde_json::Value\<close> and the values the program builds with \<open>json!\<close>. An object is
  a \<open>BTreeMap\<close>: its fields are kept in the order of their names. A number is an
  integer or a double, which is given by its value. The text of a value
  (\<open>to_string\<close>, \<open>from_str\<close>) is third-party code, the parameter \<open>J\<close>; the program
  relies on reading back what it wrote (locale \<open>json_spec\<close>).
\<close>

section \<open>Values\<close>

datatype json =
    JNull
  | JBool bool
  | JInt int
  | JReal rat
  | JText string
  | JArr "json list"
  | JObj "(string \<times> json) list"

definition jobj :: "(string \<times> json) list \<Rightarrow> json" where
  "jobj fs = JObj (sort_key fst fs)"

definition jopt :: "('a \<Rightarrow> json) \<Rightarrow> 'a option \<Rightarrow> json" where
  "jopt f x = (case x of None \<Rightarrow> JNull | Some a \<Rightarrow> f a)"

text \<open>\<open>Value::get\<close> by name, and the readers \<open>as_str\<close>, \<open>as_array\<close>.\<close>

fun jget :: "json \<Rightarrow> string \<Rightarrow> json option" where
  "jget (JObj fs) k = map_of fs k"
| "jget _ k = None"

fun jstr :: "json \<Rightarrow> string option" where
  "jstr (JText s) = Some s"
| "jstr _ = None"

fun jarr :: "json \<Rightarrow> json list option" where
  "jarr (JArr xs) = Some xs"
| "jarr _ = None"

text \<open>\<open>j[k] = v\<close> on an object: replaces the field or inserts it at its place.\<close>

fun jset :: "json \<Rightarrow> string \<Rightarrow> json \<Rightarrow> json" where
  "jset (JObj fs) k v = JObj (insort_key fst (k, v) (filter (\<lambda>f. fst f \<noteq> k) fs))"
| "jset j k v = j"

record json_ext =
  js_str :: "json \<Rightarrow> string"
  js_parse :: "string \<Rightarrow> json option"

text \<open>
  Values as the program builds them, except for doubles, whose text need not be read
  back exactly: every object sorted, without repeated names.
\<close>

fun canonical :: "json \<Rightarrow> bool" where
  "canonical (JArr xs) \<longleftrightarrow> (\<forall>x \<in> set xs. canonical x)"
| "canonical (JObj fs) \<longleftrightarrow> sorted (map fst fs) \<and> distinct (map fst fs) \<and> (\<forall>f \<in> set fs. canonical (snd f))"
| "canonical (JReal r) \<longleftrightarrow> False"
| "canonical _ \<longleftrightarrow> True"

locale json_spec =
  fixes J :: json_ext
  assumes parse_str: "canonical v \<Longrightarrow> js_parse J (js_str J v) = Some v"
begin

lemma str_inj: "canonical v \<Longrightarrow> canonical w \<Longrightarrow> js_str J v = js_str J w \<Longrightarrow> v = w"
  using parse_str by (metis option.inject)

end

lemma jget_jobj:
  assumes "distinct (map fst fs)"
  shows "jget (jobj fs) k = map_of fs k"
proof -
  have d: "distinct (map fst (sort_key fst fs))"
    using assms by (simp add: distinct_map inj_on_def)
  have "map_of (sort_key fst fs) k = Some v \<longleftrightarrow> map_of fs k = Some v" for v
    by (simp only: map_of_eq_Some_iff [OF d] map_of_eq_Some_iff [OF assms] set_sort)
  then show ?thesis
    by (cases "map_of fs k"; cases "map_of (sort_key fst fs) k") (auto simp: jobj_def)
qed

lemma canonical_jobj:
  "distinct (map fst fs) \<Longrightarrow> (\<And>f. f \<in> set fs \<Longrightarrow> canonical (snd f)) \<Longrightarrow> canonical (jobj fs)"
  by (auto simp: jobj_def distinct_map inj_on_def)

section \<open>Orders and trades\<close>

definition order_to_json :: "'d ext \<Rightarrow> 'd order \<Rightarrow> json" where
  "order_to_json X ord =
     (let j = jobj
        [(''id'', JText (x_uuid_str X (o_id ord))),
         (''user_id'', JText (o_user_id ord)),
         (''pair_id'', JText (o_pair_id ord)),
         (''side'', JText (side_str (o_side ord))),
         (''order_type'', JText (order_type_str (o_order_type ord))),
         (''tif'', JText (tif_str (o_tif ord))),
         (''price'', jopt (\<lambda>v. JText (x_dec_str X v)) (o_price ord)),
         (''quantity'', JText (x_dec_str X (o_quantity ord))),
         (''remaining'', JText (x_dec_str X (o_remaining ord))),
         (''status'', JText (status_str (o_status ord))),
         (''stp_mode'', JText (stp_str (o_stp_mode ord))),
         (''version'', JInt (o_version ord)),
         (''created_at'', JText (x_time_str X (o_created_at ord))),
         (''updated_at'', JText (x_time_str X (o_updated_at ord)))]
      in case o_client_order_id ord of None \<Rightarrow> j
         | Some coid \<Rightarrow> jset j ''client_order_id'' (JText coid))"

definition trade_to_json :: "'d ext \<Rightarrow> 'd trade \<Rightarrow> json" where
  "trade_to_json X t =
     jobj
       [(''id'', JText (x_uuid_str X (t_id t))),
        (''pair_id'', JText (t_pair_id t)),
        (''buy_order_id'', JText (x_uuid_str X (t_buy_order_id t))),
        (''sell_order_id'', JText (x_uuid_str X (t_sell_order_id t))),
        (''buyer_id'', JText (t_buyer_id t)),
        (''seller_id'', JText (t_seller_id t)),
        (''price'', JText (x_dec_str X (t_price t))),
        (''quantity'', JText (x_dec_str X (t_quantity t))),
        (''created_at'', JText (x_time_str X (t_created_at t)))]"

end
