(* ===== verification/Ledger.thy ===== *)
theory Ledger
  imports Postgres Json Lua_Match
begin

text \<open>
  Persistence and settlement: the database side of \<open>crates/api/src/routes.rs\<close> and
  \<open>persist_order\<close> of \<open>crates/gateway/src/worker.rs\<close>. \<open>now\<close> is the value of \<open>Utc::now\<close>,
  \<open>db_now\<close> that of the database's \<open>NOW()\<close>. The map of balance changes is an
  association list, which the code sorts by user and asset before it applies them.
\<close>

section \<open>Validation\<close>

record 'd pair_config =
  pc_tick_size :: 'd
  pc_lot_size :: 'd
  pc_min_order_size :: 'd
  pc_max_order_size :: 'd
  pc_active :: bool

definition check_price :: "'d::floor_ceiling pair_config \<Rightarrow> 'd order \<Rightarrow> unit result" where
  "check_price cfg ord =
     (case o_price ord of None \<Rightarrow> Inr ()
      | Some price \<Rightarrow>
          if pc_tick_size cfg > 0 then
            result_bind (dec_rem price (pc_tick_size cfg)) (\<lambda>r.
              if r \<noteq> 0 then Inl (Invalid ''price not aligned to tick_size'') else Inr ())
          else Inr ())"

definition validate_order_request :: "(string \<rightharpoonup> 'd::floor_ceiling pair_config) \<Rightarrow> 'd order \<Rightarrow> unit result" where
  "validate_order_request pairs_cache ord =
     result_bind (ok_or (UnknownPair (o_pair_id ord)) (pairs_cache (o_pair_id ord))) (\<lambda>cfg.
     if \<not> pc_active cfg then Inl (Invalid ''pair is not active'')
     else result_bind (dec_rem (o_quantity ord) (pc_lot_size cfg)) (\<lambda>r.
       if r \<noteq> 0 then Inl (Invalid ''quantity not aligned to lot_size'')
       else if o_quantity ord < pc_min_order_size cfg \<or> o_quantity ord > pc_max_order_size cfg
       then Inl (Invalid ''quantity out of range'')
       else check_price cfg ord))"

section \<open>Orders in the database\<close>

definition insert_order_db :: "instant \<Rightarrow> 'd order \<Rightarrow> ('d pg, unit) vm" where
  "insert_order_db db_now ord =
     vbind next_order_seq (\<lambda>seq. pg_stmt (orders_insert (order_to_row db_now (o_updated_at ord) seq ord)))"

definition update_order_db :: "instant \<Rightarrow> 'd order \<Rightarrow> ('d pg, unit) vm" where
  "update_order_db now ord =
     pg_stmt (\<lambda>T. (Inr (), orders_update (\<lambda>r. or_id r = o_id ord)
       (set_row (o_remaining ord) (status_str (o_status ord)) now) T))"

definition batch_update_orders_db :: "instant \<Rightarrow> 'd order list \<Rightarrow> ('d pg, unit) vm" where
  "batch_update_orders_db now orders =
     (if orders = [] then vret () else pg_tx (vforM (update_order_db now) orders))"

definition cancel_order_in_db :: "instant \<Rightarrow> uuid \<Rightarrow> ('d pg, unit) vm" where
  "cancel_order_in_db db_now oid =
     pg_stmt (\<lambda>T. (Inr (), orders_update (\<lambda>r. or_id r = oid)
       (\<lambda>r. r\<lparr>or_status := ''Cancelled'', or_updated_at := db_now\<rparr>) T))"

text \<open>The readers of a row: unknown texts fall to the last case of each match.\<close>

definition row_to_order :: "'d order_row \<Rightarrow> 'd order" where
  "row_to_order r =
     \<lparr>o_id = or_id r, o_user_id = or_user_id r, o_pair_id = or_pair_id r,
      o_side = (if or_side r = ''Buy'' then Buy else Sell),
      o_order_type = (if or_order_type r = ''Market'' then Market else Limit),
      o_tif = (if or_tif r = ''IOC'' then IOC else if or_tif r = ''FOK'' then FOK else GTC),
      o_price = or_price r, o_quantity = or_quantity r, o_remaining = or_remaining r,
      o_status = parse_status (or_status r), o_stp_mode = parse_stp_msg (or_stp_mode r),
      o_version = or_version r, o_sequence = or_sequence r, o_created_at = or_created_at r,
      o_updated_at = or_updated_at r, o_client_order_id = or_client_order_id r,
      o_received_at = None, o_matched_at = None, o_persisted_at = None\<rparr>"

text \<open>The three life-cycle columns are not selected, so reading them fails and gives \<open>None\<close>.\<close>

definition load_order_db :: "uuid \<Rightarrow> ('d pg, 'd order option) vm" where
  "load_order_db oid =
     pg_query (\<lambda>T. map_option row_to_order (find (\<lambda>r. or_id r = oid) (tb_orders T)))"

text \<open>The column \<open>audit_log.sequence\<close> is \<open>NOT NULL\<close> and has no default: the statement never succeeds.\<close>

definition insert_audit_event :: "string option \<Rightarrow> string \<Rightarrow> json \<Rightarrow> ('d pg, unit) vm" where
  "insert_audit_event pair_id event_type payload = pg_stmt (\<lambda>T. (Inl DbError, T))"

section \<open>Settlement\<close>

type_synonym 'd delta_map = "((string \<times> string) \<times> 'd \<times> 'd) list"

text \<open>\<open>entry(k).or_insert((0, 0))\<close> and the addition to its components.\<close>

fun add_delta :: "string \<times> string \<Rightarrow> 'd::plus \<Rightarrow> 'd \<Rightarrow> 'd delta_map \<Rightarrow> 'd delta_map" where
  "add_delta k l a [] = [(k, l, a)]"
| "add_delta k l a ((k', l', a') # m) =
     (if k = k' then (k', l' + l, a' + a) # m else (k', l', a') # add_delta k l a m)"

definition trade_deltas :: "'d::floor_ceiling trade \<Rightarrow> 'd delta_map \<Rightarrow> 'd delta_map result" where
  "trade_deltas t m =
     result_bind (parse_pair_id (t_pair_id t)) (\<lambda>(base, quote).
     let cost = t_price t * t_quantity t in
     Inr (add_delta (t_seller_id t, quote) 0 cost
       (add_delta (t_seller_id t, base) (t_quantity t) 0
         (add_delta (t_buyer_id t, base) 0 (t_quantity t)
           (add_delta (t_buyer_id t, quote) cost 0 m)))))"

fun all_deltas :: "'d::floor_ceiling trade list \<Rightarrow> 'd delta_map \<Rightarrow> 'd delta_map result" where
  "all_deltas [] m = Inr m"
| "all_deltas (t # ts) m = result_bind (trade_deltas t m) (all_deltas ts)"

definition sorted_deltas :: "'d delta_map \<Rightarrow> 'd delta_map" where
  "sorted_deltas m = sort_key fst m"

text \<open>The statement per account of the worker.\<close>

definition settle_delta :: "(string \<times> string) \<times> 'd::floor_ceiling \<times> 'd \<Rightarrow> ('d pg, unit) vm" where
  "settle_delta = (\<lambda>((u, a), locked_dec, avail_inc). pg_stmt (balances_settle u a locked_dec avail_inc))"

text \<open>The one statement of the gateway: every row that has a delta is updated, none is created.\<close>

definition balances_unnest :: "'d::floor_ceiling delta_map \<Rightarrow> 'd tables \<Rightarrow> 'd tables" where
  "balances_unnest ds T =
     T\<lparr>tb_balances := map (\<lambda>b. case map_of ds (b_user_id b, b_asset b) of None \<Rightarrow> b
         | Some (l, a) \<Rightarrow> settle_row l a b) (tb_balances T)\<rparr>"

definition insert_trade_db :: "'d trade \<Rightarrow> ('d pg, unit) vm" where
  "insert_trade_db t = vbind next_trade_seq (\<lambda>seq. pg_stmt (trades_insert (t\<lparr>t_sequence := seq\<rparr>)))"

definition audit_trade :: "'d ext \<Rightarrow> 'd trade \<Rightarrow> ('d pg, unit) vm" where
  "audit_trade X t =
     vor (insert_audit_event (Some (t_pair_id t)) ''TRADE_EXECUTED''
       (jobj [(''trade_id'', JText (x_uuid_str X (t_id t))),
              (''buy_order_id'', JText (x_uuid_str X (t_buy_order_id t))),
              (''sell_order_id'', JText (x_uuid_str X (t_sell_order_id t))),
              (''price'', JText (x_dec_str X (t_price t))),
              (''quantity'', JText (x_dec_str X (t_quantity t)))])) ()"

definition persist_trades :: "'d::floor_ceiling ext \<Rightarrow> 'd trade list \<Rightarrow> ('d pg, json list) vm" where
  "persist_trades X trades =
     (if trades = [] then vret []
      else
        vbind (pg_tx (
          vbind (vforM insert_trade_db trades) (\<lambda>_.
          vbind (vlift (all_deltas trades [])) (\<lambda>deltas.
          vforM settle_delta (sorted_deltas deltas))))) (\<lambda>_.
        vbind (vforM (audit_trade X) trades) (\<lambda>_.
        vret (map (trade_to_json X) trades))))"

definition settle_trade_balances :: "'d::floor_ceiling trade \<Rightarrow> ('d pg, unit) vm" where
  "settle_trade_balances t =
     vbind (vlift (parse_pair_id (t_pair_id t))) (\<lambda>(base, quote).
     let cost = t_price t * t_quantity t in
     pg_tx (
       vbind (pg_stmt (\<lambda>T. (Inr (), balances_update (balance_is (t_buyer_id t) quote) (settle_row cost 0) T))) (\<lambda>_.
       vbind (pg_stmt (balances_credit (t_buyer_id t) base (t_quantity t))) (\<lambda>_.
       vbind (pg_stmt (\<lambda>T. (Inr (), balances_update (balance_is (t_seller_id t) base) (settle_row (t_quantity t) 0) T))) (\<lambda>_.
       pg_stmt (balances_credit (t_seller_id t) quote cost))))))"

section \<open>Resting orders and locks\<close>

definition fill_resting :: "instant \<Rightarrow> 'd::floor_ceiling lua_trade \<Rightarrow> ('d pg, unit) vm" where
  "fill_resting now lt =
     pg_stmt (\<lambda>T. (Inr (), orders_update (\<lambda>r. or_id r = lt_resting_order_id lt \<and> row_open r)
       (fill_row (lt_quantity lt) now) T))"

definition update_resting_orders_after_lua :: "instant \<Rightarrow> 'd::floor_ceiling lua_trade list \<Rightarrow> ('d pg, unit) vm" where
  "update_resting_orders_after_lua now lua_trades =
     (if lua_trades = [] then vret () else pg_tx (vforM (fill_resting now) lua_trades))"

definition get_lock_asset_amount :: "'d::floor_ceiling order \<Rightarrow> (string \<times> 'd) result" where
  "get_lock_asset_amount ord =
     result_bind (parse_pair_id (o_pair_id ord)) (\<lambda>(base, quote).
     Inr (case o_side ord of Buy \<Rightarrow> (quote, option_or (o_price ord) 0 * o_quantity ord)
          | Sell \<Rightarrow> (base, o_quantity ord)))"

definition lock_balance :: "'d::floor_ceiling order \<Rightarrow> ('d pg, unit) vm" where
  "lock_balance ord =
     vbind (vlift (get_lock_asset_amount ord)) (\<lambda>(asset, amount).
     vbind (pg_stmt (\<lambda>T.
       let P = (\<lambda>b. balance_is (o_user_id ord) asset b \<and> b_available b \<ge> amount) in
       (Inr (length (filter P (tb_balances T))),
        balances_update P (\<lambda>b. b\<lparr>b_available := b_available b - amount, b_locked := b_locked b + amount\<rparr>) T))) (\<lambda>rows_affected.
     if rows_affected = 0 then vfail (InsufficientBalance asset (o_user_id ord)) else vret ()))"

definition release_locked_balance :: "'d::floor_ceiling order \<Rightarrow> ('d pg, unit) vm" where
  "release_locked_balance ord =
     vbind (vlift (get_lock_asset_amount ord)) (\<lambda>(asset, amount).
     pg_stmt (\<lambda>T. (Inr (), balances_release (o_user_id ord) asset amount T)))"

definition remaining_lock :: "'d::floor_ceiling order \<Rightarrow> (string \<times> 'd) result" where
  "remaining_lock ord =
     result_bind (parse_pair_id (o_pair_id ord)) (\<lambda>(base, quote).
     Inr (case o_side ord of Buy \<Rightarrow> (quote, option_or (o_price ord) 0 * o_remaining ord)
          | Sell \<Rightarrow> (base, o_remaining ord)))"

definition release_remaining_locked :: "'d::floor_ceiling order \<Rightarrow> ('d pg, unit) vm" where
  "release_remaining_locked ord =
     (if o_remaining ord = 0 then vret ()
      else vbind (vlift (remaining_lock ord)) (\<lambda>(asset, amount).
           pg_stmt (\<lambda>T. (Inr (), balances_release (o_user_id ord) asset amount T))))"

section \<open>Persisting matched orders\<close>

record 'd persist_job =
  pj_order :: "'d order"
  pj_trades :: "'d trade list"
  pj_lua_trades :: "'d lua_trade list"

definition resolved :: "'d order \<Rightarrow> bool" where
  "resolved ord \<longleftrightarrow> o_status ord = Cancelled \<or> o_status ord = Filled"

definition audit_order :: "'d ext \<Rightarrow> 'd order \<Rightarrow> ('d pg, unit) vm" where
  "audit_order X ord =
     vor (insert_audit_event (Some (o_pair_id ord)) ''ORDER_CREATED''
       (jobj [(''order_id'', JText (x_uuid_str X (o_id ord))),
              (''user_id'', JText (o_user_id ord)),
              (''side'', JText (side_str (o_side ord))),
              (''order_type'', JText (order_type_str (o_order_type ord))),
              (''price'', jopt (\<lambda>v. JText (x_dec_str X v)) (o_price ord)),
              (''quantity'', JText (x_dec_str X (o_quantity ord)))])) ()"

definition process_persist_job ::
  "'d::floor_ceiling ext \<Rightarrow> instant \<Rightarrow> instant \<Rightarrow> 'd persist_job \<Rightarrow> ('d pg, unit) vm" where
  "process_persist_job X db_now now job =
     vbind (insert_order_db db_now (pj_order job)) (\<lambda>_.
     vbind (audit_order X (pj_order job)) (\<lambda>_.
     vbind (persist_trades X (pj_trades job)) (\<lambda>_.
     vbind (update_resting_orders_after_lua now (pj_lua_trades job)) (\<lambda>_.
     vbind (update_order_db now (pj_order job)) (\<lambda>_.
     if resolved (pj_order job) then release_remaining_locked (pj_order job) else vret ())))))"

text \<open>Trades of the batch are inserted one by one, each followed by its four entries of the map.\<close>

definition insert_and_add :: "'d::floor_ceiling trade \<Rightarrow> 'd delta_map \<Rightarrow> ('d pg, 'd delta_map) vm" where
  "insert_and_add t m = vbind (insert_trade_db t) (\<lambda>_. vlift (trade_deltas t m))"

definition audit_batch :: "'d ext \<Rightarrow> 'd persist_job list \<Rightarrow> ('d pg, unit) vm" where
  "audit_batch X batch =
     vforM (\<lambda>job. vbind (audit_order X (pj_order job)) (\<lambda>_. vforM (audit_trade X) (pj_trades job))) batch"

definition process_persist_batch ::
  "'d::floor_ceiling ext \<Rightarrow> instant \<Rightarrow> instant \<Rightarrow> 'd persist_job list \<Rightarrow> ('d pg, unit) vm" where
  "process_persist_batch X db_now now batch =
     vbind (pg_tx (
       vbind (vforM (\<lambda>job. insert_order_db db_now (pj_order job)) batch) (\<lambda>_.
       vbind (vfoldM insert_and_add (concat (map pj_trades batch)) []) (\<lambda>balance_deltas.
       vbind (vforM settle_delta (sorted_deltas balance_deltas)) (\<lambda>_.
       vbind (vforM (fill_resting now) (concat (map pj_lua_trades batch))) (\<lambda>_.
       vbind (vforM (\<lambda>job. update_order_db now (pj_order job)) batch) (\<lambda>_.
       vforM (\<lambda>job. if resolved (pj_order job) \<and> o_remaining (pj_order job) \<noteq> 0
                    then release_remaining_locked (pj_order job) else vret ()) batch)))))))
     (\<lambda>_. audit_batch X batch)"

text \<open>
  \<open>spawn_persist_worker\<close>: takes what is waiting in the channel, at most 50 jobs at
  a time, and goes on after a failed batch (which is lost). The fuel is the number
  of jobs in the channel; when the channel is empty the worker waits.
\<close>

fun persist_worker ::
  "'d::floor_ceiling ext \<Rightarrow> instant \<Rightarrow> instant \<Rightarrow> nat \<Rightarrow> 'd persist_job list \<Rightarrow> ('d pg, unit) vm" where
  "persist_worker X db_now now 0 jobs = vret ()"
| "persist_worker X db_now now (Suc n) jobs =
     (if jobs = [] then vret ()
      else vbind (vtry (process_persist_batch X db_now now (take 50 jobs))) (\<lambda>_.
           persist_worker X db_now now n (drop 50 jobs)))"

section \<open>Persisting in the gateway\<close>

text \<open>
  The statement \<open>WITH updates ... UPDATE orders\<close>: every open order named in the
  list is reduced by its quantity (one call of the matching script names a resting
  order once).
\<close>

definition orders_fill_all :: "instant \<Rightarrow> 'd::floor_ceiling lua_trade list \<Rightarrow> 'd tables \<Rightarrow> 'd tables" where
  "orders_fill_all now lts T =
     T\<lparr>tb_orders := map (\<lambda>r.
        case map_of (map (\<lambda>lt. (lt_resting_order_id lt, lt_quantity lt)) lts) (or_id r) of
          None \<Rightarrow> r | Some q \<Rightarrow> if row_open r then fill_row q now r else r) (tb_orders T)\<rparr>"

definition number_trade :: "'d trade \<Rightarrow> ('d pg, 'd trade) vm" where
  "number_trade t = vbind next_trade_seq (\<lambda>seq. vret (t\<lparr>t_sequence := seq\<rparr>))"

definition insert_trades_batch :: "'d trade list \<Rightarrow> ('d pg, unit) vm" where
  "insert_trades_batch trades =
     vbind (vmapM number_trade trades) (\<lambda>rows. pg_stmt (trades_insert_all rows))"

definition persist_order ::
  "instant \<Rightarrow> instant \<Rightarrow> 'd::floor_ceiling order \<Rightarrow> 'd trade list \<Rightarrow> 'd lua_trade list \<Rightarrow> ('d pg, unit) vm" where
  "persist_order db_now now ord trades lua_trades =
     (let has_trades = (trades \<noteq> []);
          order_rests = (o_status ord = New \<or> o_status ord = PartiallyFilled) in
      pg_tx (
        vbind (vbind next_order_seq (\<lambda>seq. pg_stmt (orders_insert (order_to_row db_now now seq ord)))) (\<lambda>_.
        vbind (if has_trades then
                 vbind (insert_trades_batch trades) (\<lambda>_. vlift (all_deltas trades []))
               else vret []) (\<lambda>balance_deltas.
        vbind (if balance_deltas \<noteq> [] then
                 pg_stmt (\<lambda>T. (Inr (), balances_unnest (sorted_deltas balance_deltas) T))
               else vret ()) (\<lambda>_.
        vbind (if lua_trades \<noteq> [] then
                 pg_stmt (\<lambda>T. (Inr (), orders_fill_all now lua_trades T))
               else vret ()) (\<lambda>_.
        vbind (if \<not> order_rests then update_order_db now ord else vret ()) (\<lambda>_.
        if resolved ord \<and> o_remaining ord \<noteq> 0 then release_remaining_locked ord else vret ())))))))"

end
