(* ===== verification/Ledger_Props.thy ===== *)
theory Ledger_Props
  imports Ledger Balance_Spec
begin

text \<open>
  Settlement and persistence: the balance changes of a list of trades cancel per
  asset, the gateway's transaction is atomic and conserves every asset when the
  locks cover the trades, and by how much the totals grow when they do not.
\<close>

section \<open>Balance changes of trades\<close>

definition net_delta :: "string \<Rightarrow> 'd::floor_ceiling delta_map \<Rightarrow> 'd" where
  "net_delta a m = sum_list (map (\<lambda>(k, l, ai). if snd k = a then ai - l else 0) m)"

lemma net_add_delta:
  "net_delta a (add_delta k l ai m) = net_delta a m + (if snd k = a then ai - l else 0)"
  by (induction k l ai m rule: add_delta.induct) (auto simp: net_delta_def algebra_simps)

lemma add_delta_keys [simp]: "fst ` set (add_delta k l ai m) = insert k (fst ` set m)"
  by (induction k l ai m rule: add_delta.induct) auto

lemma add_delta_distinct [simp]: "distinct (map fst m) \<Longrightarrow> distinct (map fst (add_delta k l ai m))"
  by (induction k l ai m rule: add_delta.induct) auto

lemma trade_deltas_net:
  assumes "trade_deltas t m = Inr m'"
  shows "net_delta a m' = net_delta a m" "distinct (map fst m) \<Longrightarrow> distinct (map fst m')"
  using assms by (auto simp: trade_deltas_def result_bind_Inr net_add_delta Let_def split: prod.splits)

lemma all_deltas_net:
  assumes "all_deltas ts m = Inr m'"
  shows "net_delta a m' = net_delta a m" "distinct (map fst m) \<Longrightarrow> distinct (map fst m')"
  using assms
proof (induction ts m rule: all_deltas.induct)
  case (2 t ts m)
  { case 1
    with 2 trade_deltas_net(1) show ?case by (auto simp: result_bind_Inr) }
  { case 2
    with "2.IH"(2) trade_deltas_net(2) show ?case by (auto simp: result_bind_Inr) }
qed auto

lemma sum_list_sort: "sum_list (map f (sort_key g xs)) = sum_list (map f xs :: 'a::comm_monoid_add list)"
proof (induction xs)
  case (Cons x xs)
  have "sum_list (map f (insort_key g x ys)) = f x + sum_list (map f ys)" for ys
    by (induction ys) (simp_all add: algebra_simps)
  with Cons show ?case by simp
qed simp

lemma net_sorted: "net_delta a (sorted_deltas m) = net_delta a m"
  by (simp add: net_delta_def sorted_deltas_def sum_list_sort)

lemma sorted_deltas_keys [simp]:
  "set (sorted_deltas m) = set m" "distinct (map fst m) \<Longrightarrow> distinct (map fst (sorted_deltas m))"
  by (simp_all add: sorted_deltas_def distinct_map)

lemma sorted_deltas_map_of [simp]: "distinct (map fst m) \<Longrightarrow> map_of (sorted_deltas m) = map_of m"
  by (rule map_of_eqI) (auto simp: sorted_deltas_def distinct_map)

text \<open>
  Settlement is double entry. Whatever trades are settled, the changes that
  the aggregation of \<open>persist_order\<close> and the worker computes cancel for every asset:
  what is added to available amounts is what is taken from locked ones.
\<close>

theorem settlement_deltas_balance:
  assumes "all_deltas trades [] = Inr deltas"
  shows "net_delta asset (sorted_deltas deltas) = 0"
proof -
  have "net_delta asset (sorted_deltas deltas) = net_delta asset deltas" by (rule net_sorted)
  with all_deltas_net(1) [OF assms, of asset] show ?thesis by (simp add: net_delta_def)
qed

theorem settlement_deltas_balance_witness:
  "\<exists>deltas. all_deltas [\<lparr>t_id = 1, t_pair_id = ''BTC-USDT'', t_buy_order_id = 2, t_sell_order_id = 3,
      t_buyer_id = ''u1'', t_seller_id = ''u2'', t_price = 5 :: rat, t_quantity = 2, t_sequence = 0,
      t_created_at = 0\<rparr>] [] = Inr deltas \<and> length deltas = 4 \<and> net_delta ''USDT'' (sorted_deltas deltas) = 0"
proof -
  let ?t = "\<lparr>t_id = 1, t_pair_id = ''BTC-USDT'', t_buy_order_id = 2, t_sell_order_id = 3,
      t_buyer_id = ''u1'', t_seller_id = ''u2'', t_price = 5 :: rat, t_quantity = 2, t_sequence = 0,
      t_created_at = 0\<rparr>"
  have "parse_pair_id ''BTC-USDT'' = Inr (''BTC'', ''USDT'')" by (simp add: parse_pair_id_iff)
  then have "all_deltas [?t] [] = Inr [((''u1'', ''USDT''), 10, 0), ((''u1'', ''BTC''), 0, 2),
      ((''u2'', ''BTC''), 2, 0), ((''u2'', ''USDT''), 0, 10)]"
    by (simp add: trade_deltas_def)
  with settlement_deltas_balance [OF this, of "''USDT''"] show ?thesis by auto
qed

section \<open>The tables\<close>

definition balance_keys :: "'d tables \<Rightarrow> (string \<times> string) list" where
  "balance_keys T = map (\<lambda>b. (b_user_id b, b_asset b)) (tb_balances T)"

text \<open>The primary keys.\<close>

definition keys_ok :: "'d tables \<Rightarrow> bool" where
  "keys_ok T \<longleftrightarrow> distinct (balance_keys T) \<and> distinct (map or_id (tb_orders T)) \<and> distinct (map t_id (tb_trades T))"

definition asset_total :: "string \<Rightarrow> 'd::floor_ceiling tables \<Rightarrow> 'd" where
  "asset_total a T = sum_list (map (\<lambda>b. if b_asset b = a then b_available b + b_locked b else 0) (tb_balances T))"

lemma sum_list_map_add:
  "sum_list (map (\<lambda>x. f x + g x) xs) = sum_list (map f xs) + sum_list (map g xs :: 'a::comm_monoid_add list)"
  by (induction xs) (simp_all add: algebra_simps)

text \<open>What settling gives an account beyond what it takes from its locked amount.\<close>

definition settle_gain :: "'d::floor_ceiling delta_map \<Rightarrow> 'd balance \<Rightarrow> 'd" where
  "settle_gain m b = (case map_of m (b_user_id b, b_asset b) of None \<Rightarrow> 0
     | Some (l, ai) \<Rightarrow> ai - min l (b_locked b))"

lemma unnest_total:
  "asset_total a (balances_unnest m T) = asset_total a T +
     sum_list (map (\<lambda>b. if b_asset b = a then settle_gain m b else 0) (tb_balances T))"
  unfolding asset_total_def sum_list_map_add [symmetric] balances_unnest_def
  by (auto simp: settle_gain_def settle_row_def o_def max_def min_def algebra_simps split: option.splits
      intro!: arg_cong [where f = sum_list] map_cong)

lemma sum_list_delta_keys:
  assumes "distinct (map key bs)" "fst ` set m \<subseteq> key ` set bs" "distinct (map fst m)"
  shows "sum_list (map (\<lambda>b. case map_of m (key b) of None \<Rightarrow> 0 | Some v \<Rightarrow> g (key b) v) bs) =
    sum_list (map (\<lambda>(k, v). g k v) m :: 'a::comm_monoid_add list)"
proof -
  let ?h = "\<lambda>k. case map_of m k of None \<Rightarrow> 0 | Some v \<Rightarrow> g k v"
  have "sum_list (map (\<lambda>b. ?h (key b)) bs) = sum_list (map ?h (map key bs))" by (simp add: o_def)
  also have "\<dots> = sum ?h (set (map key bs))" using assms(1) by (rule sum_list_distinct_conv_sum_set)
  also have "\<dots> = sum ?h (fst ` set m)"
  proof (intro sum.mono_neutral_right ballI)
    show "?h k = 0" if "k \<in> set (map key bs) - fst ` set m" for k
    proof -
      have "map_of m k = None" using that by (simp add: map_of_eq_None_iff)
      then show ?thesis by simp
    qed
  qed (use assms(2) in simp_all)
  also have "\<dots> = sum ?h (set (map fst m))" by simp
  also have "\<dots> = sum_list (map ?h (map fst m))" using assms(3) by (rule sum_list_distinct_conv_sum_set [symmetric])
  also have "map ?h (map fst m) = map (\<lambda>(k, v). g k v) m"
    using assms(3) by auto
  finally show ?thesis .
qed

text \<open>Accounts that exist and whose locked amount covers what is taken.\<close>

definition covered :: "'d::floor_ceiling delta_map \<Rightarrow> 'd tables \<Rightarrow> bool" where
  "covered m T \<longleftrightarrow> fst ` set m \<subseteq> set (balance_keys T) \<and>
     (\<forall>b \<in> set (tb_balances T). \<forall>l ai. map_of m (b_user_id b, b_asset b) = Some (l, ai) \<longrightarrow> l \<le> b_locked b)"

lemma unnest_conserves:
  assumes "covered m T" "distinct (balance_keys T)" "distinct (map fst m)" "net_delta a m = 0"
  shows "asset_total a (balances_unnest m T) = asset_total a T"
proof -
  let ?key = "\<lambda>b :: 'a balance. (b_user_id b, b_asset b)"
  let ?g = "\<lambda>(k :: string \<times> string) v :: 'a \<times> 'a. if snd k = a then snd v - fst v else 0"
  have eq: "map (\<lambda>b. if b_asset b = a then settle_gain m b else 0) (tb_balances T) =
      map (\<lambda>b. case map_of m (?key b) of None \<Rightarrow> 0 | Some v \<Rightarrow> ?g (?key b) v) (tb_balances T)"
    using assms(1) by (auto simp: covered_def settle_gain_def min_def split: option.splits)
  have "sum_list (map (\<lambda>b. case map_of m (?key b) of None \<Rightarrow> 0 | Some v \<Rightarrow> ?g (?key b) v) (tb_balances T)) =
      sum_list (map (\<lambda>(k, v). ?g k v) m)"
    using assms(1-3) by (intro sum_list_delta_keys) (auto simp: covered_def balance_keys_def)
  also have "\<dots> = net_delta a m"
    by (simp add: net_delta_def case_prod_unfold)
  finally show ?thesis using assms(4) by (simp only: unnest_total eq add_0_right)
qed

section \<open>What a successful \<open>persist_order\<close> has done\<close>

lemma balances_kept [simp]:
  "tb_balances (snd (orders_insert r T)) = tb_balances T" "tb_balances (orders_update P f T) = tb_balances T"
  "tb_balances (snd (trades_insert t T)) = tb_balances T"
  by (simp_all add: orders_insert_def orders_update_def trades_insert_def)

lemma orders_fill_all_keeps [simp]: "tb_balances (orders_fill_all now lts T) = tb_balances T"
  by (simp add: orders_fill_all_def)

lemma trades_insert_all_keeps [simp]: "tb_balances (snd (trades_insert_all ts T)) = tb_balances T"
proof -
  have "tb_balances (fold (\<lambda>t T. snd (trades_insert t T)) ts T) = tb_balances T"
    by (induction ts arbitrary: T) simp_all
  then show ?thesis by (simp add: trades_insert_all_def)
qed

lemma stmt_tables:
  assumes "pg_stmt f p = (Inr a, p')"
  shows "pg_tables p' = snd (f (pg_tables p))" "fst (f (pg_tables p)) = Inr a"
  using pg_stmt_Inr(1) [OF assms] by simp_all

lemma seq_steps:
  "next_order_seq p = (r, p') \<Longrightarrow> pg_tables p' = pg_tables p"
  "next_trade_seq p = (r, p') \<Longrightarrow> pg_tables p' = pg_tables p"
  by (auto simp: next_order_seq_def next_trade_seq_def)

lemma number_trade_run:
  "number_trade t p = (Inr (t\<lparr>t_sequence := pg_trade_seq p\<rparr>), p\<lparr>pg_trade_seq := pg_trade_seq p + 1\<rparr>)"
  by (simp add: number_trade_def vbind_def next_trade_seq_def vret_def)

lemma number_rows_tables:
  assumes "vmapM number_trade ts p = (r, p')"
  shows "pg_tables p' = pg_tables p"
  using assms
proof (induction ts arbitrary: p r)
  case (Cons t ts)
  then show ?case
    by (auto simp: vbind_def number_trade_run vret_def split: prod.splits sum.splits)
qed (simp add: vret_def)

definition released :: "'d::floor_ceiling order \<Rightarrow> 'd tables \<Rightarrow> 'd tables" where
  "released ord T =
     (if resolved ord \<and> o_remaining ord \<noteq> 0
      then (case remaining_lock ord of Inr (a, n) \<Rightarrow> balances_release (o_user_id ord) a n T | Inl _ \<Rightarrow> T)
      else T)"

lemma unnest_Nil [simp]: "balances_unnest [] T = T"
  by (simp add: balances_unnest_def)

lemma release_run:
  assumes "(if resolved ord \<and> o_remaining ord \<noteq> 0 then release_remaining_locked ord else vret ()) p = (Inr (), p')"
  shows "pg_tables p' = released ord (pg_tables p)"
  using assms
  by (auto simp: released_def release_remaining_locked_def vbind_Inr vret_def vlift_def stmt_tables
      split: if_splits)

lemma same_balances:
  assumes "tb_balances T = tb_balances T'"
  shows "tb_balances (balances_unnest m T) = tb_balances (balances_unnest m T')"
    "tb_balances (released ord T) = tb_balances (released ord T')" "asset_total a T = asset_total a T'"
    "balance_keys T = balance_keys T'" "covered m T = covered m T'"
  using assms
  by (auto simp: balances_unnest_def released_def balances_release_def balances_update_def asset_total_def
      balance_keys_def covered_def split: sum.splits)

text \<open>The six steps of a \<open>persist_order\<close> that succeeds, each on the tables the one before left.\<close>

lemma persist_order_steps:
  assumes "persist_order db_now now ord trades lts p = (Inr (), p')"
  obtains p0 seq q0 u1 p1 deltas p2 u3 p3 u4 p4 u5 p5 p6 where
    "pg_tables p0 = pg_tables p" "pg_tables p' = pg_tables p6"
    "next_order_seq p0 = (Inr seq, q0)" "pg_stmt (orders_insert (order_to_row db_now now seq ord)) q0 = (Inr u1, p1)"
    "(if trades \<noteq> [] then vbind (insert_trades_batch trades) (\<lambda>_. vlift (all_deltas trades [])) else vret []) p1 =
      (Inr deltas, p2)"
    "(if deltas \<noteq> [] then pg_stmt (\<lambda>T. (Inr (), balances_unnest (sorted_deltas deltas) T)) else vret ()) p2 = (Inr u3, p3)"
    "(if lts \<noteq> [] then pg_stmt (\<lambda>T. (Inr (), orders_fill_all now lts T)) else vret ()) p3 = (Inr u4, p4)"
    "(if \<not> (o_status ord = New \<or> o_status ord = PartiallyFilled) then update_order_db now ord else vret ()) p4 = (Inr u5, p5)"
    "(if resolved ord \<and> o_remaining ord \<noteq> 0 then release_remaining_locked ord else vret ()) p5 = (Inr (), p6)"
  using assms unfolding persist_order_def Let_def by (elim pg_tx_Inr vbind_InrE) (rule that; assumption)

lemma persist_order_balances:
  assumes "persist_order db_now now ord trades lts p = (Inr (), p')"
  obtains deltas where "all_deltas trades [] = Inr deltas"
    "tb_balances (pg_tables p') = tb_balances (released ord (balances_unnest (sorted_deltas deltas) (pg_tables p)))"
proof -
  obtain p0 seq q0 u1 p1 deltas p2 u3 p3 u4 p4 u5 p5 p6 where tabs: "pg_tables p0 = pg_tables p" "pg_tables p' = pg_tables p6"
    and ins: "next_order_seq p0 = (Inr seq, q0)" "pg_stmt (orders_insert (order_to_row db_now now seq ord)) q0 = (Inr u1, p1)"
    and del: "(if trades \<noteq> [] then vbind (insert_trades_batch trades) (\<lambda>_. vlift (all_deltas trades [])) else vret []) p1 =
      (Inr deltas, p2)"
    and bal: "(if deltas \<noteq> [] then pg_stmt (\<lambda>T. (Inr (), balances_unnest (sorted_deltas deltas) T)) else vret ()) p2 = (Inr u3, p3)"
    and fil: "(if lts \<noteq> [] then pg_stmt (\<lambda>T. (Inr (), orders_fill_all now lts T)) else vret ()) p3 = (Inr u4, p4)"
    and upd: "(if \<not> (o_status ord = New \<or> o_status ord = PartiallyFilled) then update_order_db now ord else vret ()) p4 = (Inr u5, p5)"
    and rel: "(if resolved ord \<and> o_remaining ord \<noteq> 0 then release_remaining_locked ord else vret ()) p5 = (Inr (), p6)"
    by (rule persist_order_steps [OF assms])
  have 1: "tb_balances (pg_tables p1) = tb_balances (pg_tables p)"
    using ins by (auto simp: vbind_Inr tabs(1) stmt_tables dest: seq_steps)
  have 2: "tb_balances (pg_tables p2) = tb_balances (pg_tables p1)" "all_deltas trades [] = Inr deltas"
    using del
    by (auto simp: vbind_Inr insert_trades_batch_def vret_def vlift_def stmt_tables number_rows_tables split: if_splits)
  have 3: "pg_tables p3 = balances_unnest (sorted_deltas deltas) (pg_tables p2)"
    using bal by (auto simp: vret_def sorted_deltas_def stmt_tables split: if_splits)
  have 4: "tb_balances (pg_tables p4) = tb_balances (pg_tables p3)"
    using fil by (auto simp: vret_def stmt_tables split: if_splits)
  have 5: "tb_balances (pg_tables p5) = tb_balances (pg_tables p4)"
    using upd by (auto simp: vret_def update_order_db_def stmt_tables split: if_splits)
  have "tb_balances (pg_tables p') = tb_balances (released ord (pg_tables p5))"
    using release_run [OF rel] tabs(2) by simp
  also have "\<dots> = tb_balances (released ord (balances_unnest (sorted_deltas deltas) (pg_tables p)))"
    using 1 2(1) 3 4 5 same_balances(1,2) by metis
  finally show thesis using that 2(2) by blast
qed

section \<open>Conservation\<close>

definition lock_covers_release :: "'d::floor_ceiling order \<Rightarrow> 'd tables \<Rightarrow> bool" where
  "lock_covers_release ord T \<longleftrightarrow> (resolved ord \<and> o_remaining ord \<noteq> 0 \<longrightarrow>
     (case remaining_lock ord of Inl _ \<Rightarrow> True
      | Inr (a, n) \<Rightarrow> \<forall>b \<in> set (tb_balances T). balance_is (o_user_id ord) a b \<longrightarrow> n \<le> b_locked b))"

lemma update_total:
  assumes "\<And>b. b \<in> set (tb_balances T) \<Longrightarrow> P b \<Longrightarrow>
    b_asset (f b) = b_asset b \<and> b_available (f b) + b_locked (f b) = b_available b + b_locked b"
  shows "asset_total a (balances_update P f T) = asset_total a T"
  unfolding asset_total_def balances_update_def
  using assms by (auto simp: o_def intro!: arg_cong [where f = sum_list] map_cong)

lemma released_total:
  assumes "lock_covers_release ord T"
  shows "asset_total a (released ord T) = asset_total a T"
proof (cases "resolved ord \<and> o_remaining ord \<noteq> 0")
  case True
  then show ?thesis
    using assms
    by (auto simp: released_def lock_covers_release_def balances_release_def settle_row_def
        split: sum.splits intro!: update_total)
qed (auto simp: released_def)


text \<open>A book-keeping example: one trade between two users who have all four accounts.\<close>

definition sample_trade :: "rat trade" where
  "sample_trade = \<lparr>t_id = 1, t_pair_id = ''BTC-USDT'', t_buy_order_id = 2, t_sell_order_id = 3,
      t_buyer_id = ''u1'', t_seller_id = ''u2'', t_price = 5, t_quantity = 2, t_sequence = 0, t_created_at = 0\<rparr>"

definition sample_order :: "rat order" where
  "sample_order = \<lparr>o_id = 2, o_user_id = ''u1'', o_pair_id = ''BTC-USDT'', o_side = Buy, o_order_type = Limit,
      o_tif = GTC, o_price = Some 5, o_quantity = 2, o_remaining = 0, o_status = Filled, o_stp_mode = StpNone,
      o_version = 1, o_sequence = 0, o_created_at = 0, o_updated_at = 0, o_client_order_id = None,
      o_received_at = None, o_matched_at = None, o_persisted_at = None\<rparr>"

definition sample_pair :: "rat pair" where
  "sample_pair = \<lparr>p_id = ''BTC-USDT'', p_base = ''BTC'', p_quote = ''USDT'', p_tick_size = 1, p_lot_size = 1,
      p_min_order_size = 1, p_max_order_size = 1000, p_price_precision = 2, p_qty_precision = 8,
      p_price_band_pct = 0, p_active = True\<rparr>"

definition sample_db :: "rat balance list \<Rightarrow> rat pg" where
  "sample_db bs = \<lparr>pg_tables = \<lparr>tb_pairs = [sample_pair], tb_orders = [], tb_trades = [], tb_balances = bs\<rparr>,
      pg_outcomes = [], pg_order_seq = 1, pg_trade_seq = 1\<rparr>"

definition account :: "string \<Rightarrow> string \<Rightarrow> 'd \<Rightarrow> 'd \<Rightarrow> 'd balance" where
  "account u a av lo = \<lparr>b_user_id = u, b_asset = a, b_available = av, b_locked = lo\<rparr>"

lemmas sample_defs = sample_trade_def sample_order_def sample_pair_def sample_db_def account_def

lemma sample_deltas:
  "all_deltas [sample_trade] [] = Inr [((''u1'', ''USDT''), 10, 0), ((''u1'', ''BTC''), 0, 2),
      ((''u2'', ''BTC''), 2, 0), ((''u2'', ''USDT''), 0, 10)]"
proof -
  have "parse_pair_id ''BTC-USDT'' = Inr (''BTC'', ''USDT'')" by (simp add: parse_pair_id_iff)
  then show ?thesis by (simp add: trade_deltas_def sample_trade_def)
qed

lemma sample_sorted:
  "sorted_deltas [((''u1'', ''USDT''), 10 :: rat, 0), ((''u1'', ''BTC''), 0, 2), ((''u2'', ''BTC''), 2, 0),
      ((''u2'', ''USDT''), 0, 10)] =
    [((''u1'', ''BTC''), 0, 2), ((''u1'', ''USDT''), 10, 0), ((''u2'', ''BTC''), 2, 0), ((''u2'', ''USDT''), 0, 10)]"
  by (simp add: sorted_deltas_def less_eq_prod_def less_char_def)

section \<open>Success\<close>

text \<open>A computation that succeeds and leaves the service up.\<close>

definition succeeds :: "('d pg, 'a) vm \<Rightarrow> 'd pg \<Rightarrow> bool" where
  "succeeds m p \<longleftrightarrow> (\<exists>a p'. m p = (Inr a, p') \<and> pg_outcomes p' = [])"

lemma succeeds_stmt: "pg_outcomes p = [] \<Longrightarrow> is_ok (fst (f (pg_tables p))) \<Longrightarrow> succeeds (pg_stmt f) p"
  by (cases "f (pg_tables p)") (auto simp: succeeds_def run_simps elim: is_ok.elims)

lemma succeeds_vbind:
  assumes "succeeds m p" "\<And>a p'. m p = (Inr a, p') \<Longrightarrow> pg_outcomes p' = [] \<Longrightarrow> succeeds (f a) p'"
  shows "succeeds (vbind m f) p"
  using assms by (fastforce simp: succeeds_def vbind_Inr)

lemma succeeds_vret: "pg_outcomes p = [] \<Longrightarrow> succeeds (vret a) p"
  and succeeds_vlift: "pg_outcomes p = [] \<Longrightarrow> is_ok r \<Longrightarrow> succeeds (vlift r) p"
  by (auto simp: succeeds_def vret_def vlift_def elim: is_ok.elims)

lemma succeeds_if: "(c \<Longrightarrow> succeeds m p) \<Longrightarrow> (\<not> c \<Longrightarrow> succeeds m' p) \<Longrightarrow> succeeds (if c then m else m') p"
  by simp

lemma succeeds_tx: "pg_outcomes p = [] \<Longrightarrow> succeeds m p \<Longrightarrow> succeeds (pg_tx m) p"
  by (auto simp: succeeds_def intro!: pg_tx_up)

lemma succeeds_seq: "pg_outcomes p = [] \<Longrightarrow> succeeds next_order_seq p"
  and succeeds_trade_seq: "pg_outcomes p = [] \<Longrightarrow> succeeds next_trade_seq p"
  by (simp_all add: succeeds_def next_order_seq_def next_trade_seq_def)

lemma number_rows:
  assumes "pg_outcomes p = []"
  obtains rows p' where "vmapM number_trade ts p = (Inr rows, p')"
    "pg_outcomes p' = []" "list_all trade_fits rows = list_all trade_fits ts"
proof -
  have "\<exists>rows p'. vmapM number_trade ts p = (Inr rows, p') \<and>
      pg_outcomes p' = [] \<and> list_all trade_fits rows = list_all trade_fits ts"
    using assms
  proof (induction ts arbitrary: p)
    case (Cons t ts)
    let ?p = "p\<lparr>pg_trade_seq := pg_trade_seq p + 1\<rparr>"
    obtain rows p' where "vmapM number_trade ts ?p = (Inr rows, p')"
      "pg_outcomes p' = []" "list_all trade_fits rows = list_all trade_fits ts"
      using Cons.IH [of ?p] Cons.prems by auto
    moreover have "trade_fits (t\<lparr>t_sequence := n\<rparr>) = trade_fits t" for n by (simp add: trade_fits_def)
    ultimately show ?case by (simp add: vbind_run(1) [OF number_trade_run] vbind_run(1) vret_def)
  qed (simp add: vret_def)
  with that show thesis by blast
qed

lemma succeeds_insert_trades:
  assumes "pg_outcomes p = []" "list_all trade_fits ts"
  shows "succeeds (insert_trades_batch ts) p"
  using assms(1)
proof (rule number_rows [where ts = ts])
  fix rows p'
  assume "vmapM number_trade ts p = (Inr rows, p')"
    "pg_outcomes p' = []" "list_all trade_fits rows = list_all trade_fits ts"
  with assms(2) show ?thesis
    by (simp add: insert_trades_batch_def succeeds_def run_simps trades_insert_all_def)
qed

lemma succeeds_release:
  assumes "pg_outcomes p = []" "resolved ord \<Longrightarrow> o_remaining ord \<noteq> 0 \<Longrightarrow> is_ok (remaining_lock ord)"
  shows "succeeds (if resolved ord \<and> o_remaining ord \<noteq> 0 then release_remaining_locked ord else vret ()) p"
  using assms
  by (auto simp: release_remaining_locked_def intro!: succeeds_vret succeeds_vbind succeeds_vlift succeeds_stmt
      split: prod.splits)

lemma persist_order_succeeds:
  assumes "pg_outcomes p = []" "list_all trade_fits trades" "all_deltas trades [] = Inr deltas"
    and "\<And>seq. is_ok (fst (orders_insert (order_to_row db_now now seq ord) (pg_tables p)))"
    and "resolved ord \<Longrightarrow> o_remaining ord \<noteq> 0 \<Longrightarrow> is_ok (remaining_lock ord)"
  obtains p' where "persist_order db_now now ord trades lts p = (Inr (), p')"
proof -
  have "succeeds (persist_order db_now now ord trades lts) p"
    unfolding persist_order_def Let_def
    using assms
    by (intro succeeds_tx succeeds_vbind succeeds_release succeeds_if) 
       (auto intro!: succeeds_vret succeeds_stmt succeeds_vlift succeeds_seq succeeds_insert_trades
        simp: update_order_db_def seq_steps)
  with that show thesis by (auto simp: succeeds_def)
qed

lemma sample_insert_ok: "is_ok (fst (orders_insert (order_to_row t u n sample_order) (pg_tables (sample_db bs))))"
  by (simp add: orders_insert_def order_to_row_def sample_defs)

lemma sample_persist:
  obtains p' where "persist_order 0 0 sample_order [sample_trade] [] (sample_db bs) = (Inr (), p')"
proof (rule persist_order_succeeds [of "sample_db bs" "[sample_trade]" _ 0 0 sample_order])
  show "pg_outcomes (sample_db bs) = []" "list_all trade_fits [sample_trade]"
    by (simp_all add: sample_defs trade_fits_def)
qed (use sample_deltas sample_insert_ok in \<open>auto simp: sample_order_def\<close>)

definition funded :: "rat balance list" where
  "funded = [account ''u1'' ''BTC'' 0 0, account ''u1'' ''USDT'' 90 10, account ''u2'' ''BTC'' 5 2, account ''u2'' ''USDT'' 0 0]"


section \<open>Settlement that the locks do not cover\<close>

text \<open>What the trades take from an account, and by how much the locked amounts fall short of it.\<close>

definition owed :: "string \<times> string \<Rightarrow> 'd::floor_ceiling trade list \<Rightarrow> 'd" where
  "owed k ts = sum_list (map (\<lambda>t. case parse_pair_id (t_pair_id t) of Inl _ \<Rightarrow> 0
     | Inr (base, quote) \<Rightarrow> (if (t_buyer_id t, quote) = k then t_price t * t_quantity t else 0) +
         (if (t_seller_id t, base) = k then t_quantity t else 0)) ts)"

definition missing :: "'d::floor_ceiling trade list \<Rightarrow> 'd balance \<Rightarrow> 'd" where
  "missing ts b = max 0 (owed (b_user_id b, b_asset b) ts - b_locked b)"

definition shortfall :: "string \<Rightarrow> 'd::floor_ceiling trade list \<Rightarrow> 'd tables \<Rightarrow> 'd" where
  "shortfall a ts T = sum_list (map (\<lambda>b. if b_asset b = a then missing ts b else 0) (tb_balances T))"

definition debit :: "'d::floor_ceiling delta_map \<Rightarrow> string \<times> string \<Rightarrow> 'd" where
  "debit m k = (case map_of m k of None \<Rightarrow> 0 | Some v \<Rightarrow> fst v)"

lemma debit_add_delta: "debit (add_delta k l ai m) k' = debit m k' + (if k = k' then l else 0)"
  by (induction k l ai m rule: add_delta.induct) (auto simp: debit_def split: option.splits)

lemma all_deltas_debit: "all_deltas ts m = Inr m' \<Longrightarrow> debit m' k = debit m k + owed k ts"
proof (induction ts m rule: all_deltas.induct)
  case (2 t ts m)
  then obtain base quote m1 where t: "parse_pair_id (t_pair_id t) = Inr (base, quote)" "trade_deltas t m = Inr m1"
    and "all_deltas ts m1 = Inr m'"
    by (auto simp: result_bind_Inr trade_deltas_def split: prod.splits)
  with "2.IH" have "debit m' k = debit m1 k + owed k ts" by blast
  moreover have "debit m1 k = debit m k + owed k [t]"
    using t by (auto simp: trade_deltas_def debit_add_delta owed_def Let_def split: if_splits)
  ultimately show ?case by (simp add: owed_def algebra_simps)
qed (simp add: owed_def)

lemma unnest_shortfall:
  assumes "\<forall>b \<in> set (tb_balances T). 0 \<le> b_locked b" "\<And>k. debit m k = owed k ts"
    and "fst ` set m \<subseteq> set (balance_keys T)" "distinct (balance_keys T)" "distinct (map fst m)" "net_delta a m = 0"
  shows "asset_total a (balances_unnest m T) = asset_total a T + shortfall a ts T"
proof -
  let ?key = "\<lambda>b :: 'a balance. (b_user_id b, b_asset b)"
  let ?g = "\<lambda>(k :: string \<times> string) v :: 'a \<times> 'a. if snd k = a then snd v - fst v else 0"
  let ?h = "\<lambda>b. case map_of m (?key b) of None \<Rightarrow> 0 | Some v \<Rightarrow> ?g (?key b) v"
  have "(if b_asset b = a then settle_gain m b else 0) = ?h b + (if b_asset b = a then missing ts b else 0)"
    if "b \<in> set (tb_balances T)" for b
    using assms(1) that assms(2) [of "?key b"]
    by (auto simp: settle_gain_def missing_def debit_def min_def max_def split: option.splits)
  then have "sum_list (map (\<lambda>b. if b_asset b = a then settle_gain m b else 0) (tb_balances T)) =
      sum_list (map ?h (tb_balances T)) + shortfall a ts T"
    unfolding shortfall_def sum_list_addf [symmetric] by (intro arg_cong [where f = sum_list] map_cong) simp_all
  also have "sum_list (map ?h (tb_balances T)) = sum_list (map (\<lambda>(k, v). ?g k v) m)"
    using assms(3-5) by (intro sum_list_delta_keys) (auto simp: balance_keys_def)
  also have "\<dots> = net_delta a m" by (simp add: net_delta_def case_prod_unfold)
  finally show ?thesis using assms(6) by (simp add: unnest_total)
qed

lemma debit_sorted: "distinct (map fst m) \<Longrightarrow> debit (sorted_deltas m) k = debit m k"
  by (simp add: debit_def)

lemma shortfall_pos:
  fixes T :: "'a::floor_ceiling tables"
  shows "0 < shortfall a ts T \<longleftrightarrow> (\<exists>b \<in> set (tb_balances T). b_asset b = a \<and> b_locked b < owed (b_user_id b, a) ts)"
proof -
  have nn: "0 \<le> missing ts b" for b :: "'a balance" by (simp add: missing_def)
  have "0 \<le> shortfall a ts T" unfolding shortfall_def by (intro sum_list_nonneg) (auto simp: nn)
  moreover have "shortfall a ts T = 0 \<longleftrightarrow> (\<forall>b \<in> set (tb_balances T). (if b_asset b = a then missing ts b else 0) = 0)"
    unfolding shortfall_def by (subst sum_list_nonneg_eq_0_iff) (auto simp: nn)
  ultimately show ?thesis by (auto simp: less_le missing_def max_def split: if_splits)
qed

text \<open>
  C39: settlement that the locks do not cover creates money. \<open>GREATEST(locked - x, 0)\<close> takes
  at most the locked amount from a payer, while the payee is credited in full. If every account the trades
  touch exists, no locked amount is negative and what is released afterwards is locked, a successful
  \<open>persist_order\<close> raises the total of an asset by exactly the sum of what is missing: for each account of the
  asset, the amount the trades take from it less its locked amount, where that is positive. So the total grows
  exactly when some account has less locked than the trades take from it; orders are locked in the cache and not in
  the database.
\<close>

theorem uncovered_settlement_inflates:
  assumes "persist_order db_now now ord trades lua_trades p = (Inr (), p')" and "keys_ok (pg_tables p)"
    and "all_deltas trades [] = Inr deltas" and "fst ` set deltas \<subseteq> set (balance_keys (pg_tables p))"
    and "\<forall>b \<in> set (tb_balances (pg_tables p)). 0 \<le> b_locked b"
    and "lock_covers_release ord (balances_unnest (sorted_deltas deltas) (pg_tables p))"
  shows "asset_total asset (pg_tables p') = asset_total asset (pg_tables p) + shortfall asset trades (pg_tables p) \<and>
    (asset_total asset (pg_tables p) < asset_total asset (pg_tables p') \<longleftrightarrow>
      (\<exists>b \<in> set (tb_balances (pg_tables p)). b_asset b = asset \<and> b_locked b < owed (b_user_id b, asset) trades))"
  using assms(1)
proof (rule persist_order_balances)
  fix ds
  let ?T = "balances_unnest (sorted_deltas ds) (pg_tables p)"
  assume ds: "all_deltas trades [] = Inr ds" "tb_balances (pg_tables p') = tb_balances (released ord ?T)"
  then have [simp]: "ds = deltas" using assms(3) by simp
  have dist: "distinct (map fst deltas)" using all_deltas_net(2) [OF assms(3)] by simp
  have "asset_total asset (pg_tables p') = asset_total asset (released ord ?T)" using ds(2) by (rule same_balances(3))
  also have "\<dots> = asset_total asset ?T" using assms(6) by (intro released_total) simp
  also have "\<dots> = asset_total asset (pg_tables p) + shortfall asset trades (pg_tables p)"
  proof (rule unnest_shortfall)
    show "debit (sorted_deltas ds) k = owed k trades" for k
      using all_deltas_debit [OF assms(3), of k] by (simp add: debit_sorted [OF dist]) (simp add: debit_def)
    show "net_delta asset (sorted_deltas ds) = 0"
      using all_deltas_net(1) [OF assms(3), of asset] by (simp add: net_sorted) (simp add: net_delta_def)
  qed (use assms(2,4,5) dist in \<open>simp_all add: keys_ok_def\<close>)
  finally have total: "asset_total asset (pg_tables p') = asset_total asset (pg_tables p) + shortfall asset trades (pg_tables p)" .
  then show ?thesis using shortfall_pos [of asset trades "pg_tables p"] by (simp only: less_add_same_cancel1)
qed

text \<open>The buyer has 4 of the 10 USDT locked that the trade costs.\<close>

definition partly_locked :: "rat balance list" where
  "partly_locked =
     [account ''u1'' ''BTC'' 0 0, account ''u1'' ''USDT'' 96 4, account ''u2'' ''BTC'' 5 2, account ''u2'' ''USDT'' 0 0]"

theorem uncovered_settlement_inflates_witness:
  "\<exists>p'. persist_order 0 0 sample_order [sample_trade] [] (sample_db partly_locked) = (Inr (), p') \<and>
    asset_total ''USDT'' (pg_tables (sample_db partly_locked)) = 100 \<and> asset_total ''USDT'' (pg_tables p') = 106"
proof -
  let ?p = "sample_db partly_locked"
  obtain p' where run: "persist_order 0 0 sample_order [sample_trade] [] ?p = (Inr (), p')"
    by (rule sample_persist)
  have "parse_pair_id ''BTC-USDT'' = Inr (''BTC'', ''USDT'')" by (simp add: parse_pair_id_iff)
  then have "shortfall ''USDT'' [sample_trade] (pg_tables ?p) = 6"
    by (simp add: shortfall_def missing_def owed_def partly_locked_def sample_defs)
  moreover have "asset_total ''USDT'' (pg_tables p') =
      asset_total ''USDT'' (pg_tables ?p) + shortfall ''USDT'' [sample_trade] (pg_tables ?p)"
    by (rule uncovered_settlement_inflates [OF run _ sample_deltas, THEN conjunct1])
       (auto simp: keys_ok_def balance_keys_def lock_covers_release_def partly_locked_def sample_defs)
  moreover have "asset_total ''USDT'' (pg_tables ?p) = 100" by (simp add: asset_total_def partly_locked_def sample_defs)
  ultimately show ?thesis using run by simp
qed

end
