(* ===== verification/Persistence_Props.thy ===== *)
theory Persistence_Props
  imports Ledger_Props
begin

text \<open>
  Failures of the two paths that persist an order, and the two settlement routines
  against each other.
\<close>

section \<open>Atomicity\<close>

text \<open>
  \<open>persist_order\<close> is all or nothing. Whatever fails (the connection, a
  statement, a constraint, the reading of a pair, the commit), a reported error
  means that no table has changed.
\<close>

lemma persist_order_atomic:
  assumes "persist_order db_now now ord trades lua_trades p = (Inl e, p')"
  shows "pg_tables p' = pg_tables p"
  using assms unfolding persist_order_def Let_def by (rule pg_tx_atomic)

lemmas pg_eval = pg_tx_def pg_rollback_def vbind_def vret_def vlift_def vfail_def vor_def vtry_def pg_ping_def
  pg_stmt_def pg_apply_def next_order_seq_def next_trade_seq_def number_trade_run insert_trades_batch_def

lemma vforM_single: "vforM f [x] = f x"
  by (rule ext) (simp add: vbind_def vret_def split: prod.splits sum.splits)

lemma sample_tables: "tb_balances (pg_tables (sample_db bs)) = bs" "tb_trades (pg_tables (sample_db bs)) = []"
  by (simp_all add: sample_db_def)

text \<open>
  The worker's \<open>process_persist_job\<close> is not. It runs its steps outside a common
  transaction: when the update of the resting orders fails, the job reports an
  error although the trades are stored and the balances settled, and nothing undoes
  or repeats the rest.
\<close>

theorem persist_job_not_atomic:
  "\<exists>p'. process_persist_job ref_ext 0 0 \<lparr>pj_order = sample_order, pj_trades = [sample_trade],
        pj_lua_trades = [\<lparr>lt_resting_order_id = 3, lt_price = 5, lt_quantity = 2, lt_buyer_id = ''u1'', lt_seller_id = ''u2''\<rparr>]\<rparr>
      ((sample_db funded)\<lparr>pg_outcomes := [True, True, True, True, True, True, True, True, True, True, False]\<rparr>) = (Inl DbError, p') \<and>
    tb_trades (pg_tables p') \<noteq> [] \<and> tb_balances (pg_tables p') \<noteq> tb_balances (pg_tables (sample_db funded))"
proof -
  let ?p = "(sample_db funded)\<lparr>pg_outcomes := [True, True, True, True, True, True, True, True, True, True, False]\<rparr>"
  have ins: "insert_order_db 0 sample_order ?p =
      (Inr (), ?p\<lparr>pg_outcomes := [True, True, True, True, True, True, True, True, True, False], pg_order_seq := 2,
        pg_tables := (pg_tables ?p)\<lparr>tb_orders := [order_to_row 0 0 1 sample_order]\<rparr>\<rparr>)"
    by (simp add: insert_order_db_def pg_eval orders_insert_def order_to_row_def sample_defs)
  have settle: "vforM settle_delta (sorted_deltas [((''u1'', ''USDT''), 10, 0), ((''u1'', ''BTC''), 0, 2),
      ((''u2'', ''BTC''), 2, 0), ((''u2'', ''USDT''), 0, 10 :: rat)]) p =
      (Inr (), p\<lparr>pg_outcomes := bs, pg_tables := (pg_tables p)\<lparr>tb_balances :=
         [account ''u1'' ''BTC'' 2 0, account ''u1'' ''USDT'' 90 0, account ''u2'' ''BTC'' 5 0, account ''u2'' ''USDT'' 10 0]\<rparr>\<rparr>)"
    if "pg_outcomes p = True # True # True # True # bs" "tb_balances (pg_tables p) = funded" for p bs
    using that
    by (simp add: sample_sorted settle_delta_def pg_eval balances_settle_def balances_update_def balance_is_def
        settle_row_def funded_def account_def)
  have fits: "trade_fits (sample_trade\<lparr>t_sequence := n\<rparr>)" for n by (simp add: trade_fits_def sample_trade_def)
  have audit: "audit_order X ord p = (Inr (), p\<lparr>pg_outcomes := bs\<rparr>)" "audit_trade X t p = (Inr (), p\<lparr>pg_outcomes := bs\<rparr>)"
    if "pg_outcomes p = b # bs" for X ord t b bs and p :: "rat pg"
    using that by (simp_all add: audit_order_def audit_trade_def insert_audit_event_def pg_eval)
  have trades: "persist_trades ref_ext [sample_trade] p = (Inr [trade_to_json ref_ext sample_trade],
      p\<lparr>pg_outcomes := bs, pg_trade_seq := pg_trade_seq p + 1, pg_tables := (pg_tables p)\<lparr>
        tb_trades := [sample_trade\<lparr>t_sequence := pg_trade_seq p\<rparr>], tb_balances :=
         [account ''u1'' ''BTC'' 2 0, account ''u1'' ''USDT'' 90 0, account ''u2'' ''BTC'' 5 0, account ''u2'' ''USDT'' 10 0]\<rparr>\<rparr>)"
    if "pg_outcomes p = True # True # True # True # True # True # True # True # bs" "tb_balances (pg_tables p) = funded" "tb_trades (pg_tables p) = []" for p bs
    using that
    by (simp add: persist_trades_def pg_eval insert_trade_db_def trades_insert_def fits sample_deltas settle audit
        vforM_single del: vforM.simps all_deltas.simps)
  show ?thesis
    by (simp add: process_persist_job_def vbind_def ins audit trades sample_tables update_resting_orders_after_lua_def
        pg_eval)
       (simp add: funded_def account_def)
qed

section \<open>The two settlement routines\<close>

lemma unnest_Cons:
  assumes "k \<notin> fst ` set ds"
  shows "balances_unnest ((k, l, ai) # ds) T =
    balances_unnest ds (balances_update (balance_is (fst k) (snd k)) (settle_row l ai) T)"
proof -
  have none: "map_of ds k = None" using assms by (simp add: map_of_eq_None_iff)
  have "(case map_of ((k, l, ai) # ds) (b_user_id b, b_asset b) of None \<Rightarrow> b | Some (l, a) \<Rightarrow> settle_row l a b) =
      (let b' = (if balance_is (fst k) (snd k) b then settle_row l ai b else b)
       in case map_of ds (b_user_id b', b_asset b') of None \<Rightarrow> b' | Some (l, a) \<Rightarrow> settle_row l a b')" for b
    using none by (cases k) (auto simp: balance_is_def settle_row_def split: option.splits)
  then show ?thesis by (simp add: balances_unnest_def balances_update_def o_def Let_def)
qed

lemma update_keys [simp]:
  "balance_keys (balances_update P (settle_row l ai) T) = balance_keys T"
  by (simp add: balance_keys_def balances_update_def settle_row_def o_def)

lemma unnest_keys [simp]: "balance_keys (balances_unnest ds T) = balance_keys T"
  by (auto simp: balance_keys_def balances_unnest_def settle_row_def split: option.splits)

lemma settle_all_run:
  assumes "pg_outcomes p = []" "distinct (map fst ds)" "fst ` set ds \<subseteq> set (balance_keys (pg_tables p))"
    and "\<forall>k \<in> fst ` set ds. length (fst k) \<le> 50 \<and> length (snd k) \<le> 10"
  shows "vforM settle_delta ds p = (Inr (), p\<lparr>pg_tables := balances_unnest ds (pg_tables p)\<rparr>)"
  using assms
proof (induction ds arbitrary: p)
  case (Cons d ds)
  obtain u a l ai where d: "d = ((u, a), l, ai)" by (metis prod.exhaust)
  let ?T = "balances_update (balance_is u a) (settle_row l ai) (pg_tables p)"
  have "\<exists>b \<in> set (tb_balances (pg_tables p)). balance_is u a b"
    using Cons.prems(3) d by (auto simp: balance_keys_def balance_is_def)
  then have "balances_settle u a l ai (pg_tables p) = (Inr (), ?T)"
    using Cons.prems(4) d by (auto simp: balances_settle_def)
  then have one: "settle_delta d p = (Inr (), p\<lparr>pg_tables := ?T\<rparr>)"
    using Cons.prems(1) by (simp add: settle_delta_def d run_simps)
  have "vforM settle_delta ds (p\<lparr>pg_tables := ?T\<rparr>) = (Inr (), p\<lparr>pg_tables := balances_unnest ds ?T\<rparr>)"
    using Cons.IH [of "p\<lparr>pg_tables := ?T\<rparr>"] Cons.prems by simp
  moreover have "balances_unnest (d # ds) (pg_tables p) = balances_unnest ds ?T"
    using Cons.prems(2) d unnest_Cons [of "(u, a)" ds l ai "pg_tables p"] by simp
  ultimately show ?case using one by (simp add: vbind_def)
qed (simp add: vret_def)

text \<open>
  C28: the worker and the gateway settle alike. When every account a list of trades
  touches exists, the worker's one upsert per account and the gateway's single
  \<open>UPDATE ... FROM UNNEST\<close> leave the same tables.
\<close>

theorem settlement_routines_agree:
  assumes "all_deltas trades [] = Inr deltas" and "pg_outcomes p = []"
    and "fst ` set deltas \<subseteq> set (balance_keys (pg_tables p))"
    and "\<forall>k \<in> fst ` set deltas. length (fst k) \<le> 50 \<and> length (snd k) \<le> 10"
  shows "vforM settle_delta (sorted_deltas deltas) p =
    pg_stmt (\<lambda>T. (Inr (), balances_unnest (sorted_deltas deltas) T)) p"
proof -
  have "distinct (map fst deltas)" using all_deltas_net(2) [OF assms(1)] by simp
  then show ?thesis
    using settle_all_run [of p "sorted_deltas deltas"] assms(2-4) by (simp add: run_simps)
qed

theorem settlement_routines_agree_witness:
  "vforM settle_delta (sorted_deltas [((''u1'', ''USDT''), 10, 0), ((''u1'', ''BTC''), 0, 2),
      ((''u2'', ''BTC''), 2, 0), ((''u2'', ''USDT''), 0, 10)]) (sample_db funded) =
    pg_stmt (\<lambda>T. (Inr (), balances_unnest (sorted_deltas [((''u1'', ''USDT''), 10, 0), ((''u1'', ''BTC''), 0, 2),
      ((''u2'', ''BTC''), 2, 0), ((''u2'', ''USDT''), 0, 10)]) T)) (sample_db funded)"
  by (rule settlement_routines_agree [OF sample_deltas]) (simp_all add: balance_keys_def funded_def sample_defs)

text \<open>
  The gateway never opens an account. Unlike the worker's upsert, its update
  leaves the set of accounts as it is: a user who has no row for the asset received
  gets nothing, while the other side of the trade is settled.
\<close>

theorem gateway_opens_no_account:
  assumes "persist_order db_now now ord trades lua_trades p = (Inr (), p')"
  shows "balance_keys (pg_tables p') = balance_keys (pg_tables p)"
  using assms
proof (rule persist_order_balances)
  fix ds
  let ?T = "balances_unnest (sorted_deltas ds) (pg_tables p)"
  assume "tb_balances (pg_tables p') = tb_balances (released ord ?T)"
  from same_balances(4) [OF this] show ?thesis
    by (auto simp: released_def balances_release_def split: sum.splits)
qed

definition no_btc_account :: "rat balance list" where
  "no_btc_account = [account ''u1'' ''USDT'' 90 10, account ''u2'' ''BTC'' 5 2, account ''u2'' ''USDT'' 0 0]"

theorem gateway_opens_no_account_witness:
  "\<exists>p'. persist_order 0 0 sample_order [sample_trade] [] (sample_db no_btc_account) = (Inr (), p') \<and>
    (''u1'', ''BTC'') \<notin> set (balance_keys (pg_tables p')) \<and>
    asset_total ''BTC'' (pg_tables (sample_db no_btc_account)) = 7 \<and> asset_total ''BTC'' (pg_tables p') = 5"
proof -
  let ?p = "sample_db no_btc_account"
  obtain p' where run: "persist_order 0 0 sample_order [sample_trade] [] ?p = (Inr (), p')"
    by (rule sample_persist)
  obtain ds where ds: "all_deltas [sample_trade] [] = Inr ds"
    "tb_balances (pg_tables p') = tb_balances (released sample_order (balances_unnest (sorted_deltas ds) (pg_tables ?p)))"
    using run by (rule persist_order_balances)
  have "o_remaining sample_order = 0" by (simp add: sample_order_def)
  then have "asset_total ''BTC'' (pg_tables p') = asset_total ''BTC'' (balances_unnest (sorted_deltas ds) (pg_tables ?p))"
    using same_balances(3) [OF ds(2)] by (simp add: released_def)
  also have "\<dots> = 5"
    using ds(1) unfolding sample_deltas
    by (auto simp: sample_sorted balances_unnest_def asset_total_def settle_row_def no_btc_account_def sample_db_def account_def)
  finally have "asset_total ''BTC'' (pg_tables p') = 5" .
  moreover have "balance_keys (pg_tables p') = [(''u1'', ''USDT''), (''u2'', ''BTC''), (''u2'', ''USDT'')]"
    using gateway_opens_no_account [OF run] by (simp add: balance_keys_def no_btc_account_def sample_defs)
  moreover have "asset_total ''BTC'' (pg_tables ?p) = 7" by (simp add: asset_total_def no_btc_account_def sample_defs)
  ultimately show ?thesis using run by (intro exI [of _ p']) simp
qed

end
