(* ===== verification/Book_Lock.thy ===== *)
theory Book_Lock
  imports Key_Space
begin

text \<open>
  \<open>crates/shared/src/lock.rs\<close>: the lock of a pair as a key with an expiry, the fence
  counter, the retries of \<open>acquire_lock\<close> and the release. What other clients and
  the expiry do to the cache while \<open>acquire_lock\<close> sleeps after attempt \<open>i\<close> is the
  parameter \<open>idle i\<close>. Below the model: the system of several workers as a step
  relation, and the invariants that hold in every reachable state.
\<close>

section \<open>Model\<close>

definition BACKOFF_MS :: "int list" where
  "BACKOFF_MS = [5, 10, 25, 50, 100, 200, 400, 800]"

definition MAX_RETRIES :: nat where "MAX_RETRIES = 20"

definition LOCK_TTL_SECS :: int where "LOCK_TTL_SECS = 5"

record lock_guard =
  lg_pair_id :: string
  lg_worker_id :: string
  lg_fence_token :: int

text \<open>One round of the loop: \<open>SET NX EX\<close> and, when it was set, the fence counter.\<close>

definition try_lock :: "'s valkey \<Rightarrow> string \<Rightarrow> string \<Rightarrow> ('s, lock_guard option) vm" where
  "try_lock V pair_id worker_id =
     vbind (vk_conn V) (\<lambda>_.
     vbind (vk_set_nx_px V (lock_key pair_id) worker_id (LOCK_TTL_SECS * 1000)) (\<lambda>result.
     if result then
       vbind (vor (vk_incrby V (fence_key pair_id) 1) 1) (\<lambda>fence.
       vret (Some \<lparr>lg_pair_id = pair_id, lg_worker_id = worker_id, lg_fence_token = fence\<rparr>))
     else vret None))"

text \<open>The waiting time of a failed attempt, \<open>rnd\<close> is the random number.\<close>

definition backoff_ms :: "nat \<Rightarrow> int \<Rightarrow> int" where
  "backoff_ms attempt rnd =
     (let base_ms = BACKOFF_MS ! min attempt (length BACKOFF_MS - 1) in base_ms + rnd mod (base_ms div 2 + 1))"

fun acquire_from ::
  "'s valkey \<Rightarrow> (nat \<Rightarrow> 's \<Rightarrow> 's) \<Rightarrow> string \<Rightarrow> string \<Rightarrow> nat \<Rightarrow> nat \<Rightarrow> ('s, lock_guard) vm" where
  "acquire_from V idle pair_id worker_id 0 attempt =
     vfail (Invalid ''failed to acquire lock'')"
| "acquire_from V idle pair_id worker_id (Suc n) attempt =
     vbind (try_lock V pair_id worker_id) (\<lambda>r.
     case r of
       Some guard \<Rightarrow> vret guard
     | None \<Rightarrow> (\<lambda>s. acquire_from V idle pair_id worker_id n (Suc attempt) (idle attempt s)))"

definition acquire_lock :: "'s valkey \<Rightarrow> (nat \<Rightarrow> 's \<Rightarrow> 's) \<Rightarrow> string \<Rightarrow> string \<Rightarrow> ('s, lock_guard) vm" where
  "acquire_lock V idle pair_id worker_id = acquire_from V idle pair_id worker_id MAX_RETRIES 0"

definition RELEASE_SCRIPT :: "'s valkey \<Rightarrow> string \<Rightarrow> string \<Rightarrow> ('s, int) vm" where
  "RELEASE_SCRIPT V key worker_id =
     vbind (vk_get V key) (\<lambda>val.
     if val = Some worker_id then vbind (vk_del V key) (\<lambda>_. vret 1) else vret 0)"

definition release_lock :: "'s valkey \<Rightarrow> string \<Rightarrow> string \<Rightarrow> int \<Rightarrow> ('s, unit) vm" where
  "release_lock V pair_id worker_id fence =
     vbind (vk_conn V) (\<lambda>_. vbind (RELEASE_SCRIPT V (lock_key pair_id) worker_id) (\<lambda>_. vret ()))"

text \<open>\<open>LockGuard::release\<close> and the clean-up when a guard is dropped: errors are only logged.\<close>

definition guard_release :: "'s valkey \<Rightarrow> lock_guard \<Rightarrow> ('s, unit) vm" where
  "guard_release V g = vor (release_lock V (lg_pair_id g) (lg_worker_id g) (lg_fence_token g)) ()"

definition is_locked :: "'s valkey \<Rightarrow> string \<Rightarrow> ('s, bool) vm" where
  "is_locked V pair_id = vbind (vk_conn V) (\<lambda>_. vbind (vk_get V (lock_key pair_id)) (\<lambda>val. vret (val \<noteq> None)))"

definition current_fence :: "'s valkey \<Rightarrow> string \<Rightarrow> ('s, int) vm" where
  "current_fence V pair_id =
     vbind (vk_conn V) (\<lambda>_. vbind (vk_get V (fence_key pair_id)) (\<lambda>val.
     case val of None \<Rightarrow> vret 0
     | Some t \<Rightarrow> vlift (ok_or (ParseError ''not an i64'') (parse_i64 t))))"

section \<open>Several workers\<close>

record 's lock_sys =
  sy_cache :: 's
  sy_guards :: "lock_guard list"

text \<open>
  A step is an attempt of some worker, a release of a guard, an expiry of a lock
  key (only when the first argument allows it), or anything else that happens to
  the cache without touching the keys of the locks. \<open>lock_run\<close> counts the steps.
\<close>

inductive lock_step ::
  "'s valkey \<Rightarrow> ('s \<Rightarrow> vdata) \<Rightarrow> bool \<Rightarrow> 's lock_sys \<Rightarrow> 's lock_sys \<Rightarrow> bool"
  for V :: "'s valkey" and \<alpha> :: "'s \<Rightarrow> vdata" and expiry :: bool where
  attempt: "try_lock V p w (sy_cache st) = (r, s') \<Longrightarrow>
    lock_step V \<alpha> expiry st \<lparr>sy_cache = s',
      sy_guards = (case r of Inr (Some g) \<Rightarrow> g # sy_guards st | _ \<Rightarrow> sy_guards st)\<rparr>"
| release: "g \<in> set (sy_guards st) \<Longrightarrow> guard_release V g (sy_cache st) = (r, s') \<Longrightarrow>
    lock_step V \<alpha> expiry st \<lparr>sy_cache = s', sy_guards = remove1 g (sy_guards st)\<rparr>"
| expire: "expiry \<Longrightarrow> \<alpha> s' = put_key (lock_key p) None (\<alpha> (sy_cache st)) \<Longrightarrow>
    lock_step V \<alpha> expiry st (st\<lparr>sy_cache := s'\<rparr>)"
| other: "(\<forall>p. vd_keys (\<alpha> s') (lock_key p) = vd_keys (\<alpha> (sy_cache st)) (lock_key p) \<and>
          vd_keys (\<alpha> s') (fence_key p) = vd_keys (\<alpha> (sy_cache st)) (fence_key p)) \<Longrightarrow>
    lock_step V \<alpha> expiry st (st\<lparr>sy_cache := s'\<rparr>)"

inductive lock_run ::
  "'s valkey \<Rightarrow> ('s \<Rightarrow> vdata) \<Rightarrow> bool \<Rightarrow> nat \<Rightarrow> 's lock_sys \<Rightarrow> 's lock_sys \<Rightarrow> bool"
  for V :: "'s valkey" and \<alpha> :: "'s \<Rightarrow> vdata" and expiry :: bool where
  none: "lock_run V \<alpha> expiry 0 st st"
| more: "lock_run V \<alpha> expiry n st st' \<Longrightarrow> lock_step V \<alpha> expiry st' st'' \<Longrightarrow> lock_run V \<alpha> expiry (Suc n) st st''"

inductive_cases lock_stepE: "lock_step V \<alpha> expiry st st'"

definition guards_of :: "string \<Rightarrow> 's lock_sys \<Rightarrow> lock_guard list" where
  "guards_of p st = filter (\<lambda>g. lg_pair_id g = p) (sy_guards st)"

section \<open>Independence of the service\<close>

context valkey_spec
begin

lemma sim_try_lock: "simulates \<alpha> (try_lock V p w) (try_lock ref_valkey p w)"
  unfolding try_lock_def ref_valkey_ops by (intro sim_rules)

lemma sim_release_lock: "simulates \<alpha> (release_lock V p w f) (release_lock ref_valkey p w f)"
  unfolding release_lock_def RELEASE_SCRIPT_def ref_valkey_ops by (intro sim_rules)

lemma sim_guard_release: "simulates \<alpha> (guard_release V g) (guard_release ref_valkey g)"
  unfolding guard_release_def by (intro sim_rules sim_release_lock)

end

section \<open>Execution\<close>

lemma lock_keys_distinct [simp]:
  "lock_key p = lock_key q \<longleftrightarrow> p = q" "fence_key p = fence_key q \<longleftrightarrow> p = q"
  "lock_key p \<noteq> fence_key q" "fence_key q \<noteq> lock_key p"
proof -
  have "last (lock_key p) \<noteq> last (fence_key q)" by (simp add: lock_key_def fence_key_def)
  then show "lock_key p \<noteq> fence_key q" "fence_key q \<noteq> lock_key p" by metis+
qed (simp_all add: lock_key_def fence_key_def)

text \<open>What one attempt does: the three outcomes.\<close>

lemma try_lock_cases:
  assumes "try_lock ref_valkey p w d = (r, d')"
  obtains (failed) e where "r = Inl e" "vd_keys d' = vd_keys d"
  | (taken) v where "r = Inr None" "vd_keys d (lock_key p) = Some v" "vd_keys d' = vd_keys d"
  | (acquired) f where "r = Inr (Some \<lparr>lg_pair_id = p, lg_worker_id = w, lg_fence_token = f\<rparr>)"
      "vd_keys d (lock_key p) = None" "vd_keys d' (lock_key p) = Some (VStr w)"
      "\<And>k. k \<noteq> lock_key p \<Longrightarrow> k \<noteq> fence_key p \<Longrightarrow> vd_keys d' k = vd_keys d k"
      "\<And>n. add_to (str_at d (fence_key p)) 1 = Inr n \<Longrightarrow> as_str (vd_keys d (fence_key p)) = Inr (str_at d (fence_key p)) \<Longrightarrow>
         f = n \<and> vd_keys d' (fence_key p) = Some (VStr (string_of_int n))"
proof -
  obtain c d1 where c: "d_conn d = (c, d1)" by force
  then have k: "vd_keys d1 = vd_keys d" using d_conn_keys by blast
  show thesis
  proof (cases c)
    case (Inl e)
    with assms c k failed [of e] show thesis by (auto simp: try_lock_def vbind_def simp del: d_conn.simps)
  next
    case (Inr u)
    show thesis
    proof (cases "vd_keys d (lock_key p)")
      case (Some v)
      with assms c k Inr taken show thesis by (simp add: try_lock_def vbind_def d_set_nx_px_def vret_def)
    next
      case None
      let ?d2 = "d1\<lparr>vd_keys := (vd_keys d1)(lock_key p \<mapsto> VStr w), vd_ttl := (vd_ttl d1)(lock_key p \<mapsto> LOCK_TTL_SECS * 1000)\<rparr>"
      obtain f d3 where f: "vor (d_incrby (fence_key p) 1) 1 ?d2 = (Inr f, d3)"
        by (cases "d_incrby (fence_key p) 1 ?d2"; cases "fst (d_incrby (fence_key p) 1 ?d2)")
          (auto simp: vor_def)
      have "try_lock ref_valkey p w d =
          (Inr (Some \<lparr>lg_pair_id = p, lg_worker_id = w, lg_fence_token = f\<rparr>), d3)"
        using c Inr None k f by (simp add: try_lock_def vbind_def d_set_nx_px_def vret_def)
      moreover have "k \<noteq> fence_key p \<Longrightarrow> vd_keys d3 k = vd_keys ?d2 k" for k
        using f by (auto simp: vor_def d_incrby_def edit_key_def split: sum.splits prod.splits)
      moreover have "f = n \<and> vd_keys d3 (fence_key p) = Some (VStr (string_of_int n))"
        if "add_to (str_at d (fence_key p)) 1 = Inr n"
          "as_str (vd_keys d (fence_key p)) = Inr (str_at d (fence_key p))" for n
        using f that k by (simp add: vor_def d_incrby_def edit_key_def) auto
      ultimately show thesis using acquired [of f] assms None k by simp
    qed
  qed
qed

lemma release_cases:
  assumes "guard_release ref_valkey g d = (r, d')"
  obtains (unchanged) "vd_keys d' = vd_keys d"
  | (deleted) "vd_keys d (lock_key (lg_pair_id g)) = Some (VStr (lg_worker_id g))"
      "vd_keys d' = (vd_keys d)(lock_key (lg_pair_id g) := None)"
proof -
  obtain c d1 where c: "d_conn d = (c, d1)" by force
  then have k: "vd_keys d1 = vd_keys d" using d_conn_keys by blast
  show thesis
  proof (cases "as_str (vd_keys d (lock_key (lg_pair_id g))) = Inr (Some (lg_worker_id g))")
    case True
    then have v: "vd_keys d (lock_key (lg_pair_id g)) = Some (VStr (lg_worker_id g))"
      by (cases "vd_keys d (lock_key (lg_pair_id g))" rule: as_str.cases) auto
    show thesis
    proof (cases c)
      case (Inl e)
      with assms c k unchanged show thesis
        by (simp add: guard_release_def release_lock_def vor_def vbind_def)
    next
      case (Inr u)
      have "d' = put_key (lock_key (lg_pair_id g)) None d1"
        using assms c Inr v k
        by (simp add: guard_release_def release_lock_def RELEASE_SCRIPT_def vor_def vbind_def d_get_def
            read_key_def d_del_def vret_def)
      with v k show thesis using deleted by (auto simp: put_key_def)
    qed
  next
    case False
    have "vd_keys d' = vd_keys d"
      using assms c k False
      by (auto simp: guard_release_def release_lock_def RELEASE_SCRIPT_def vor_def vbind_def d_get_def
          read_key_def vret_def split: sum.splits prod.splits if_splits)
    then show thesis by (rule unchanged)
  qed
qed

section \<open>Invariants\<close>

text \<open>Without expiry: a guard holds the key of its pair, alone.\<close>

definition exclusive :: "('s \<Rightarrow> vdata) \<Rightarrow> 's lock_sys \<Rightarrow> bool" where
  "exclusive \<alpha> st \<longleftrightarrow> (\<forall>p. guards_of p st = [] \<or>
     (\<exists>g. guards_of p st = [g] \<and> vd_keys (\<alpha> (sy_cache st)) (lock_key p) = Some (VStr (lg_worker_id g))))"

lemma exclusive_step:
  assumes "valkey_spec V \<alpha>" and "lock_step V \<alpha> False st st'" and "exclusive \<alpha> st"
  shows "exclusive \<alpha> st'"
  using assms(2)
proof (cases rule: lock_step.cases)
  case (attempt p w r s')
  have "try_lock ref_valkey p w (\<alpha> (sy_cache st)) = (r, \<alpha> s')"
    using simulatesD [OF valkey_spec.sim_try_lock [OF assms(1)] attempt(2)] .
  then show ?thesis
  proof (cases rule: try_lock_cases)
    case (acquired f)
    have "guards_of p st = []" using assms(3) acquired(2) by (auto simp: exclusive_def)
    then show ?thesis using assms(3) attempt(1) acquired(1,3,4) by (auto simp: exclusive_def guards_of_def)
  qed (use assms(3) attempt(1) in \<open>auto simp: exclusive_def guards_of_def\<close>)
next
  case (release g r s')
  let ?p = "lg_pair_id g"
  have only: "guards_of ?p st = [g]" and none: "guards_of ?p st' = []"
    and rest: "\<And>q. q \<noteq> ?p \<Longrightarrow> guards_of q st' = guards_of q st"
  proof -
    have m: "g \<in> set (guards_of ?p st)" using release(2) by (simp add: guards_of_def)
    with assms(3) [unfolded exclusive_def, rule_format, of ?p] show o: "guards_of ?p st = [g]" by auto
    show "guards_of ?p st' = []"
      using o release(1) by (simp add: guards_of_def filter_remove1)
    show "guards_of q st' = guards_of q st" if "q \<noteq> ?p" for q
      using that release(1) by (simp add: guards_of_def filter_remove1 remove1_idem)
  qed
  have "guard_release ref_valkey g (\<alpha> (sy_cache st)) = (r, \<alpha> s')"
    using simulatesD [OF valkey_spec.sim_guard_release [OF assms(1)] release(3)] .
  then have "vd_keys (\<alpha> s') (lock_key q) = vd_keys (\<alpha> (sy_cache st)) (lock_key q)" if "q \<noteq> ?p" for q
    by (cases rule: release_cases) (use that in auto)
  then show ?thesis
    using assms(3) none rest release(1) unfolding exclusive_def by (metis lock_sys.select_convs(1))
next
  case (other s')
  then show ?thesis using assms(3) by (simp add: exclusive_def guards_of_def)
qed simp

lemma exclusive_run:
  assumes "lock_run V \<alpha> False n st st'" and "valkey_spec V \<alpha>" and "exclusive \<alpha> st"
  shows "exclusive \<alpha> st'"
  using assms by (induction rule: lock_run.induct) (auto intro: exclusive_step)

text \<open>With expiry: tokens fall along the guards of a pair (newest first) and the counter bounds them.\<close>

definition fenced :: "('s \<Rightarrow> vdata) \<Rightarrow> nat \<Rightarrow> 's lock_sys \<Rightarrow> bool" where
  "fenced \<alpha> n st \<longleftrightarrow> (\<forall>p. \<exists>m \<le> int n. 0 \<le> m \<and>
     (vd_keys (\<alpha> (sy_cache st)) (fence_key p) = Some (VStr (string_of_int m)) \<or>
      vd_keys (\<alpha> (sy_cache st)) (fence_key p) = None \<and> m = 0) \<and>
     (\<forall>g \<in> set (guards_of p st). lg_fence_token g \<le> m) \<and>
     sorted_wrt (>) (map lg_fence_token (guards_of p st)))"

lemma fenced_cong:
  assumes "fenced \<alpha> n st" and "\<And>p. vd_keys (\<alpha> (sy_cache st')) (fence_key p) = vd_keys (\<alpha> (sy_cache st)) (fence_key p)"
    and "\<And>p. \<exists>P. guards_of p st' = filter P (guards_of p st) \<or> guards_of p st' = remove1 x (guards_of p st)"
  shows "fenced \<alpha> (Suc n) st'"
  unfolding fenced_def
proof
  fix p
  obtain m where m: "m \<le> int n" "0 \<le> m"
     "vd_keys (\<alpha> (sy_cache st)) (fence_key p) = Some (VStr (string_of_int m)) \<or>
      vd_keys (\<alpha> (sy_cache st)) (fence_key p) = None \<and> m = 0"
     "\<forall>g \<in> set (guards_of p st). lg_fence_token g \<le> m" "sorted_wrt (>) (map lg_fence_token (guards_of p st))"
    using assms(1) unfolding fenced_def by blast
  have "sorted_wrt (>) (map lg_fence_token (remove1 x xs))" if "sorted_wrt (>) (map lg_fence_token xs)" for xs
    using that by (induction xs) (auto dest: notin_set_remove1 set_remove1_subset [THEN subsetD])
  then have "sorted_wrt (>) (map lg_fence_token (guards_of p st'))" "set (guards_of p st') \<subseteq> set (guards_of p st)"
    using assms(3) [of p] m(5) by (auto simp: sorted_wrt_map sorted_wrt_filter dest: set_remove1_subset [THEN subsetD])
  with m show "\<exists>m\<le>int (Suc n). 0 \<le> m \<and>
     (vd_keys (\<alpha> (sy_cache st')) (fence_key p) = Some (VStr (string_of_int m)) \<or>
      vd_keys (\<alpha> (sy_cache st')) (fence_key p) = None \<and> m = 0) \<and>
     (\<forall>g \<in> set (guards_of p st'). lg_fence_token g \<le> m) \<and>
     sorted_wrt (>) (map lg_fence_token (guards_of p st'))"
    by (intro exI [of _ m]) (auto simp: assms(2))
qed

lemma fenced_step:
  assumes "valkey_spec V \<alpha>" and "lock_step V \<alpha> ex st st'" and "fenced \<alpha> n st" and "int n < 2 ^ 63 - 1"
  shows "fenced \<alpha> (Suc n) st'"
  using assms(2)
proof (cases rule: lock_step.cases)
  case (attempt p w r s')
  have "try_lock ref_valkey p w (\<alpha> (sy_cache st)) = (r, \<alpha> s')"
    using simulatesD [OF valkey_spec.sim_try_lock [OF assms(1)] attempt(2)] .
  then show ?thesis
  proof (cases rule: try_lock_cases)
    case (acquired f)
    obtain m where m: "m \<le> int n" "0 \<le> m"
      "vd_keys (\<alpha> (sy_cache st)) (fence_key p) = Some (VStr (string_of_int m)) \<or>
       vd_keys (\<alpha> (sy_cache st)) (fence_key p) = None \<and> m = 0"
      "\<forall>g \<in> set (guards_of p st). lg_fence_token g \<le> m" "sorted_wrt (>) (map lg_fence_token (guards_of p st))"
      using assms(3) unfolding fenced_def by blast
    have i: "i64_ok m" "i64_ok (m + 1)" using m(1,2) assms(4) by (auto simp: i64_ok_def)
    have z: "string_of_int 0 = ''0''" by (simp add: string_of_int_def string_of_nat.simps)
    have "add_to (str_at (\<alpha> (sy_cache st)) (fence_key p)) 1 = Inr (m + 1)"
      using m(3) i z [symmetric] by (auto simp: add_to_def str_at_def codec_simps)
    moreover have "as_str (vd_keys (\<alpha> (sy_cache st)) (fence_key p)) = Inr (str_at (\<alpha> (sy_cache st)) (fence_key p))"
      using m(3) by (auto simp: str_at_def)
    ultimately have f: "f = m + 1" "vd_keys (\<alpha> s') (fence_key p) = Some (VStr (string_of_int (m + 1)))"
      using acquired(5) by blast+
    show ?thesis
      unfolding fenced_def
    proof
      fix q
      obtain m' where m': "m' \<le> int n" "0 \<le> m'"
        "vd_keys (\<alpha> (sy_cache st)) (fence_key q) = Some (VStr (string_of_int m')) \<or>
         vd_keys (\<alpha> (sy_cache st)) (fence_key q) = None \<and> m' = 0"
        "\<forall>g \<in> set (guards_of q st). lg_fence_token g \<le> m'" "sorted_wrt (>) (map lg_fence_token (guards_of q st))"
        using assms(3) unfolding fenced_def by blast
      show "\<exists>m\<le>int (Suc n). 0 \<le> m \<and>
        (vd_keys (\<alpha> (sy_cache st')) (fence_key q) = Some (VStr (string_of_int m)) \<or>
         vd_keys (\<alpha> (sy_cache st')) (fence_key q) = None \<and> m = 0) \<and>
        (\<forall>g \<in> set (guards_of q st'). lg_fence_token g \<le> m) \<and>
        sorted_wrt (>) (map lg_fence_token (guards_of q st'))"
      proof (cases "q = p")
        case True
        with m f acquired(1) attempt(1) show ?thesis by (intro exI [of _ "m + 1"]) (auto simp: guards_of_def)
      next
        case False
        with m' acquired(1,4) attempt(1) show ?thesis by (intro exI [of _ m']) (auto simp: guards_of_def)
      qed
    qed
  qed (use attempt(1) in \<open>auto intro!: fenced_cong [OF assms(3)] simp: guards_of_def intro: exI [of _ "\<lambda>_. True"]\<close>)
next
  case (release g r s')
  have "guard_release ref_valkey g (\<alpha> (sy_cache st)) = (r, \<alpha> s')"
    using simulatesD [OF valkey_spec.sim_guard_release [OF assms(1)] release(3)] .
  then have "vd_keys (\<alpha> s') (fence_key q) = vd_keys (\<alpha> (sy_cache st)) (fence_key q)" for q
    by (cases rule: release_cases) auto
  moreover have "guards_of p st' = remove1 g (guards_of p st)" for p
    using release(1) by (simp add: guards_of_def filter_remove1)
  ultimately show ?thesis using release(1) by (intro fenced_cong [OF assms(3), where x = g]) auto
next
  case (expire s' p)
  then show ?thesis
    by (intro fenced_cong [OF assms(3)]) (auto simp: guards_of_def intro: exI [of _ "\<lambda>_. True"])
next
  case (other s')
  then show ?thesis
    by (intro fenced_cong [OF assms(3)]) (auto simp: guards_of_def intro: exI [of _ "\<lambda>_. True"])
qed

lemma fenced_run:
  assumes "lock_run V \<alpha> ex n st st'" and "valkey_spec V \<alpha>" and "fenced \<alpha> 0 st" and "int n < 2 ^ 63"
  shows "fenced \<alpha> n st'"
  using assms by (induction rule: lock_run.induct) (auto intro: fenced_step)

section \<open>Waiting for the lock\<close>

text \<open>The state of the cache when attempt \<open>a + i\<close> starts, if the attempts before it were refused.\<close>

fun state_at :: "'s valkey \<Rightarrow> (nat \<Rightarrow> 's \<Rightarrow> 's) \<Rightarrow> string \<Rightarrow> string \<Rightarrow> nat \<Rightarrow> nat \<Rightarrow> 's \<Rightarrow> 's" where
  "state_at V idle p w a 0 s = s"
| "state_at V idle p w a (Suc i) s = state_at V idle p w (Suc a) i (idle a (snd (try_lock V p w s)))"

lemma try_lock_up:
  assumes "valkey_spec V \<alpha>" and "vd_pool (\<alpha> s) = []"
  shows "vd_keys (\<alpha> s) (lock_key p) = None \<Longrightarrow>
      \<exists>g s'. try_lock V p w s = (Inr (Some g), s') \<and> lg_pair_id g = p \<and> lg_worker_id g = w \<and>
        vd_keys (\<alpha> s') (lock_key p) = Some (VStr w)"
    and "vd_keys (\<alpha> s) (lock_key p) = Some v \<Longrightarrow> \<exists>s'. try_lock V p w s = (Inr None, s')"
proof -
  obtain r s' where t: "try_lock V p w s = (r, s')" by force
  have u: "try_lock ref_valkey p w (\<alpha> s) = (r, \<alpha> s')"
    using simulatesD [OF valkey_spec.sim_try_lock [OF assms(1)] t] .
  have ok: "r \<noteq> Inl e" for e
    using u assms(2) by (auto simp: try_lock_def vbind_def d_set_nx_px_def vret_def vor_def split: sum.splits prod.splits if_splits)
  show "vd_keys (\<alpha> s) (lock_key p) = None \<Longrightarrow> \<exists>g s'. try_lock V p w s = (Inr (Some g), s') \<and>
      lg_pair_id g = p \<and> lg_worker_id g = w \<and> vd_keys (\<alpha> s') (lock_key p) = Some (VStr w)"
    using u by (cases rule: try_lock_cases) (use ok t in auto)
  show "vd_keys (\<alpha> s) (lock_key p) = Some v \<Longrightarrow> \<exists>s'. try_lock V p w s = (Inr None, s')"
    using u by (cases rule: try_lock_cases) (use ok t in auto)
qed

lemma acquire_from_up:
  assumes "valkey_spec V \<alpha>" and "k < n"
    and "\<forall>i \<le> k. vd_pool (\<alpha> (state_at V idle p w a i s)) = []"
    and "vd_keys (\<alpha> (state_at V idle p w a k s)) (lock_key p) = None"
  shows "\<exists>g s'. acquire_from V idle p w n a s = (Inr g, s') \<and> lg_pair_id g = p \<and> lg_worker_id g = w \<and>
    vd_keys (\<alpha> s') (lock_key p) = Some (VStr w)"
  using assms(2-)
proof (induction n arbitrary: k a s)
  case (Suc n)
  have up: "vd_pool (\<alpha> s) = []" using Suc.prems(2) by (metis le0 state_at.simps(1))
  show ?case
  proof (cases "vd_keys (\<alpha> s) (lock_key p)")
    case None
    from try_lock_up(1) [OF assms(1) up this, of w] show ?thesis by (auto simp: vbind_def vret_def)
  next
    case (Some v)
    from try_lock_up(2) [OF assms(1) up this, of w] obtain s' where t: "try_lock V p w s = (Inr None, s')" by blast
    obtain k' where k: "k = Suc k'" using Suc.prems(3) Some by (cases k) auto
    have "\<exists>g s''. acquire_from V idle p w n (Suc a) (idle a s') = (Inr g, s'') \<and> lg_pair_id g = p \<and>
        lg_worker_id g = w \<and> vd_keys (\<alpha> s'') (lock_key p) = Some (VStr w)"
      using Suc.prems t k by (intro Suc.IH [of k']) (auto dest: spec [of _ "Suc _"])
    with t show ?thesis by (simp add: vbind_def)
  qed
qed simp

section \<open>Properties\<close>

text \<open>
  C24: mutual exclusion. However attempts and releases of any workers interleave,
  as long as no lock expires at most one guard per pair exists.
\<close>

theorem lock_mutual_exclusion:
  assumes "valkey_spec V \<alpha>" and "lock_run V \<alpha> False n st st'" and "sy_guards st = []"
  shows "length (guards_of p st') \<le> 1"
proof -
  have "exclusive \<alpha> st" using assms(3) by (simp add: exclusive_def guards_of_def)
  then have "exclusive \<alpha> st'" using exclusive_run [OF assms(2,1)] by blast
  then show ?thesis unfolding exclusive_def by (metis One_nat_def le_SucI length_Cons list.size(3) order_refl zero_le)
qed

definition idle_sys :: "vdata lock_sys" where
  "idle_sys = \<lparr>sy_cache = empty_vdata, sy_guards = []\<rparr>"

lemma idle_sys_acquire:
  obtains st' where "lock_run ref_valkey id ex 1 idle_sys st'" "guards_of ''P'' st' \<noteq> []"
proof -
  obtain g s' where t: "try_lock ref_valkey ''P'' ''w1'' empty_vdata = (Inr (Some g), s')"
      "lg_pair_id g = ''P''" "lg_worker_id g = ''w1''"
    using try_lock_up(1) [OF ref.valkey_spec_axioms, of empty_vdata "''P''" "''w1''"]
    by (auto simp: empty_vdata_def)
  have "lock_step ref_valkey id ex idle_sys \<lparr>sy_cache = s', sy_guards = [g]\<rparr>"
    using lock_step.attempt [of ref_valkey "''P''" "''w1''" idle_sys "Inr (Some g)" s' id ex] t
    by (simp add: idle_sys_def)
  then have "lock_run ref_valkey id ex (Suc 0) idle_sys \<lparr>sy_cache = s', sy_guards = [g]\<rparr>"
    by (rule lock_run.more [OF lock_run.none])
  with t show thesis using that [of "\<lparr>sy_cache = s', sy_guards = [g]\<rparr>"] by (simp add: guards_of_def)
qed

theorem lock_mutual_exclusion_witness:
  "\<exists>st'. lock_run ref_valkey id False 1 idle_sys st' \<and> guards_of ''P'' st' \<noteq> [] \<and> length (guards_of ''P'' st') \<le> 1"
proof -
  obtain st' where r: "lock_run ref_valkey id False 1 idle_sys st'" "guards_of ''P'' st' \<noteq> []"
    by (rule idle_sys_acquire)
  have "length (guards_of ''P'' st') \<le> 1"
    using lock_mutual_exclusion [OF ref.valkey_spec_axioms r(1), of "''P''"] by (simp add: idle_sys_def)
  with r show ?thesis by (intro exI [of _ st']) simp
qed

text \<open>
  Fencing. Also when locks expire under their holders, the tokens of the guards
  of a pair are all different, and a guard that was given out later has the larger
  token (the counter starts unset and fewer than \<open>2 ^ 63\<close> steps are made).
\<close>

theorem fence_tokens_increase:
  assumes "valkey_spec V \<alpha>" and "lock_run V \<alpha> True n st st'" and "sy_guards st = []"
    and "\<forall>q. vd_keys (\<alpha> (sy_cache st)) (fence_key q) = None" and "int n < 2 ^ 63"
  shows "sorted_wrt (>) (map lg_fence_token (guards_of p st')) \<and> distinct (map lg_fence_token (guards_of p st'))"
proof -
  have "fenced \<alpha> 0 st" using assms(3,4) by (simp add: fenced_def guards_of_def)
  then have "fenced \<alpha> n st'" using fenced_run [OF assms(2,1) _ assms(5)] by blast
  then have "sorted_wrt (>) (map lg_fence_token (guards_of p st'))" unfolding fenced_def by blast
  moreover have "distinct xs" if "sorted_wrt (>) xs" for xs :: "int list"
    using that by (induction xs) auto
  ultimately show ?thesis by blast
qed

theorem fence_tokens_increase_witness:
  "\<exists>st'. lock_run ref_valkey id True 1 idle_sys st' \<and> guards_of ''P'' st' \<noteq> [] \<and>
     distinct (map lg_fence_token (guards_of ''P'' st'))"
proof -
  obtain st' where r: "lock_run ref_valkey id True 1 idle_sys st'" "guards_of ''P'' st' \<noteq> []"
    by (rule idle_sys_acquire)
  have "distinct (map lg_fence_token (guards_of ''P'' st'))"
    using fence_tokens_increase [OF ref.valkey_spec_axioms r(1), of "''P''"] by (simp add: idle_sys_def empty_vdata_def)
  with r show ?thesis by (intro exI [of _ st']) simp
qed

text \<open>
  A waiting worker gets a free lock. When connections are available and the
  lock is free at the start of one of the 20 attempts, \<open>acquire_lock\<close> returns a guard
  of the worker, and the key holds the worker's name.
\<close>

theorem acquire_lock_succeeds:
  assumes "valkey_spec V \<alpha>" and "k < MAX_RETRIES"
    and "\<forall>i \<le> k. vd_pool (\<alpha> (state_at V idle p w 0 i s)) = []"
    and "vd_keys (\<alpha> (state_at V idle p w 0 k s)) (lock_key p) = None"
  shows "\<exists>g s'. acquire_lock V idle p w s = (Inr g, s') \<and> lg_pair_id g = p \<and> lg_worker_id g = w \<and>
    vd_keys (\<alpha> s') (lock_key p) = Some (VStr w)"
  unfolding acquire_lock_def using acquire_from_up [OF assms] .

theorem acquire_lock_succeeds_witness:
  "\<exists>g s'. acquire_lock ref_valkey (\<lambda>_. id) ''P'' ''w1'' empty_vdata = (Inr g, s')"
  using acquire_lock_succeeds [OF ref.valkey_spec_axioms, of 0 "\<lambda>_. id" "''P''" "''w1''" empty_vdata]
  by (auto simp: empty_vdata_def MAX_RETRIES_def)

text \<open>
  The release ignores the fence token. A guard whose lock expired releases,
  with its old token, a lock that was acquired later under the same worker name;
  the next worker then acquires the lock while that holder still works.
\<close>

theorem stale_release_frees_lock:
  assumes "valkey_spec V \<alpha>" and "vd_pool (\<alpha> s) = []" and "vd_keys (\<alpha> s) (lock_key p) = Some (VStr w)"
  shows "\<exists>s' g s''. release_lock V p w stale s = (Inr (), s') \<and> vd_keys (\<alpha> s') (lock_key p) = None \<and>
    try_lock V p w' s' = (Inr (Some g), s'')"
proof -
  have "release_lock ref_valkey p w stale (\<alpha> s) = (Inr (), put_key (lock_key p) None (\<alpha> s))"
    using assms(2,3) by (simp add: release_lock_def RELEASE_SCRIPT_def vbind_def d_get_def read_key_def d_del_def vret_def)
  from simulates_run [OF valkey_spec.sim_release_lock [OF assms(1)] this]
  obtain s' where s': "release_lock V p w stale s = (Inr (), s')" "\<alpha> s' = put_key (lock_key p) None (\<alpha> s)" by blast
  then show ?thesis using try_lock_up(1) [OF assms(1), of s' p w'] assms(2) by auto
qed

theorem stale_release_frees_lock_witness:
  "\<exists>s' g s''. release_lock ref_valkey ''P'' ''w'' 1 (put_key (lock_key ''P'') (Some (VStr ''w'')) empty_vdata) = (Inr (), s') \<and>
     try_lock ref_valkey ''P'' ''x'' s' = (Inr (Some g), s'')"
  using stale_release_frees_lock [OF ref.valkey_spec_axioms,
      of "put_key (lock_key ''P'') (Some (VStr ''w'')) empty_vdata" "''P''" "''w''" 1 "''x''"]
  by (auto simp: empty_vdata_def put_key_def)

end
