(* ===== verification/Metrics.thy ===== *)
theory Metrics
  imports Key_Space
begin

text \<open>
  \<open>crates/shared/src/metrics.rs\<close>: lists of at most 1000 samples and counters per
  pair in the cache, and the percentiles of a list of samples. The doubles of
  \<open>compute_percentiles\<close> are computed exactly: \<open>pct / 100.0\<close> is an integer over
  \<open>2 ^ 53\<close>, so that its product with the (integral) length is \<open>f64_round\<close> of an integer
  over \<open>2 ^ 53\<close>, and \<open>round\<close> rounds half away from zero.
\<close>

section \<open>Model\<close>

definition SAMPLE_CAP :: int where "SAMPLE_CAP = 1000"

definition metric_key :: "string \<Rightarrow> string \<Rightarrow> string" where
  "metric_key pair_id metric_type = ''metrics:'' @ pair_id @ '':'' @ metric_type"

definition push_sample :: "'s valkey \<Rightarrow> string \<Rightarrow> string \<Rightarrow> nat \<Rightarrow> ('s, unit) vm" where
  "push_sample V pair_id metric_type ms =
     vbind (vk_conn V) (\<lambda>_.
     let key = metric_key pair_id metric_type in
     vpipe [vk_lpush V key (string_of_nat ms), vk_ltrim V key 0 (SAMPLE_CAP - 1)])"

definition record_match_latency :: "'s valkey \<Rightarrow> string \<Rightarrow> nat \<Rightarrow> ('s, unit) vm" where
  "record_match_latency V pair_id ms = push_sample V pair_id ''latency'' ms"

definition record_lock_wait :: "'s valkey \<Rightarrow> string \<Rightarrow> nat \<Rightarrow> ('s, unit) vm" where
  "record_lock_wait V pair_id ms = push_sample V pair_id ''lock_wait'' ms"

text \<open>\<open>INCRBY\<close> with an argument outside \<open>i64\<close> is refused by the service.\<close>

definition add_to_counter :: "'s valkey \<Rightarrow> string \<Rightarrow> string \<Rightarrow> nat \<Rightarrow> ('s, int) vm" where
  "add_to_counter V pair_id name count =
     (if count = 0 then vret 0
      else vbind (vk_conn V) (\<lambda>_.
           if i64_ok (int count) then vk_incrby V (metric_key pair_id name) (int count)
           else vfail (CommandError ''value is not an integer'')))"

definition increment_order_count_by :: "'s valkey \<Rightarrow> string \<Rightarrow> nat \<Rightarrow> ('s, int) vm" where
  "increment_order_count_by V pair_id count = add_to_counter V pair_id ''orders'' count"

definition increment_order_count :: "'s valkey \<Rightarrow> string \<Rightarrow> ('s, int) vm" where
  "increment_order_count V pair_id = increment_order_count_by V pair_id 1"

definition increment_trade_count :: "'s valkey \<Rightarrow> string \<Rightarrow> nat \<Rightarrow> ('s, int) vm" where
  "increment_trade_count V pair_id count = add_to_counter V pair_id ''trades'' count"

definition get_counter :: "'s valkey \<Rightarrow> string \<Rightarrow> string \<Rightarrow> ('s, int) vm" where
  "get_counter V pair_id name =
     vbind (vk_conn V) (\<lambda>_.
     vbind (vk_get V (metric_key pair_id name)) (\<lambda>v.
     case v of None \<Rightarrow> vret 0 | Some t \<Rightarrow> vlift (ok_or (ParseError ''not an i64'') (parse_i64 t))))"

definition get_order_count :: "'s valkey \<Rightarrow> string \<Rightarrow> ('s, int) vm" where
  "get_order_count V pair_id = get_counter V pair_id ''orders''"

definition get_trade_count :: "'s valkey \<Rightarrow> string \<Rightarrow> ('s, int) vm" where
  "get_trade_count V pair_id = get_counter V pair_id ''trades''"

definition get_samples :: "'s valkey \<Rightarrow> string \<Rightarrow> string \<Rightarrow> int \<Rightarrow> ('s, nat list) vm" where
  "get_samples V pair_id metric_type count =
     vbind (vk_conn V) (\<lambda>_.
     vbind (vk_lrange V (metric_key pair_id metric_type) 0 (count - 1)) (\<lambda>raw.
     vret (List.map_filter parse_u64 raw)))"

definition get_latency_samples :: "'s valkey \<Rightarrow> string \<Rightarrow> int \<Rightarrow> ('s, nat list) vm" where
  "get_latency_samples V pair_id count = get_samples V pair_id ''latency'' count"

definition get_lock_wait_samples :: "'s valkey \<Rightarrow> string \<Rightarrow> int \<Rightarrow> ('s, nat list) vm" where
  "get_lock_wait_samples V pair_id count = get_samples V pair_id ''lock_wait'' count"

text \<open>\<open>pct / 100.0\<close> times \<open>2 ^ 53\<close>.\<close>

definition pct_scaled :: "int \<Rightarrow> int" where
  "pct_scaled pct = (pct * 2 ^ 54 + 100) div 200"

definition percentile_index :: "nat \<Rightarrow> int \<Rightarrow> nat" where
  "percentile_index n pct =
     nat ((2 * f64_round (pct_scaled pct * (f64_round (int n) - 1)) + 2 ^ 53) div 2 ^ 54)"

definition percentile :: "nat list \<Rightarrow> int \<Rightarrow> int" where
  "percentile sorted_samples pct =
     (let n = length sorted_samples in f64_round (int (sorted_samples ! min (percentile_index n pct) (n - 1))))"

definition compute_percentiles :: "nat list \<Rightarrow> int \<times> int \<times> int" where
  "compute_percentiles samples =
     (if samples = [] then (0, 0, 0)
      else let s = sort samples in (percentile s 50, percentile s 95, percentile s 99))"

section \<open>Rounding error\<close>

lemma f64_round_error: "\<bar>f64_round n - n\<bar> * 2 ^ 53 \<le> \<bar>n\<bar>"
proof (cases "\<bar>n\<bar> \<le> 2 ^ 53")
  case False
  define a where "a = nat \<bar>n\<bar>"
  define k where "k = nbits a - 53"
  have a: "2 ^ 53 < a" "int a = \<bar>n\<bar>" using False by (simp_all add: a_def zless_nat_eq_int_zless)
  from nbits_bounds [of a] a(1) have nb: "2 ^ (nbits a - 1) \<le> a" "a < 2 ^ nbits a" by auto
  have "(53 :: nat) < nbits a"
    by (rule power_less_imp_less_exp [of 2, OF _ less_trans [OF a(1) nb(2)]]) simp
  then have e: "nbits a - 1 = 52 + k" "0 < k" by (auto simp: k_def)
  define q r where "q = a div 2 ^ k" and "r = a mod 2 ^ k"
  have qr: "a = q * 2 ^ k + r" "r < 2 ^ k" using div_mult_mod_eq [of a "2 ^ k"] by (simp_all add: q_def r_def)
  have half: "(2 :: nat) ^ k = 2 * 2 ^ (k - 1)" using e(2) by (cases k) simp_all
  define q' where "q' = (if r > 2 ^ (k - 1) \<or> (r = 2 ^ (k - 1) \<and> odd q) then Suc q else q)"
  have rn: "f64_round n = sgn n * int (q' * 2 ^ k)"
    using False by (simp add: f64_round_def Let_def a_def k_def q_def r_def q'_def)
  have "\<bar>int (q' * 2 ^ k) - int a\<bar> \<le> int (2 ^ (k - 1))"
  proof (cases "r > 2 ^ (k - 1) \<or> (r = 2 ^ (k - 1) \<and> odd q)")
    case True
    then have "q' * 2 ^ k = a + (2 ^ k - r)" "2 ^ k - r \<le> 2 ^ (k - 1)" using qr half by (auto simp: q'_def)
    then have "int (q' * 2 ^ k) - int a = int (2 ^ k - r)" "2 ^ k - r \<le> 2 ^ (k - 1)" by simp_all
    then show ?thesis by (metis abs_of_nat of_nat_le_iff)
  next
    case False
    then have "int (q' * 2 ^ k) - int a = - int r" "r \<le> 2 ^ (k - 1)" using qr(1) by (auto simp: q'_def)
    then show ?thesis by (metis abs_minus_cancel abs_of_nat of_nat_le_iff)
  qed
  moreover have "\<bar>f64_round n - n\<bar> = \<bar>int (q' * 2 ^ k) - int a\<bar>"
    using rn a(2) False by (cases "0 < n") (auto simp: sgn_if abs_if)
  ultimately have "\<bar>f64_round n - n\<bar> * 2 ^ 53 \<le> int (2 ^ (k - 1)) * 2 ^ 53" by simp
  also have "\<dots> = int (2 ^ (52 + k))" using half by (simp add: power_add)
  also have "\<dots> \<le> int a" using nb(1) e(1) by (metis of_nat_le_iff)
  finally show ?thesis using a(2) by simp
qed simp

lemma pct_values:
  "pct_scaled 50 = 2 ^ 52" "pct_scaled 95 = 8556839292003942" "pct_scaled 99 = 8917127262193582"
  by (simp_all add: pct_scaled_def)

lemma f64_round_between:
  assumes "0 \<le> n"
  shows "n * (2 ^ 53 - 1) \<le> f64_round n * 2 ^ 53" "f64_round n * 2 ^ 53 \<le> n * (2 ^ 53 + 1)"
proof -
  have "(f64_round n - n) * 2 ^ 53 \<le> \<bar>f64_round n - n\<bar> * 2 ^ 53"
    "(n - f64_round n) * 2 ^ 53 \<le> \<bar>f64_round n - n\<bar> * 2 ^ 53"
    by (rule mult_right_mono; simp)+
  with f64_round_error [of n] assms
  show "n * (2 ^ 53 - 1) \<le> f64_round n * 2 ^ 53" "f64_round n * 2 ^ 53 \<le> n * (2 ^ 53 + 1)"
    by (simp_all add: algebra_simps)
qed

text \<open>Rounding cannot exchange two products whose factors differ by more than its error.\<close>

lemma f64_round_mono_far:
  assumes "0 \<le> m" and "0 \<le> a" and "a * (2 ^ 53 + 1) \<le> b * (2 ^ 53 - 1)"
  shows "f64_round (a * m) \<le> f64_round (b * m)"
proof -
  have "0 \<le> b * (2 ^ 53 - 1)" by (rule order_trans [OF _ assms(3)]) (use assms(2) in simp)
  then have b: "0 \<le> b" by (simp add: zero_le_mult_iff)
  have "f64_round (a * m) * 2 ^ 53 \<le> a * m * (2 ^ 53 + 1)"
    using f64_round_between(2) [of "a * m"] assms(1,2) by simp
  also have "\<dots> \<le> b * m * (2 ^ 53 - 1)"
    using mult_right_mono [OF assms(3,1)] by (simp add: algebra_simps)
  also have "\<dots> \<le> f64_round (b * m) * 2 ^ 53"
    using f64_round_between(1) [of "b * m"] assms(1) b by simp
  finally show ?thesis by simp
qed

lemma percentile_index_ordered:
  assumes "0 < n" "int n \<le> 2 ^ 53"
  shows "percentile_index n 50 \<le> percentile_index n 95" "percentile_index n 95 \<le> percentile_index n 99"
  using f64_round_mono_far [of "int n - 1" "pct_scaled 50" "pct_scaled 95"]
    f64_round_mono_far [of "int n - 1" "pct_scaled 95" "pct_scaled 99"] assms
  by (auto simp: percentile_index_def pct_values intro!: nat_mono zdiv_mono1)

section \<open>Properties\<close>

text \<open>
  The percentiles are samples, in order. For a non-empty list of at most
  \<open>2 ^ 53\<close> samples, each at most \<open>2 ^ 53\<close> milliseconds, the three results are
  elements of the list (no index is out of range) and \<open>p50 \<le> p95 \<le> p99\<close>.
\<close>

theorem percentiles_ordered:
  assumes "samples \<noteq> []" and "int (length samples) \<le> 2 ^ 53" and "\<forall>x \<in> set samples. int x \<le> 2 ^ 53"
    and "compute_percentiles samples = (p50, p95, p99)"
  shows "p50 \<le> p95 \<and> p95 \<le> p99 \<and> {p50, p95, p99} \<subseteq> int ` set samples"
proof -
  let ?s = "sort samples" and ?n = "length samples"
  have n: "0 < ?n" using assms(1) by simp
  have el: "?s ! min i (?n - 1) \<in> set samples" for i
    using n by (metis diff_less length_sort less_one min_less_iff_disj nth_mem set_sort)
  have val: "percentile ?s pct = int (?s ! min (percentile_index ?n pct) (?n - 1))" for pct
    using el [of "percentile_index ?n pct"] assms(3) by (simp add: percentile_def Let_def)
  have mono: "i \<le> j \<Longrightarrow> ?s ! min i (?n - 1) \<le> ?s ! min j (?n - 1)" for i j
    using n by (intro sorted_nth_mono) (auto simp: min_less_iff_disj)
  show ?thesis
    using assms(1,4) el mono percentile_index_ordered [OF n assms(2)]
    by (auto simp: compute_percentiles_def Let_def val)
qed

theorem percentiles_ordered_witness:
  "\<exists>p50 p95 p99. compute_percentiles [20, 10] = (p50, p95, p99) \<and> p95 = 20 \<and> p50 \<le> p95 \<and> p95 \<le> p99"
proof -
  have i: "percentile_index 2 50 = 1" "percentile_index 2 95 = 1" "percentile_index 2 99 = 1"
    by (simp_all add: percentile_index_def pct_values)
  have "percentile [10, 20] pct = 20" if "percentile_index 2 pct = 1" for pct
    using that by (simp add: percentile_def numeral_2_eq_2)
  with i have e: "compute_percentiles [20, 10] = (20, 20, 20)"
    by (simp add: compute_percentiles_def Let_def)
  show ?thesis using percentiles_ordered [OF _ _ _ e] e by simp
qed

subsection \<open>Samples in the cache\<close>

lemma sample_key_kind:
  "key_kind (metric_key p ''latency'') = Some KList" "key_kind (metric_key p ''lock_wait'') = Some KList"
  by (auto simp: key_kind_def metric_key_def suffix_def)

context valkey_spec
begin

lemma sim_push_sample: "simulates \<alpha> (push_sample V p t ms) (push_sample ref_valkey p t ms)"
  unfolding push_sample_def ref_valkey_ops Let_def by (intro sim_rules)

lemma sim_get_samples: "simulates \<alpha> (get_samples V p t n) (get_samples ref_valkey p t n)"
  unfolding get_samples_def ref_valkey_ops by (intro sim_rules)

end

lemma list_range_from_start: "0 \<le> b \<Longrightarrow> list_range 0 b xs = take (nat (b + 1)) xs"
  by (simp add: list_range_def Let_def)

lemma list_ops:
  assumes "well_keyed d" "key_kind k = Some KList"
  shows "d_lpush k v d = (Inr (), put_key k (Some (VList (v # list_at d k))) d)"
    "d_ltrim k a b d = (Inr (), put_key k (list_value (list_range a b (list_at d k))) d)"
    "d_lrange k a b d = (Inr (list_range a b (list_at d k)), d)"
  using assms by (simp_all add: d_lpush_def d_ltrim_def d_lrange_def edit_key_def read_key_def well_keyed_view)

lemma push_sample_run:
  assumes "well_keyed d" "vd_pool d = []" "key_kind (metric_key p t) = Some KList"
  shows "\<exists>d'. push_sample ref_valkey p t ms d = (Inr (), d') \<and> well_keyed d' \<and> vd_pool d' = [] \<and>
    list_at d' (metric_key p t) = take 1000 (string_of_nat ms # list_at d (metric_key p t))"
  using assms
  by (simp add: push_sample_def vbind_def Let_def list_ops SAMPLE_CAP_def list_range_from_start)

text \<open>
  A recorded sample is the newest one, and never more than 1000 are kept.
  After \<open>record_match_latency\<close> the list of the pair is the sample followed by the
  newest 999 of the former ones, and \<open>get_latency_samples\<close> reads it first.
\<close>

theorem recorded_sample_is_newest:
  assumes "valkey_spec V \<alpha>" and "well_keyed (\<alpha> s)" and "vd_pool (\<alpha> s) = []" and "ms < 2 ^ 64" and "0 < count"
  shows "\<exists>s' s'' rest. record_match_latency V p ms s = (Inr (), s') \<and>
    list_at (\<alpha> s') (metric_key p ''latency'') =
      string_of_nat ms # take 999 (list_at (\<alpha> s) (metric_key p ''latency'')) \<and>
    get_latency_samples V p count s' = (Inr (ms # rest), s'') \<and> length rest < 1000"
proof -
  let ?k = "metric_key p ''latency''"
  obtain d where d: "push_sample ref_valkey p ''latency'' ms (\<alpha> s) = (Inr (), d)" "well_keyed d" "vd_pool d = []"
      "list_at d ?k = take 1000 (string_of_nat ms # list_at (\<alpha> s) ?k)"
    using push_sample_run [OF assms(2,3) sample_key_kind(1)] by blast
  from simulates_run [OF valkey_spec.sim_push_sample [OF assms(1)] d(1)]
  obtain s' where s': "record_match_latency V p ms s = (Inr (), s')" "\<alpha> s' = d" by (auto simp: record_match_latency_def)
  let ?xs = "take (nat count - 1) (take 999 (list_at (\<alpha> s) ?k))"
  have l: "list_at d ?k = string_of_nat ms # take 999 (list_at (\<alpha> s) ?k)" using d(4) by simp
  have "list_range 0 (count - 1) (list_at d ?k) = string_of_nat ms # ?xs"
    using assms(5) l by (simp add: list_range_from_start take_Cons')
  then have "get_samples ref_valkey p ''latency'' count d = (Inr (ms # List.map_filter parse_u64 ?xs), d)"
    using d(2,3) parse_u64_string [OF assms(4)]
    by (simp add: get_samples_def vbind_def list_ops(3) [OF d(2) sample_key_kind(1)] vret_def List.map_filter_def)
  from simulates_run [OF valkey_spec.sim_get_samples [OF assms(1)] this [folded s'(2)]]
  obtain s'' where "get_latency_samples V p count s' = (Inr (ms # List.map_filter parse_u64 ?xs), s'')"
    by (auto simp: get_latency_samples_def)
  moreover have "length (List.map_filter parse_u64 ?xs) \<le> length ?xs"
    unfolding List.map_filter_def by (metis length_filter_le length_map)
  ultimately show ?thesis using s' l by (auto simp: less_Suc_eq_le)
qed

theorem recorded_sample_is_newest_witness:
  "\<exists>s' s'' rest. record_match_latency ref_valkey ''P'' 7 empty_vdata = (Inr (), s') \<and>
     get_latency_samples ref_valkey ''P'' 10 s' = (Inr (7 # rest), s'')"
  using recorded_sample_is_newest [OF ref.valkey_spec_axioms, of empty_vdata 7 10 "''P''"]
  by (auto simp: empty_vdata_def well_keyed_def)

end
