(* ===== verification/Json_Text.thy ===== *)
theory Json_Text
  imports Json
begin

text \<open>
  A concrete text of JSON values that satisfies what the program relies on: every
  value is written with its lengths, so that reading it back needs no escapes.
  \<open>ref_json\<close> is the instance of the parameter \<open>J\<close> used where a concrete one is
  needed.
\<close>

section \<open>Writer and reader\<close>

definition text_enc :: "string \<Rightarrow> string" where
  "text_enc s = string_of_nat (length s) @ CHR '':'' # s"

lemma json_size_field: "f \<in> set fs \<Longrightarrow> size (snd f) < Suc (size_list (size_prod (\<lambda>_. 0) size) fs)"
  by (induction fs) auto

function (sequential) json_enc :: "json \<Rightarrow> string" where
  "json_enc JNull = ''n''"
| "json_enc (JBool b) = (if b then ''t'' else ''f'')"
| "json_enc (JInt n) = CHR ''i'' # string_of_int n @ '';''"
| "json_enc (JReal r) = CHR ''r'' # rat_str r @ '';''"
| "json_enc (JText s) = CHR ''s'' # text_enc s"
| "json_enc (JArr xs) = CHR ''['' # concat (map json_enc xs) @ '']''"
| "json_enc (JObj fs) = CHR ''{'' # concat (map (\<lambda>f. text_enc (fst f) @ json_enc (snd f)) fs) @ ''}''"
  by pat_completeness auto

termination json_enc by (relation "measure size") (auto simp: json_size_field less_Suc_eq_le intro: size_list_estimation')

definition text_dec :: "string \<Rightarrow> (string \<times> string) option" where
  "text_dec s =
     (case dropWhile is_digit s of
        c # r \<Rightarrow> if c = CHR '':'' then
                 Option.bind (parse_nat (takeWhile is_digit s)) (\<lambda>n. Some (take n r, drop n r))
               else None
      | [] \<Rightarrow> None)"

fun json_dec :: "nat \<Rightarrow> string \<Rightarrow> (json \<times> string) option"
  and arr_dec :: "nat \<Rightarrow> string \<Rightarrow> (json list \<times> string) option"
  and obj_dec :: "nat \<Rightarrow> string \<Rightarrow> ((string \<times> json) list \<times> string) option" where
  "json_dec (Suc n) (c # s) =
     (if c = CHR ''n'' then Some (JNull, s)
      else if c = CHR ''t'' then Some (JBool True, s)
      else if c = CHR ''f'' then Some (JBool False, s)
      else if c = CHR ''i'' then
        Option.bind (parse_int (takeWhile (\<lambda>x. x \<noteq> CHR '';'') s)) (\<lambda>i.
          Some (JInt i, tl (dropWhile (\<lambda>x. x \<noteq> CHR '';'') s)))
      else if c = CHR ''r'' then
        Option.bind (rat_parse (takeWhile (\<lambda>x. x \<noteq> CHR '';'') s)) (\<lambda>r.
          Some (JReal r, tl (dropWhile (\<lambda>x. x \<noteq> CHR '';'') s)))
      else if c = CHR ''s'' then Option.bind (text_dec s) (\<lambda>(t, r). Some (JText t, r))
      else if c = CHR ''['' then Option.bind (arr_dec n s) (\<lambda>(xs, r). Some (JArr xs, r))
      else if c = CHR ''{'' then Option.bind (obj_dec n s) (\<lambda>(fs, r). Some (JObj fs, r))
      else None)"
| "json_dec _ _ = None"
| "arr_dec (Suc n) s =
     (if s \<noteq> [] \<and> hd s = CHR '']'' then Some ([], tl s)
      else Option.bind (json_dec n s) (\<lambda>(x, r). Option.bind (arr_dec n r) (\<lambda>(xs, r'). Some (x # xs, r'))))"
| "arr_dec 0 s = None"
| "obj_dec (Suc n) s =
     (if s \<noteq> [] \<and> hd s = CHR ''}'' then Some ([], tl s)
      else Option.bind (text_dec s) (\<lambda>(k, s'). Option.bind (json_dec n s') (\<lambda>(x, r).
           Option.bind (obj_dec n r) (\<lambda>(fs, r'). Some ((k, x) # fs, r')))))"
| "obj_dec 0 s = None"

definition ref_json :: json_ext where
  "ref_json =
     \<lparr>js_str = json_enc,
      js_parse = (\<lambda>s. case json_dec (Suc (length s)) s of Some (v, []) \<Rightarrow> Some v | _ \<Rightarrow> None)\<rparr>"

section \<open>Reading back\<close>

lemma text_dec_enc: "text_dec (text_enc s @ r) = Some (s, r)"
proof -
  have d: "\<And>x. x \<in> set (string_of_nat (length s)) \<Longrightarrow> is_digit x"
    using string_of_nat_digits [of "length s"] by (simp add: list_all_iff)
  have "\<not> is_digit (CHR '':'')" by (simp add: is_digit_def)
  with d show ?thesis
    by (simp add: text_dec_def text_enc_def takeWhile_append dropWhile_append codec_simps)
qed

lemma int_no_semicolon: "x \<in> set (string_of_int n) \<Longrightarrow> x \<noteq> CHR '';''"
proof -
  have "CHR '';'' \<notin> set (string_of_nat m)" for m
    using string_of_nat_digits [of m] by (auto simp: list_all_iff is_digit_def dest!: bspec)
  then show "x \<in> set (string_of_int n) \<Longrightarrow> x \<noteq> CHR '';''" by (auto simp: string_of_int_def split: if_splits)
qed

lemma rat_no_semicolon: "x \<in> set (rat_str r) \<Longrightarrow> x \<noteq> CHR '';''"
  using int_no_semicolon by (fastforce simp: rat_str_def split: prod.splits)

lemma json_enc_head: "json_enc v \<noteq> []" "json_enc v \<noteq> [] \<and> hd (json_enc v) \<noteq> CHR '']''"
  by (cases v; simp)+

lemma text_enc_head: "text_enc s \<noteq> [] \<and> hd (text_enc s) \<noteq> CHR ''}''"
proof (cases "string_of_nat (length s)")
  case (Cons c cs)
  then have "is_digit c" using string_of_nat_digits [of "length s"] by simp
  with Cons show ?thesis by (auto simp: text_enc_def is_digit_def)
qed (simp add: text_enc_def)

lemma dec_enc:
  "length (json_enc v) < n \<Longrightarrow> json_dec n (json_enc v @ r) = Some (v, r)"
  "length (concat (map json_enc xs)) + 1 < n \<Longrightarrow>
     arr_dec n (concat (map json_enc xs) @ CHR '']'' # r) = Some (xs, r)"
  "length (concat (map (\<lambda>f. text_enc (fst f) @ json_enc (snd f)) fs)) + 1 < n \<Longrightarrow>
     obj_dec n (concat (map (\<lambda>f. text_enc (fst f) @ json_enc (snd f)) fs) @ CHR ''}'' # r) = Some (fs, r)"
proof (induction n arbitrary: v xs fs r)
  case (Suc n)
  {
    case 1
    then show ?case
    proof (cases v)
      case (JInt i)
      then show ?thesis
        by (simp add: takeWhile_append dropWhile_append int_no_semicolon codec_simps)
    next
      case (JReal r)
      then show ?thesis
        by (simp add: takeWhile_append dropWhile_append rat_no_semicolon rat_round_trip)
    qed (use Suc.IH(2,3) in \<open>auto simp: text_dec_enc\<close>)
  next
    case 2
    show ?case
    proof (cases xs)
      case (Cons x ys)
      let ?r = "concat (map json_enc ys) @ CHR '']'' # r"
      have l: "0 < length (json_enc x)" using json_enc_head(1) [of x] by simp
      have "json_dec n (json_enc x @ ?r) = Some (x, ?r)" "arr_dec n ?r = Some (ys, r)"
        using 2 l Cons by (simp, intro Suc.IH, linarith)+
      with Cons json_enc_head [of x] show ?thesis by (simp add: hd_append)
    qed simp
  next
    case 3
    show ?case
    proof (cases fs)
      case (Cons f gs)
      let ?r = "concat (map (\<lambda>f. text_enc (fst f) @ json_enc (snd f)) gs) @ CHR ''}'' # r"
      have l: "0 < length (json_enc (snd f))" using json_enc_head(1) by simp
      have "json_dec n (json_enc (snd f) @ ?r) = Some (snd f, ?r)" "obj_dec n ?r = Some (gs, r)"
        using 3 l Cons by (simp, intro Suc.IH, linarith)+
      moreover have "text_dec (text_enc (fst f) @ (json_enc (snd f) @ ?r)) = Some (fst f, json_enc (snd f) @ ?r)"
        by (rule text_dec_enc)
      ultimately show ?thesis using Cons text_enc_head [of "fst f"] by simp
    qed simp
  }
qed simp_all

interpretation ref_json: json_spec ref_json
proof
  fix v
  show "js_parse ref_json (js_str ref_json v) = Some v"
    using dec_enc(1) [of v "Suc (length (json_enc v))" "[]"] by (simp add: ref_json_def)
qed

end
