(* ===== verification/World.thy ===== *)
theory World
  imports Ledger Json_Text
begin

text \<open>
  The state around the services: the cache, the database and the messages sent to
  websocket clients. A computation on one service runs on its part and leaves the
  others as they are.
\<close>

record ('s, 'd) world =
  w_vk :: 's
  w_pg :: "'d pg"
  w_sent :: "(string \<times> string) list"

definition empty_world :: "(vdata, 'd) world" where
  "empty_world = \<lparr>w_vk = empty_vdata,
     w_pg = \<lparr>pg_tables = \<lparr>tb_pairs = [], tb_orders = [], tb_trades = [], tb_balances = []\<rparr>, pg_outcomes = [],
       pg_order_seq = 1, pg_trade_seq = 1\<rparr>, w_sent = []\<rparr>"

definition on_vk :: "('s, 'a) vm \<Rightarrow> (('s, 'd) world, 'a) vm" where
  "on_vk m w = (case m (w_vk w) of (r, s) \<Rightarrow> (r, w\<lparr>w_vk := s\<rparr>))"

definition on_pg :: "('d pg, 'a) vm \<Rightarrow> (('s, 'd) world, 'a) vm" where
  "on_pg m w = (case m (w_pg w) of (r, p) \<Rightarrow> (r, w\<lparr>w_pg := p\<rparr>))"

lemma on_vk_run [run_simps]: "m (w_vk w) = (r, s) \<Longrightarrow> on_vk m w = (r, w\<lparr>w_vk := s\<rparr>)"
  and on_pg_run [run_simps]: "m' (w_pg w) = (r', p) \<Longrightarrow> on_pg m' w = (r', w\<lparr>w_pg := p\<rparr>)"
  by (simp_all add: on_vk_def on_pg_def)

lemma on_vk_D:
  assumes "on_vk m w = (r, w')"
  shows "m (w_vk w) = (r, w_vk w')" "w_pg w' = w_pg w" "w_sent w' = w_sent w"
  using assms by (auto simp: on_vk_def split: prod.splits)

lemma on_pg_D:
  assumes "on_pg m w = (r, w')"
  shows "m (w_pg w) = (r, w_pg w')" "w_vk w' = w_vk w" "w_sent w' = w_sent w"
  using assms by (auto simp: on_pg_def split: prod.splits)

text \<open>
  \<open>keeps f m\<close>: the computation leaves the view \<open>f\<close> of the state as it is, whatever it
  returns. The rules compose such facts through the combinators.
\<close>

named_theorems keeps_rules \<open>computations that leave a part of the state as it is\<close>

definition keeps :: "('w \<Rightarrow> 'v) \<Rightarrow> ('w, 'a) vm \<Rightarrow> bool" where
  "keeps f m \<longleftrightarrow> (\<forall>w r w'. m w = (r, w') \<longrightarrow> f w' = f w)"

lemma keepsD: "keeps f m \<Longrightarrow> m w = (r, w') \<Longrightarrow> f w' = f w"
  by (simp add: keeps_def)

lemma keeps_vret [keeps_rules]: "keeps f (vret a)"
  and keeps_vfail [keeps_rules]: "keeps f (vfail e)"
  and keeps_vlift [keeps_rules]: "keeps f (vlift r)"
  by (simp_all add: keeps_def vret_def vfail_def vlift_def)

lemma keeps_vbind [keeps_rules]:
  "keeps f m \<Longrightarrow> (\<And>a. keeps f (g a)) \<Longrightarrow> keeps f (vbind m g)"
  unfolding keeps_def vbind_def by (auto split: prod.splits sum.splits)

lemma keeps_vtry [keeps_rules]: "keeps f m \<Longrightarrow> keeps f (vtry m)"
  and keeps_vor [keeps_rules]: "keeps f m \<Longrightarrow> keeps f (vor m d)"
  and keeps_vmap_err [keeps_rules]: "keeps f m \<Longrightarrow> keeps f (vmap_err h m)"
  by (auto simp: keeps_def vtry_def vor_def vmap_err_def split: prod.splits sum.splits)

lemma keeps_vforM [keeps_rules]: "(\<And>x. keeps f (g x)) \<Longrightarrow> keeps f (vforM g xs)"
  by (induction xs) (auto intro!: keeps_rules)

lemma keeps_vmapM [keeps_rules]: "(\<And>x. keeps f (g x)) \<Longrightarrow> keeps f (vmapM g xs)"
  by (induction xs) (auto intro!: keeps_rules)

lemma keeps_vfoldM [keeps_rules]: "(\<And>x a. keeps f (g x a)) \<Longrightarrow> keeps f (vfoldM g xs a)"
  by (induction xs arbitrary: a) (auto intro!: keeps_rules)

lemma keeps_if [keeps_rules]: "keeps f a \<Longrightarrow> keeps f b \<Longrightarrow> keeps f (if c then a else b)"
  by simp

lemma keeps_option [keeps_rules]:
  "keeps f a \<Longrightarrow> (\<And>x. keeps f (g x)) \<Longrightarrow> keeps f (case c of None \<Rightarrow> a | Some x \<Rightarrow> g x)"
  by (cases c) auto

lemma keeps_prod [keeps_rules]: "(\<And>x y. keeps f (g x y)) \<Longrightarrow> keeps f (case c of (x, y) \<Rightarrow> g x y)"
  by (cases c) auto

lemma keeps_on_vk [keeps_rules]: "keeps w_pg (on_vk m)"
  and keeps_on_pg [keeps_rules]: "keeps w_vk (on_pg m')"
  by (auto simp: keeps_def on_vk_D on_pg_D)

text \<open>Queries leave the tables as they are.\<close>

lemma keeps_query [keeps_rules]: "keeps (\<lambda>w. pg_tables (w_pg w)) (on_pg (pg_query q))"
  using on_pg_D(1) pg_query_tables by (fastforce simp: keeps_def)

lemma keeps_tables_vk [keeps_rules]: "keeps (\<lambda>w. pg_tables (w_pg w)) (on_vk m)"
  by (auto simp: keeps_def on_vk_D)

text \<open>The world with the service replaced by its abstraction; programs on it simulate.\<close>

definition map_world :: "('s \<Rightarrow> 't) \<Rightarrow> ('s, 'd) world \<Rightarrow> ('t, 'd) world" where
  "map_world \<alpha> w = \<lparr>w_vk = \<alpha> (w_vk w), w_pg = w_pg w, w_sent = w_sent w\<rparr>"

lemma map_world_sel [simp]:
  "w_vk (map_world \<alpha> w) = \<alpha> (w_vk w)" "w_pg (map_world \<alpha> w) = w_pg w" "w_sent (map_world \<alpha> w) = w_sent w"
  by (simp_all add: map_world_def)

lemma map_world_upd [simp]:
  "map_world \<alpha> (w\<lparr>w_vk := s\<rparr>) = (map_world \<alpha> w)\<lparr>w_vk := \<alpha> s\<rparr>"
  "map_world \<alpha> (w\<lparr>w_pg := p\<rparr>) = (map_world \<alpha> w)\<lparr>w_pg := p\<rparr>"
  "map_world \<alpha> (w\<lparr>w_sent := l\<rparr>) = (map_world \<alpha> w)\<lparr>w_sent := l\<rparr>"
  by (simp_all add: map_world_def)

lemma simulates_on_vk [sim_rules]: "simulates \<alpha> m m' \<Longrightarrow> simulates (map_world \<alpha>) (on_vk m) (on_vk m')"
  and simulates_on_pg [sim_rules]: "simulates (map_world \<alpha>) (on_pg p) (on_pg p)"
  by (auto simp: simulates_def on_vk_def on_pg_def split: prod.splits)

end
