(* ===== verification/Snapshot.thy ===== *)
theory Snapshot
  imports Lua_Match_Props
begin

text \<open>
  \<open>cache.rs\<close>: the script \<open>ORDERBOOK_SNAPSHOT_LUA\<close>, which adds up the remaining
  quantities of the first orders of each side by the text of their price, and
  \<open>orderbook_snapshot_lua\<close>, which reads its reply. A Lua table used as a map with a
  list of its keys in the order of insertion is an association list.
\<close>

section \<open>Model\<close>

fun add_level :: "string \<Rightarrow> int \<Rightarrow> (string \<times> int) list \<Rightarrow> (string \<times> int) list" where
  "add_level p r [] = [(p, r)]"
| "add_level p r ((p', r') # ls) = (if p = p' then (p', f64_round (r' + r)) # ls else (p', r') # add_level p r ls)"

definition level_order :: "'s valkey \<Rightarrow> string \<Rightarrow> (string \<times> int) list \<Rightarrow> ('s, (string \<times> int) list) vm" where
  "level_order V oid levels =
     vbind (vk_hget V (okey oid) ''price_i'') (\<lambda>pi.
     vbind (vk_hget V (okey oid) ''remaining_i'') (\<lambda>ri.
     case (pi, ri) of
       (Some p, Some t) \<Rightarrow>
         (let r = option_or (lua_tonumber t) 0 in vret (if r > 0 then add_level p r levels else levels))
     | _ \<Rightarrow> vret levels))"

definition aggregate_side :: "'s valkey \<Rightarrow> string \<Rightarrow> nat \<Rightarrow> ('s, string list) vm" where
  "aggregate_side V book limit =
     vbind (vk_zrangebyscore V book None (Some (0, int limit))) (\<lambda>ids.
     vbind (vfoldM (level_order V) ids []) (\<lambda>levels.
     vret (concat (map (\<lambda>(p, r). [p, lua_tostring r]) levels))))"

definition ORDERBOOK_SNAPSHOT_LUA :: "'s valkey \<Rightarrow> string \<Rightarrow> nat \<Rightarrow> ('s, string list) vm" where
  "ORDERBOOK_SNAPSHOT_LUA V pair_id limit =
     vbind (aggregate_side V (bids_key pair_id) limit) (\<lambda>bids.
     vbind (aggregate_side V (asks_key pair_id) limit) (\<lambda>asks.
     vret (string_of_nat (length bids) # bids @ string_of_nat (length asks) # asks)))"

text \<open>The counts and the levels of the reply; the iterator yields nothing after its end.\<close>

definition read_count :: "string list \<Rightarrow> nat \<times> string list" where
  "read_count xs = (case xs of [] \<Rightarrow> (0, []) | c # r \<Rightarrow> (option_or (parse_nat c) 0, r))"

fun read_levels :: "(int \<Rightarrow> int) \<Rightarrow> nat \<Rightarrow> string list \<Rightarrow> ('d::floor_ceiling \<times> 'd) list \<times> string list" where
  "read_levels f 0 xs = ([], xs)"
| "read_levels f (Suc n) (p # q # xs) =
     (case read_levels f n xs of (ls, r) \<Rightarrow>
       ((i64_to_decimal (f (option_or (parse_i64 p) 0)), i64_to_decimal (option_or (parse_i64 q) 0)) # ls, r))"
| "read_levels f (Suc n) _ = ([], [])"

definition level_text :: "'d ext \<Rightarrow> 'd \<times> 'd \<Rightarrow> string \<times> string" where
  "level_text X = (\<lambda>(p, q). (x_dec_str X p, x_dec_str X q))"

definition parse_snapshot :: "string list \<Rightarrow> ('d::floor_ceiling \<times> 'd) list \<times> ('d \<times> 'd) list" where
  "parse_snapshot xs =
     (let (bid_count, r1) = read_count xs;
          (bids, r2) = read_levels abs (bid_count div 2) r1;
          (ask_count, r3) = read_count r2;
          (asks, r4) = read_levels id (ask_count div 2) r3
      in (bids, asks))"

definition orderbook_snapshot_lua ::
  "'s valkey \<Rightarrow> 'd::floor_ceiling ext \<Rightarrow> string \<Rightarrow> nat
   \<Rightarrow> ('s, (string \<times> string) list \<times> (string \<times> string) list) vm" where
  "orderbook_snapshot_lua V X pair_id limit =
     vbind (vk_conn V) (\<lambda>_.
     vbind (ORDERBOOK_SNAPSHOT_LUA V pair_id limit) (\<lambda>result.
     case parse_snapshot result of (bids, asks) \<Rightarrow> vret (map (level_text X) bids, map (level_text X) asks)))"

section \<open>Independence of the service\<close>

context valkey_spec
begin

lemma sim_level_order [sim_rules]: "simulates \<alpha> (level_order V i ls) (level_order ref_valkey i ls)"
  unfolding level_order_def ref_valkey_ops Let_def case_prod_conv by (intro sim_rules)

lemma sim_aggregate_side [sim_rules]: "simulates \<alpha> (aggregate_side V b l) (aggregate_side ref_valkey b l)"
  unfolding aggregate_side_def ref_valkey_ops by (intro sim_rules)

lemma sim_orderbook_snapshot_lua [sim_rules]:
  "simulates \<alpha> (orderbook_snapshot_lua V X p l) (orderbook_snapshot_lua ref_valkey X p l)"
  unfolding orderbook_snapshot_lua_def ORDERBOOK_SNAPSHOT_LUA_def ref_valkey_ops by (intro sim_rules)

end

section \<open>Levels\<close>

text \<open>The levels of a list of price texts and quantities.\<close>

definition levels_of :: "(string \<times> int) list \<Rightarrow> (string \<times> int) list" where
  "levels_of items = fold (\<lambda>(p, r) ls. if r > 0 then add_level p r ls else ls) items []"

lemma add_level_sum:
  assumes "\<forall>l \<in> set ls. 0 < snd l" "0 < r" "sum_list (map snd ls) + r \<le> 2 ^ 53"
  shows "sum_list (map snd (add_level p r ls)) = sum_list (map snd ls) + r \<and>
    (\<forall>l \<in> set (add_level p r ls). 0 < snd l) \<and> fst ` set (add_level p r ls) \<subseteq> insert p (fst ` set ls)"
  using assms
proof (induction ls)
  case (Cons l ls)
  obtain p' r' where l: "l = (p', r')" by force
  have "0 \<le> sum_list (map snd ls)" using Cons.prems(1) by (intro sum_list_nonneg) (auto intro: less_imp_le)
  with Cons.prems l have "\<bar>r' + r\<bar> \<le> 2 ^ 53" "sum_list (map snd ls) + r \<le> 2 ^ 53" by auto
  with Cons show ?case by (auto simp: l)
qed simp

lemma levels_fold:
  assumes "\<forall>x \<in> set items. 0 \<le> snd x" "\<forall>l \<in> set ls. 0 < snd l"
    and "sum_list (map snd ls) + sum_list (map snd items) \<le> 2 ^ 53"
  shows "let ls' = fold (\<lambda>(p, r) ls. if r > 0 then add_level p r ls else ls) items ls in
    sum_list (map snd ls') = sum_list (map snd ls) + sum_list (map snd items) \<and>
    (\<forall>l \<in> set ls'. 0 < snd l) \<and> fst ` set ls' \<subseteq> fst ` set items \<union> fst ` set ls"
  using assms
proof (induction items arbitrary: ls)
  case (Cons x items)
  obtain p r where x: "x = (p, r)" by force
  have nn: "0 \<le> sum_list (map snd items)" using Cons.prems(1) by (intro sum_list_nonneg) auto
  show ?case
  proof (cases "0 < r")
    case True
    with Cons.prems nn x have "sum_list (map snd ls) + r \<le> 2 ^ 53" by simp
    from add_level_sum [OF Cons.prems(2) True this, of p]
    have add: "sum_list (map snd (add_level p r ls)) = sum_list (map snd ls) + r"
      "\<forall>l \<in> set (add_level p r ls). 0 < snd l" "fst ` set (add_level p r ls) \<subseteq> insert p (fst ` set ls)" by blast+
    have "sum_list (map snd (add_level p r ls)) + sum_list (map snd items) \<le> 2 ^ 53"
      using Cons.prems(3) add(1) x by simp
    from Cons.IH [OF _ add(2) this] Cons.prems(1) add True show ?thesis
      unfolding x Let_def by simp blast
  next
    case False
    with Cons.prems have "r = 0" by (simp add: x)
    with Cons.IH [of ls] Cons.prems show ?thesis by (auto simp: x Let_def)
  qed
qed simp

lemmas levels_of_sum = levels_fold [where ls = "[]", folded levels_of_def, simplified Let_def, simplified]

text \<open>Reading back what the script wrote.\<close>

definition read_level :: "(int \<Rightarrow> int) \<Rightarrow> string \<times> int \<Rightarrow> 'd::floor_ceiling \<times> 'd" where
  "read_level f l = (i64_to_decimal (f (option_or (parse_i64 (fst l)) 0)), i64_to_decimal (snd l))"

lemma read_levels_written:
  assumes "\<forall>l \<in> set ls. \<bar>snd l\<bar> < 10 ^ 14"
  shows "read_levels f (length ls) (concat (map (\<lambda>(p, r). [p, lua_tostring r]) ls) @ xs) = (map (read_level f) ls, xs)"
  using assms
proof (induction ls)
  case (Cons l ls)
  obtain p r where l: "l = (p, r)" by force
  then have r: "\<bar>r\<bar> < 10 ^ 14" using Cons.prems by simp
  then have "i64_ok r" by (auto simp: i64_ok_def)
  with Cons r show ?case by (simp add: l read_level_def codec_simps)
qed simp

lemma length_written: "length (concat (map (\<lambda>(p, r). [p, lua_tostring r]) ls)) = 2 * length ls"
  by (induction ls) auto

lemma parse_snapshot_written:
  assumes "\<forall>l \<in> set bs \<union> set as. \<bar>snd l\<bar> < 10 ^ 14"
  defines "w \<equiv> \<lambda>ls. concat (map (\<lambda>(p, r). [p, lua_tostring r]) ls)"
  shows "parse_snapshot (string_of_nat (length (w bs)) # w bs @ string_of_nat (length (w as)) # w as) =
    (map (read_level abs) bs :: ('d::floor_ceiling \<times> 'd) list, map (read_level id) as)"
  using read_levels_written [where 'a = 'd, of bs abs "string_of_nat (length (w as)) # w as"] read_levels_written [where 'a = 'd, of as id "[]"] assms(1)
  by (simp add: parse_snapshot_def read_count_def w_def length_written codec_simps)

section \<open>Execution\<close>

definition level_item :: "vdata \<Rightarrow> int \<times> string \<Rightarrow> string \<times> int" where
  "level_item d e =
     (option_or (hash_at d (okey (snd e)) ''price_i'') '''',
      option_or (Option.bind (hash_at d (okey (snd e)) ''remaining_i'') lua_tonumber) 0)"

lemma book_entry_item:
  fixes X :: "'d::floor_ceiling ext"
  assumes "book_inv X now d p sd" "e \<in> set (zset_at d (book_key p sd))"
  obtains pi ri where "hash_at d (okey (snd e)) ''price_i'' \<noteq> None" "hash_at d (okey (snd e)) ''remaining_i'' \<noteq> None"
    "parse_i64 (fst (level_item d e)) = Some pi" "snd (level_item d e) = f64_round ri"
    "o_price (the (stored_order X now d (snd e))) = Some (i64_to_decimal pi)"
    "o_remaining (the (stored_order X now d (snd e))) = i64_to_decimal ri"
proof -
  obtain ord where o: "stored_order X now d (snd e) = Some ord" "o_price ord \<noteq> None"
    using assms by (auto simp: book_inv_def list_all_iff entry_ok_def split: option.splits)
  from o(1) show thesis
  proof (cases rule: stored_fields)
    case (1 pi ri st stp ot)
    have pi: "pi \<noteq> 0" "o_price ord = Some (i64_to_decimal pi)" using 1(2) o(2) by (auto split: if_splits)
    have z: "parse_i64 ''0'' = Some 0" using parse_i64_string_of_int [of 0] by (simp add: zero_text i64_ok_def)
    have "hash_at d (okey (snd e)) ''price_i'' \<noteq> None" using 1(1) pi(1) z by (cases "hash_at d (okey (snd e)) ''price_i''") auto
    then show thesis using that [of pi ri] 1(1,3,4) pi(2) o(1)
      by (auto simp: level_item_def bind_eq_Some_conv dest: lua_tonumber_parse)
  qed
qed

lemma run_level_orders:
  assumes "connected d" "book_inv X now d p sd" "set es \<subseteq> set (zset_at d (book_key p sd))"
  shows "vfoldM (level_order ref_valkey) (map snd es) ls d =
    (Inr (fold (\<lambda>(p, r) ls. if r > 0 then add_level p r ls else ls) (map (level_item d) es) ls), d)"
  using assms(3)
proof (induction es arbitrary: ls)
  case (Cons e es)
  have "e \<in> set (zset_at d (book_key p sd))" using Cons.prems by simp
  then obtain pt t where h: "hash_at d (okey (snd e)) ''price_i'' = Some pt" "hash_at d (okey (snd e)) ''remaining_i'' = Some t"
    by (rule book_entry_item [OF assms(2)]) auto
  have "level_order ref_valkey (snd e) ls d =
      (Inr (if snd (level_item d e) > 0 then add_level (fst (level_item d e)) (snd (level_item d e)) ls else ls), d)"
    using assms(1) h by (simp add: level_order_def vbind_def run_simps key_simps level_item_def Let_def)
  with Cons show ?case by (simp add: vbind_def case_prod_beta)
qed (simp add: vret_def)

lemma run_aggregate:
  assumes "connected d" "book_inv X now d p sd"
  shows "aggregate_side ref_valkey (book_key p sd) limit d =
    (Inr (concat (map (\<lambda>(p, r). [p, lua_tostring r])
       (levels_of (map (level_item d) (take limit (zset_at d (book_key p sd))))))), d)"
proof -
  have "zrange_upto None (Some (0, int limit)) z = map snd (take limit z)" for z
    by (simp add: zrange_upto_def zlimit_def take_map)
  then show ?thesis
    using assms(1) run_level_orders [OF assms, of "take limit (zset_at d (book_key p sd))" "[]"]
    by (simp add: aggregate_side_def vbind_def run_simps key_simps levels_of_def set_take_subset)
qed

lemma sum_member_le:
  fixes f :: "'b \<Rightarrow> 'a::linordered_idom"
  assumes "\<forall>x \<in> set xs. 0 \<le> f x" "y \<in> set xs"
  shows "f y \<le> sum_list (map f xs)"
  using assms
proof (induction xs)
  case (Cons x xs)
  have "0 \<le> sum_list (map f xs)" using Cons.prems(1) by (intro sum_list_nonneg) auto
  with Cons show ?case by (auto intro: add_increasing add_increasing2)
qed simp

text \<open>Open quantities and prices of a side, in units, with a total below \<open>10 ^ 14\<close>.\<close>

definition displayable :: "'d::floor_ceiling order list \<Rightarrow> bool" where
  "displayable ords \<longleftrightarrow> (\<forall>ord \<in> set ords. 0 \<le> o_remaining ord \<and> (\<forall>pr. o_price ord = Some pr \<longrightarrow> 0 < pr)) \<and>
     sum_list (map o_remaining ords) < i64_to_decimal (10 ^ 14)"

text \<open>What the levels of a side say about the orders they were made from.\<close>

definition depth_of :: "'d::floor_ceiling order list \<Rightarrow> ('d \<times> 'd) list \<Rightarrow> bool" where
  "depth_of ords levels \<longleftrightarrow> sum_list (map snd levels) = sum_list (map o_remaining ords) \<and>
     (\<forall>l \<in> set levels. 0 < snd l \<and> (\<exists>ord \<in> set ords. o_price ord = Some (fst l)))"

lemma levels_depth:
  fixes X :: "'d::floor_ceiling ext" and limit :: nat
  assumes "book_inv X now d p sd" and "f = abs \<or> f = id"
  defines "ords \<equiv> take limit (book_list X now d p sd)"
  defines "ls \<equiv> levels_of (map (level_item d) (take limit (zset_at d (book_key p sd))))"
  assumes "displayable ords"
  shows "depth_of ords (map (read_level f) ls) \<and> (\<forall>l \<in> set ls. \<bar>snd l\<bar> < 10 ^ 14)"
proof -
  let ?z = "take limit (zset_at d (book_key p sd))"
  let ?o = "\<lambda>e. the (stored_order X now d (snd e))"
  have ords: "ords = map ?o ?z" by (simp add: ords_def book_list_def take_map)
  have pos: "0 \<le> o_remaining (?o e)" "\<And>pr. o_price (?o e) = Some pr \<Longrightarrow> 0 < pr" if "e \<in> set ?z" for e
    using assms(5) that by (auto simp: displayable_def ords)
  have item: "o_remaining (?o e) = i64_to_decimal (snd (level_item d e)) \<and> 0 \<le> snd (level_item d e) \<and>
      (\<exists>pi. parse_i64 (fst (level_item d e)) = Some pi \<and> 0 < pi \<and> o_price (?o e) = Some (i64_to_decimal pi))"
    if e: "e \<in> set ?z" for e
  proof -
    obtain pi ri where i: "parse_i64 (fst (level_item d e)) = Some pi" "snd (level_item d e) = f64_round ri"
      "o_price (?o e) = Some (i64_to_decimal pi)" "o_remaining (?o e) = i64_to_decimal ri"
      using book_entry_item [OF assms(1), of e] e by (metis in_set_takeD)
    have "o_remaining (?o e) \<le> sum_list (map o_remaining ords)"
      unfolding ords using sum_member_le [of ?z "\<lambda>e. o_remaining (?o e)" e] pos(1) e by (simp add: o_def)
    also have "\<dots> < i64_to_decimal (10 ^ 14)" using assms(5) by (simp only: displayable_def)
    finally have "i64_to_decimal ri < (i64_to_decimal (10 ^ 14) :: 'd)" "0 \<le> (i64_to_decimal ri :: 'd)"
      using pos(1) [OF e] by (simp_all only: i(4))
    then have "0 \<le> ri" "ri < 10 ^ 14" by (simp_all add: i64_to_decimal_def divide_less_cancel zero_le_divide_iff SCALE_def)
    moreover have "0 < pi" using pos(2) [OF e i(3)] by (simp add: i64_to_decimal_def zero_less_divide_iff SCALE_def)
    ultimately show ?thesis using i by simp
  qed
  have conv: "sum_list (map (\<lambda>e. o_remaining (?o e)) es) = i64_to_decimal (sum_list (map (\<lambda>e. snd (level_item d e)) es))"
    if "set es \<subseteq> set ?z" for es
    using that item by (induction es) (auto simp: i64_to_decimal_def add_divide_distrib)
  have tot: "sum_list (map (\<lambda>e. snd (level_item d e)) ?z) < 10 ^ 14"
    using assms(5) conv [of ?z] by (simp add: displayable_def ords o_def i64_to_decimal_def divide_less_cancel SCALE_def)
  have ls: "sum_list (map snd ls) = sum_list (map (\<lambda>e. snd (level_item d e)) ?z)" "\<forall>l \<in> set ls. 0 < snd l"
      "fst ` set ls \<subseteq> fst ` level_item d ` set ?z"
    using levels_of_sum [of "map (level_item d) ?z"] item tot unfolding ls_def by (auto simp: o_def)
  have "\<bar>snd l\<bar> < 10 ^ 14" if "l \<in> set ls" for l
  proof -
    have "snd l \<le> sum_list (map snd ls)" using ls(2) that by (intro sum_member_le) (auto intro: less_imp_le)
    then show ?thesis using ls(1,2) that tot by auto
  qed
  moreover have "sum_list (map snd (map (read_level f) ls)) = sum_list (map o_remaining ords)"
  proof -
    have "sum_list (map snd (map (read_level f) xs)) = (i64_to_decimal (sum_list (map snd xs)) :: 'd)" for xs
      by (induction xs) (auto simp: read_level_def i64_to_decimal_def add_divide_distrib)
    then show ?thesis using conv [of ?z] ls(1) by (simp add: ords o_def)
  qed
  moreover have "0 < snd (read_level f l :: 'd \<times> 'd) \<and> (\<exists>ord \<in> set ords. o_price ord = Some (fst (read_level f l)))"
    if l: "l \<in> set ls" for l
  proof -
    have "fst l \<in> fst ` level_item d ` set ?z" using ls(3) l by blast
    then obtain e where e: "e \<in> set ?z" "fst l = fst (level_item d e)" by (elim imageE) simp
    then obtain pi where "parse_i64 (fst l) = Some pi" "0 < pi" "o_price (?o e) = Some (i64_to_decimal pi)"
      using item [OF e(1)] by auto
    then show ?thesis using assms(2) ls(2) l e(1)
      by (auto simp: read_level_def ords i64_to_decimal_def zero_less_divide_iff SCALE_def intro!: bexI [of _ e])
  qed
  ultimately show ?thesis by (simp add: depth_of_def)
qed

section \<open>Properties\<close>

text \<open>
  The displayed depth is the depth of the book. For a pair whose two sides
  are well formed, with positive prices and less than \<open>10 ^ 14\<close> units on either
  side of the first \<open>limit\<close> orders, \<open>orderbook_snapshot_lua\<close> returns levels whose
  quantities add up to the remaining quantities of these orders, each level
  positive and at the price of one of them; it changes nothing.
\<close>

theorem snapshot_depth_exact:
  fixes X :: "'d::floor_ceiling ext"
  assumes "valkey_spec V \<alpha>" and "connected (\<alpha> s)" and "\<forall>sd. book_inv X now (\<alpha> s) p sd"
    and "\<forall>sd. displayable (take limit (book_list X now (\<alpha> s) p sd))"
  shows "\<exists>bids asks s'. orderbook_snapshot_lua V X p limit s = (Inr (map (level_text X) bids, map (level_text X) asks), s') \<and>
    \<alpha> s' = \<alpha> s \<and> depth_of (take limit (book_list X now (\<alpha> s) p Buy)) bids \<and>
    depth_of (take limit (book_list X now (\<alpha> s) p Sell)) asks"
proof -
  let ?ls = "\<lambda>sd. levels_of (map (level_item (\<alpha> s)) (take limit (zset_at (\<alpha> s) (book_key p sd))))"
  note depth = levels_depth [OF assms(3) [rule_format] _ assms(4) [rule_format]]
  have keys: "bids_key p = book_key p Buy" "asks_key p = book_key p Sell" by (simp_all add: book_key_def)
  have "ORDERBOOK_SNAPSHOT_LUA ref_valkey p limit (\<alpha> s) =
      (Inr (let w = (\<lambda>ls. concat (map (\<lambda>(p, r). [p, lua_tostring r]) ls)) in
         string_of_nat (length (w (?ls Buy))) # w (?ls Buy) @ string_of_nat (length (w (?ls Sell))) # w (?ls Sell)), \<alpha> s)"
    using run_aggregate [OF assms(2) assms(3) [rule_format]]
    by (simp add: ORDERBOOK_SNAPSHOT_LUA_def keys vbind_def vret_def Let_def)
  moreover have "\<forall>l \<in> set (?ls Buy) \<union> set (?ls Sell). \<bar>snd l\<bar> < 10 ^ 14"
    using depth [of id Buy] depth [of id Sell] by blast
  ultimately have "orderbook_snapshot_lua ref_valkey X p limit (\<alpha> s) =
      (Inr (map (level_text X) (map (read_level abs) (?ls Buy)), map (level_text X) (map (read_level id) (?ls Sell))), \<alpha> s)"
    using assms(2) parse_snapshot_written [where 'd = 'd, of "?ls Buy" "?ls Sell"]
    by (simp add: orderbook_snapshot_lua_def vbind_def run_simps Let_def)
  from simulates_run [OF valkey_spec.sim_orderbook_snapshot_lua [OF assms(1)] this] depth [of abs Buy] depth [of id Sell]
  show ?thesis by metis
qed

lemma two_asks_both_sides: "book_inv ref_ext 0 two_asks ''BTC-USDT'' sd"
proof (cases sd)
  case Buy
  have "zset_at two_asks (book_key ''BTC-USDT'' Buy) = []"
    by (simp add: two_asks_def saved_zset)
  with Buy show ?thesis by (simp add: book_inv_def)
next
  case Sell
  then show ?thesis
    using book_run_inv [OF two_asks_run ref.valkey_spec_axioms ref_ext.ext_spec_axioms, of 0]
    by (simp add: book_inv_def)
qed

theorem snapshot_depth_exact_witness:
  "\<exists>bids asks s'. orderbook_snapshot_lua ref_valkey ref_ext ''BTC-USDT'' 50 two_asks =
     (Inr (map (level_text ref_ext) bids, map (level_text ref_ext) asks), s') \<and>
     depth_of (book_list ref_ext 0 two_asks ''BTC-USDT'' Sell) asks"
proof -
  have "zset_at two_asks (book_key ''BTC-USDT'' Buy) = []"
    by (simp add: two_asks_def saved_zset)
  then have buy: "book_list ref_ext 0 two_asks ''BTC-USDT'' Buy = []" by (simp add: book_list_def)
  have "displayable (take 50 (book_list ref_ext 0 two_asks ''BTC-USDT'' sd))" for sd
  proof (cases sd)
    case Buy
    then show ?thesis by (simp add: buy displayable_def i64_to_decimal_def SCALE_def)
  next
    case Sell
    have "displayable (book_list ref_ext 0 two_asks ''BTC-USDT'' Sell)"
      unfolding displayable_def two_asks_list
      by (simp add: cached_def Let_def grid_order_price i64_ok_def decimal_to_i64_of_i64)
         (simp add: i64_to_decimal_def SCALE_def)
    with Sell show ?thesis by (simp add: two_asks_list)
  qed
  then show ?thesis
    using snapshot_depth_exact [OF ref.valkey_spec_axioms, of two_asks ref_ext 0 "''BTC-USDT''" 50]
      two_asks_connected two_asks_both_sides
    by (auto simp: two_asks_list)
qed

end
