(* ===== verification/Seeding.thy ===== *)
theory Seeding
  imports World Snapshot Balance_Props
begin

text \<open>
  Filling the cache from the database at a cold start: the functions
  \<open>init_balances_from_pg\<close>, \<open>seed_orderbook_from_pg\<close>, \<open>seed_ticker_from_pg\<close> of
  \<open>cache.rs\<close> and \<open>load_pairs_cache\<close>, \<open>seed_pairs_cache\<close>, \<open>get_state\<close> of the gateway's
  \<open>worker.rs\<close>. Rows come in the order of the table; among rows with equal sorting
  columns, which the database returns in any order, ascending queries take that of
  insertion and descending ones its reverse. Instants count nanoseconds.
\<close>

section \<open>Balances and resting orders\<close>

definition init_balance :: "'s valkey \<Rightarrow> 'd::floor_ceiling balance \<Rightarrow> (('s, 'd) world, unit) vm" where
  "init_balance V b =
     on_vk (vk_hset V (balance_key (b_user_id b) (b_asset b))
       [(''available'', string_of_int (decimal_to_i64 (b_available b))),
        (''locked'', string_of_int (decimal_to_i64 (b_locked b)))])"

definition init_balances_from_pg :: "'s valkey \<Rightarrow> (('s, 'd::floor_ceiling) world, unit) vm" where
  "init_balances_from_pg V =
     vbind (on_pg (pg_query tb_balances)) (\<lambda>rows.
     vbind (on_vk (vk_conn V)) (\<lambda>_.
     vforM (init_balance V) rows))"

text \<open>\<open>None\<close>: the row is skipped with a warning.\<close>

definition seed_order :: "'d order_row \<Rightarrow> 'd order option" where
  "seed_order r =
     Option.bind (parse_side (or_side r)) (\<lambda>sd.
     Option.bind (parse_order_type (or_order_type r)) (\<lambda>ot.
     Option.bind (if or_tif r = ''GTC'' then Some GTC else if or_tif r = ''IOC'' then Some IOC
                  else if or_tif r = ''FOK'' then Some FOK else None) (\<lambda>tif.
     Some \<lparr>o_id = or_id r, o_user_id = or_user_id r, o_pair_id = or_pair_id r, o_side = sd,
       o_order_type = ot, o_tif = tif, o_price = or_price r, o_quantity = or_quantity r,
       o_remaining = or_remaining r,
       o_status = (if or_status r = ''PartiallyFilled'' then PartiallyFilled else New),
       o_stp_mode = parse_stp_msg (or_stp_mode r), o_version = or_version r, o_sequence = 0,
       o_created_at = or_created_at r, o_updated_at = or_created_at r, o_client_order_id = None,
       o_received_at = None, o_matched_at = None, o_persisted_at = None\<rparr>)))"

definition resting_rows :: "'d tables \<Rightarrow> 'd order_row list" where
  "resting_rows T = sort_key or_created_at (filter (\<lambda>r. row_open r \<and> or_tif r = ''GTC'') (tb_orders T))"

definition seed_row :: "'s valkey \<Rightarrow> 'd::floor_ceiling ext \<Rightarrow> 'd order_row \<Rightarrow> (('s, 'd) world, unit) vm" where
  "seed_row V X r = (case seed_order r of None \<Rightarrow> vret () | Some ord \<Rightarrow> on_vk (save_order_to_book V X ord))"

definition seed_orderbook_from_pg :: "'s valkey \<Rightarrow> 'd::floor_ceiling ext \<Rightarrow> (('s, 'd) world, unit) vm" where
  "seed_orderbook_from_pg V X =
     vbind (on_pg (pg_query resting_rows)) (\<lambda>rows.
     if rows = [] then vret () else vforM (seed_row V X) rows)"

section \<open>Ticker\<close>

definition DAY :: instant where "DAY = 24 * 3600 * 1000000000"

definition opt_max :: "'d::linorder list \<Rightarrow> 'd option" where
  "opt_max xs = (case xs of [] \<Rightarrow> None | y # ys \<Rightarrow> Some (fold max ys y))"

definition opt_min :: "'d::linorder list \<Rightarrow> 'd option" where
  "opt_min xs = (case xs of [] \<Rightarrow> None | y # ys \<Rightarrow> Some (fold min ys y))"

definition opt_sum :: "'d::monoid_add list \<Rightarrow> 'd option" where
  "opt_sum xs = (if xs = [] then None else Some (sum_list xs))"

definition pair_trades :: "string \<Rightarrow> 'd tables \<Rightarrow> 'd trade list" where
  "pair_trades pair_id T = filter (\<lambda>t. t_pair_id t = pair_id) (tb_trades T)"

definition newest_first :: "'d trade list \<Rightarrow> 'd trade list" where
  "newest_first ts = rev (sort_key t_created_at ts)"

text \<open>High, low and volume of the last 24 hours; an aggregate query always returns a row.\<close>

definition ticker_stats ::
  "instant \<Rightarrow> string \<Rightarrow> 'd::floor_ceiling tables \<Rightarrow> 'd option \<times> 'd option \<times> 'd option" where
  "ticker_stats db_now pair_id T =
     (let recent = filter (\<lambda>t. t_created_at t \<ge> db_now - DAY) (pair_trades pair_id T) in
      (opt_max (map t_price recent), opt_min (map t_price recent), opt_sum (map t_quantity recent)))"

definition last_price :: "string \<Rightarrow> 'd tables \<Rightarrow> 'd option" where
  "last_price pair_id T = (case newest_first (pair_trades pair_id T) of [] \<Rightarrow> None | t # _ \<Rightarrow> Some (t_price t))"

definition ticker_json ::
  "'d ext \<Rightarrow> string \<Rightarrow> 'd option \<times> 'd option \<times> 'd option \<Rightarrow> 'd option \<Rightarrow> json" where
  "ticker_json X pair_id stats lst =
     (case stats of (high, low, volume) \<Rightarrow>
       jobj [(''pair'', JText pair_id),
             (''last'', jopt (\<lambda>v. JText (x_dec_str X v)) lst),
             (''high_24h'', jopt (\<lambda>v. JText (x_dec_str X v)) high),
             (''low_24h'', jopt (\<lambda>v. JText (x_dec_str X v)) low),
             (''volume_24h'', jopt (\<lambda>v. JText (x_dec_str X v)) volume)])"

definition build_ticker_json ::
  "'d::floor_ceiling ext \<Rightarrow> json_ext \<Rightarrow> instant \<Rightarrow> string \<Rightarrow> (('s, 'd) world, string option) vm" where
  "build_ticker_json X J db_now pair_id =
     vbind (on_pg (pg_query (ticker_stats db_now pair_id))) (\<lambda>stats.
     vbind (on_pg (pg_query (last_price pair_id))) (\<lambda>lst.
     vret (Some (js_str J (ticker_json X pair_id stats lst)))))"

definition seed_ticker_from_pg ::
  "'s valkey \<Rightarrow> 'd::floor_ceiling ext \<Rightarrow> json_ext \<Rightarrow> instant \<Rightarrow> string list \<Rightarrow> (('s, 'd) world, unit) vm" where
  "seed_ticker_from_pg V X J db_now pair_ids =
     vforM (\<lambda>pair_id.
       vbind (on_pg (pg_query (ticker_stats db_now pair_id))) (\<lambda>stats.
       vbind (on_pg (pg_query (last_price pair_id))) (\<lambda>lst.
       on_vk (set_and_publish V (''cache:ticker:'' @ pair_id) (js_str J (ticker_json X pair_id stats lst)))))) pair_ids"

section \<open>Pairs and cold start\<close>

definition load_pairs_cache :: "(('s, 'd) world, (string \<times> 'd pair_config) list) vm" where
  "load_pairs_cache =
     on_pg (pg_query (\<lambda>T. map (\<lambda>p. (p_id p,
       \<lparr>pc_tick_size = p_tick_size p, pc_lot_size = p_lot_size p, pc_min_order_size = p_min_order_size p,
        pc_max_order_size = p_max_order_size p, pc_active = p_active p\<rparr>)) (tb_pairs T)))"

definition pair_json :: "'d ext \<Rightarrow> 'd pair \<Rightarrow> json" where
  "pair_json X p =
     jobj [(''id'', JText (p_id p)), (''base'', JText (p_base p)), (''quote'', JText (p_quote p)),
           (''tick_size'', JText (x_dec_str X (p_tick_size p))),
           (''lot_size'', JText (x_dec_str X (p_lot_size p))),
           (''min_order_size'', JText (x_dec_str X (p_min_order_size p))),
           (''max_order_size'', JText (x_dec_str X (p_max_order_size p))),
           (''price_precision'', JInt (int (p_price_precision p))),
           (''qty_precision'', JInt (int (p_qty_precision p))),
           (''price_band_pct'', JText (x_dec_str X (p_price_band_pct p))),
           (''active'', JBool (p_active p))]"

definition seed_pairs_cache ::
  "'s valkey \<Rightarrow> 'd ext \<Rightarrow> json_ext \<Rightarrow> (('s, 'd) world, unit) vm" where
  "seed_pairs_cache V X J =
     vbind (on_pg (pg_query (\<lambda>T. filter p_active (tb_pairs T)))) (\<lambda>rows.
     on_vk (set_and_publish V ''cache:pairs'' (js_str J (jobj [(''pairs'', JArr (map (pair_json X) rows))]))))"

record 'd worker_state =
  ws_pairs_cache :: "(string \<times> 'd pair_config) list"
  ws_pair_keys :: "(string \<times> pair_keys) list"
  ws_reset_version :: nat

definition RESET_VERSION_KEY :: string where "RESET_VERSION_KEY = ''state:reset_version''"

definition seed_cache ::
  "'s valkey \<Rightarrow> 'd::floor_ceiling ext \<Rightarrow> json_ext \<Rightarrow> instant \<Rightarrow> string list \<Rightarrow> (('s, 'd) world, unit) vm" where
  "seed_cache V X J db_now pair_ids =
     vbind (init_balances_from_pg V) (\<lambda>_.
     vbind (seed_orderbook_from_pg V X) (\<lambda>_.
     vbind (seed_pairs_cache V X J) (\<lambda>_.
     seed_ticker_from_pg V X J db_now pair_ids)))"

text \<open>
  \<open>get_state\<close>: \<open>memo\<close> is the content of the process-wide cell, \<open>database_url\<close> the
  environment variable without which it fails.
\<close>

definition get_state ::
  "'s valkey \<Rightarrow> 'd::floor_ceiling ext \<Rightarrow> json_ext \<Rightarrow> instant \<Rightarrow> string option \<Rightarrow> 'd worker_state option
   \<Rightarrow> (('s, 'd) world, 'd worker_state) vm" where
  "get_state V X J db_now database_url memo =
     (case memo of Some st \<Rightarrow> vret st
      | None \<Rightarrow>
          if database_url = None then vfail (Invalid ''DATABASE_URL env var required'')
          else
            vbind load_pairs_cache (\<lambda>pairs_cache.
            vbind (on_vk (vk_conn V)) (\<lambda>_.
            vbind (vor (on_vk (vk_exists V ''cache:pairs'')) False) (\<lambda>populated.
            vbind (if \<not> populated then seed_cache V X J db_now (map fst pairs_cache) else vret ()) (\<lambda>_.
            vbind (on_vk (vk_conn V)) (\<lambda>_.
            vbind (vor (on_vk (vk_get V RESET_VERSION_KEY)) None) (\<lambda>ver.
            vret \<lparr>ws_pairs_cache = pairs_cache,
                  ws_pair_keys = map (\<lambda>p. (fst p, new_pair_keys (fst p))) pairs_cache,
                  ws_reset_version = option_or (Option.bind ver parse_u64) 0\<rparr>)))))))"

end
