(* ===== verification/Gateway_Worker.thy ===== *)
theory Gateway_Worker
  imports Seeding
begin

text \<open>
  \<open>crates/gateway/src/worker.rs\<close>: processing of one order inside the gateway, from
  the JSON payload to the cache updates and the websocket messages. \<open>fresh n\<close> are the
  values of \<open>Uuid::new_v4\<close>, \<open>clock n\<close> those of \<open>Utc::now\<close> in the order of the calls,
  \<open>db_now\<close> is the database's clock, \<open>post\<close> the outcome of posting to a connection
  (the management API of the API gateway). Payloads are objects, as the gateway
  builds them.
\<close>

section \<open>The order message\<close>

record queued_order_msg =
  qm_id :: "string option"
  qm_user_id :: string
  qm_pair_id :: string
  qm_side :: string
  qm_order_type :: string
  qm_tif :: string
  qm_price :: "string option"
  qm_quantity :: string
  qm_stp_mode :: "string option"
  qm_client_order_id :: "string option"
  qm_created_at :: "string option"
  qm_received_at :: "string option"
  qm_time_in_force :: "string option"

abbreviation bad_payload :: error where
  "bad_payload \<equiv> ParseError ''failed to parse order payload''"

definition req_str :: "json \<Rightarrow> string \<Rightarrow> string result" where
  "req_str j k = (case jget j k of Some (JText s) \<Rightarrow> Inr s | _ \<Rightarrow> Inl bad_payload)"

definition str_or :: "json \<Rightarrow> string \<Rightarrow> string \<Rightarrow> string result" where
  "str_or j k d = (case jget j k of None \<Rightarrow> Inr d | Some (JText s) \<Rightarrow> Inr s | Some _ \<Rightarrow> Inl bad_payload)"

definition opt_str :: "json \<Rightarrow> string \<Rightarrow> string option result" where
  "opt_str j k =
     (case jget j k of None \<Rightarrow> Inr None | Some JNull \<Rightarrow> Inr None | Some (JText s) \<Rightarrow> Inr (Some s)
      | Some _ \<Rightarrow> Inl bad_payload)"

definition parse_order_msg :: "json \<Rightarrow> queued_order_msg result" where
  "parse_order_msg j =
     result_bind (opt_str j ''id'') (\<lambda>i.
     result_bind (str_or j ''user_id'' ''user-1'') (\<lambda>u.
     result_bind (req_str j ''pair_id'') (\<lambda>p.
     result_bind (req_str j ''side'') (\<lambda>sd.
     result_bind (req_str j ''order_type'') (\<lambda>ot.
     result_bind (str_or j ''tif'' ''GTC'') (\<lambda>tif.
     result_bind (opt_str j ''price'') (\<lambda>price.
     result_bind (req_str j ''quantity'') (\<lambda>q.
     result_bind (opt_str j ''stp_mode'') (\<lambda>stp.
     result_bind (opt_str j ''client_order_id'') (\<lambda>coid.
     result_bind (opt_str j ''created_at'') (\<lambda>cr.
     result_bind (opt_str j ''received_at'') (\<lambda>rc.
     result_bind (opt_str j ''time_in_force'') (\<lambda>tf.
     Inr \<lparr>qm_id = i, qm_user_id = u, qm_pair_id = p, qm_side = sd, qm_order_type = ot, qm_tif = tif,
          qm_price = price, qm_quantity = q, qm_stp_mode = stp, qm_client_order_id = coid,
          qm_created_at = cr, qm_received_at = rc, qm_time_in_force = tf\<rparr>)))))))))))))"

definition msg_order_id :: "'d ext \<Rightarrow> (nat \<Rightarrow> uuid) \<Rightarrow> queued_order_msg \<Rightarrow> uuid result" where
  "msg_order_id X fresh m =
     (case qm_id m of
        Some i \<Rightarrow> if i \<noteq> [] then ok_or (ParseError ''invalid order id'') (x_uuid_parse X i) else Inr (fresh 0)
      | None \<Rightarrow> Inr (fresh 0))"

definition order_of_msg ::
  "'d::floor_ceiling ext \<Rightarrow> (nat \<Rightarrow> uuid) \<Rightarrow> (nat \<Rightarrow> instant) \<Rightarrow> queued_order_msg \<Rightarrow> 'd order result" where
  "order_of_msg X fresh clock m =
     result_bind (msg_order_id X fresh m) (\<lambda>oid.
     result_bind (ok_or (Invalid ''invalid side'') (parse_side (qm_side m))) (\<lambda>sd.
     result_bind (ok_or (Invalid ''invalid order_type'') (parse_order_type (qm_order_type m))) (\<lambda>ot.
     let tif = parse_tif_msg (option_or (qm_time_in_force m) (qm_tif m));
         stp = parse_stp_msg (option_or (qm_stp_mode m) ''None'');
         price = Option.bind (qm_price m) (x_dec_parse X) in
     result_bind (ok_or (Invalid ''invalid quantity'') (x_dec_parse X (qm_quantity m))) (\<lambda>quantity.
     if quantity \<le> 0 then Inl (Invalid ''quantity must be positive'')
     else if ot = Limit \<and> price = None then Inl (Invalid ''limit orders require price'')
     else if ot = Market \<and> price \<noteq> None then Inl (Invalid ''market orders cannot have price'')
     else
       let created = option_or (Option.bind (qm_created_at m) (x_time_parse X)) (clock 0);
           received = option_or (Option.bind (qm_received_at m) (x_time_parse X)) created
       in Inr \<lparr>o_id = oid, o_user_id = qm_user_id m, o_pair_id = qm_pair_id m, o_side = sd,
            o_order_type = ot, o_tif = tif, o_price = price, o_quantity = quantity,
            o_remaining = quantity, o_status = New, o_stp_mode = stp, o_version = 1, o_sequence = 0,
            o_created_at = created, o_updated_at = clock 1, o_client_order_id = qm_client_order_id m,
            o_received_at = Some received, o_matched_at = None, o_persisted_at = None\<rparr>))))"

definition validate_order :: "(string \<rightharpoonup> 'd::floor_ceiling pair_config) \<Rightarrow> 'd order \<Rightarrow> unit result" where
  "validate_order pairs_cache ord =
     result_bind (ok_or (UnknownPair (o_pair_id ord)) (pairs_cache (o_pair_id ord))) (\<lambda>cfg.
     if \<not> pc_active cfg then Inl (Invalid ''pair is not active'')
     else result_bind (dec_rem (o_quantity ord) (pc_lot_size cfg)) (\<lambda>r.
       if r \<noteq> 0 then Inl (Invalid ''quantity not aligned to lot_size'')
       else if o_quantity ord < pc_min_order_size cfg \<or> o_quantity ord > pc_max_order_size cfg
       then Inl (Invalid ''quantity out of range'')
       else check_price cfg ord))"

section \<open>Cache updates\<close>

definition trade_row_json :: "'d ext \<Rightarrow> 'd trade \<Rightarrow> json" where
  "trade_row_json X t =
     jobj
       [(''id'', JText (x_uuid_str X (t_id t))),
        (''pair_id'', JText (t_pair_id t)),
        (''buy_order_id'', JText (x_uuid_str X (t_buy_order_id t))),
        (''sell_order_id'', JText (x_uuid_str X (t_sell_order_id t))),
        (''buyer_id'', JText (t_buyer_id t)),
        (''seller_id'', JText (t_seller_id t)),
        (''price'', JText (x_dec_str X (t_price t))),
        (''quantity'', JText (x_dec_str X (t_quantity t))),
        (''created_at'', JText (x_time_str X (t_created_at t)))]"

definition build_trades_json :: "'d ext \<Rightarrow> json_ext \<Rightarrow> string \<Rightarrow> (('s, 'd) world, string) vm" where
  "build_trades_json X J pair_id =
     vbind (on_pg (pg_query (\<lambda>T. take 50 (newest_first (pair_trades pair_id T))))) (\<lambda>rows.
     vret (js_str J (jobj [(''pair'', JText pair_id), (''trades'', JArr (map (trade_row_json X) rows))])))"

definition balance_json :: "'d ext \<Rightarrow> 'd balance \<Rightarrow> json" where
  "balance_json X b =
     jobj [(''user_id'', JText (b_user_id b)), (''asset'', JText (b_asset b)),
           (''available'', JText (x_dec_str X (b_available b))), (''locked'', JText (x_dec_str X (b_locked b)))]"

definition build_portfolio_json :: "'d ext \<Rightarrow> json_ext \<Rightarrow> string \<Rightarrow> (('s, 'd) world, string) vm" where
  "build_portfolio_json X J user_id =
     vbind (on_pg (pg_query (\<lambda>T. sort_key b_asset (filter (\<lambda>b. b_user_id b = user_id) (tb_balances T))))) (\<lambda>rows.
     vret (js_str J (jobj [(''balances'', JArr (map (balance_json X) rows))])))"

definition level_json :: "string \<times> string \<Rightarrow> json" where
  "level_json = (\<lambda>(p, q). JArr [JText p, JText q])"

definition dirty_users :: "'d order \<Rightarrow> 'd trade list \<Rightarrow> string list" where
  "dirty_users ord trades = remdups (o_user_id ord # concat (map (\<lambda>t. [t_buyer_id t, t_seller_id t]) trades))"

definition update_cache_after_processing ::
  "'s valkey \<Rightarrow> 'd::floor_ceiling ext \<Rightarrow> json_ext \<Rightarrow> instant \<Rightarrow> 'd order \<Rightarrow> 'd trade list
   \<Rightarrow> (('s, 'd) world, unit) vm" where
  "update_cache_after_processing V X J db_now ord trades =
     (let had_trades = (trades \<noteq> []);
          order_rested = (o_status ord = New \<or> o_status ord = PartiallyFilled);
          p = o_pair_id ord in
      if \<not> had_trades \<and> \<not> order_rested then vret ()
      else
        vbind (on_vk (orderbook_snapshot_lua V X p 50)) (\<lambda>(bids, asks).
        let orderbook = js_str J (jobj [(''pair'', JText p), (''bids'', JArr (map level_json bids)),
                                        (''asks'', JArr (map level_json asks))]) in
        vbind (build_trades_json X J p) (\<lambda>trades_json.
        vbind (build_ticker_json X J db_now p) (\<lambda>ticker.
        vbind (vmapM (\<lambda>u. vbind (build_portfolio_json X J u) (\<lambda>j. vret (''cache:portfolio:'' @ u, j)))
                 (dirty_users ord trades)) (\<lambda>portfolio_entries.
        on_vk (set_and_publish_batch V
          ([(''cache:orderbook:'' @ p, orderbook), (''cache:trades:'' @ p, trades_json)] @
           (case ticker of None \<Rightarrow> [] | Some tj \<Rightarrow> [(''cache:ticker:'' @ p, tj)]) @
           portfolio_entries)))))))"

section \<open>Websocket messages\<close>

text \<open>A text between quotation marks, as in the literal JSON texts of the program.\<close>

definition quoted :: "string \<Rightarrow> string" where
  "quoted s = CHR 0x22 # s @ [CHR 0x22]"

datatype post_result = PostOk | PostGone | PostFailed

definition ws_message :: "string \<Rightarrow> string \<Rightarrow> string" where
  "ws_message ch val = ''{'' @ quoted ''ch'' @ '':'' @ quoted ch @ '','' @ quoted ''data'' @ '':'' @ val @ ''}''"

definition post_all ::
  "(string \<Rightarrow> string \<Rightarrow> post_result) \<Rightarrow> string \<Rightarrow> string list \<Rightarrow> (('s, 'd) world, string list) vm" where
  "post_all post msg conns w =
     (Inr (filter (\<lambda>c. post c msg = PostGone) conns),
      w\<lparr>w_sent := w_sent w @ map (\<lambda>c. (c, msg)) (filter (\<lambda>c. post c msg = PostOk) conns)\<rparr>)"

text \<open>Removing a connection the service reports as gone: every error is ignored.\<close>

definition remove_stale :: "'s valkey \<Rightarrow> string \<Rightarrow> string \<Rightarrow> ('s, unit) vm" where
  "remove_stale V ch conn_id =
     vbind (vor (vk_srem V ''ws:connections'' conn_id) ()) (\<lambda>_.
     vbind (vor (vk_srem V (''ws:subs:'' @ ch) conn_id) ()) (\<lambda>_.
     vbind (vor (vk_smembers V (''ws:conn:'' @ conn_id)) []) (\<lambda>chs.
     vbind (vforM (\<lambda>other. vor (vk_srem V (''ws:subs:'' @ other) conn_id) ()) chs) (\<lambda>_.
     vor (vk_del V (''ws:conn:'' @ conn_id)) ()))))"

definition push_channel ::
  "'s valkey \<Rightarrow> (string \<Rightarrow> string \<Rightarrow> post_result) \<Rightarrow> string \<Rightarrow> (('s, 'd) world, unit) vm" where
  "push_channel V post ch =
     vbind (vor (on_vk (vk_smembers V (''ws:subs:'' @ ch))) []) (\<lambda>subscribers.
     if subscribers = [] then vret ()
     else
       vbind (vor (on_vk (vk_get V (''cache:'' @ ch))) None) (\<lambda>val.
       case val of None \<Rightarrow> vret ()
       | Some v \<Rightarrow>
           if v = [] then vret ()
           else vbind (post_all post (ws_message ch v) subscribers) (\<lambda>stale.
                vforM (\<lambda>c. on_vk (remove_stale V ch c)) stale)))"

definition push_ws_updates ::
  "'s valkey \<Rightarrow> (string \<Rightarrow> string \<Rightarrow> post_result) \<Rightarrow> string \<Rightarrow> (('s, 'd) world, unit) vm" where
  "push_ws_updates V post pair_id =
     vor (vbind (on_vk (vk_conn V)) (\<lambda>_.
          vforM (push_channel V post) [''orderbook:'' @ pair_id, ''trades:'' @ pair_id, ''ticker:'' @ pair_id])) ()"

section \<open>Processing an order\<close>

definition lock_params :: "'d::floor_ceiling order \<Rightarrow> (string \<times> int) result" where
  "lock_params ord =
     result_bind (parse_pair_id (o_pair_id ord)) (\<lambda>(base, quote).
     Inr (case o_side ord of
            Buy \<Rightarrow> (quote, decimal_to_i64 (option_or (o_price ord) 0 * o_quantity ord))
          | Sell \<Rightarrow> (base, decimal_to_i64 (o_quantity ord))))"

definition build_trade ::
  "(nat \<Rightarrow> uuid) \<Rightarrow> instant \<Rightarrow> 'd order \<Rightarrow> nat \<Rightarrow> 'd lua_trade \<Rightarrow> 'd trade" where
  "build_trade fresh trade_now ord i lt =
     \<lparr>t_id = fresh (Suc i), t_pair_id = o_pair_id ord,
      t_buy_order_id = (case o_side ord of Buy \<Rightarrow> o_id ord | Sell \<Rightarrow> lt_resting_order_id lt),
      t_sell_order_id = (case o_side ord of Buy \<Rightarrow> lt_resting_order_id lt | Sell \<Rightarrow> o_id ord),
      t_buyer_id = lt_buyer_id lt, t_seller_id = lt_seller_id lt, t_price = lt_price lt,
      t_quantity = lt_quantity lt, t_sequence = 0, t_created_at = trade_now\<rparr>"

definition build_trades ::
  "(nat \<Rightarrow> uuid) \<Rightarrow> instant \<Rightarrow> 'd order \<Rightarrow> 'd lua_trade list \<Rightarrow> 'd trade list" where
  "build_trades fresh trade_now ord lts =
     map (\<lambda>(i, lt). build_trade fresh trade_now ord i lt) (zip [0..<length lts] lts)"

definition is_warmup :: "'d order \<Rightarrow> bool" where
  "is_warmup ord =
     (case o_client_order_id ord of None \<Rightarrow> False
      | Some i \<Rightarrow> prefix ''warmup:'' i \<or> prefix ''warmup-'' i)"

definition matched_order :: "(nat \<Rightarrow> instant) \<Rightarrow> 'd order \<Rightarrow> 'd lua_match_result \<Rightarrow> 'd order" where
  "matched_order clock ord res =
     ord\<lparr>o_matched_at := Some (clock 2), o_remaining := lr_remaining res, o_status := lr_status res\<rparr>"

text \<open>Steps 7 to 9: the database, the cache values, the websocket clients.\<close>

definition finish_order ::
  "'s valkey \<Rightarrow> 'd::floor_ceiling ext \<Rightarrow> json_ext \<Rightarrow> (string \<Rightarrow> string \<Rightarrow> post_result) \<Rightarrow> (nat \<Rightarrow> instant) \<Rightarrow>
   instant \<Rightarrow> string \<Rightarrow> 'd order \<Rightarrow> 'd trade list \<Rightarrow> 'd lua_trade list \<Rightarrow> (('s, 'd) world, unit) vm" where
  "finish_order V X J post clock db_now ws_endpoint ord trades lts =
     vbind (if \<not> is_warmup ord then on_pg (persist_order db_now (clock 4) ord trades lts) else vret ()) (\<lambda>_.
     vbind (vtry (update_cache_after_processing V X J db_now ord trades)) (\<lambda>_.
     if ws_endpoint \<noteq> [] then push_ws_updates V post (o_pair_id ord) else vret ()))"

definition process_order ::
  "'s valkey \<Rightarrow> 'd::floor_ceiling ext \<Rightarrow> json_ext \<Rightarrow> (string \<Rightarrow> string \<Rightarrow> post_result) \<Rightarrow> (nat \<Rightarrow> uuid) \<Rightarrow>
   (nat \<Rightarrow> instant) \<Rightarrow> instant \<Rightarrow> string \<Rightarrow> 'd worker_state \<Rightarrow> json \<Rightarrow> (('s, 'd) world, unit) vm" where
  "process_order V X J post fresh clock db_now ws_endpoint st payload =
     vbind (vlift (parse_order_msg payload)) (\<lambda>msg.
     vbind (vlift (order_of_msg X fresh clock msg)) (\<lambda>ord.
     vbind (vlift (validate_order (map_of (ws_pairs_cache st)) ord)) (\<lambda>_.
     if o_tif ord = FOK
     then update_cache_after_processing V X J db_now (ord\<lparr>o_status := Cancelled\<rparr>) []
     else
       vbind (vlift (lock_params ord)) (\<lambda>(lock_asset, lock_amount).
       vbind (vlift (ok_or (UnknownPair (o_pair_id ord)) (map_of (ws_pair_keys st) (o_pair_id ord)))) (\<lambda>keys.
       vbind (vmap_err (\<lambda>_. ScriptError ''Lua EVAL failed'')
                (on_vk (match_order_lua V X ord keys lock_asset lock_amount))) (\<lambda>res.
       let ord' = matched_order clock ord res;
           trades = build_trades fresh (clock 3) ord' (lr_trades res) in
       finish_order V X J post clock db_now ws_endpoint ord' trades (lr_trades res)))))))"

definition process_order_inline ::
  "'s valkey \<Rightarrow> 'd::floor_ceiling ext \<Rightarrow> json_ext \<Rightarrow> (string \<Rightarrow> string \<Rightarrow> post_result) \<Rightarrow> (nat \<Rightarrow> uuid) \<Rightarrow>
   (nat \<Rightarrow> instant) \<Rightarrow> instant \<Rightarrow> string \<Rightarrow> string option \<Rightarrow> 'd worker_state option \<Rightarrow> json \<Rightarrow> (('s, 'd) world, unit) vm" where
  "process_order_inline V X J post fresh clock db_now ws_endpoint database_url memo payload =
     vbind (get_state V X J db_now database_url memo) (\<lambda>st.
     process_order V X J post fresh clock db_now ws_endpoint st payload)"

end
