(* ===== verification/Gateway_Props.thy ===== *)
theory Gateway_Props
  imports Gateway_Worker Persistence_Props Lua_Book
begin

text \<open>
  What processing one order in the gateway does, composed from the facts about
  validation, the matching script, persistence and the cache updates.
\<close>

section \<open>The stored order\<close>

text \<open>The row of the order, whatever its sequence number, its version and the two time stamps of the database.\<close>

definition stored_as :: "'d order \<Rightarrow> 'd tables \<Rightarrow> bool" where
  "stored_as ord T \<longleftrightarrow> (\<exists>db_now now seq v. (order_to_row db_now now seq ord)\<lparr>or_version := v\<rparr> \<in> set (tb_orders T))"

text \<open>One row per trade, behind the earlier ones: the trade with the number the database gives it.\<close>

definition trades_stored :: "'d trade list \<Rightarrow> 'd tables \<Rightarrow> 'd tables \<Rightarrow> bool" where
  "trades_stored ts T T' \<longleftrightarrow> (\<exists>rows. tb_trades T' = tb_trades T @ rows \<and>
     list_all2 (\<lambda>r t. r = t\<lparr>t_sequence := t_sequence r\<rparr>) rows ts)"

lemma trades_stored_Nil [simp]: "tb_trades T' = tb_trades T \<Longrightarrow> trades_stored [] T T'"
  by (simp add: trades_stored_def)

lemma trades_inserted:
  assumes "list_all trade_fits ts" "distinct (map t_id ts)" "set (map t_id ts) \<inter> t_id ` set (tb_trades T) = {}"
  shows "tb_trades (fold (\<lambda>t T. snd (trades_insert t T)) ts T) = tb_trades T @ ts"
  using assms
proof (induction ts arbitrary: T)
  case (Cons t ts)
  then show ?case using Cons.IH [of "T\<lparr>tb_trades := tb_trades T @ [t]\<rparr>"] by (auto simp: trades_insert_def)
qed simp

lemma number_trades_rows:
  assumes "vmapM number_trade ts p = (Inr rows, q)"
  shows "list_all2 (\<lambda>r t. r = t\<lparr>t_sequence := t_sequence r\<rparr>) rows ts" "map t_id rows = map t_id ts"
  using assms by (induction ts arbitrary: p rows) (auto simp: vret_def vbind_Inr number_trade_run)

lemma insert_trades_tables:
  assumes "insert_trades_batch trades p = (Inr u, p')"
    and "distinct (map t_id trades)" "set (map t_id trades) \<inter> t_id ` set (tb_trades (pg_tables p)) = {}"
  shows "tb_orders (pg_tables p') = tb_orders (pg_tables p)" "trades_stored trades (pg_tables p) (pg_tables p')"
proof -
  obtain rows q where rows: "vmapM number_trade trades p = (Inr rows, q)" "pg_stmt (trades_insert_all rows) q = (Inr u, p')"
    using assms(1) by (auto simp: insert_trades_batch_def vbind_Inr)
  note rel = number_trades_rows(1) [OF rows(1)] and ids = number_trades_rows(2) [OF rows(1)]
  have fold: "tb_orders (fold (\<lambda>t T. snd (trades_insert t T)) ts T) = tb_orders T" for ts T
    by (induction ts arbitrary: T) (auto simp: trades_insert_def)
  have T: "pg_tables p' = fold (\<lambda>t T. snd (trades_insert t T)) rows (pg_tables q)" "list_all trade_fits rows"
    using stmt_tables [OF rows(2)] by (auto simp: trades_insert_all_def split: if_splits)
  show "tb_orders (pg_tables p') = tb_orders (pg_tables p)"
    using T(1) fold [of rows "pg_tables q"] number_rows_tables [OF rows(1)] by simp
  show "trades_stored trades (pg_tables p) (pg_tables p')"
    using T(1) trades_inserted [OF T(2), of "pg_tables q"] number_rows_tables [OF rows(1)] assms(2,3) rel
    by (auto simp: trades_stored_def ids)
qed

lemma persist_order_stores:
  assumes "persist_order db_now now ord trades lts p = (Inr (), p')"
    and "\<forall>r \<in> set (tb_orders (pg_tables p)). \<not> order_conflict (order_to_row db_now now 0 ord) r"
    and "o_id ord \<notin> lt_resting_order_id ` set lts"
    and "distinct (map t_id trades)" "set (map t_id trades) \<inter> t_id ` set (tb_trades (pg_tables p)) = {}"
  shows "stored_as ord (pg_tables p') \<and> trades_stored trades (pg_tables p) (pg_tables p')"
proof (rule persist_order_steps [OF assms(1)])
  fix p0 seq q0 u1 p1 deltas p2 u3 p3 u4 p4 u5 p5 p6
  assume tabs: "pg_tables p0 = pg_tables p" "pg_tables p' = pg_tables p6"
    and seq: "next_order_seq p0 = (Inr seq, q0)"
    and ins: "pg_stmt (orders_insert (order_to_row db_now now seq ord)) q0 = (Inr u1, p1)"
    and del: "(if trades \<noteq> [] then vbind (insert_trades_batch trades) (\<lambda>_. vlift (all_deltas trades [])) else vret []) p1 =
      (Inr deltas, p2)"
    and bal: "(if deltas \<noteq> [] then pg_stmt (\<lambda>T. (Inr (), balances_unnest (sorted_deltas deltas) T)) else vret ()) p2 = (Inr u3, p3)"
    and fil: "(if lts \<noteq> [] then pg_stmt (\<lambda>T. (Inr (), orders_fill_all now lts T)) else vret ()) p3 = (Inr u4, p4)"
    and upd: "(if \<not> (o_status ord = New \<or> o_status ord = PartiallyFilled) then update_order_db now ord else vret ()) p4 = (Inr u5, p5)"
    and rel: "(if resolved ord \<and> o_remaining ord \<noteq> 0 then release_remaining_locked ord else vret ()) p5 = (Inr (), p6)"
  let ?r = "order_to_row db_now now seq ord"
  have q: "pg_tables q0 = pg_tables p" using seq_steps(1) [OF seq] tabs(1) by simp
  have "\<forall>r \<in> set (tb_orders (pg_tables q0)). \<not> order_conflict ?r r"
    using assms(2) q by (simp add: order_conflict_def order_to_row_def)
  then have p1: "pg_tables p1 = (pg_tables q0)\<lparr>tb_orders := tb_orders (pg_tables q0) @ [?r]\<rparr>"
    using stmt_tables [OF ins] by (auto simp: orders_insert_def split: if_splits)
  have 2: "?r \<in> set (tb_orders (pg_tables p2)) \<and> trades_stored trades (pg_tables p) (pg_tables p2)"
  proof (cases "trades = []")
    case False
    then obtain u where "insert_trades_batch trades p1 = (Inr u, p2)" using del by (auto simp: vbind_Inr vlift_def)
    from insert_trades_tables [OF this assms(4)] assms(5) show ?thesis by (simp add: p1 q trades_stored_def)
  qed (use p1 q del in \<open>simp add: vret_def\<close>)
  have 3: "tb_orders (pg_tables p3) = tb_orders (pg_tables p2)" "tb_trades (pg_tables p3) = tb_trades (pg_tables p2)"
    using bal by (auto simp: vret_def stmt_tables balances_unnest_def split: if_splits)
  have "map_of (map (\<lambda>lt. (lt_resting_order_id lt, lt_quantity lt)) lts) (or_id ?r) = None"
    using assms(3) by (auto simp: map_of_eq_None_iff order_to_row_def)
  then have fill: "?r \<in> set (tb_orders (orders_fill_all now lts (pg_tables p3)))"
    using 2 3 by (force simp: orders_fill_all_def)
  then have 4: "?r \<in> set (tb_orders (pg_tables p4))" "tb_trades (pg_tables p4) = tb_trades (pg_tables p3)"
    using 2 3 fil by (cases "lts = []"; simp add: vret_def stmt_tables; simp add: orders_fill_all_def)+
  have same: "set_row (o_remaining ord) (status_str (o_status ord)) now ?r = ?r\<lparr>or_version := or_version ?r + 1\<rparr>"
    "?r = ?r\<lparr>or_version := or_version ?r\<rparr>" "or_id ?r = o_id ord"
    by (simp_all add: set_row_def order_to_row_def)
  have 5: "(\<exists>v. ?r\<lparr>or_version := v\<rparr> \<in> set (tb_orders (pg_tables p5))) \<and> tb_trades (pg_tables p5) = tb_trades (pg_tables p4)"
  proof (cases "o_status ord = New \<or> o_status ord = PartiallyFilled")
    case False
    then have "pg_tables p5 = orders_update (\<lambda>r. or_id r = o_id ord) (set_row (o_remaining ord) (status_str (o_status ord)) now) (pg_tables p4)"
      using upd by (simp add: update_order_db_def stmt_tables)
    moreover have "?r\<lparr>or_version := or_version ?r + 1\<rparr> \<in> (\<lambda>r. if or_id r = o_id ord then set_row (o_remaining ord) (status_str (o_status ord)) now r else r) ` set (tb_orders (pg_tables p4))"
      using 4(1) same by (intro image_eqI [of _ _ ?r]) simp_all
    ultimately show ?thesis by (auto simp: orders_update_def)
  next
    case True
    then have "p5 = p4" using upd by (auto simp: vret_def)
    then show ?thesis using 4(1) same(2) by metis
  qed
  have 6: "tb_orders (pg_tables p6) = tb_orders (pg_tables p5)" "tb_trades (pg_tables p6) = tb_trades (pg_tables p5)"
    using release_run [OF rel] by (auto simp: released_def balances_release_def balances_update_def split: sum.splits)
  have "stored_as ord (pg_tables p')" using 5 unfolding tabs(2) stored_as_def 6 by blast
  moreover have "trades_stored trades (pg_tables p) (pg_tables p')"
    using 2 5 unfolding trades_stored_def tabs(2) 6 by (simp add: 4(2) 3(2))
  ultimately show ?thesis ..
qed

section \<open>Paths through process_order\<close>

text \<open>A payload that is read as an order and passes the validation.\<close>

definition accepted ::
  "'d::floor_ceiling ext \<Rightarrow> (nat \<Rightarrow> uuid) \<Rightarrow> (nat \<Rightarrow> instant) \<Rightarrow> 'd worker_state \<Rightarrow> json \<Rightarrow> 'd order \<Rightarrow> bool" where
  "accepted X fresh clock st payload ord \<longleftrightarrow>
     (\<exists>m. parse_order_msg payload = Inr m \<and> order_of_msg X fresh clock m = Inr ord) \<and>
     validate_order (map_of (ws_pairs_cache st)) ord = Inr ()"

lemma process_order_accepted:
  assumes "accepted X fresh clock st payload ord"
  shows "process_order V X J post fresh clock db_now wse st payload w =
    (if o_tif ord = FOK
     then update_cache_after_processing V X J db_now (ord\<lparr>o_status := Cancelled\<rparr>) [] w
     else
       vbind (vlift (lock_params ord)) (\<lambda>(lock_asset, lock_amount).
       vbind (vlift (ok_or (UnknownPair (o_pair_id ord)) (map_of (ws_pair_keys st) (o_pair_id ord)))) (\<lambda>keys.
       vbind (vmap_err (\<lambda>_. ScriptError ''Lua EVAL failed'')
                (on_vk (match_order_lua V X ord keys lock_asset lock_amount))) (\<lambda>res.
       finish_order V X J post clock db_now wse (matched_order clock ord res)
         (build_trades fresh (clock 3) (matched_order clock ord res) (lr_trades res)) (lr_trades res)))) w)"
  using assms by (auto simp: accepted_def process_order_def vbind_def vlift_def Let_def)

lemma process_order_rejected:
  assumes "\<forall>ord. \<not> accepted X fresh clock st payload ord"
  obtains e where "process_order V X J post fresh clock db_now wse st payload w = (Inl e, w)"
proof (cases "parse_order_msg payload")
  case (Inl e)
  then show thesis using that by (simp add: process_order_def vbind_def vlift_def)
next
  case m: (Inr m)
  show thesis
  proof (cases "order_of_msg X fresh clock m")
    case (Inl e)
    then show thesis using that m by (simp add: process_order_def vbind_def vlift_def)
  next
    case (Inr ord)
    with assms m obtain e where "validate_order (map_of (ws_pairs_cache st)) ord = Inl e"
      by (cases "validate_order (map_of (ws_pairs_cache st)) ord") (auto simp: accepted_def)
    then show thesis using that m Inr by (simp add: process_order_def vbind_def vlift_def)
  qed
qed

text \<open>Cache updates and messages leave the tables as they are, and messages never fail.\<close>

abbreviation tables_of :: "('s, 'd) world \<Rightarrow> 'd tables" where
  "tables_of w \<equiv> pg_tables (w_pg w)"

lemma keeps_update_cache: "keeps tables_of (update_cache_after_processing V X J db_now ord trades)"
  unfolding update_cache_after_processing_def build_trades_json_def build_ticker_json_def build_portfolio_json_def
    Let_def
  by (intro keeps_rules)

lemma keeps_post_all [keeps_rules]: "keeps tables_of (post_all post msg cs)"
  by (auto simp: keeps_def post_all_def)

lemma keeps_push: "keeps tables_of (push_ws_updates V post p)"
  unfolding push_ws_updates_def push_channel_def by (intro keeps_rules)

lemma push_ok: "\<exists>w'. push_ws_updates V post p w = (Inr (), w')"
  by (auto simp: push_ws_updates_def vor_def split: prod.splits sum.splits)

lemma finish_order_tail:
  obtains w' where "vbind (vtry (update_cache_after_processing V X J db_now ord trades))
      (\<lambda>_. if wse \<noteq> [] then push_ws_updates V post p else vret ()) w = (Inr (), w')" "tables_of w' = tables_of w"
proof -
  obtain r w1 where u: "update_cache_after_processing V X J db_now ord trades w = (r, w1)" by force
  have t: "tables_of w1 = tables_of w" using keepsD [OF keeps_update_cache u] .
  show thesis
  proof (cases "wse = []")
    case True
    with u t that show thesis by (simp add: vbind_def vtry_def vret_def)
  next
    case False
    obtain w2 where p: "push_ws_updates V post p w1 = (Inr (), w2)" using push_ok by blast
    from keepsD [OF keeps_push p] False u t p that show thesis by (simp add: vbind_def vtry_def)
  qed
qed

lemma process_order_succeeds:
  assumes "accepted X fresh clock st payload ord" and "o_tif ord \<noteq> FOK" and "\<not> is_warmup ord"
    and "lock_params ord = Inr (la, n)" and "map_of (ws_pair_keys st) (o_pair_id ord) = Some K"
    and "match_order_lua V X ord K la n (w_vk w) = (Inr res, s')"
    and "persist_order db_now (clock 4) (matched_order clock ord res)
       (build_trades fresh (clock 3) (matched_order clock ord res) (lr_trades res)) (lr_trades res) (w_pg w) = (Inr (), p')"
  shows "\<exists>w'. process_order V X J post fresh clock db_now wse st payload w = (Inr (), w') \<and> tables_of w' = pg_tables p'"
proof -
  let ?m = "matched_order clock ord res" and ?w1 = "w\<lparr>w_vk := s', w_pg := p'\<rparr>"
  have "\<not> is_warmup ?m" using assms(3) by (simp add: is_warmup_def matched_order_def)
  moreover obtain w' where "vbind (vtry (update_cache_after_processing V X J db_now ?m
        (build_trades fresh (clock 3) ?m (lr_trades res))))
      (\<lambda>_. if wse \<noteq> [] then push_ws_updates V post (o_pair_id ?m) else vret ()) ?w1 = (Inr (), w')"
      "tables_of w' = tables_of ?w1"
    by (rule finish_order_tail)
  ultimately show ?thesis
    using assms(2,4-7)
    by (simp add: process_order_accepted [OF assms(1)] vbind_def [of "vlift _"] vlift_def vbind_def [of "vmap_err _ _"]
        vmap_err_def on_vk_def finish_order_def vbind_def [of "on_pg _"] on_pg_def)
qed

section \<open>An example\<close>

definition sample_state :: "rat worker_state" where
  "sample_state =
     \<lparr>ws_pairs_cache = [(''BTC-USDT'', \<lparr>pc_tick_size = i64_to_decimal 1, pc_lot_size = i64_to_decimal 1,
        pc_min_order_size = 0, pc_max_order_size = 1000, pc_active = True\<rparr>)],
      ws_pair_keys = [(''BTC-USDT'', new_pair_keys ''BTC-USDT'')], ws_reset_version = 0\<rparr>"

definition sample_payload :: "time_in_force \<Rightarrow> string option \<Rightarrow> json" where
  "sample_payload tif coid =
     jobj [(''id'', JText ''7''), (''user_id'', JText ''u3''), (''pair_id'', JText ''BTC-USDT''),
           (''side'', JText ''Buy''), (''order_type'', JText ''Limit''), (''tif'', JText (tif_str tif)),
           (''price'', JText (rat_str (i64_to_decimal 9))), (''quantity'', JText (rat_str (i64_to_decimal 8))),
           (''client_order_id'', jopt JText coid)]"

definition sample_ord :: "time_in_force \<Rightarrow> string option \<Rightarrow> rat order" where
  "sample_ord tif coid =
     \<lparr>o_id = 7, o_user_id = ''u3'', o_pair_id = ''BTC-USDT'', o_side = Buy, o_order_type = Limit,
      o_tif = tif, o_price = Some (i64_to_decimal 9), o_quantity = i64_to_decimal 8,
      o_remaining = i64_to_decimal 8, o_status = New, o_stp_mode = StpNone, o_version = 1,
      o_sequence = 0, o_created_at = 0, o_updated_at = 0, o_client_order_id = coid,
      o_received_at = Some 0, o_matched_at = None, o_persisted_at = None\<rparr>"

definition sample_world :: "vdata \<Rightarrow> bool list \<Rightarrow> (vdata, rat) world" where
  "sample_world d outcomes = \<lparr>w_vk = d, w_pg = (sample_db [])\<lparr>pg_outcomes := outcomes\<rparr>, w_sent = []\<rparr>"

lemma sample_world_sel: "w_vk (sample_world d bs) = d" "w_pg (sample_world d []) = sample_db []"
  by (simp_all add: sample_world_def sample_db_def)

lemma sample_msg:
  "parse_order_msg (sample_payload tif coid) =
     Inr \<lparr>qm_id = Some ''7'', qm_user_id = ''u3'', qm_pair_id = ''BTC-USDT'', qm_side = ''Buy'', qm_order_type = ''Limit'',
       qm_tif = tif_str tif, qm_price = Some (rat_str (i64_to_decimal 9)), qm_quantity = rat_str (i64_to_decimal 8),
       qm_stp_mode = None, qm_client_order_id = coid, qm_created_at = None, qm_received_at = None,
       qm_time_in_force = None\<rparr>"
  by (cases coid)
     (simp_all add: parse_order_msg_def sample_payload_def jget_jobj opt_str_def str_or_def req_str_def jopt_def)

lemma sample_accepted: "accepted ref_ext id (\<lambda>_. 0) sample_state (sample_payload tif coid) (sample_ord tif coid)"
proof -
  have "parse_nat ''7'' = Some 7"
    by (simp add: parse_nat_def is_digit_def digits_value_def digit_val_def)
  moreover have "(0 :: rat) < i64_to_decimal 8" by (simp add: i64_to_decimal_def SCALE_def)
  ultimately have "order_of_msg ref_ext id (\<lambda>_. 0)
      \<lparr>qm_id = Some ''7'', qm_user_id = ''u3'', qm_pair_id = ''BTC-USDT'', qm_side = ''Buy'', qm_order_type = ''Limit'',
       qm_tif = tif_str tif, qm_price = Some (rat_str (i64_to_decimal 9)), qm_quantity = rat_str (i64_to_decimal 8),
       qm_stp_mode = None, qm_client_order_id = coid, qm_created_at = None, qm_received_at = None,
       qm_time_in_force = None\<rparr> = Inr (sample_ord tif coid)"
    by (simp add: order_of_msg_def msg_order_id_def ref_ext_sel rat_round_trip codec_simps sample_ord_def
        parse_side_def parse_order_type_def parse_stp_msg_def not_le Let_def)
  moreover have "dec_rem (i64_to_decimal n) (i64_to_decimal 1 :: rat) = Inr 0" for n
    by (simp add: dec_rem_def i64_to_decimal_def SCALE_def)
  then have "validate_order (map_of (ws_pairs_cache sample_state)) (sample_ord tif coid) = Inr ()"
    by (simp add: validate_order_def check_price_def sample_state_def sample_ord_def)
       (simp add: i64_to_decimal_def SCALE_def)
  ultimately show ?thesis by (simp add: accepted_def sample_msg)
qed

lemma sample_match:
  assumes "tif = GTC \<or> tif = IOC"
  shows "lock_params (sample_ord tif coid) = Inr (''USDT'', 0)"
    and "\<exists>res s'. match_order_lua ref_valkey ref_ext (sample_ord tif coid) (new_pair_keys ''BTC-USDT'') ''USDT'' 0 two_asks = (Inr res, s')"
proof -
  have p: "parse_pair_id ''BTC-USDT'' = Inr (''BTC'', ''USDT'')" by (simp add: parse_pair_id_iff)
  have "decimal_to_i64 (i64_to_decimal 9 * i64_to_decimal 8 :: rat) = 0"
    by (simp add: decimal_to_i64_def i64_to_decimal_def SCALE_def dec_trunc_def i64_ok_def floor_eq_iff)
  with p show "lock_params (sample_ord tif coid) = Inr (''USDT'', 0)" by (simp add: lock_params_def sample_ord_def)
  have c: "callable ref_ext 0 (sample_ord tif coid) ''USDT'' 0 two_asks"
    using two_asks_connected two_asks_open
    by (simp add: callable_def two_asks_zset script_order_def on_grid_def decimal_to_i64_of_i64 i64_ok_def
        two_asks_version sample_ord_def)
  have "no_self_stop (sample_ord tif coid) (book_list ref_ext 0 two_asks ''BTC-USDT'' Sell)"
    by (auto simp: no_self_stop_def two_asks_list stp_agrees_def engine_verdict_def cached_def Let_def sample_ord_def)
  then show "\<exists>res s'. match_order_lua ref_valkey ref_ext (sample_ord tif coid) (new_pair_keys ''BTC-USDT'') ''USDT'' 0 two_asks = (Inr res, s')"
    using run_call [OF ref_ext.ext_spec_axioms c _ _ two_asks_version] by (simp add: lock_fails_def sample_ord_def)
qed

text \<open>On an empty book the order rests.\<close>

lemma well_keyed_ttl: "well_keyed (d\<lparr>vd_ttl := f\<rparr>) = well_keyed d"
  by (simp add: well_keyed_def)

lemma sample_rests:
  "\<exists>res s'. match_order_lua ref_valkey ref_ext (sample_ord GTC None) (new_pair_keys ''BTC-USDT'') ''USDT'' 0 empty_vdata =
     (Inr res, s') \<and> lr_trades res = [] \<and> lr_status res = New \<and> connected s'"
proof -
  have v: "add_to (str_at empty_vdata (version_key ''BTC-USDT'')) 1 = Inr 1"
    by (simp add: add_to_def str_at_def empty_vdata_def zero_text codec_simps i64_ok_def)
  have z: "zset_at empty_vdata k = []" for k by (simp add: zset_at_def empty_vdata_def)
  have c: "callable ref_ext 0 (sample_ord GTC None) ''USDT'' 0 empty_vdata"
    by (simp add: callable_def script_order_def on_grid_def decimal_to_i64_of_i64 i64_ok_def z open_book_def
        book_inv_def sample_ord_def v)
  have n: "no_self_stop (sample_ord GTC None) (book_list ref_ext 0 empty_vdata ''BTC-USDT'' Sell)"
    by (simp add: no_self_stop_def book_list_def z)
  have "lr_trades (call_result ref_ext 0 (sample_ord GTC None) ''USDT'' 0 empty_vdata) = []"
    "lr_status (call_result ref_ext 0 (sample_ord GTC None) ''USDT'' 0 empty_vdata) = New"
    by (simp_all add: call_result_def call_walk_def z zrange_upto_def zlimit_def read_status_def book_list_def taken_def
        sample_ord_def decimal_to_i64_of_i64 i64_ok_def)
  moreover have "snd (call_walk ref_ext (sample_ord GTC None) ''USDT'' 0 empty_vdata) = empty_vdata"
    by (simp add: call_walk_def z zrange_upto_def zlimit_def after_lock_def)
  then have "connected (call_state ref_ext (sample_ord GTC None) ''USDT'' 0 1 empty_vdata)"
    by (simp add: call_state_def rested_def Let_def well_keyed_ttl key_simps)
  ultimately show ?thesis
    using run_call [OF ref_ext.ext_spec_axioms c _ _, of 1] v n by (simp add: lock_fails_def sample_ord_def)
qed

section \<open>Properties\<close>

text \<open>
  A rejected order changes nothing. Whatever the payload is, when it cannot be
  read as an order or does not pass the validation, \<open>process_order\<close> fails and the
  cache, the database and the clients are as before.
\<close>

theorem rejected_order_changes_nothing:
  assumes "\<forall>ord. \<not> accepted X fresh clock st payload ord"
  shows "\<exists>e. process_order V X J post fresh clock db_now wse st payload w = (Inl e, w)"
  using process_order_rejected [OF assms] by metis

theorem rejected_order_changes_nothing_witness:
  "\<exists>e. process_order ref_valkey ref_ext ref_json (\<lambda>_ _. PostOk) id (\<lambda>_. 0) 0 [] sample_state (JObj []) (sample_world two_asks []) = (Inl e, sample_world two_asks [])"
  by (rule rejected_order_changes_nothing) (simp add: accepted_def parse_order_msg_def opt_str_def str_or_def req_str_def)

text \<open>
  A fill-or-kill order is dropped. The gateway answers success to an accepted
  fill-or-kill order without matching it: nothing is stored, nothing is sent.
\<close>

theorem fok_order_is_dropped:
  assumes "accepted X fresh clock st payload ord" and "o_tif ord = FOK"
  shows "process_order V X J post fresh clock db_now wse st payload w = (Inr (), w)"
  using assms(2) by (simp add: process_order_accepted [OF assms(1)] update_cache_after_processing_def Let_def vret_def)

theorem fok_order_is_dropped_witness:
  "process_order ref_valkey ref_ext ref_json (\<lambda>_ _. PostOk) id (\<lambda>_. 0) 0 [] sample_state (sample_payload FOK None)
     (sample_world two_asks []) = (Inr (), sample_world two_asks [])"
  by (rule fok_order_is_dropped [OF sample_accepted]) (simp add: sample_ord_def)



text \<open>
  C34: a match is not undone. When the script has matched an order and the
  database then fails, \<open>process_order\<close> reports the failure; the database is as
  before, but the cache keeps the match: the orders it filled are gone from the
  book and the balance stays locked.
\<close>

theorem persist_failure_keeps_match:
  assumes "accepted X fresh clock st payload ord" and "o_tif ord \<noteq> FOK" and "\<not> is_warmup ord"
    and "lock_params ord = Inr (la, n)" and "map_of (ws_pair_keys st) (o_pair_id ord) = Some K"
    and "match_order_lua V X ord K la n (w_vk w) = (Inr res, s')"
    and "persist_order db_now (clock 4) (matched_order clock ord res)
       (build_trades fresh (clock 3) (matched_order clock ord res) (lr_trades res)) (lr_trades res) (w_pg w) = (Inl e, p')"
  shows "process_order V X J post fresh clock db_now wse st payload w = (Inl e, w\<lparr>w_vk := s', w_pg := p'\<rparr>) \<and>
    pg_tables p' = tables_of w"
proof -
  have "pg_tables p' = tables_of w"
    using assms(7) pg_tx_atomic unfolding persist_order_def Let_def by blast
  moreover have "\<not> is_warmup (matched_order clock ord res)" using assms(3) by (simp add: is_warmup_def matched_order_def)
  ultimately show ?thesis
    using assms(2,4-7)
    by (simp add: process_order_accepted [OF assms(1)] vbind_def vlift_def vmap_err_def on_vk_def on_pg_def finish_order_def)
qed

theorem persist_failure_keeps_match_witness:
  "\<exists>e s' p'. process_order ref_valkey ref_ext ref_json (\<lambda>_ _. PostOk) id (\<lambda>_. 0) 0 [] sample_state (sample_payload IOC None)
     (sample_world two_asks [False]) = (Inl e, (sample_world two_asks [False])\<lparr>w_vk := s', w_pg := p'\<rparr>) \<and>
     pg_tables p' = tables_of (sample_world two_asks [False])"
proof -
  let ?o = "sample_ord IOC None" and ?w = "sample_world two_asks [False]"
  obtain res s' where m: "match_order_lua ref_valkey ref_ext ?o (new_pair_keys ''BTC-USDT'') ''USDT'' 0 two_asks = (Inr res, s')"
    using sample_match(2) by blast
  have p: "persist_order 0 0 ord ts ls (w_pg ?w) = (Inl DbError, sample_db [])" for ord ts ls
    by (simp add: persist_order_def Let_def pg_tx_def pg_ping_def pg_stmt_def vbind_def sample_world_def sample_db_def)
  show ?thesis
    using persist_failure_keeps_match [OF sample_accepted, of IOC None "''USDT''" 0 "new_pair_keys ''BTC-USDT''" ref_valkey ?w
        res s' 0 DbError "sample_db []" ref_json "\<lambda>_ _. PostOk" "[]"] m p sample_match(1) [of IOC None]
    by (force simp: sample_ord_def is_warmup_def sample_state_def sample_world_def)
qed

text \<open>
  Warm-up orders trade without a trace. An accepted order whose client
  identifier starts with \<open>warmup\<close> is matched against the real book like any other;
  \<open>process_order\<close> then succeeds and the database is as before, also when the script
  filled orders of other users.
\<close>

theorem warmup_order_leaves_no_trace:
  assumes "accepted X fresh clock st payload ord" and "o_tif ord \<noteq> FOK" and "is_warmup ord"
    and "lock_params ord = Inr (la, n)" and "map_of (ws_pair_keys st) (o_pair_id ord) = Some K"
    and "match_order_lua V X ord K la n (w_vk w) = (Inr res, s')"
  shows "\<exists>w'. process_order V X J post fresh clock db_now wse st payload w = (Inr (), w') \<and> tables_of w' = tables_of w"
proof -
  let ?m = "matched_order clock ord res"
  have "is_warmup ?m" using assms(3) by (simp add: is_warmup_def matched_order_def)
  moreover obtain w' where "vbind (vtry (update_cache_after_processing V X J db_now ?m
        (build_trades fresh (clock 3) ?m (lr_trades res))))
      (\<lambda>_. if wse \<noteq> [] then push_ws_updates V post (o_pair_id ?m) else vret ()) (w\<lparr>w_vk := s'\<rparr>) = (Inr (), w')"
      "tables_of w' = tables_of (w\<lparr>w_vk := s'\<rparr>)"
    by (rule finish_order_tail)
  ultimately show ?thesis
    using assms(2,4-6)
    by (simp add: process_order_accepted [OF assms(1)] vbind_def [of "vlift _"] vlift_def vbind_def [of "vmap_err _ _"]
        vmap_err_def on_vk_def finish_order_def)
qed

theorem warmup_order_leaves_no_trace_witness:
  "\<exists>w'. process_order ref_valkey ref_ext ref_json (\<lambda>_ _. PostOk) id (\<lambda>_. 0) 0 [] sample_state
     (sample_payload IOC (Some ''warmup:1'')) (sample_world two_asks []) = (Inr (), w') \<and>
     tables_of w' = tables_of (sample_world two_asks [])"
proof -
  let ?o = "sample_ord IOC (Some ''warmup:1'')"
  obtain res s' where m: "match_order_lua ref_valkey ref_ext ?o (new_pair_keys ''BTC-USDT'') ''USDT'' 0 two_asks = (Inr res, s')"
    using sample_match(2) by blast
  show ?thesis
    using warmup_order_leaves_no_trace [OF sample_accepted, of IOC "Some ''warmup:1''" "''USDT''" 0 "new_pair_keys ''BTC-USDT''"
        ref_valkey "sample_world two_asks []" res s'] m sample_match(1) [of IOC "Some ''warmup:1''"]
    by (simp add: sample_ord_def is_warmup_def sample_state_def sample_world_def)
qed

end
