(* ===== verification/Persistence_Types.thy ===== *)
theory Persistence_Types
  imports Persistence_Props
begin

text \<open>
  Well-formed tables: the keys the schema declares are unique and every order
  names a stored pair. Every statement of the program keeps this, hence so does
  every path of the persistence code, wherever it fails. And the persist worker,
  whose loop is modelled with fuel, drains its channel in batches.
\<close>

section \<open>Well-formed tables\<close>

definition tables_ok :: "'d tables \<Rightarrow> bool" where
  "tables_ok T \<longleftrightarrow> distinct (map p_id (tb_pairs T)) \<and> distinct (map or_id (tb_orders T)) \<and>
     distinct (map t_id (tb_trades T)) \<and> distinct (balance_keys T) \<and>
     (\<forall>r \<in> set (tb_orders T). or_pair_id r \<in> p_id ` set (tb_pairs T))"

named_theorems preserves_rules \<open>computations that keep a property of the tables\<close>

definition preserves :: "('d tables \<Rightarrow> bool) \<Rightarrow> ('d pg, 'a) vm \<Rightarrow> bool" where
  "preserves P m \<longleftrightarrow> (\<forall>p r p'. m p = (r, p') \<longrightarrow> P (pg_tables p) \<longrightarrow> P (pg_tables p'))"

lemma preservesD: "preserves P m \<Longrightarrow> m p = (r, p') \<Longrightarrow> P (pg_tables p) \<Longrightarrow> P (pg_tables p')"
  by (simp add: preserves_def)

lemma preserves_snd: "preserves P m \<Longrightarrow> P (pg_tables p) \<Longrightarrow> P (pg_tables (snd (m p)))"
  by (cases "m p") (auto dest: preservesD)

lemma preserves_vret [preserves_rules]: "preserves P (vret a)"
  and preserves_vlift [preserves_rules]: "preserves P (vlift r)"
  by (simp_all add: preserves_def vret_def vlift_def)

lemma preserves_vbind [preserves_rules]:
  "preserves P m \<Longrightarrow> (\<And>a. preserves P (f a)) \<Longrightarrow> preserves P (vbind m f)"
  unfolding preserves_def vbind_def by (auto split: prod.splits sum.splits)

lemma preserves_vtry [preserves_rules]: "preserves P m \<Longrightarrow> preserves P (vtry m)"
  and preserves_vor [preserves_rules]: "preserves P m \<Longrightarrow> preserves P (vor m d)"
  unfolding preserves_def vtry_def vor_def by (auto split: prod.splits sum.splits)

lemma preserves_vforM [preserves_rules]: "(\<And>x. preserves P (f x)) \<Longrightarrow> preserves P (vforM f xs)"
  by (induction xs) (auto intro!: preserves_rules)

lemma preserves_vmapM [preserves_rules]: "(\<And>x. preserves P (f x)) \<Longrightarrow> preserves P (vmapM f xs)"
  by (induction xs) (auto intro!: preserves_rules)

lemma preserves_vfoldM [preserves_rules]: "(\<And>x a. preserves P (f x a)) \<Longrightarrow> preserves P (vfoldM f xs a)"
  by (induction xs arbitrary: a) (auto intro!: preserves_rules)

lemma preserves_if [preserves_rules]: "preserves P a \<Longrightarrow> preserves P b \<Longrightarrow> preserves P (if c then a else b)"
  by simp

lemma preserves_prod [preserves_rules]: "(\<And>x y. preserves P (f x y)) \<Longrightarrow> preserves P (case c of (x, y) \<Rightarrow> f x y)"
  by (cases c) auto

lemma preserves_stmt: "(\<And>T. P T \<Longrightarrow> P (snd (f T))) \<Longrightarrow> preserves P (pg_stmt f)"
  by (auto simp: preserves_def pg_stmt_def pg_apply_def split: list.splits prod.splits if_splits) (metis snd_conv)+

lemma preserves_seq [preserves_rules]: "preserves P next_order_seq" "preserves P next_trade_seq"
  by (auto simp: preserves_def next_order_seq_def next_trade_seq_def)

lemma preserves_tx [preserves_rules]: "preserves P m \<Longrightarrow> preserves P (pg_tx m)"
  unfolding preserves_def
proof (intro allI impI)
  fix p :: "'a pg" and r :: "'b result" and p'
  assume m: "\<forall>p r p'. m p = (r, p') \<longrightarrow> P (pg_tables p) \<longrightarrow> P (pg_tables p')" and t: "pg_tx m p = (r, p')" and P: "P (pg_tables p)"
  show "P (pg_tables p')"
  proof (cases r)
    case (Inl e)
    with t pg_tx_atomic P show ?thesis by metis
  next
    case (Inr a)
    with t have "pg_tx m p = (Inr a, p')" by simp
    then obtain p1 p2 where "pg_tables p1 = pg_tables p" "m p1 = (Inr a, p2)" "pg_tables p' = pg_tables p2"
      by (rule pg_tx_Inr)
    with m P show ?thesis by metis
  qed
qed

subsection \<open>Statements\<close>

lemma orders_insert_ok: "tables_ok T \<Longrightarrow> tables_ok (snd (orders_insert r T))"
  by (auto simp: tables_ok_def orders_insert_def order_conflict_def balance_keys_def)

lemma orders_update_ok:
  assumes "tables_ok T" and "\<And>r. or_id (f r) = or_id r \<and> or_pair_id (f r) = or_pair_id r"
  shows "tables_ok (orders_update P f T)"
proof -
  have "map or_id (tb_orders (orders_update P f T)) = map or_id (tb_orders T)"
    using assms(2) by (simp add: orders_update_def)
  moreover have "distinct (map or_id (tb_orders T))" using assms(1) by (simp add: tables_ok_def)
  ultimately have "distinct (map or_id (tb_orders (orders_update P f T)))" by (simp only:)
  then show ?thesis using assms by (auto simp: tables_ok_def orders_update_def balance_keys_def simp del: map_map)
qed

lemma trades_insert_ok: "tables_ok T \<Longrightarrow> tables_ok (snd (trades_insert t T))"
  by (auto simp: tables_ok_def trades_insert_def balance_keys_def)

lemma trades_fold_ok: "tables_ok T \<Longrightarrow> tables_ok (fold (\<lambda>t T. snd (trades_insert t T)) ts T)"
  by (induction ts arbitrary: T) (auto simp: trades_insert_ok)

lemma trades_insert_all_ok: "tables_ok T \<Longrightarrow> tables_ok (snd (trades_insert_all ts T))"
  by (simp add: trades_insert_all_def trades_fold_ok)

lemma tables_ok_balances:
  "tables_ok T \<Longrightarrow> tb_pairs T' = tb_pairs T \<Longrightarrow> tb_orders T' = tb_orders T \<Longrightarrow> tb_trades T' = tb_trades T \<Longrightarrow>
     distinct (balance_keys T') \<Longrightarrow> tables_ok T'"
  by (simp add: tables_ok_def)

lemma balances_other_tables [simp]:
  "tb_pairs (balances_update P f T) = tb_pairs T" "tb_orders (balances_update P f T) = tb_orders T"
  "tb_trades (balances_update P f T) = tb_trades T"
  by (simp_all add: balances_update_def)

lemma unnest_other_tables [simp]:
  "tb_pairs (balances_unnest ds T) = tb_pairs T" "tb_orders (balances_unnest ds T) = tb_orders T"
  "tb_trades (balances_unnest ds T) = tb_trades T"
  by (simp_all add: balances_unnest_def)

lemma balances_update_ok: "tables_ok T \<Longrightarrow> tables_ok (balances_update P (settle_row l a) T)"
  by (simp add: tables_ok_def)

lemma balances_unnest_ok: "tables_ok T \<Longrightarrow> tables_ok (balances_unnest ds T)"
  by (simp add: tables_ok_def)

lemma balances_settle_ok: "tables_ok T \<Longrightarrow> tables_ok (snd (balances_settle u a l i T))"
  by (auto simp: balances_settle_def balances_update_ok balance_is_def intro!: tables_ok_balances [of T])
     (auto simp: tables_ok_def balance_keys_def)

lemma orders_fill_all_ok:
  assumes "tables_ok T"
  shows "tables_ok (orders_fill_all now lts T)"
proof -
  let ?f = "\<lambda>r. case map_of (map (\<lambda>lt. (lt_resting_order_id lt, lt_quantity lt)) lts) (or_id r) of
          None \<Rightarrow> r | Some q \<Rightarrow> if row_open r then fill_row q now r else r"
  have f: "or_id (?f r) = or_id r \<and> or_pair_id (?f r) = or_pair_id r" for r
    by (simp add: fill_row_def Let_def split: option.split)
  have "orders_fill_all now lts T = orders_update (\<lambda>_. True) ?f T" by (simp add: orders_fill_all_def orders_update_def)
  then show ?thesis using orders_update_ok [OF assms, of ?f "\<lambda>_. True"] f by simp
qed

text \<open>The statements of the program, as one bundle.\<close>

lemma stmts_ok [preserves_rules]:
  "preserves tables_ok (pg_stmt (orders_insert r))"
  "preserves tables_ok (pg_stmt (trades_insert t))"
  "preserves tables_ok (pg_stmt (trades_insert_all ts))"
  "preserves tables_ok (pg_stmt (balances_settle u a l i))"
  "preserves tables_ok (pg_stmt (\<lambda>T. (Inr (), balances_release u a l T)))"
  "preserves tables_ok (pg_stmt (\<lambda>T. (Inr (), balances_unnest ds T)))"
  "preserves tables_ok (pg_stmt (\<lambda>T. (Inr (), orders_fill_all now lts T)))"
  "preserves tables_ok (pg_stmt (\<lambda>T. (Inr (), orders_update P (set_row rest status now) T)))"
  "preserves tables_ok (pg_stmt (\<lambda>T. (Inr (), orders_update P (fill_row q now) T)))"
  "preserves tables_ok (pg_stmt (\<lambda>T. (Inl DbError, T)))"
  by (rule preserves_stmt, simp add: orders_insert_ok trades_insert_ok trades_insert_all_ok balances_settle_ok
      balances_release_def balances_update_ok balances_unnest_ok orders_fill_all_ok orders_update_ok set_row_def
      fill_row_def Let_def)+

lemma preserves_settle_delta [preserves_rules]: "preserves tables_ok (settle_delta d)"
  by (cases d) (auto simp: settle_delta_def intro!: preserves_rules)

lemmas ledger_defs = insert_order_db_def update_order_db_def insert_trade_db_def fill_resting_def
  release_remaining_locked_def insert_audit_event_def insert_trades_batch_def number_trade_def audit_order_def
  audit_trade_def persist_trades_def update_resting_orders_after_lua_def insert_and_add_def

lemma preserves_persist_order: "preserves tables_ok (persist_order db_now now ord trades lts)"
  unfolding persist_order_def Let_def ledger_defs by (intro preserves_rules)

lemma preserves_persist_job: "preserves tables_ok (process_persist_job X db_now now job)"
  unfolding process_persist_job_def ledger_defs by (intro preserves_rules)

lemma preserves_persist_batch [preserves_rules]: "preserves tables_ok (process_persist_batch X db_now now batch)"
  unfolding process_persist_batch_def audit_batch_def ledger_defs by (intro preserves_rules)

lemma preserves_persist_worker: "preserves tables_ok (persist_worker X db_now now n jobs)"
  by (induction n arbitrary: jobs) (auto intro!: preserves_rules)

section \<open>The batches of the worker\<close>

function batches :: "'a list \<Rightarrow> 'a list list" where
  "batches xs = (if xs = [] then [] else take 50 xs # batches (drop 50 xs))"
  by pat_completeness auto
termination by (relation "measure length") auto

declare batches.simps [simp del]

lemma batches_concat: "concat (batches xs) = xs" and batches_size: "\<forall>b \<in> set (batches xs). b \<noteq> [] \<and> length b \<le> 50"
  by (induction xs rule: batches.induct) (subst batches.simps, simp)+

section \<open>The three paths\<close>

text \<open>
  The tables stay well formed. Whatever orders and trades are persisted, by
  the gateway, by the single job path or by the worker, and whatever statements
  fail, the primary keys of the tables stay unique and every order names a pair.
\<close>

lemma persistence_keeps_tables_ok:
  assumes "tables_ok (pg_tables p)"
  shows "tables_ok (pg_tables (snd (persist_order db_now now ord trades lts p))) \<and>
    tables_ok (pg_tables (snd (process_persist_job X db_now now job p))) \<and>
    tables_ok (pg_tables (snd (persist_worker X db_now now n jobs p)))"
  using assms preserves_snd [OF preserves_persist_order] preserves_snd [OF preserves_persist_job]
    preserves_snd [OF preserves_persist_worker] by blast

text \<open>
  The worker drains its channel. With at least as much fuel as there are
  jobs, the loop ends having run exactly the consecutive batches of at most 50
  jobs, in order, whatever happens to each of them.
\<close>

lemma persist_worker_drains:
  assumes "length jobs \<le> n"
  shows "persist_worker X db_now now n jobs =
      vforM (\<lambda>b. vbind (vtry (process_persist_batch X db_now now b)) (\<lambda>_. vret ())) (batches jobs) \<and>
    concat (batches jobs) = jobs \<and> (\<forall>b \<in> set (batches jobs). length b \<le> 50) \<and>
    (\<exists>p'. persist_worker X db_now now n jobs p = (Inr (), p'))"
proof -
  let ?run = "\<lambda>b. vbind (vtry (process_persist_batch X db_now now b)) (\<lambda>_. vret ())"
  have eq: "persist_worker X db_now now n jobs = vforM ?run (batches jobs)"
    using assms
  proof (induction n arbitrary: jobs)
    case (Suc n)
    show ?case
    proof (cases "jobs = []")
      case False
      then have "length (drop 50 jobs) \<le> n" using Suc.prems by (cases jobs) auto
      from Suc.IH [OF this] False show ?thesis by (subst batches.simps) (simp add: vbind_assoc)
    qed (simp add: batches.simps)
  qed (simp add: batches.simps)
  have "\<exists>p'. vforM ?run bs p = (Inr (), p')" for bs p
  proof (induction bs arbitrary: p)
    case (Cons b bs)
    then show ?case by (cases "process_persist_batch X db_now now b p") (simp add: vbind_def vtry_def vret_def)
  qed (simp add: vret_def)
  then show ?thesis using eq batches_concat batches_size by metis
qed

end
