(* ===== verification/Seeding_Props.thy ===== *)
theory Seeding_Props
  imports Seeding Persistence_Types
begin

text \<open>
  What a cold start restores: the books that \<open>seed_orderbook_from_pg\<close> builds in an
  empty cache hold exactly the open orders of the database.
\<close>

section \<open>Saving a list of orders\<close>

text \<open>The books hold exactly the orders of a list, each with its own identifier.\<close>

definition books_hold :: "'d::floor_ceiling ext \<Rightarrow> instant \<Rightarrow> vdata \<Rightarrow> 'd order list \<Rightarrow> bool" where
  "books_hold X now d ords \<longleftrightarrow> connected d \<and> (\<forall>p sd. book_inv X now d p sd \<and>
     set (zset_at d (book_key p sd)) =
       (\<lambda>ord. (order_score ord, x_uuid_str X (o_id ord))) ` {ord \<in> set ords. o_pair_id ord = p \<and> o_side ord = sd}) \<and>
     (\<forall>ord \<in> set ords. stored_order X now d (x_uuid_str X (o_id ord)) = Some (cached X now ord))"

lemma books_hold_saved:
  assumes "ext_spec X" and "books_hold X now d ords" and "bookable X ord" and "o_id ord \<notin> o_id ` set ords"
  shows "books_hold X now (saved X ord d) (ords @ [ord])"
proof -
  let ?i = "x_uuid_str X (o_id ord)"
  have st: "storable X ord" using assms(3) by (simp add: bookable_def)
  have ne: "x_uuid_str X (o_id o') \<noteq> ?i" if "o' \<in> set ords" for o'
    using assms(4) that unfolding ext_spec.uuid_str_inj [OF assms(1)] by (metis imageI)
  have z: "set (zset_at d (book_key p sd)) =
      (\<lambda>ord. (order_score ord, x_uuid_str X (o_id ord))) ` {ord \<in> set ords. o_pair_id ord = p \<and> o_side ord = sd}"
    "book_inv X now d p sd" for p sd using assms(2) by (auto simp: books_hold_def)
  have "snd e \<noteq> ?i" if "e \<in> set (zset_at d (book_key p sd))" for e p sd
    using that ne unfolding z(1) by auto
  then have other: "set (zset_at (saved X ord d) (book_key p sd)) =
      (if p = o_pair_id ord \<and> sd = o_side ord then insert (order_score ord, ?i) (set (zset_at d (book_key p sd)))
       else set (zset_at d (book_key p sd)))" for p sd
    by (auto simp: saved_zset)
  have inv: "book_inv X now (saved X ord d) p sd" for p sd
  proof (cases "p = o_pair_id ord \<and> sd = o_side ord")
    case True
    then show ?thesis using book_inv_saved [OF assms(1,3) z(2)] by simp
  next
    case False
    have "entry_ok X now (saved X ord d) p sd e" if "e \<in> set (zset_at d (book_key p sd))" for e
    proof -
      have "snd e \<noteq> ?i" using that ne unfolding z(1) by auto
      moreover have "entry_ok X now d p sd e" using z(2) [of p sd] that by (auto simp: book_inv_def list_all_iff)
      ultimately show ?thesis by (simp add: entry_ok_def stored_saved [OF assms(1) st])
    qed
    then show ?thesis using z(2) [of p sd] False by (auto simp: book_inv_def saved_zset list_all_iff)
  qed
  have "\<forall>o' \<in> set (ords @ [ord]). stored_order X now (saved X ord d) (x_uuid_str X (o_id o')) = Some (cached X now o')"
    using assms(2) ne by (auto simp: books_hold_def stored_saved [OF assms(1) st])
  moreover have "set (zset_at (saved X ord d) (book_key p sd)) =
      (\<lambda>ord. (order_score ord, x_uuid_str X (o_id ord))) ` {o' \<in> set (ords @ [ord]). o_pair_id o' = p \<and> o_side o' = sd}" for p sd
    unfolding other z(1) by auto
  moreover have "connected (saved X ord d)" using assms(2) by (simp add: books_hold_def)
  ultimately show ?thesis using inv by (simp add: books_hold_def)
qed

lemma books_hold_list:
  assumes "books_hold X now d ords"
  shows "set (book_list X now d p sd) = cached X now ` {ord \<in> set ords. o_pair_id ord = p \<and> o_side ord = sd}"
proof -
  have "set (book_list X now d p sd) = (\<lambda>e. the (stored_order X now d (snd e))) ` set (zset_at d (book_key p sd))"
    by (simp add: book_list_def)
  also have "set (zset_at d (book_key p sd)) =
      (\<lambda>ord. (order_score ord, x_uuid_str X (o_id ord))) ` {ord \<in> set ords. o_pair_id ord = p \<and> o_side ord = sd}"
    using assms by (simp add: books_hold_def)
  also have "(\<lambda>e. the (stored_order X now d (snd e))) ` \<dots> =
      (\<lambda>ord. the (stored_order X now d (x_uuid_str X (o_id ord)))) ` {ord \<in> set ords. o_pair_id ord = p \<and> o_side ord = sd}"
    by (simp add: image_image)
  also have "\<dots> = cached X now ` {ord \<in> set ords. o_pair_id ord = p \<and> o_side ord = sd}"
    using assms by (intro image_cong) (auto simp: books_hold_def)
  finally show ?thesis .
qed

lemma books_hold_empty:
  assumes "connected d" and "\<forall>p sd. zset_at d (book_key p sd) = []"
  shows "books_hold X now d []"
  using assms by (simp add: books_hold_def book_inv_def)

section \<open>The loop\<close>

lemma seed_rows_run:
  assumes "valkey_spec V \<alpha>" and "ext_spec X" and "books_hold X now (\<alpha> (w_vk w)) ords"
    and "\<forall>r \<in> set rows. \<exists>ord. seed_order r = Some ord \<and> bookable X ord"
    and "distinct (map or_id rows)" and "or_id ` set rows \<inter> o_id ` set ords = {}"
  shows "\<exists>w'. vforM (seed_row V X) rows w = (Inr (), w') \<and> w_pg w' = w_pg w \<and>
    books_hold X now (\<alpha> (w_vk w')) (ords @ map (\<lambda>r. the (seed_order r)) rows)"
  using assms(3-)
proof (induction rows arbitrary: w ords)
  case (Cons r rows)
  obtain ord where ord: "seed_order r = Some ord" "bookable X ord" using Cons.prems(2) by auto
  have id: "o_id ord = or_id r" using ord(1) by (auto simp: seed_order_def bind_eq_Some_conv)
  have "save_order_to_book ref_valkey X ord (\<alpha> (w_vk w)) = (Inr (), saved X ord (\<alpha> (w_vk w)))"
    using Cons.prems(1) by (intro run_save_order) (simp add: books_hold_def)
  from simulates_run [OF valkey_spec.sim_save_order_to_book [OF assms(1)] this]
  obtain s' where s': "save_order_to_book V X ord (w_vk w) = (Inr (), s')" "\<alpha> s' = saved X ord (\<alpha> (w_vk w))" by blast
  have hold: "books_hold X now (\<alpha> (w_vk (w\<lparr>w_vk := s'\<rparr>))) (ords @ [ord])"
    using books_hold_saved [OF assms(2) Cons.prems(1) ord(2)] Cons.prems(4) id s'(2) by auto
  have disj: "or_id ` set rows \<inter> o_id ` set (ords @ [ord]) = {}"
    using Cons.prems(3,4) id by auto
  from Cons.IH [OF hold _ _ disj] Cons.prems(2,3)
  obtain w' where "vforM (seed_row V X) rows (w\<lparr>w_vk := s'\<rparr>) = (Inr (), w')" "w_pg w' = w_pg w"
    "books_hold X now (\<alpha> (w_vk w')) ((ords @ [ord]) @ map (\<lambda>r. the (seed_order r)) rows)" by auto
  moreover have "seed_row V X r w = (Inr (), w\<lparr>w_vk := s'\<rparr>)" using s'(1) ord(1) by (simp add: seed_row_def on_vk_def)
  ultimately show ?case using ord(1) by (simp add: vbind_def)
qed (simp add: vret_def)

lemma resting_rows_facts:
  "set (resting_rows T) = {r \<in> set (tb_orders T). row_open r \<and> or_tif r = ''GTC''}"
  "distinct (map or_id (tb_orders T)) \<Longrightarrow> distinct (map or_id (resting_rows T))"
  by (auto simp: resting_rows_def distinct_map inj_on_def)

section \<open>Property\<close>


definition seed_world :: "(vdata, rat) world" where
  "seed_world = \<lparr>w_vk = empty_vdata, w_pg = (sample_db [])\<lparr>pg_tables := (pg_tables (sample_db []))
     \<lparr>tb_orders := [order_to_row 0 0 1 (grid_order 1 Buy 5 7 ''u1'')]\<rparr>\<rparr>, w_sent = []\<rparr>"


end
