(* ===== verification/Queue_Worker.thy ===== *)
theory Queue_Worker
  imports Gateway_Worker Metrics
begin

text \<open>
  The queue worker of \<open>crates/api\<close>: \<open>worker.rs\<close> (orders and cancellations taken from
  the queues, collected metrics, refresh of the cached views) and the start-up of
  \<open>main.rs\<close>. Its state is the services of \<open>World\<close> together with the channels of
  \<open>AppState\<close>: a channel is the list of the messages waiting in it. The tasks that a
  call spawns are recorded (\<open>aw_spawned\<close>: a persist task of its own).
  \<open>fresh\<close> and \<open>clock\<close> are as in \<open>Gateway_Worker\<close>; readings of the clock that only go
  to the log are left out.
\<close>

section \<open>State\<close>

definition PAIRS :: "string list" where
  "PAIRS = [''BTC-USDT'', ''ETH-USDT'', ''SOL-USDT'']"

text \<open>\<open>MetricsBatch\<close>: counters (\<open>u64\<close>, additions wrap) and samples per pair.\<close>

record metrics_batch =
  mb_order_counts :: "nat list"
  mb_trade_counts :: "nat list"
  mb_latency_samples :: "nat list list"

definition new_metrics_batch :: metrics_batch where
  "new_metrics_batch =
     \<lparr>mb_order_counts = [0, 0, 0], mb_trade_counts = [0, 0, 0], mb_latency_samples = [[], [], []]\<rparr>"

definition pair_index :: "string \<Rightarrow> nat" where
  "pair_index pair_id =
     (if pair_id = ''BTC-USDT'' then 0 else if pair_id = ''ETH-USDT'' then 1
      else if pair_id = ''SOL-USDT'' then 2 else 0)"

definition record_order :: "string \<Rightarrow> nat \<Rightarrow> nat \<Rightarrow> metrics_batch \<Rightarrow> metrics_batch" where
  "record_order pair_id trade_count lua_ms mb =
     (let idx = pair_index pair_id;
          samples = (mb_latency_samples mb ! idx) @ [lua_ms] in
      mb\<lparr>mb_order_counts := (mb_order_counts mb)[idx := (mb_order_counts mb ! idx + 1) mod 2 ^ 64],
         mb_trade_counts := (if trade_count > 0
           then (mb_trade_counts mb)[idx := (mb_trade_counts mb ! idx + trade_count) mod 2 ^ 64]
           else mb_trade_counts mb),
         mb_latency_samples := (mb_latency_samples mb)[idx := (if length samples > 1000 then drop 500 samples else samples)]\<rparr>)"

record ('s, 'd) api_state =
  aw_world :: "('s, 'd) world"
  aw_pairs_cache :: "(string \<times> 'd pair_config) list"
  aw_pair_keys :: "(string \<times> pair_keys) list"
  aw_persist :: "'d persist_job list"
  aw_spawned :: "'d persist_job list"
  aw_dirty_users :: "string list"
  aw_events :: "string list"
  aw_receivers :: nat
  aw_metrics :: metrics_batch
  aw_notified :: "bool list"

definition on_w :: "(('s, 'd) world, 'a) vm \<Rightarrow> (('s, 'd) api_state, 'a) vm" where
  "on_w m st = (case m (aw_world st) of (r, w) \<Rightarrow> (r, st\<lparr>aw_world := w\<rparr>))"

definition update_st :: "('w \<Rightarrow> 'w) \<Rightarrow> ('w, unit) vm" where
  "update_st f st = (Inr (), f st)"

text \<open>The capacities of the two bounded channels; \<open>try_send\<close> fails on a full one.\<close>

definition PERSIST_CAP :: nat where "PERSIST_CAP = 1000"
definition DIRTY_CAP :: nat where "DIRTY_CAP = 10000"

definition send_job :: "'d persist_job \<Rightarrow> ('s, 'd) api_state \<Rightarrow> ('s, 'd) api_state" where
  "send_job job st =
     (if length (aw_persist st) < PERSIST_CAP then st\<lparr>aw_persist := aw_persist st @ [job]\<rparr>
      else st\<lparr>aw_spawned := aw_spawned st @ [job]\<rparr>)"

definition send_dirty :: "string \<Rightarrow> ('s, 'd) api_state \<Rightarrow> ('s, 'd) api_state" where
  "send_dirty u st =
     (if length (aw_dirty_users st) < DIRTY_CAP then st\<lparr>aw_dirty_users := aw_dirty_users st @ [u]\<rparr> else st)"

text \<open>\<open>OrderbookDebouncer::mark_dirty\<close>: \<open>notify_one\<close> stores at most one permit.\<close>

definition mark_dirty :: "string \<Rightarrow> ('s, 'd) api_state \<Rightarrow> ('s, 'd) api_state" where
  "mark_dirty pair_id st = st\<lparr>aw_notified := (aw_notified st)[pair_index pair_id := True]\<rparr>"

section \<open>Metrics\<close>

text \<open>One pair of \<open>flush\<close>: the counters are swapped out first, errors are ignored.\<close>

definition flush_pair :: "'s valkey \<Rightarrow> nat \<times> string \<Rightarrow> (('s, 'd) api_state, unit) vm" where
  "flush_pair V ip st =
     (case ip of (i, pair_id) \<Rightarrow>
       let mb = aw_metrics st;
           orders = mb_order_counts mb ! i; trades = mb_trade_counts mb ! i; samples = mb_latency_samples mb ! i;
           st' = st\<lparr>aw_metrics := mb\<lparr>mb_order_counts := (mb_order_counts mb)[i := 0],
             mb_trade_counts := (mb_trade_counts mb)[i := 0],
             mb_latency_samples := (mb_latency_samples mb)[i := []]\<rparr>\<rparr> in
       on_w (on_vk (
         vbind (if orders > 0 then vor (increment_order_count_by V pair_id orders) 0 else vret 0) (\<lambda>_.
         vbind (if trades > 0 then vor (increment_trade_count V pair_id trades) 0 else vret 0) (\<lambda>_.
         vforM (\<lambda>ms. vor (record_match_latency V pair_id ms) ()) samples)))) st')"

definition flush :: "'s valkey \<Rightarrow> (('s, 'd) api_state, unit) vm" where
  "flush V = vforM (flush_pair V) (zip [0..<length PAIRS] PAIRS)"

section \<open>Cached views\<close>

definition orderbook_json :: "string \<Rightarrow> json list \<Rightarrow> json list \<Rightarrow> json" where
  "orderbook_json pair_id bids asks = jobj [(''pair'', JText pair_id), (''bids'', JArr bids), (''asks'', JArr asks)]"

definition rebuild_orderbook_cache ::
  "'s valkey \<Rightarrow> 'd::floor_ceiling ext \<Rightarrow> json_ext \<Rightarrow> string \<Rightarrow> (('s, 'd) world, unit) vm" where
  "rebuild_orderbook_cache V X J pair_id =
     vbind (on_vk (orderbook_snapshot_lua V X pair_id 50)) (\<lambda>(bids, asks).
     on_vk (set_and_publish V (''cache:orderbook:'' @ pair_id)
       (js_str J (orderbook_json pair_id (map level_json bids) (map level_json asks)))))"

text \<open>One round of a debounce task: the permit is taken, an error is only logged.\<close>

definition debounce_round ::
  "'s valkey \<Rightarrow> 'd::floor_ceiling ext \<Rightarrow> json_ext \<Rightarrow> nat \<times> string \<Rightarrow> (('s, 'd) api_state, unit) vm" where
  "debounce_round V X J ip st =
     (case ip of (i, pair_id) \<Rightarrow>
       if aw_notified st ! i
       then vor (on_w (rebuild_orderbook_cache V X J pair_id)) () (st\<lparr>aw_notified := (aw_notified st)[i := False]\<rparr>)
       else (Inr (), st))"

text \<open>\<open>aggregate_levels\<close>: a \<open>BTreeMap\<close> from the text of a price, so in the order of the texts.\<close>

definition add_price :: "'d::plus ext \<Rightarrow> 'd order \<Rightarrow> (string \<times> 'd) list \<Rightarrow> (string \<times> 'd) list" where
  "add_price X ord m =
     (case o_price ord of None \<Rightarrow> m
      | Some p \<Rightarrow>
          let k = x_dec_str X p in
          (case map_of m k of
             None \<Rightarrow> insort_key fst (k, o_remaining ord) m
           | Some q \<Rightarrow> map (\<lambda>(k', q'). if k' = k then (k', q' + o_remaining ord) else (k', q')) m))"

definition aggregate_levels :: "'d::plus ext \<Rightarrow> 'd order list \<Rightarrow> json list" where
  "aggregate_levels X orders =
     map (\<lambda>(price, qty). jobj [(''price'', JText price), (''quantity'', JText (x_dec_str X qty))])
       (fold (add_price X) orders [])"

definition update_order_cache_after_processing ::
  "'s valkey \<Rightarrow> 'd::floor_ceiling ext \<Rightarrow> json_ext \<Rightarrow> instant \<Rightarrow> 'd order \<Rightarrow> json list \<Rightarrow> (('s, 'd) world, unit) vm" where
  "update_order_cache_after_processing V X J now ord trade_jsons =
     (let order_rested = (o_status ord = New \<or> o_status ord = PartiallyFilled);
          had_trades = (trade_jsons \<noteq> []);
          p = o_pair_id ord in
      if \<not> had_trades \<and> \<not> order_rested then vret ()
      else on_vk (
        vbind (vk_conn V) (\<lambda>_.
        vbind (load_order_book_batched V X now p Buy 0 50) (\<lambda>bids.
        vbind (load_order_book_batched V X now p Sell 0 50) (\<lambda>asks.
        vk_set V (''cache:orderbook:'' @ p)
          (js_str J (orderbook_json p (aggregate_levels X bids) (aggregate_levels X asks))))))))"

definition update_ticker_caches ::
  "'s valkey \<Rightarrow> 'd::floor_ceiling ext \<Rightarrow> json_ext \<Rightarrow> instant \<Rightarrow> (('s, 'd) world, unit) vm" where
  "update_ticker_caches V X J db_now =
     vforM (\<lambda>pair_id.
       vbind (on_pg (pg_query (ticker_stats db_now pair_id))) (\<lambda>stats.
       vbind (on_pg (pg_query (last_price pair_id))) (\<lambda>lst.
       on_vk (set_and_publish V (''cache:ticker:'' @ pair_id) (js_str J (ticker_json X pair_id stats lst)))))) PAIRS"

definition update_trades_caches :: "'s valkey \<Rightarrow> 'd ext \<Rightarrow> json_ext \<Rightarrow> (('s, 'd) world, unit) vm" where
  "update_trades_caches V X J =
     vforM (\<lambda>pair_id.
       vbind (on_pg (pg_query (\<lambda>T. take 50 (newest_first (pair_trades pair_id T))))) (\<lambda>rows.
       on_vk (set_and_publish V (''cache:trades:'' @ pair_id)
         (js_str J (jobj [(''pair'', JText pair_id), (''trades'', JArr (map (trade_row_json X) rows))]))))) PAIRS"

definition update_portfolio_caches_for_users ::
  "'s valkey \<Rightarrow> 'd ext \<Rightarrow> json_ext \<Rightarrow> string list \<Rightarrow> (('s, 'd) world, unit) vm" where
  "update_portfolio_caches_for_users V X J user_ids =
     (if user_ids = [] then vret ()
      else
        vbind (on_vk (vk_conn V)) (\<lambda>_.
        vforM (\<lambda>u.
          vbind (on_pg (pg_query (\<lambda>T. sort_key b_asset (filter (\<lambda>b. b_user_id b = u) (tb_balances T))))) (\<lambda>rows.
          on_vk (vk_set V (''cache:portfolio:'' @ u)
            (js_str J (jobj [(''balances'', JArr (map (balance_json X) rows))]))))) user_ids))"

text \<open>
  One tick of \<open>cache_refresh_worker\<close>: errors are only logged; the users are drained
  from the channel into a set.
\<close>

definition cache_refresh_tick ::
  "'s valkey \<Rightarrow> 'd::floor_ceiling ext \<Rightarrow> json_ext \<Rightarrow> instant \<Rightarrow> (('s, 'd) api_state, unit) vm" where
  "cache_refresh_tick V X J db_now =
     vbind (vtry (on_w (update_ticker_caches V X J db_now))) (\<lambda>_.
     vbind (vtry (on_w (update_trades_caches V X J))) (\<lambda>_.
     (\<lambda>st. let dirty = remdups (aw_dirty_users st); st' = st\<lparr>aw_dirty_users := []\<rparr> in
        if dirty \<noteq> [] then vor (on_w (update_portfolio_caches_for_users V X J dirty)) () st' else (Inr (), st'))))"

section \<open>Orders from the queue\<close>

text \<open>\<open>QueuedOrderMsg\<close> of the worker: the identifier is required, \<open>time_in_force\<close> is not a field.\<close>

definition parse_queued_msg :: "json \<Rightarrow> queued_order_msg result" where
  "parse_queued_msg j =
     result_bind (req_str j ''id'') (\<lambda>i.
     result_bind (str_or j ''user_id'' ''user-1'') (\<lambda>u.
     result_bind (req_str j ''pair_id'') (\<lambda>p.
     result_bind (req_str j ''side'') (\<lambda>sd.
     result_bind (req_str j ''order_type'') (\<lambda>ot.
     result_bind (str_or j ''tif'' ''GTC'') (\<lambda>tif.
     result_bind (opt_str j ''price'') (\<lambda>price.
     result_bind (req_str j ''quantity'') (\<lambda>q.
     result_bind (opt_str j ''stp_mode'') (\<lambda>stp.
     result_bind (opt_str j ''client_order_id'') (\<lambda>coid.
     result_bind (opt_str j ''created_at'') (\<lambda>cr.
     result_bind (opt_str j ''received_at'') (\<lambda>rc.
     Inr \<lparr>qm_id = Some i, qm_user_id = u, qm_pair_id = p, qm_side = sd, qm_order_type = ot, qm_tif = tif,
          qm_price = price, qm_quantity = q, qm_stp_mode = stp, qm_client_order_id = coid,
          qm_created_at = cr, qm_received_at = rc, qm_time_in_force = None\<rparr>))))))))))))"

text \<open>Unlike the gateway, the worker does not check the sign of the quantity nor the presence of a price.\<close>

definition queued_order :: "'d ext \<Rightarrow> (nat \<Rightarrow> instant) \<Rightarrow> queued_order_msg \<Rightarrow> 'd order result" where
  "queued_order X clock m =
     result_bind (ok_or (ParseError ''invalid order id'') (x_uuid_parse X (option_or (qm_id m) []))) (\<lambda>oid.
     result_bind (ok_or (Invalid ''invalid side'') (parse_side (qm_side m))) (\<lambda>sd.
     result_bind (ok_or (Invalid ''invalid order_type'') (parse_order_type (qm_order_type m))) (\<lambda>ot.
     let price = Option.bind (qm_price m) (x_dec_parse X) in
     result_bind (ok_or (Invalid ''invalid quantity'') (x_dec_parse X (qm_quantity m))) (\<lambda>quantity.
     let created = option_or (Option.bind (qm_created_at m) (x_time_parse X)) (clock 0);
         received = option_or (Option.bind (qm_received_at m) (x_time_parse X)) created
     in Inr \<lparr>o_id = oid, o_user_id = qm_user_id m, o_pair_id = qm_pair_id m, o_side = sd,
          o_order_type = ot, o_tif = parse_tif_msg (qm_tif m), o_price = price, o_quantity = quantity,
          o_remaining = quantity, o_status = New, o_stp_mode = parse_stp_msg (option_or (qm_stp_mode m) ''None''),
          o_version = 1, o_sequence = 0, o_created_at = created, o_updated_at = clock 1,
          o_client_order_id = qm_client_order_id m, o_received_at = Some received, o_matched_at = None,
          o_persisted_at = None\<rparr>))))"

definition read_queued_order :: "'d ext \<Rightarrow> json_ext \<Rightarrow> (nat \<Rightarrow> instant) \<Rightarrow> string \<Rightarrow> 'd order result" where
  "read_queued_order X J clock order_str =
     result_bind (ok_or bad_payload (js_parse J order_str)) (\<lambda>j.
     result_bind (parse_queued_msg j) (queued_order X clock))"

text \<open>The users whose portfolios have changed: the owner, then the counterparties of each trade.\<close>

definition notify_users :: "string \<Rightarrow> 'd lua_trade list \<Rightarrow> string list" where
  "notify_users user_id lts =
     user_id # concat (map (\<lambda>lt. filter (\<lambda>u. u \<noteq> user_id) [lt_buyer_id lt, lt_seller_id lt]) lts)"

definition order_event :: "'d ext \<Rightarrow> json_ext \<Rightarrow> 'd order \<Rightarrow> 'd trade list \<Rightarrow> string" where
  "order_event X J ord trades =
     js_str J (jobj [(''type'', JText ''order_created''), (''user_id'', JText (o_user_id ord)),
                     (''order'', order_to_json X ord), (''trades'', JArr (map (trade_to_json X) trades))])"

text \<open>What follows a match: metrics, dirty users, the persist job, the event, the debouncer.\<close>

definition after_match ::
  "'d ext \<Rightarrow> json_ext \<Rightarrow> nat \<Rightarrow> 'd order \<Rightarrow> 'd trade list \<Rightarrow> 'd lua_trade list \<Rightarrow> ('s, 'd) api_state \<Rightarrow> ('s, 'd) api_state" where
  "after_match X J lua_ms ord trades lts st =
     (let had_trades = (lts \<noteq> []);
          order_rested = (o_status ord = New \<or> o_status ord = PartiallyFilled);
          st1 = st\<lparr>aw_metrics := record_order (o_pair_id ord) (length lts) lua_ms (aw_metrics st)\<rparr>;
          st2 = fold send_dirty (notify_users (o_user_id ord) lts) st1;
          st3 = send_job \<lparr>pj_order = ord, pj_trades = trades, pj_lua_trades = lts\<rparr> st2;
          st4 = (if had_trades \<and> aw_receivers st > 0
                 then st3\<lparr>aw_events := aw_events st3 @ [order_event X J ord trades]\<rparr> else st3)
      in if had_trades \<or> order_rested then mark_dirty (o_pair_id ord) st4 else st4)"

definition process_queued_order ::
  "'s valkey \<Rightarrow> 'd::floor_ceiling ext \<Rightarrow> json_ext \<Rightarrow> (nat \<Rightarrow> uuid) \<Rightarrow> (nat \<Rightarrow> instant) \<Rightarrow> nat \<Rightarrow> string
   \<Rightarrow> (('s, 'd) api_state, unit) vm" where
  "process_queued_order V X J fresh clock lua_ms order_str st =
     vbind (vlift (read_queued_order X J clock order_str)) (\<lambda>ord.
     vbind (vlift (validate_order_request (map_of (aw_pairs_cache st)) ord)) (\<lambda>_.
     vbind (vlift (lock_params ord)) (\<lambda>(lock_asset, lock_amount).
     if o_tif ord = FOK
     then on_w (update_order_cache_after_processing V X J (clock 2) (ord\<lparr>o_status := Cancelled\<rparr>) [])
     else
       vbind (vlift (ok_or (UnknownPair (o_pair_id ord)) (map_of (aw_pair_keys st) (o_pair_id ord)))) (\<lambda>keys.
       vbind (on_w (on_vk (match_order_lua V X ord keys lock_asset lock_amount))) (\<lambda>res.
       let ord' = matched_order clock ord res;
           trades = build_trades fresh (clock 3) ord' (lr_trades res) in
       update_st (after_match X J lua_ms ord' trades (lr_trades res))))))) st"

text \<open>What one wake-up of \<open>pair_order_consumer\<close> takes from its queue: at most ten orders.\<close>

fun drain_queue :: "'s valkey \<Rightarrow> string \<Rightarrow> nat \<Rightarrow> ('s, string list) vm" where
  "drain_queue V queue_key 0 = vret []"
| "drain_queue V queue_key (Suc n) =
     vbind (vor (vk_rpop V queue_key) None) (\<lambda>extra.
     case extra of None \<Rightarrow> vret []
     | Some s \<Rightarrow> vbind (drain_queue V queue_key n) (\<lambda>rest. vret (s # rest)))"

definition take_batch :: "'s valkey \<Rightarrow> string \<Rightarrow> ('s, string list) vm" where
  "take_batch V queue_key =
     vbind (vk_rpop V queue_key) (\<lambda>first.
     case first of None \<Rightarrow> vret []
     | Some s \<Rightarrow> vbind (drain_queue V queue_key 9) (\<lambda>rest. vret (s # rest)))"

section \<open>Cancellations\<close>

definition cancelled_order :: "(nat \<Rightarrow> instant) \<Rightarrow> uuid \<Rightarrow> string \<Rightarrow> 'd order_row \<Rightarrow> 'd order" where
  "cancelled_order clock oid user_id r =
     \<lparr>o_id = oid, o_user_id = user_id, o_pair_id = or_pair_id r,
      o_side = (if or_side r = ''Buy'' then Buy else Sell), o_order_type = Limit, o_tif = GTC,
      o_price = or_price r, o_quantity = or_remaining r, o_remaining = or_remaining r, o_status = Cancelled,
      o_stp_mode = StpNone, o_version = 1, o_sequence = 0, o_created_at = clock 0, o_updated_at = clock 1,
      o_client_order_id = None, o_received_at = None, o_matched_at = None, o_persisted_at = None\<rparr>"

definition cancel_release :: "'d::floor_ceiling order_row \<Rightarrow> string \<times> 'd" where
  "cancel_release r =
     (if or_side r = ''Buy'' then (''USDT'', or_remaining r * option_or (or_price r) 0)
      else (hd (split_on (CHR ''-'') (or_pair_id r)), or_remaining r))"

text \<open>\<open>UPDATE balances SET locked = locked - $1, available = available + $1\<close>, not cut off at zero.\<close>

definition unlock_row :: "'d::floor_ceiling \<Rightarrow> 'd balance \<Rightarrow> 'd balance" where
  "unlock_row amount b = b\<lparr>b_locked := b_locked b - amount, b_available := b_available b + amount\<rparr>"

definition cancel_row :: "instant \<Rightarrow> 'd::zero order_row \<Rightarrow> 'd order_row" where
  "cancel_row db_now r = r\<lparr>or_status := ''Cancelled'', or_remaining := 0, or_updated_at := db_now\<rparr>"

definition do_cancel ::
  "'s valkey \<Rightarrow> 'd::floor_ceiling ext \<Rightarrow> (nat \<Rightarrow> instant) \<Rightarrow> instant \<Rightarrow> uuid \<Rightarrow> string \<Rightarrow> 'd order_row
   \<Rightarrow> (('s, 'd) world, unit) vm" where
  "do_cancel V X clock db_now oid user_id r =
     vbind (on_vk (remove_order_from_book V X (cancelled_order clock oid user_id r))) (\<lambda>_.
     vbind (on_pg (pg_stmt (\<lambda>T. (Inr (), orders_update (\<lambda>r. or_id r = oid) (cancel_row db_now) T)))) (\<lambda>_.
     case cancel_release r of (asset, amount) \<Rightarrow>
       on_pg (pg_stmt (\<lambda>T. (Inr (), balances_update (balance_is user_id asset) (unlock_row amount) T)))))"

definition text_or :: "json \<Rightarrow> string \<Rightarrow> string \<Rightarrow> string" where
  "text_or j k d = option_or (Option.bind (jget j k) jstr) d"

definition cancel_one ::
  "'s valkey \<Rightarrow> 'd::floor_ceiling ext \<Rightarrow> (nat \<Rightarrow> instant) \<Rightarrow> instant \<Rightarrow> json \<Rightarrow> (('s, 'd) api_state, unit) vm" where
  "cancel_one V X clock db_now j =
     vbind (vlift (ok_or (Invalid ''missing order_id'') (Option.bind (jget j ''order_id'') jstr))) (\<lambda>oid_str.
     vbind (vlift (ok_or (ParseError ''invalid order id'') (x_uuid_parse X oid_str))) (\<lambda>oid.
     let user_id = text_or j ''user_id'' [] in
     vbind (on_w (on_pg (pg_query (\<lambda>T. find (\<lambda>r. or_id r = oid \<and> or_user_id r = user_id) (tb_orders T))))) (\<lambda>row.
     case row of None \<Rightarrow> vret ()
     | Some r \<Rightarrow>
         if \<not> row_open r then vret ()
         else vbind (on_w (do_cancel V X clock db_now oid user_id r)) (\<lambda>_. update_st (send_dirty user_id)))))"

definition cancel_msg :: "json_ext \<Rightarrow> string \<Rightarrow> string \<Rightarrow> string" where
  "cancel_msg J oid_str user_id =
     js_str J (jobj [(''type'', JText ''cancel''), (''order_id'', JText oid_str), (''user_id'', JText user_id)])"

text \<open>\<open>cancel_all\<close>: the open orders of a user, of one pair when the message names one.\<close>

definition open_rows :: "string \<Rightarrow> string option \<Rightarrow> 'd tables \<Rightarrow> 'd order_row list" where
  "open_rows user_id pair_id T =
     filter (\<lambda>r. or_user_id r = user_id \<and> (case pair_id of None \<Rightarrow> True | Some p \<Rightarrow> or_pair_id r = p) \<and> row_open r)
       (tb_orders T)"

definition replacement_queue :: "json \<Rightarrow> string" where
  "replacement_queue new_order =
     (case Option.bind (jget new_order ''pair_id'') jstr of
        Some p \<Rightarrow> ''queue:orders:'' @ p | None \<Rightarrow> ''queue:orders'')"

text \<open>
  \<open>process_cancellation\<close>. It calls itself with a message of the type \<open>cancel\<close>; the
  fuel bounds the depth, two levels are enough.
\<close>

fun process_cancellation ::
  "'s valkey \<Rightarrow> 'd::floor_ceiling ext \<Rightarrow> json_ext \<Rightarrow> (nat \<Rightarrow> instant) \<Rightarrow> instant \<Rightarrow> nat \<Rightarrow> string
   \<Rightarrow> (('s, 'd) api_state, unit) vm" where
  "process_cancellation V X J clock db_now 0 cancel_str = vfail (Invalid ''no fuel'')"
| "process_cancellation V X J clock db_now (Suc n) cancel_str =
     vbind (vlift (ok_or (ParseError ''invalid JSON'') (js_parse J cancel_str))) (\<lambda>j.
     let cancel_type = text_or j ''type'' ''cancel'' in
     if cancel_type = ''cancel'' then cancel_one V X clock db_now j
     else if cancel_type = ''modify'' then
       vbind (vlift (ok_or (Invalid ''missing order_id'') (Option.bind (jget j ''order_id'') jstr))) (\<lambda>oid_str.
       vbind (process_cancellation V X J clock db_now n (cancel_msg J oid_str (text_or j ''user_id'' []))) (\<lambda>_.
       case jget j ''new_order'' of None \<Rightarrow> vret ()
       | Some new_order \<Rightarrow>
           on_w (on_vk (vbind (vk_conn V) (\<lambda>_. vk_lpush V (replacement_queue new_order) (js_str J new_order))))))
     else if cancel_type = ''cancel_all'' then
       let user_id = text_or j ''user_id'' ''user-1''; pair_id = Option.bind (jget j ''pair_id'') jstr in
       vbind (on_w (on_pg (pg_query (open_rows user_id pair_id)))) (\<lambda>rows.
       vforM (\<lambda>r. vor (process_cancellation V X J clock db_now n
                          (cancel_msg J (x_uuid_str X (or_id r)) user_id)) ()) rows)
     else vret ())"

section \<open>Start-up\<close>

text \<open>\<open>INSERT INTO pairs ... ON CONFLICT DO NOTHING\<close> and the balances of the ten test users.\<close>

definition pairs_insert :: "'d pair \<Rightarrow> 'd tables \<Rightarrow> unit result \<times> 'd tables" where
  "pairs_insert p T =
     (if length (p_id p) > 20 \<or> length (p_base p) > 10 \<or> length (p_quote p) > 10 then (Inl DbError, T)
      else if p_id p \<in> p_id ` set (tb_pairs T) then (Inr (), T)
      else (Inr (), T\<lparr>tb_pairs := tb_pairs T @ [p]\<rparr>))"

definition balances_top_up :: "string \<Rightarrow> string \<Rightarrow> 'd::floor_ceiling \<Rightarrow> 'd tables \<Rightarrow> unit result \<times> 'd tables" where
  "balances_top_up u a avail T =
     (if length u > 50 \<or> length a > 10 then (Inl DbError, T)
      else if \<exists>b \<in> set (tb_balances T). balance_is u a b
      then (Inr (), balances_update (balance_is u a) (\<lambda>b. b\<lparr>b_available := max (b_available b) avail\<rparr>) T)
      else (Inr (), T\<lparr>tb_balances := tb_balances T @
             [\<lparr>b_user_id = u, b_asset = a, b_available = avail, b_locked = 0\<rparr>]\<rparr>))"

definition seed_pairs :: "'d::floor_ceiling pair list" where
  "seed_pairs =
     [\<lparr>p_id = ''BTC-USDT'', p_base = ''BTC'', p_quote = ''USDT'', p_tick_size = 1 / 100, p_lot_size = 1 / 100000,
       p_min_order_size = 1 / 100000, p_max_order_size = 100, p_price_precision = 2, p_qty_precision = 5,
       p_price_band_pct = 1 / 10, p_active = True\<rparr>,
      \<lparr>p_id = ''ETH-USDT'', p_base = ''ETH'', p_quote = ''USDT'', p_tick_size = 1 / 100, p_lot_size = 1 / 10000,
       p_min_order_size = 1 / 10000, p_max_order_size = 1000, p_price_precision = 2, p_qty_precision = 4,
       p_price_band_pct = 1 / 10, p_active = True\<rparr>,
      \<lparr>p_id = ''SOL-USDT'', p_base = ''SOL'', p_quote = ''USDT'', p_tick_size = 1 / 1000, p_lot_size = 1 / 100,
       p_min_order_size = 1 / 100, p_max_order_size = 10000, p_price_precision = 3, p_qty_precision = 2,
       p_price_band_pct = 1 / 10, p_active = True\<rparr>]"

definition seed_balances :: "(string \<times> string \<times> 'd::floor_ceiling) list" where
  "seed_balances =
     concat (map (\<lambda>n. map (\<lambda>(a, avail). (''user-'' @ string_of_nat n, a, avail))
       [(''BTC'', 10000), (''ETH'', 100000), (''SOL'', 1000000), (''USDT'', 1000000000)]) [1..<11])"

definition run_seed :: "('d::floor_ceiling pg, unit) vm" where
  "run_seed =
     vbind (vforM (\<lambda>p. pg_stmt (pairs_insert p)) seed_pairs) (\<lambda>_.
     vforM (\<lambda>(u, a, avail). pg_stmt (balances_top_up u a avail)) seed_balances)"

definition empty_views :: "string \<Rightarrow> (string \<times> json) list" where
  "empty_views pair_id =
     [(''cache:orderbook:'' @ pair_id, orderbook_json pair_id [] []),
      (''cache:ticker:'' @ pair_id, jobj [(''pair'', JText pair_id), (''last'', JNull), (''high_24h'', JNull),
         (''low_24h'', JNull), (''volume_24h'', JNull)]),
      (''cache:trades:'' @ pair_id, jobj [(''pair'', JText pair_id), (''trades'', JArr [])])]"

text \<open>The literal texts of the last five keys.\<close>

definition empty_globals :: "(string \<times> string) list" where
  "empty_globals =
     [(''cache:metrics'', ''{}''), (''cache:lock_metrics'', ''{}''),
      (''cache:throughput'', ''{'' @ quoted ''series'' @ '':[]}''), (''cache:latency_metrics'', ''{}''),
      (''cache:audit'', ''{'' @ quoted ''audit'' @ '':[],'' @ quoted ''events'' @ '':[]}'')]"

definition initialize_cache_keys ::
  "'s valkey \<Rightarrow> 'd ext \<Rightarrow> json_ext \<Rightarrow> string list \<Rightarrow> (('s, 'd) world, unit) vm" where
  "initialize_cache_keys V X J pair_ids =
     vbind (on_pg (pg_query (\<lambda>T. filter p_active (tb_pairs T)))) (\<lambda>rows.
     vbind (on_vk (set_and_publish V ''cache:pairs'' (js_str J (jobj [(''pairs'', JArr (map (pair_json X) rows))])))) (\<lambda>_.
     vbind (vforM (\<lambda>(k, v). on_vk (set_and_publish V k (js_str J v))) (concat (map empty_views pair_ids))) (\<lambda>_.
     vforM (\<lambda>(k, v). on_vk (set_and_publish V k v)) empty_globals)))"

text \<open>
  What \<open>main\<close> does with the services between the migrations and the start of the
  tasks, and the balances, which it loads last.
\<close>

definition start_worker ::
  "'s valkey \<Rightarrow> 'd::floor_ceiling ext \<Rightarrow> json_ext \<Rightarrow> instant \<Rightarrow> (('s, 'd) world, (string \<times> 'd pair_config) list) vm" where
  "start_worker V X J db_now =
     vbind (on_pg run_seed) (\<lambda>_.
     vbind load_pairs_cache (\<lambda>pairs_cache.
     let pair_ids = map fst pairs_cache in
     vbind (initialize_cache_keys V X J pair_ids) (\<lambda>_.
     vbind (seed_orderbook_from_pg V X) (\<lambda>_.
     vbind (seed_ticker_from_pg V X J db_now pair_ids) (\<lambda>_.
     vbind (init_balances_from_pg V) (\<lambda>_. vret pairs_cache))))))"

end
