(* ===== verification/Gateway_Routes.thy ===== *)
theory Gateway_Routes
  imports Gateway_Worker
begin

text \<open>
  The HTTP handlers of the gateway (\<open>crates/gateway/src/routes.rs\<close>) and the values it
  mirrors in memory (\<open>lib.rs\<close>). A handler returns a status and a body, or an error
  that \<open>AppError\<close> turns into a response. \<open>now_ms\<close> is the monotonic clock in
  milliseconds, \<open>now\<close> the value of \<open>Utc::now\<close>.
\<close>

section \<open>Mirrored values\<close>

text \<open>\<open>CacheEntry\<close>: the latest value, the values sent to the websocket clients, the time of the last one.\<close>

record cache_entry =
  ce_latest :: "string option"
  ce_sent :: "string list"
  ce_last_broadcast :: int

type_synonym cache_broadcasts = "string \<rightharpoonup> cache_entry"

definition WS_BROADCAST_INTERVAL_MS :: int where "WS_BROADCAST_INTERVAL_MS = 100"

definition get_latest :: "cache_broadcasts \<Rightarrow> string \<Rightarrow> string option" where
  "get_latest cache key = Option.bind (cache key) ce_latest"

definition cache_update :: "int \<Rightarrow> string \<Rightarrow> string \<Rightarrow> cache_broadcasts \<Rightarrow> cache_broadcasts" where
  "cache_update now_ms key val cache =
     (case cache key of None \<Rightarrow> cache
      | Some e \<Rightarrow>
          cache(key \<mapsto>
            (if now_ms - ce_last_broadcast e \<ge> WS_BROADCAST_INTERVAL_MS
             then e\<lparr>ce_latest := Some val, ce_sent := ce_sent e @ [val], ce_last_broadcast := now_ms\<rparr>
             else e\<lparr>ce_latest := Some val\<rparr>)))"

definition update_if_set :: "int \<Rightarrow> string \<Rightarrow> string \<Rightarrow> cache_broadcasts \<Rightarrow> cache_broadcasts" where
  "update_if_set now_ms key val cache =
     (if val \<noteq> [] \<and> val \<noteq> ''{}'' then cache_update now_ms key val cache else cache)"

text \<open>One message of the subscription: split at the first line feed.\<close>

definition receive_update :: "int \<Rightarrow> string \<Rightarrow> cache_broadcasts \<Rightarrow> cache_broadcasts" where
  "receive_update now_ms payload cache =
     (case dropWhile (\<lambda>c. c \<noteq> CHR 0x0A) payload of
        [] \<Rightarrow> cache
      | _ # val \<Rightarrow> update_if_set now_ms (takeWhile (\<lambda>c. c \<noteq> CHR 0x0A) payload) val cache)"

text \<open>A reading of all keys, at the start and every 30 seconds; errors are ignored.\<close>

definition poll_key :: "'s valkey \<Rightarrow> int \<Rightarrow> string \<Rightarrow> cache_broadcasts \<Rightarrow> ('s, cache_broadcasts) vm" where
  "poll_key V now_ms key cache =
     vbind (vor (vk_get V key) None) (\<lambda>val.
     vret (case val of None \<Rightarrow> cache | Some v \<Rightarrow> update_if_set now_ms key v cache))"

definition poll_all :: "'s valkey \<Rightarrow> int \<Rightarrow> string list \<Rightarrow> cache_broadcasts \<Rightarrow> ('s, cache_broadcasts) vm" where
  "poll_all V now_ms keys cache =
     vor (vbind (vk_conn V) (\<lambda>_. vfoldM (poll_key V now_ms) keys cache)) cache"

definition poll_specs :: "string list" where
  "poll_specs =
     concat (map (\<lambda>p. [''cache:orderbook:'' @ p, ''cache:trades:'' @ p, ''cache:ticker:'' @ p])
       [''BTC-USDT'', ''ETH-USDT'', ''SOL-USDT'']) @
     [''cache:metrics'', ''cache:lock_metrics'', ''cache:throughput'', ''cache:latency_metrics'', ''cache:audit'',
      ''cache:pairs'']"

definition new_cache :: "int \<Rightarrow> cache_broadcasts" where
  "new_cache now_ms key =
     (if key \<in> set poll_specs then Some \<lparr>ce_latest = None, ce_sent = [], ce_last_broadcast = now_ms\<rparr> else None)"

section \<open>Per-user cache\<close>

definition USER_CACHE_TTL_MS :: int where "USER_CACHE_TTL_MS = 2000"

type_synonym user_cache = "(string \<times> int \<times> string) list"

definition user_cache_get :: "int \<Rightarrow> string \<Rightarrow> user_cache \<Rightarrow> string option" where
  "user_cache_get now_ms key m =
     (case map_of m key of
        Some (ts, val) \<Rightarrow> if now_ms - ts < USER_CACHE_TTL_MS then Some val else None
      | None \<Rightarrow> None)"

definition user_cache_set :: "int \<Rightarrow> string \<Rightarrow> string \<Rightarrow> user_cache \<Rightarrow> user_cache" where
  "user_cache_set now_ms key val m =
     (let m' = (key, now_ms, val) # filter (\<lambda>e. fst e \<noteq> key) m in
      if length m' > 1000 then filter (\<lambda>(_, ts, _). now_ms - ts < USER_CACHE_TTL_MS * 2) m' else m')"

section \<open>Responses\<close>

datatype body = Raw string | Body json

type_synonym response = "nat \<times> body"

text \<open>\<open>AppError\<close>: the checks of the handlers are bad requests, every other error is internal.\<close>

fun error_status :: "error \<Rightarrow> nat" where
  "error_status (Invalid _) = 400"
| "error_status _ = 500"

fun error_text :: "error \<Rightarrow> string" where
  "error_text (Invalid m) = m"
| "error_text (ParseError m) = m"
| "error_text (CommandError m) = m"
| "error_text (ScriptError m) = m"
| "error_text _ = ''internal error''"

definition respond :: "('w, response) vm \<Rightarrow> 'w \<Rightarrow> response \<times> 'w" where
  "respond h w =
     (case h w of (Inr r, w') \<Rightarrow> (r, w')
      | (Inl e, w') \<Rightarrow> ((error_status e, Body (jobj [(''error'', JText (error_text e))])), w'))"

datatype dispatch_mode = Queue | Inline

record ('s, 'd) gw_state =
  gs_world :: "('s, 'd) world"
  gs_cache :: cache_broadcasts
  gs_user_cache :: user_cache
  gs_memo :: "'d worker_state option"

definition on_gw :: "(('s, 'd) world, 'a) vm \<Rightarrow> (('s, 'd) gw_state, 'a) vm" where
  "on_gw m g = (case m (gs_world g) of (r, w) \<Rightarrow> (r, g\<lparr>gs_world := w\<rparr>))"

text \<open>
  The state \<open>build_router\<close> makes: the mirrored values, read once from the service, and
  the mode given by the environment variable \<open>ORDER_DISPATCH_MODE\<close>.
\<close>

definition dispatch_mode_of :: "string option \<Rightarrow> dispatch_mode" where
  "dispatch_mode_of env = (if env = Some ''inline'' then Inline else Queue)"

definition warm_cache :: "'s valkey \<Rightarrow> int \<Rightarrow> ('s, cache_broadcasts) vm" where
  "warm_cache V now_ms = poll_all V now_ms poll_specs (new_cache now_ms)"

section \<open>Reading handlers\<close>

definition cached_or :: "string \<Rightarrow> string \<Rightarrow> (('s, 'd) gw_state, response) vm" where
  "cached_or key dflt g = (Inr (200, Raw (option_or (get_latest (gs_cache g) key) dflt)), g)"

definition list_pairs :: "(('s, 'd) gw_state, response) vm" where
  "list_pairs = cached_or ''cache:pairs'' (''{'' @ quoted ''pairs'' @ '':[]}'')"

definition truncate_field :: "nat \<Rightarrow> string \<times> json \<Rightarrow> string \<times> json" where
  "truncate_field depth f =
     (case f of (k, JArr xs) \<Rightarrow> if k = ''bids'' \<or> k = ''asks'' then (k, JArr (take depth xs)) else f | _ \<Rightarrow> f)"

definition truncate_orderbook_depth :: "json_ext \<Rightarrow> string option \<Rightarrow> int option \<Rightarrow> string" where
  "truncate_orderbook_depth J ob_json depth =
     (let raw = option_or ob_json (''{'' @ quoted ''bids'' @ '':[],'' @ quoted ''asks'' @ '':[]}'') in
      case depth of None \<Rightarrow> raw
      | Some d \<Rightarrow>
          if \<not> (0 < d \<and> d < 500) then raw
          else (case js_parse J raw of
                  None \<Rightarrow> raw
                | Some (JObj fs) \<Rightarrow> js_str J (JObj (map (truncate_field (nat d)) fs))
                | Some data \<Rightarrow> js_str J data))"

text \<open>The value in the service, when it can be read and is not empty.\<close>

definition read_live :: "'s valkey \<Rightarrow> string \<Rightarrow> (('s, 'd) gw_state, string option) vm" where
  "read_live V key = vor (on_gw (on_vk (vbind (vk_conn V) (\<lambda>_. vk_get V key)))) None"

definition get_orderbook ::
  "'s valkey \<Rightarrow> json_ext \<Rightarrow> string \<Rightarrow> int option \<Rightarrow> (('s, 'd) gw_state, response) vm" where
  "get_orderbook V J pair_id depth =
     (let cache_key = ''cache:orderbook:'' @ pair_id in
      vbind (read_live V cache_key) (\<lambda>live.
      case live of
        Some (c # v) \<Rightarrow> vret (200, Raw (truncate_orderbook_depth J (Some (c # v)) depth))
      | _ \<Rightarrow> (\<lambda>g.
          case get_latest (gs_cache g) cache_key of
            Some cval \<Rightarrow>
              (Inr (200, Raw (if depth \<noteq> None then truncate_orderbook_depth J (Some cval) depth else cval)), g)
          | None \<Rightarrow> (Inr (200, Raw (''{'' @ quoted ''pair'' @ '':'' @ quoted pair_id @ '','' @ quoted ''bids'' @ '':[],'' @
                        quoted ''asks'' @ '':[]}'')), g))))"

definition get_trades :: "string \<Rightarrow> (('s, 'd) gw_state, response) vm" where
  "get_trades pair_id =
     cached_or (''cache:trades:'' @ pair_id)
       (''{'' @ quoted ''pair'' @ '':'' @ quoted pair_id @ '','' @ quoted ''trades'' @ '':[]}'')"

definition get_ticker :: "string \<Rightarrow> (('s, 'd) gw_state, response) vm" where
  "get_ticker pair_id =
     cached_or (''cache:ticker:'' @ pair_id)
       (''{'' @ quoted ''pair'' @ '':'' @ quoted pair_id @ '','' @ quoted ''last'' @ '':null,'' @ quoted ''high_24h'' @
        '':null,'' @ quoted ''low_24h'' @ '':null,'' @ quoted ''volume_24h'' @ '':null}'')"

text \<open>\<open>list_orders\<close> and \<open>get_portfolio\<close>: first the per-user cache, then the service.\<close>

definition user_value ::
  "'s valkey \<Rightarrow> int \<Rightarrow> string \<Rightarrow> string \<Rightarrow> (('s, 'd) gw_state, response) vm" where
  "user_value V now_ms cache_key dflt g =
     (case user_cache_get now_ms cache_key (gs_user_cache g) of
        Some cval \<Rightarrow> (Inr (200, Raw cval), g)
      | None \<Rightarrow>
          vbind (on_gw (on_vk (vk_conn V))) (\<lambda>_.
          vbind (vor (on_gw (on_vk (vk_get V cache_key))) None) (\<lambda>val.
          let cval = option_or val ''{}'' in
          if cval \<noteq> ''{}''
          then (\<lambda>g. (Inr (200, Raw cval), g\<lparr>gs_user_cache := user_cache_set now_ms cache_key cval (gs_user_cache g)\<rparr>))
          else vret (200, Raw dflt))) g)"

definition list_orders :: "'s valkey \<Rightarrow> int \<Rightarrow> string option \<Rightarrow> (('s, 'd) gw_state, response) vm" where
  "list_orders V now_ms user_id =
     user_value V now_ms (''cache:orders:'' @ option_or user_id ''user-1'')
       (''{'' @ quoted ''orders'' @ '':[],'' @ quoted ''total'' @ '':0,'' @ quoted ''limit'' @ '':50,'' @
        quoted ''offset'' @ '':0}'')"

definition get_portfolio :: "'s valkey \<Rightarrow> int \<Rightarrow> string option \<Rightarrow> (('s, 'd) gw_state, response) vm" where
  "get_portfolio V now_ms user_id =
     user_value V now_ms (''cache:portfolio:'' @ option_or user_id ''user-1'') (''{'' @ quoted ''balances'' @ '':[]}'')"

definition get_metrics :: "(('s, 'd) gw_state, response) vm" where
  "get_metrics = cached_or ''cache:metrics'' ''{}''"

definition get_lock_metrics :: "(('s, 'd) gw_state, response) vm" where
  "get_lock_metrics = cached_or ''cache:lock_metrics'' ''{}''"

definition get_throughput :: "(('s, 'd) gw_state, response) vm" where
  "get_throughput = cached_or ''cache:throughput'' (''{'' @ quoted ''series'' @ '':[]}'')"

definition get_latency_percentiles :: "(('s, 'd) gw_state, response) vm" where
  "get_latency_percentiles = cached_or ''cache:latency_metrics'' ''{}''"

definition get_audit :: "(('s, 'd) gw_state, response) vm" where
  "get_audit = cached_or ''cache:audit'' (''{'' @ quoted ''audit'' @ '':[],'' @ quoted ''events'' @ '':[]}'')"

definition get_snapshot :: "json_ext \<Rightarrow> string \<Rightarrow> int option \<Rightarrow> (('s, 'd) gw_state, response) vm" where
  "get_snapshot J pair_id depth g =
     (let latest = get_latest (gs_cache g) in
      (Inr (200, Raw (
         ''{'' @ quoted ''orderbook'' @ '':'' @ truncate_orderbook_depth J (latest (''cache:orderbook:'' @ pair_id)) depth @
         '','' @ quoted ''trades'' @ '':'' @ option_or (latest (''cache:trades:'' @ pair_id)) (''{'' @ quoted ''trades'' @ '':[]}'') @
         '','' @ quoted ''ticker'' @ '':'' @ option_or (latest (''cache:ticker:'' @ pair_id)) ''null'' @
         '','' @ quoted ''metrics'' @ '':'' @ option_or (latest ''cache:metrics'') ''{}'' @
         '','' @ quoted ''throughput'' @ '':'' @ option_or (latest ''cache:throughput'') (''{'' @ quoted ''series'' @ '':[]}'') @
         '','' @ quoted ''latency'' @ '':'' @ option_or (latest ''cache:latency_metrics'') ''{}'' @
         '','' @ quoted ''pairs'' @ '':'' @ option_or (latest ''cache:pairs'') (''{'' @ quoted ''pairs'' @ '':[]}'') @
         ''}'')), g))"

text \<open>Whether an order event belongs to the user of a websocket.\<close>

definition is_mine :: "json_ext \<Rightarrow> string \<Rightarrow> string \<Rightarrow> bool" where
  "is_mine J user_id msg =
     (case js_parse J msg of None \<Rightarrow> False
      | Some p \<Rightarrow> Option.bind (jget p ''user_id'') jstr = Some user_id)"

section \<open>Orders\<close>

record 'd create_order_request =
  cr_user_id :: "string option"
  cr_pair_id :: string
  cr_side :: side
  cr_order_type :: order_type
  cr_tif :: "time_in_force option"
  cr_price :: "'d option"
  cr_quantity :: 'd
  cr_stp_mode :: "stp_mode option"
  cr_client_order_id :: "string option"

definition check_request :: "'d::floor_ceiling create_order_request \<Rightarrow> unit result" where
  "check_request req =
     (if cr_quantity req \<le> 0 then Inl (Invalid ''quantity must be positive'')
      else if cr_order_type req = Limit \<and> cr_price req = None then Inl (Invalid ''limit orders require price'')
      else if cr_order_type req = Market \<and> cr_price req \<noteq> None then Inl (Invalid ''market orders cannot have price'')
      else Inr ())"

definition request_json :: "'d ext \<Rightarrow> uuid \<Rightarrow> instant \<Rightarrow> 'd create_order_request \<Rightarrow> json" where
  "request_json X order_id now req =
     jobj [(''id'', JText (x_uuid_str X order_id)),
           (''user_id'', JText (option_or (cr_user_id req) ''user-1'')),
           (''pair_id'', JText (cr_pair_id req)),
           (''side'', JText (side_str (cr_side req))),
           (''order_type'', JText (order_type_str (cr_order_type req))),
           (''tif'', JText (tif_str (option_or (cr_tif req) GTC))),
           (''price'', jopt (\<lambda>v. JText (x_dec_str X v)) (cr_price req)),
           (''quantity'', JText (x_dec_str X (cr_quantity req))),
           (''stp_mode'', JText (stp_str (option_or (cr_stp_mode req) StpNone))),
           (''client_order_id'', jopt JText (cr_client_order_id req)),
           (''created_at'', JText (x_time_str X now)),
           (''received_at'', JText (x_time_str X now))]"

text \<open>The response; of its two \<open>status\<close> fields the later one stays.\<close>

definition created_json :: "'d ext \<Rightarrow> uuid \<Rightarrow> instant \<Rightarrow> 'd create_order_request \<Rightarrow> json" where
  "created_json X order_id now req =
     jobj [(''order'', jobj
             [(''id'', JText (x_uuid_str X order_id)),
              (''user_id'', JText (option_or (cr_user_id req) ''user-1'')),
              (''pair_id'', JText (cr_pair_id req)),
              (''side'', JText (side_str (cr_side req))),
              (''order_type'', JText (order_type_str (cr_order_type req))),
              (''tif'', JText (tif_str (option_or (cr_tif req) GTC))),
              (''price'', jopt (\<lambda>v. JText (x_dec_str X v)) (cr_price req)),
              (''quantity'', JText (x_dec_str X (cr_quantity req))),
              (''remaining'', JText (x_dec_str X (cr_quantity req))),
              (''status'', JText ''Queued''),
              (''stp_mode'', JText (stp_str (option_or (cr_stp_mode req) StpNone))),
              (''client_order_id'', jopt JText (cr_client_order_id req)),
              (''created_at'', JText (x_time_str X now))]),
           (''message'', JText ''Order queued for processing'')]"

text \<open>\<open>process_order_inline\<close> with the cell of the process: a state that was built stays.\<close>

definition inline_order ::
  "'s valkey \<Rightarrow> 'd::floor_ceiling ext \<Rightarrow> json_ext \<Rightarrow> (string \<Rightarrow> string \<Rightarrow> post_result) \<Rightarrow> (nat \<Rightarrow> uuid) \<Rightarrow>
   (nat \<Rightarrow> instant) \<Rightarrow> instant \<Rightarrow> string \<Rightarrow> string option \<Rightarrow> json \<Rightarrow> (('s, 'd) gw_state, unit) vm" where
  "inline_order V X J post fresh clock db_now ws_endpoint database_url payload g =
     vbind (on_gw (get_state V X J db_now database_url (gs_memo g))) (\<lambda>st g.
     on_gw (process_order V X J post fresh clock db_now ws_endpoint st payload) (g\<lparr>gs_memo := Some st\<rparr>)) g"

definition create_order ::
  "'s valkey \<Rightarrow> 'd::floor_ceiling ext \<Rightarrow> json_ext \<Rightarrow> (string \<Rightarrow> string \<Rightarrow> post_result) \<Rightarrow> (nat \<Rightarrow> uuid) \<Rightarrow>
   (nat \<Rightarrow> instant) \<Rightarrow> instant \<Rightarrow> string \<Rightarrow> string option \<Rightarrow> dispatch_mode \<Rightarrow> instant \<Rightarrow> 'd create_order_request
   \<Rightarrow> (('s, 'd) gw_state, response) vm" where
  "create_order V X J post fresh clock db_now ws_endpoint database_url mode now req =
     vbind (vlift (check_request req)) (\<lambda>_.
     let order_id = fresh 0; payload = request_json X order_id now req in
     vbind (case mode of
              Inline \<Rightarrow> vor (inline_order V X J post fresh clock db_now ws_endpoint database_url payload) ()
            | Queue \<Rightarrow> on_gw (on_vk (
                vbind (vk_conn V) (\<lambda>_. vk_lpush V (''queue:orders:'' @ cr_pair_id req) (js_str J payload))))) (\<lambda>_.
     vret (201, Body (created_json X order_id now req))))"

text \<open>The three cancellation handlers put a message into \<open>queue:cancellations\<close>.\<close>

definition push_cancellation :: "'s valkey \<Rightarrow> json_ext \<Rightarrow> json \<Rightarrow> (('s, 'd) gw_state, unit) vm" where
  "push_cancellation V J msg =
     on_gw (on_vk (vbind (vk_conn V) (\<lambda>_. vk_lpush V ''queue:cancellations'' (js_str J msg))))"

definition cancel_request :: "'d ext \<Rightarrow> uuid \<Rightarrow> instant \<Rightarrow> json" where
  "cancel_request X order_id now =
     jobj [(''type'', JText ''cancel''), (''order_id'', JText (x_uuid_str X order_id)),
           (''requested_at'', JText (x_time_str X now))]"

definition cancel_order ::
  "'s valkey \<Rightarrow> 'd ext \<Rightarrow> json_ext \<Rightarrow> instant \<Rightarrow> uuid \<Rightarrow> (('s, 'd) gw_state, response) vm" where
  "cancel_order V X J now order_id =
     vbind (push_cancellation V J (cancel_request X order_id now)) (\<lambda>_.
     vret (200, Body (jobj [(''status'', JText ''cancel_queued''), (''order_id'', JText (x_uuid_str X order_id)),
                            (''message'', JText ''Cancellation request queued'')])))"

definition modify_order ::
  "'s valkey \<Rightarrow> 'd ext \<Rightarrow> json_ext \<Rightarrow> instant \<Rightarrow> uuid \<Rightarrow> 'd create_order_request \<Rightarrow> (('s, 'd) gw_state, response) vm" where
  "modify_order V X J now order_id req =
     vbind (push_cancellation V J (jobj [(''type'', JText ''modify''), (''order_id'', JText (x_uuid_str X order_id)),
              (''requested_at'', JText (x_time_str X now))])) (\<lambda>_.
     vret (200, Body (jobj [(''status'', JText ''modify_queued''), (''cancelled_order_id'', JText (x_uuid_str X order_id)),
       (''message'', JText ''Modification queued. Old order will be cancelled. Submit a new POST /api/orders to replace it.'')])))"

definition cancel_all_orders ::
  "'s valkey \<Rightarrow> 'd ext \<Rightarrow> json_ext \<Rightarrow> instant \<Rightarrow> string option \<Rightarrow> string option \<Rightarrow> (('s, 'd) gw_state, response) vm" where
  "cancel_all_orders V X J now user_id pair_id =
     (let u = option_or user_id ''user-1'' in
      vbind (push_cancellation V J (jobj [(''type'', JText ''cancel_all''), (''user_id'', JText u),
               (''pair_id'', jopt JText pair_id), (''requested_at'', JText (x_time_str X now))])) (\<lambda>_.
      vret (200, Body (jobj [(''status'', JText ''cancel_all_queued''), (''user_id'', JText u),
                             (''message'', JText ''Cancel all request queued'')]))))"

section \<open>Administration\<close>

text \<open>
  The commands of \<open>internal_manage\<close> on the worker state; a failing statement ends
  the command with status 500. \<open>TRUNCATE orders CASCADE\<close> empties the orders; no
  table refers to them any more (migration \<open>drop_trade_fks\<close>), so that trades stay.
\<close>

definition manage_pairs :: "string list" where
  "manage_pairs = [''BTC-USDT'', ''ETH-USDT'', ''SOL-USDT'']"

definition truncate_orders_table :: "'d tables \<Rightarrow> 'd tables" where
  "truncate_orders_table T = T\<lparr>tb_orders := []\<rparr>"

definition balances_reset :: "string \<Rightarrow> string \<Rightarrow> 'd::floor_ceiling \<Rightarrow> 'd tables \<Rightarrow> unit result \<times> 'd tables" where
  "balances_reset u a avail T =
     (if length u > 50 \<or> length a > 10 then (Inl DbError, T)
      else if \<exists>b \<in> set (tb_balances T). balance_is u a b
      then (Inr (), balances_update (balance_is u a) (\<lambda>b. b\<lparr>b_available := avail, b_locked := 0\<rparr>) T)
      else (Inr (), T\<lparr>tb_balances := tb_balances T @
             [\<lparr>b_user_id = u, b_asset = a, b_available = avail, b_locked = 0\<rparr>]\<rparr>))"

text \<open>Both statements run, then the first error counts.\<close>

definition reset_user :: "nat \<Rightarrow> ('d::floor_ceiling pg, unit) vm" where
  "reset_user i =
     (let user = ''user-'' @ string_of_nat i in
      vpipe [pg_stmt (balances_reset user ''BTC'' 10), pg_stmt (balances_reset user ''USDT'' 1000000)])"

text \<open>\<open>n\<close> is cast to \<open>i32\<close>; the loop \<open>1..=n\<close> is empty for a negative number.\<close>

definition to_i32 :: "int \<Rightarrow> int" where
  "to_i32 n = (n + 2 ^ 31) mod 2 ^ 32 - 2 ^ 31"

definition reset_users :: "'s valkey \<Rightarrow> int \<Rightarrow> (('s, 'd::floor_ceiling) world, unit) vm" where
  "reset_users V n =
     vbind (vforM (\<lambda>i. on_pg (reset_user i)) [1..<nat n + 1]) (\<lambda>_. init_balances_from_pg V)"

definition pair_state_keys :: "string \<Rightarrow> string list" where
  "pair_state_keys pair =
     [bids_key pair, asks_key pair, version_key pair, ''cache:orderbook:'' @ pair, ''cache:trades:'' @ pair,
      ''cache:ticker:'' @ pair, ''queue:orders:'' @ pair]"

definition clear_books :: "'s valkey \<Rightarrow> ('s, unit) vm" where
  "clear_books V = vforM (\<lambda>pair. vor (vforM (vk_del V) (pair_state_keys pair)) ()) manage_pairs"

definition ok_users :: "int \<Rightarrow> response" where
  "ok_users n = (200, Body (jobj [(''ok'', JBool True), (''users'', JInt n)]))"

definition reset_all :: "'s valkey \<Rightarrow> int \<Rightarrow> (('s, 'd::floor_ceiling) world, response) vm" where
  "reset_all V n =
     vbind (on_pg (pg_stmt (\<lambda>T. (Inr (), truncate_orders_table T)))) (\<lambda>_.
     vbind (reset_users V n) (\<lambda>_.
     vbind (vor (on_vk (vbind (vk_conn V) (\<lambda>_. clear_books V))) ()) (\<lambda>_.
     vret (ok_users n))))"

definition reset_balances :: "'s valkey \<Rightarrow> int \<Rightarrow> (('s, 'd::floor_ceiling) world, response) vm" where
  "reset_balances V n =
     vbind (reset_users V n) (\<lambda>_.
     vret (200, Body (jobj [(''status'', JText ''ok''), (''command'', JText ''reset_balances''), (''users'', JInt n)])))"

text \<open>
  \<open>sweep_stale_orders\<close>: removes the entries of a side that have no order hash.
  \<open>ZRANGE 0 -1\<close> lists the members in the order of their scores.
\<close>

definition sweep_entry :: "'s valkey \<Rightarrow> string \<Rightarrow> string \<Rightarrow> nat \<Rightarrow> ('s, nat) vm" where
  "sweep_entry V key oid count =
     vbind (vor (vk_exists V (okey oid)) False) (\<lambda>ex.
     if ex then vret count else vbind (vor (vk_zrem V key oid) ()) (\<lambda>_. vret (count + 1)))"

definition sweep_side :: "'s valkey \<Rightarrow> string \<Rightarrow> nat \<Rightarrow> ('s, nat) vm" where
  "sweep_side V key count =
     vbind (vor (vk_zrangebyscore V key None None) []) (\<lambda>members. vfoldM (sweep_entry V key) members count)"

definition sweep_stale_orders :: "'s valkey \<Rightarrow> (('s, 'd) world, response) vm" where
  "sweep_stale_orders V =
     vbind (vor (on_vk (vbind (vk_conn V) (\<lambda>_.
        vfoldM (sweep_side V) (concat (map (\<lambda>p. [bids_key p, asks_key p]) manage_pairs)) 0))) 0) (\<lambda>count.
     vret (200, Body (jobj [(''ok'', JBool True), (''removed'', JInt (int count))])))"

definition truncate_orders :: "'s valkey \<Rightarrow> (('s, 'd) world, response) vm" where
  "truncate_orders V =
     vbind (on_pg (pg_stmt (\<lambda>T. (Inr (), truncate_orders_table T)))) (\<lambda>_.
     vbind (vor (on_vk (vbind (vk_conn V) (\<lambda>_.
              vbind (clear_books V) (\<lambda>_. vor (vk_incrby V RESET_VERSION_KEY 1) 1)))) 1) (\<lambda>new_version.
     vret (200, Body (jobj [(''status'', JText ''ok''), (''command'', JText ''truncate_orders''),
                            (''reset_version'', JInt new_version)]))))"

text \<open>
  \<open>internal_manage\<close>. Migrations and statements given as text are run by the
  database: their effect and answer is the parameter \<open>A\<close>.
\<close>

record manage_request =
  mr_command :: string
  mr_sql :: "string option"
  mr_num_users :: "int option"
  mr_users :: "int option"

record 'd admin_ext =
  ad_migrate :: "('d pg, unit) vm"
  ad_exec :: "string \<Rightarrow> ('d pg, nat) vm"
  ad_query :: "string \<Rightarrow> ('d pg, json list) vm"

definition user_count :: "manage_request \<Rightarrow> int" where
  "user_count req =
     to_i32 (case mr_users req of Some n \<Rightarrow> n | None \<Rightarrow> option_or (mr_num_users req) 100)"

definition error_body :: "string \<Rightarrow> body" where
  "error_body m = Body (jobj [(''error'', JText m)])"

definition sql_command ::
  "(string \<Rightarrow> (('s, 'd) world, response) vm) \<Rightarrow> string \<Rightarrow> manage_request \<Rightarrow> (('s, 'd) world, response) vm" where
  "sql_command run missing req =
     (case mr_sql req of None \<Rightarrow> vret (400, error_body missing) | Some sql \<Rightarrow> run sql)"

definition manage_command ::
  "'s valkey \<Rightarrow> 'd::floor_ceiling admin_ext \<Rightarrow> manage_request \<Rightarrow> (('s, 'd) world, response) vm" where
  "manage_command V A req =
     (let cmd = mr_command req in
      if cmd = ''reset_all'' then reset_all V (user_count req)
      else if cmd = ''reset_balances'' then reset_balances V (user_count req)
      else if cmd = ''sweep_stale_orders'' then sweep_stale_orders V
      else if cmd = ''truncate_orders'' then truncate_orders V
      else if cmd = ''exec_sql'' then
        sql_command (\<lambda>sql. vbind (on_pg (ad_exec A sql)) (\<lambda>rows.
          vret (200, Body (jobj [(''status'', JText ''ok''), (''command'', JText ''exec_sql''),
                                 (''rows_affected'', JInt (int rows))])))) ''sql argument required'' req
      else if cmd = ''query'' then
        sql_command (\<lambda>sql. vbind (on_pg (ad_query A sql)) (\<lambda>rows.
          vret (200, Body (jobj [(''rows'', JArr rows)])))) ''sql required'' req
      else vret (400, error_body (''unknown command: '' @ cmd)))"

text \<open>An error of a command is an answer with status 500.\<close>

definition internal_manage ::
  "'s valkey \<Rightarrow> 'd::floor_ceiling ext \<Rightarrow> json_ext \<Rightarrow> 'd admin_ext \<Rightarrow> instant \<Rightarrow> string option \<Rightarrow> manage_request
   \<Rightarrow> ('s, 'd) gw_state \<Rightarrow> response \<times> ('s, 'd) gw_state" where
  "internal_manage V X J A db_now database_url req g =
     (if mr_command req = ''run_migrations'' then
        (if database_url = None then ((500, error_body ''DATABASE_URL not set''), g)
         else (case on_gw (on_pg (ad_migrate A)) g of
                 (Inr _, g') \<Rightarrow> ((200, Body (jobj [(''status'', JText ''ok''), (''command'', JText ''run_migrations'')])), g')
               | (Inl e, g') \<Rightarrow> ((500, error_body (error_text e)), g')))
      else
        (case on_gw (get_state V X J db_now database_url (gs_memo g)) g of
           (Inl e, g') \<Rightarrow> ((500, error_body (error_text e)), g')
         | (Inr st, g') \<Rightarrow>
             (case on_gw (manage_command V A req) (g'\<lparr>gs_memo := Some st\<rparr>) of
                (Inr resp, g'') \<Rightarrow> (resp, g'')
              | (Inl e, g'') \<Rightarrow> ((500, error_body (error_text e)), g''))))"

section \<open>Websockets and event streams of the gateway\<close>

text \<open>
  What a socket task can be woken by: a value of its channel, a gap in the channel,
  the end of the channel, or something from the client. Sending fails once the
  client is gone (\<open>alive\<close>). The task is a loop over the inputs in the order in which
  they arrive; its result is the list of messages sent.
\<close>

datatype socket_input =
    Value string
  | Lagged
  | Closed
  | ClientText string
  | ClientPing string
  | ClientClose
  | ClientOther

datatype socket_output = Text string | Pong string

text \<open>\<open>forward\<close> says what to send for a value; \<open>None\<close> is nothing.\<close>

fun socket_loop :: "(string \<Rightarrow> string option) \<Rightarrow> (nat \<Rightarrow> bool) \<Rightarrow> nat \<Rightarrow> socket_input list \<Rightarrow> socket_output list" where
  "socket_loop forward alive n [] = []"
| "socket_loop forward alive n (Value val # ins) =
     (case forward val of None \<Rightarrow> socket_loop forward alive n ins
      | Some msg \<Rightarrow> if alive n then Text msg # socket_loop forward alive (Suc n) ins else [])"
| "socket_loop forward alive n (Lagged # ins) = socket_loop forward alive n ins"
| "socket_loop forward alive n (Closed # ins) = []"
| "socket_loop forward alive n (ClientClose # ins) = []"
| "socket_loop forward alive n (ClientPing p # ins) =
     (if alive n then Pong p # socket_loop forward alive (Suc n) ins else socket_loop forward alive (Suc n) ins)"
| "socket_loop forward alive n (ClientText t # ins) = socket_loop forward alive n ins"
| "socket_loop forward alive n (ClientOther # ins) = socket_loop forward alive n ins"

definition cache_broadcast_ws ::
  "cache_broadcasts \<Rightarrow> string \<Rightarrow> (nat \<Rightarrow> bool) \<Rightarrow> socket_input list \<Rightarrow> socket_output list" where
  "cache_broadcast_ws cache cache_key alive ins =
     (case cache cache_key of None \<Rightarrow> []
      | Some e \<Rightarrow>
          (case get_latest cache cache_key of
             None \<Rightarrow> socket_loop Some alive 0 ins
           | Some val \<Rightarrow> if alive 0 then Text val # socket_loop Some alive 1 ins else []))"

definition handle_orders_ws :: "json_ext \<Rightarrow> string \<Rightarrow> (nat \<Rightarrow> bool) \<Rightarrow> socket_input list \<Rightarrow> socket_output list" where
  "handle_orders_ws J user_id alive ins =
     socket_loop (\<lambda>msg. if is_mine J user_id msg then Some msg else None) alive 0 ins"

definition ws_orderbook :: "cache_broadcasts \<Rightarrow> string \<Rightarrow> (nat \<Rightarrow> bool) \<Rightarrow> socket_input list \<Rightarrow> socket_output list" where
  "ws_orderbook cache pair_id = cache_broadcast_ws cache (''cache:orderbook:'' @ pair_id)"

definition ws_trades :: "cache_broadcasts \<Rightarrow> string \<Rightarrow> (nat \<Rightarrow> bool) \<Rightarrow> socket_input list \<Rightarrow> socket_output list" where
  "ws_trades cache pair_id = cache_broadcast_ws cache (''cache:trades:'' @ pair_id)"

definition sse_keys :: "string \<Rightarrow> (string \<times> string) list" where
  "sse_keys pair_id =
     [(''cache:orderbook:'' @ pair_id, ''orderbook''), (''cache:trades:'' @ pair_id, ''trades''),
      (''cache:ticker:'' @ pair_id, ''ticker''), (''cache:metrics'', ''metrics''),
      (''cache:throughput'', ''throughput''), (''cache:latency_metrics'', ''latency'')]"

text \<open>The events an event stream starts with: name and data.\<close>

definition sse_initial :: "cache_broadcasts \<Rightarrow> string \<Rightarrow> (string \<times> string) list" where
  "sse_initial cache pair_id =
     List.map_filter (\<lambda>(key, event_name). map_option (\<lambda>val. (event_name, val)) (get_latest cache key)) (sse_keys pair_id)"

end
