(* ===== verification/Queue_Props.thy ===== *)
theory Queue_Props
  imports Queue_Worker Gateway_Routes Gateway_Props
begin

text \<open>
  The gateway and the worker of the \<open>api\<close> together: what one puts into a queue is
  what the other takes out and reads.
\<close>

section \<open>Queues\<close>

lemma queue_keys [key_simps]:
  "key_kind (''queue:'' @ q) = Some KList" "key_kind (''queue:orders:'' @ p) = Some KList"
  "key_kind ''queue:cancellations'' = Some KList"
  by (simp_all add: key_kind_def)

lemma rpop_op:
  assumes "well_keyed d" "key_kind k = Some KList"
  shows "d_rpop k d =
    (if list_at d k = [] then (Inr None, put_key k None d)
     else (Inr (Some (last (list_at d k))), put_key k (list_value (butlast (list_at d k))) d))"
  using assms by (simp add: d_rpop_def edit_key_def well_keyed_view)

context valkey_spec
begin

lemma sim_drain_queue [sim_rules]: "simulates \<alpha> (drain_queue V k n) (drain_queue ref_valkey k n)"
  by (induction n) (auto simp: ref_valkey_ops intro!: sim_rules)

lemma sim_take_batch: "simulates \<alpha> (take_batch V k) (take_batch ref_valkey k)"
  unfolding take_batch_def ref_valkey_ops by (intro sim_rules)

lemma gw_push_run:
  assumes "connected (\<alpha> (w_vk (gs_world g)))" "key_kind k = Some KList"
  obtains s' where "on_gw (on_vk (vbind (vk_conn V) (\<lambda>_. vk_lpush V k v))) g =
      (Inr (), g\<lparr>gs_world := (gs_world g)\<lparr>w_vk := s'\<rparr>\<rparr>)"
    "\<alpha> s' = put_key k (Some (VList (v # list_at (\<alpha> (w_vk (gs_world g))) k))) (\<alpha> (w_vk (gs_world g)))"
    "connected (\<alpha> s')"
proof -
  let ?s = "w_vk (gs_world g)" and ?m = "vbind (vk_conn V) (\<lambda>_. vk_lpush V k v)"
  have "simulates \<alpha> ?m (vbind d_conn (\<lambda>_. d_lpush k v))" by (intro sim_rules)
  moreover have "vbind d_conn (\<lambda>_. d_lpush k v) (\<alpha> ?s) =
    (Inr (), put_key k (Some (VList (v # list_at (\<alpha> ?s) k))) (\<alpha> ?s))"
    using assms by (simp add: vbind_def list_ops)
  ultimately obtain s' where s': "?m ?s = (Inr (), s')"
    "\<alpha> s' = put_key k (Some (VList (v # list_at (\<alpha> ?s) k))) (\<alpha> ?s)" by (rule simulates_run)
  from s'(1) have "on_gw (on_vk ?m) g = (Inr (), g\<lparr>gs_world := (gs_world g)\<lparr>w_vk := s'\<rparr>\<rparr>)"
    by (simp only: on_gw_def on_vk_def prod.case)
  then show thesis by (rule that [OF _ s'(2)]) (use s'(2) assms in simp)
qed

end

text \<open>
  A batch takes the oldest entries: of a list with the newest in front at most ten
  from the back, in the order in which they came.
\<close>

lemma take_rev_butlast: "xs \<noteq> [] \<Longrightarrow> take (Suc n) (rev xs) = last xs # take n (rev (butlast xs))"
  by (cases xs rule: rev_cases) auto

lemma drain_queue_run:
  assumes "well_keyed d" "key_kind k = Some KList"
  shows "\<exists>d'. drain_queue ref_valkey k n d = (Inr (take n (rev (list_at d k))), d') \<and> well_keyed d' \<and>
    list_at d' k = take (length (list_at d k) - n) (list_at d k)"
  using assms
proof (induction n arbitrary: d)
  case (Suc n)
  let ?z = "list_at d k"
  show ?case
  proof (cases "?z = []")
    case True
    have "list_at (put_key k None d) k = []" by (simp add: at_defs)
    with True Suc.prems show ?thesis
      by (simp add: ref_valkey_ops vor_def vbind_def rpop_op vret_def)
  next
    case False
    let ?d1 = "put_key k (list_value (butlast ?z)) d"
    have d1: "well_keyed ?d1" "list_at ?d1 k = butlast ?z" using Suc.prems by simp_all
    obtain d' where d': "drain_queue ref_valkey k n ?d1 = (Inr (take n (rev (butlast ?z))), d')" "well_keyed d'"
        "list_at d' k = take (length (butlast ?z) - n) (butlast ?z)"
      using Suc.IH [OF d1(1) Suc.prems(2)] d1(2) by auto
    have "take (length (butlast ?z) - n) (butlast ?z) = take (length ?z - Suc n) ?z"
      by (simp add: butlast_conv_take min_def)
    with d' False Suc.prems show ?thesis
      by (simp add: ref_valkey_ops vor_def vbind_def rpop_op vret_def take_rev_butlast)
  qed
qed (simp add: vret_def)

lemma take_batch_run:
  assumes "well_keyed d" "key_kind k = Some KList"
  shows "\<exists>d'. take_batch ref_valkey k d = (Inr (take 10 (rev (list_at d k))), d') \<and> well_keyed d' \<and>
    list_at d' k = take (length (list_at d k) - 10) (list_at d k)"
proof -
  have "take_batch ref_valkey k d = drain_queue ref_valkey k 10 d"
    using assms by (simp add: take_batch_def numeral_eq_Suc ref_valkey_ops vor_def vbind_def rpop_op)
  with drain_queue_run [OF assms, of 10] show ?thesis by simp
qed

text \<open>Batch after batch, the messages come in the order in which they were put into the queue.\<close>

lemma take_batches_run:
  assumes "well_keyed d" "key_kind k = Some KList" "length (list_at d k) \<le> 10 * n"
  shows "\<exists>bs d'. vmapM (\<lambda>_. take_batch ref_valkey k) (replicate n ()) d = (Inr bs, d') \<and> concat bs = rev (list_at d k) \<and>
    list_at d' k = []"
  using assms
proof (induction n arbitrary: d)
  case (Suc n)
  let ?z = "list_at d k"
  obtain d1 where d1: "take_batch ref_valkey k d = (Inr (take 10 (rev ?z)), d1)" "well_keyed d1"
      "list_at d1 k = take (length ?z - 10) ?z"
    using take_batch_run [OF Suc.prems(1,2)] by blast
  have "length (list_at d1 k) \<le> 10 * n" using Suc.prems(3) d1(3) by simp
  from Suc.IH [OF d1(2) Suc.prems(2) this] obtain bs d' where
    "vmapM (\<lambda>_. take_batch ref_valkey k) (replicate n ()) d1 = (Inr bs, d')" "concat bs = rev (take (length ?z - 10) ?z)" "list_at d' k = []"
    by (auto simp: d1(3))
  moreover have "take 10 (rev ?z) @ rev (take (length ?z - 10) ?z) = rev ?z"
    by (metis append_take_drop_id drop_rev)
  ultimately show ?case using d1(1) by (simp add: vbind_def vret_def)
qed (simp add: vret_def)

section \<open>An order through the queue\<close>

text \<open>The order a request stands for: \<open>oid\<close> is its new identifier, \<open>now\<close> the time of the request, \<open>upd\<close> that of reading it.\<close>

definition request_order :: "uuid \<Rightarrow> instant \<Rightarrow> instant \<Rightarrow> 'd create_order_request \<Rightarrow> 'd order" where
  "request_order oid now upd req =
     \<lparr>o_id = oid, o_user_id = option_or (cr_user_id req) ''user-1'', o_pair_id = cr_pair_id req,
      o_side = cr_side req, o_order_type = cr_order_type req, o_tif = option_or (cr_tif req) GTC,
      o_price = cr_price req, o_quantity = cr_quantity req, o_remaining = cr_quantity req, o_status = New,
      o_stp_mode = option_or (cr_stp_mode req) StpNone, o_version = 1, o_sequence = 0, o_created_at = now,
      o_updated_at = upd, o_client_order_id = cr_client_order_id req, o_received_at = Some now,
      o_matched_at = None, o_persisted_at = None\<rparr>"

lemma canonical_jopt [simp]: "(\<And>a. canonical (f a)) \<Longrightarrow> canonical (jopt f x)"
  by (simp add: jopt_def split: option.split)

lemma canonical_request: "canonical (request_json X oid now req)"
  unfolding request_json_def by (rule canonical_jobj) auto

lemma request_fields:
  "jget (request_json X oid now req) ''id'' = Some (JText (x_uuid_str X oid))"
  "jget (request_json X oid now req) ''user_id'' = Some (JText (option_or (cr_user_id req) ''user-1''))"
  "jget (request_json X oid now req) ''pair_id'' = Some (JText (cr_pair_id req))"
  "jget (request_json X oid now req) ''side'' = Some (JText (side_str (cr_side req)))"
  "jget (request_json X oid now req) ''order_type'' = Some (JText (order_type_str (cr_order_type req)))"
  "jget (request_json X oid now req) ''tif'' = Some (JText (tif_str (option_or (cr_tif req) GTC)))"
  "jget (request_json X oid now req) ''price'' = Some (jopt (\<lambda>v. JText (x_dec_str X v)) (cr_price req))"
  "jget (request_json X oid now req) ''quantity'' = Some (JText (x_dec_str X (cr_quantity req)))"
  "jget (request_json X oid now req) ''stp_mode'' = Some (JText (stp_str (option_or (cr_stp_mode req) StpNone)))"
  "jget (request_json X oid now req) ''client_order_id'' = Some (jopt JText (cr_client_order_id req))"
  "jget (request_json X oid now req) ''created_at'' = Some (JText (x_time_str X now))"
  "jget (request_json X oid now req) ''received_at'' = Some (JText (x_time_str X now))"
  "jget (request_json X oid now req) ''time_in_force'' = None"
  unfolding request_json_def by (subst jget_jobj; simp)+

lemma opt_str_jopt: "jget j k = Some (jopt (\<lambda>v. JText (f v)) x) \<Longrightarrow> opt_str j k = Inr (map_option f x)"
  by (cases x) (simp_all add: opt_str_def jopt_def)

definition request_msg :: "'d ext \<Rightarrow> uuid \<Rightarrow> instant \<Rightarrow> 'd create_order_request \<Rightarrow> queued_order_msg" where
  "request_msg X oid now req =
     \<lparr>qm_id = Some (x_uuid_str X oid), qm_user_id = option_or (cr_user_id req) ''user-1'', qm_pair_id = cr_pair_id req,
      qm_side = side_str (cr_side req), qm_order_type = order_type_str (cr_order_type req),
      qm_tif = tif_str (option_or (cr_tif req) GTC), qm_price = map_option (x_dec_str X) (cr_price req),
      qm_quantity = x_dec_str X (cr_quantity req), qm_stp_mode = Some (stp_str (option_or (cr_stp_mode req) StpNone)),
      qm_client_order_id = cr_client_order_id req, qm_created_at = Some (x_time_str X now),
      qm_received_at = Some (x_time_str X now), qm_time_in_force = None\<rparr>"

lemma parse_request:
  "parse_queued_msg (request_json X oid now req) = Inr (request_msg X oid now req)"
  "parse_order_msg (request_json X oid now req) = Inr (request_msg X oid now req)"
proof -
  note f = request_fields [of X oid now req]
  have o: "opt_str (request_json X oid now req) ''price'' = Inr (map_option (x_dec_str X) (cr_price req))"
    "opt_str (request_json X oid now req) ''client_order_id'' = Inr (cr_client_order_id req)"
    using opt_str_jopt [OF f(7)] opt_str_jopt [of _ _ "\<lambda>v. v", OF f(10)] by (simp_all add: option.map_ident)
  show "parse_queued_msg (request_json X oid now req) = Inr (request_msg X oid now req)"
    "parse_order_msg (request_json X oid now req) = Inr (request_msg X oid now req)"
    by (simp_all add: parse_queued_msg_def parse_order_msg_def request_msg_def o)
      (simp_all add: req_str_def str_or_def opt_str_def f)
qed

context ext_spec
begin

lemma price_round_trip: "Option.bind (map_option (x_dec_str X) p) (x_dec_parse X) = p"
  by (cases p) (simp_all add: dec_round_trip)

lemma queued_order_of_request: "queued_order X clock (request_msg X oid now req) = Inr (request_order oid now (clock 1) req)"
  by (simp add: queued_order_def request_msg_def request_order_def codec_simps price_round_trip
      uuid_round_trip dec_round_trip time_round_trip)

lemma inline_order_of_request:
  assumes "check_request req = Inr ()"
  shows "order_of_msg X fresh clock (request_msg X oid now req) = Inr (request_order oid now (clock 1) req)"
  using assms
  by (simp add: order_of_msg_def msg_order_id_def request_msg_def request_order_def codec_simps price_round_trip
      uuid_round_trip uuid_str_ne dec_round_trip time_round_trip check_request_def Let_def split: if_splits)

end

lemma vbind_vlift [simp]: "vbind (vlift (Inr a)) f = f a"
  by (rule ext) (simp add: vbind_def vlift_def)

lemma on_gw_bind:
  "vbind (on_gw m) f g = (case on_gw m g of (Inl e, g') \<Rightarrow> (Inl e, g') | (Inr a, g') \<Rightarrow> f a g')"
  by (simp add: vbind_def)

lemma create_order_queued:
  assumes "check_request req = Inr ()"
  shows "create_order V X J post fresh clock db_now ws_endpoint database_url Queue now req =
    vbind (on_gw (on_vk (vbind (vk_conn V) (\<lambda>_. vk_lpush V (''queue:orders:'' @ cr_pair_id req)
      (js_str J (request_json X (fresh 0) now req)))))) (\<lambda>_. vret (201, Body (created_json X (fresh 0) now req)))"
  using assms by (simp add: create_order_def Let_def)

text \<open>
  C5: an order that the gateway accepts for the queue reaches the worker. The request
  is answered with 201; however many messages wait in the queue of the pair, the worker's next batches (of ten
  messages each, one more than the tenth part of the earlier messages) are together the earlier messages, in the order
  in which they came, and then its message; the queue is then
  empty, and the worker reads from the message exactly the order the request stands
  for: every field, with its identifier and time stamps. The path inside the gateway
  reads the same order from the same payload.
\<close>

theorem queued_order_round_trip:
  assumes "valkey_spec V \<alpha>" and "ext_spec X" and "json_spec J"
    and "check_request req = Inr ()" and "connected (\<alpha> (w_vk (gs_world g)))"
    and "list_at (\<alpha> (w_vk (gs_world g))) (''queue:orders:'' @ cr_pair_id req) = earlier"
  shows "\<exists>g' msg batches s'.
    create_order V X J post fresh clock db_now ws_endpoint database_url Queue now req g =
      (Inr (201, Body (created_json X (fresh 0) now req)), g') \<and>
    vmapM (\<lambda>_. take_batch V (''queue:orders:'' @ cr_pair_id req)) (replicate (Suc (length earlier div 10)) ()) (w_vk (gs_world g')) =
      (Inr batches, s') \<and>
    concat batches = rev earlier @ [msg] \<and>
    list_at (\<alpha> s') (''queue:orders:'' @ cr_pair_id req) = [] \<and>
    read_queued_order X J clock' msg = Inr (request_order (fresh 0) now (clock' 1) req) \<and>
    result_bind (parse_order_msg (request_json X (fresh 0) now req)) (order_of_msg X fresh clock') =
      Inr (request_order (fresh 0) now (clock' 1) req)"
proof -
  let ?k = "''queue:orders:'' @ cr_pair_id req" and ?j = "request_json X (fresh 0) now req"
  let ?s = "w_vk (gs_world g)"
  obtain s1 where s1: "on_gw (on_vk (vbind (vk_conn V) (\<lambda>_. vk_lpush V ?k (js_str J ?j)))) g =
      (Inr (), g\<lparr>gs_world := (gs_world g)\<lparr>w_vk := s1\<rparr>\<rparr>)"
      "\<alpha> s1 = put_key ?k (Some (VList (js_str J ?j # earlier))) (\<alpha> ?s)" "connected (\<alpha> s1)"
    using valkey_spec.gw_push_run [OF assms(1,5) queue_keys(2)] assms(6) by metis
  let ?g = "g\<lparr>gs_world := (gs_world g)\<lparr>w_vk := s1\<rparr>\<rparr>"
  have 1: "create_order V X J post fresh clock db_now ws_endpoint database_url Queue now req g =
      (Inr (201, Body (created_json X (fresh 0) now req)), ?g)"
    by (simp only: create_order_queued [OF assms(4)] on_gw_bind s1(1) prod.case sum.case vm_run)
  have l: "list_at (\<alpha> s1) ?k = js_str J ?j # earlier" using s1(2) by simp
  let ?n = "Suc (length earlier div 10)"
  have "length (list_at (\<alpha> s1) ?k) \<le> 10 * ?n" using l by simp
  from take_batches_run [OF conjunct1 [OF s1(3)] queue_keys(2) this] l obtain bs d' where
    d': "vmapM (\<lambda>_. take_batch ref_valkey ?k) (replicate ?n ()) (\<alpha> s1) = (Inr bs, d')" "concat bs = rev earlier @ [js_str J ?j]"
      "list_at d' ?k = []" by auto
  have "simulates \<alpha> (vmapM (\<lambda>_. take_batch V ?k) (replicate ?n ())) (vmapM (\<lambda>_. take_batch ref_valkey ?k) (replicate ?n ()))"
    by (rule simulates_vmapM) (rule valkey_spec.sim_take_batch [OF assms(1)])
  from simulates_run [OF this d'(1)] obtain s' where
    s': "vmapM (\<lambda>_. take_batch V ?k) (replicate ?n ()) s1 = (Inr bs, s')" "\<alpha> s' = d'" .
  have "read_queued_order X J clock' (js_str J ?j) = Inr (request_order (fresh 0) now (clock' 1) req)"
    by (simp add: read_queued_order_def json_spec.parse_str [OF assms(3) canonical_request] parse_request
        ext_spec.queued_order_of_request [OF assms(2)])
  with 1 s' d'(2,3) show ?thesis
    by (intro exI [of _ ?g] exI [of _ "js_str J ?j"] exI [of _ bs] exI [of _ s']) (simp add: parse_request ext_spec.inline_order_of_request [OF assms(2,4)])
qed

definition idle_gateway :: "(vdata, rat) gw_state" where
  "idle_gateway = \<lparr>gs_world = empty_world, gs_cache = Map.empty, gs_user_cache = [], gs_memo = None\<rparr>"

lemma idle_gateway_sel [simp]: "w_vk (gs_world idle_gateway) = empty_vdata"
  by (simp add: idle_gateway_def empty_world_def)

definition sample_request :: "rat create_order_request" where
  "sample_request =
     \<lparr>cr_user_id = None, cr_pair_id = ''BTC-USDT'', cr_side = Sell, cr_order_type = Limit, cr_tif = Some IOC,
      cr_price = Some 50000, cr_quantity = 2, cr_stp_mode = Some CancelMaker, cr_client_order_id = Some ''c-7''\<rparr>"

theorem queued_order_round_trip_witness:
  "\<exists>g' msg batches s'.
    create_order ref_valkey ref_ext ref_json (\<lambda>_ _. PostOk) id (\<lambda>_. 0) 0 [] None Queue 5 sample_request idle_gateway =
      (Inr (201, Body (created_json ref_ext (id 0) 5 sample_request)), g') \<and>
    vmapM (\<lambda>_. take_batch ref_valkey (''queue:orders:'' @ cr_pair_id sample_request)) (replicate (Suc (length ([] :: string list) div 10)) ())
      (w_vk (gs_world g')) = (Inr batches, s') \<and>
    concat batches = rev [] @ [msg] \<and>
    list_at (id s') (''queue:orders:'' @ cr_pair_id sample_request) = [] \<and>
    read_queued_order ref_ext ref_json int msg = Inr (request_order (id 0) 5 (int 1) sample_request) \<and>
    result_bind (parse_order_msg (request_json ref_ext (id 0) 5 sample_request)) (order_of_msg ref_ext id int) =
      Inr (request_order (id 0) 5 (int 1) sample_request)"
proof (rule queued_order_round_trip [OF ref.valkey_spec_axioms ref_ext.ext_spec_axioms ref_json.json_spec_axioms])
  show "check_request sample_request = Inr ()" by (simp add: check_request_def sample_request_def)
qed (simp_all add: at_defs empty_vdata_def well_keyed_def)

section \<open>The two ways of dispatching\<close>

lemma validate_same: "validate_order_request pairs_cache ord = validate_order pairs_cache ord"
  by (simp add: validate_order_request_def validate_order_def)

text \<open>A job is handed over: through the channel, or to a task of its own when the channel is full.\<close>

definition hands_over :: "'d persist_job \<Rightarrow> ('s, 'd) api_state \<Rightarrow> ('s, 'd) api_state \<Rightarrow> bool" where
  "hands_over job st st' \<longleftrightarrow>
     (if length (aw_persist st) < PERSIST_CAP
      then aw_persist st' = aw_persist st @ [job] \<and> aw_spawned st' = aw_spawned st
      else aw_persist st' = aw_persist st \<and> aw_spawned st' = aw_spawned st @ [job])"

lemma send_dirty_keeps [simp]:
  "aw_persist (send_dirty u st) = aw_persist st" "aw_spawned (send_dirty u st) = aw_spawned st"
  "aw_world (send_dirty u st) = aw_world st"
  by (simp_all add: send_dirty_def)

lemma fold_dirty_keeps [simp]:
  "aw_persist (fold send_dirty us st) = aw_persist st" "aw_spawned (fold send_dirty us st) = aw_spawned st"
  "aw_world (fold send_dirty us st) = aw_world st"
  by (induction us arbitrary: st) simp_all

lemma after_match_hands_over:
  "hands_over \<lparr>pj_order = ord, pj_trades = trades, pj_lua_trades = lts\<rparr> st (after_match X J ms ord trades lts st)"
  "aw_world (after_match X J ms ord trades lts st) = aw_world st"
  by (simp_all add: after_match_def hands_over_def send_job_def mark_dirty_def Let_def)

lemma finish_order_tables:
  "tables_of (snd (finish_order V X J post clock db_now wse ord trades lts w)) =
     (if is_warmup ord then tables_of w else pg_tables (snd (persist_order db_now (clock 4) ord trades lts (w_pg w))))"
proof -
  let ?tail = "vbind (vtry (update_cache_after_processing V X J db_now ord trades))
      (\<lambda>_. if wse \<noteq> [] then push_ws_updates V post (o_pair_id ord) else vret ())"
  have t: "tables_of (snd (?tail w1)) = tables_of w1" for w1
    by (rule finish_order_tail [of V X J db_now ord trades wse post "o_pair_id ord" w1]) simp
  show ?thesis
  proof (cases "is_warmup ord")
    case True
    then show ?thesis using t [of w] by (simp add: finish_order_def vbind_def [of "vret _"] vret_def)
  next
    case False
    obtain r p where p: "persist_order db_now (clock 4) ord trades lts (w_pg w) = (r, p)" by force
    then show ?thesis using False t [of "w\<lparr>w_pg := p\<rparr>"]
      by (cases r) (simp_all add: finish_order_def vbind_def [of "on_pg _"] on_pg_def)
  qed
qed

text \<open>
  C6: it does not matter for an accepted order that is not fill-or-kill which way it takes. When the worker has
  processed the queued message of the order, on the same cache and the same pairs,
  exactly one persist job has been handed over, and processing the same payload
  inside the gateway leaves the same cache after the match and goes on with exactly the order, the trades and the
  fills of that job: its tables afterwards are those of \<open>persist_order\<close> for them. Warm-up orders differ: the gateway does
  not persist them.
\<close>

theorem dispatch_modes_agree:
  assumes "ext_spec X" and "json_spec J" and "check_request req = Inr ()" and "cr_tif req \<noteq> Some FOK"
    and "aw_pairs_cache st = ws_pairs_cache ws" and "aw_pair_keys st = ws_pair_keys ws"
    and "w_vk (aw_world st) = w_vk w"
    and run: "process_queued_order V X J fresh clock lua_ms (js_str J (request_json X (fresh 0) now req)) st = (Inr (), st')"
  shows "\<exists>job. hands_over job st st' \<and>
    process_order V X J post fresh clock db_now ws_endpoint ws (request_json X (fresh 0) now req) w =
      finish_order V X J post clock db_now ws_endpoint (pj_order job) (pj_trades job) (pj_lua_trades job)
        (w\<lparr>w_vk := w_vk (aw_world st')\<rparr>) \<and>
    tables_of (snd (process_order V X J post fresh clock db_now ws_endpoint ws (request_json X (fresh 0) now req) w)) =
      (if is_warmup (pj_order job) then tables_of w
       else pg_tables (snd (persist_order db_now (clock 4) (pj_order job) (pj_trades job) (pj_lua_trades job) (w_pg w))))"
proof -
  let ?ord = "request_order (fresh 0) now (clock 1) req"
  have r: "read_queued_order X J clock (js_str J (request_json X (fresh 0) now req)) = Inr ?ord"
    by (simp add: read_queued_order_def json_spec.parse_str [OF assms(2) canonical_request] parse_request
        ext_spec.queued_order_of_request [OF assms(1)])
  have tif: "o_tif ?ord \<noteq> FOK" using assms(4) by (cases "cr_tif req") (auto simp: request_order_def)
  from run obtain la lam keys where
    p: "validate_order (map_of (ws_pairs_cache ws)) ?ord = Inr ()" "lock_params ?ord = Inr (la, lam)"
      "map_of (ws_pair_keys ws) (o_pair_id ?ord) = Some keys"
    and m: "vbind (on_w (on_vk (match_order_lua V X ?ord keys la lam))) (\<lambda>res.
        update_st (after_match X J lua_ms (matched_order clock ?ord res)
          (build_trades fresh (clock 3) (matched_order clock ?ord res) (lr_trades res)) (lr_trades res))) st = (Inr (), st')"
    using tif unfolding process_queued_order_def r assms(5,6) validate_same
    by (auto simp: vbind_Inr vlift_def ok_or_Inr Let_def)
  from m obtain res s' where
    res: "match_order_lua V X ?ord keys la lam (w_vk w) = (Inr res, s')"
    and st': "st' = after_match X J lua_ms (matched_order clock ?ord res)
        (build_trades fresh (clock 3) (matched_order clock ?ord res) (lr_trades res)) (lr_trades res)
        (st\<lparr>aw_world := (aw_world st)\<lparr>w_vk := s'\<rparr>\<rparr>)"
    by (auto simp: vbind_def on_w_def on_vk_def update_st_def assms(7) split: prod.splits sum.splits)
  let ?job = "\<lparr>pj_order = matched_order clock ?ord res,
    pj_trades = build_trades fresh (clock 3) (matched_order clock ?ord res) (lr_trades res), pj_lua_trades = lr_trades res\<rparr>"
  have "hands_over ?job st st'"
    using after_match_hands_over(1) [of "pj_order ?job" "pj_trades ?job" "pj_lua_trades ?job"
        "st\<lparr>aw_world := (aw_world st)\<lparr>w_vk := s'\<rparr>\<rparr>" X J lua_ms]
    by (simp add: st' hands_over_def)
  moreover have "process_order V X J post fresh clock db_now ws_endpoint ws (request_json X (fresh 0) now req) w =
      finish_order V X J post clock db_now ws_endpoint (pj_order ?job) (pj_trades ?job) (pj_lua_trades ?job)
        (w\<lparr>w_vk := s'\<rparr>)"
    using tif by (simp add: process_order_def parse_request ext_spec.inline_order_of_request [OF assms(1,3)] p del: One_nat_def)
      (simp add: vbind_def vmap_err_def on_vk_def res Let_def del: One_nat_def)
  moreover have "w_vk (aw_world st') = s'" by (simp add: st' after_match_hands_over(2))
  ultimately show ?thesis by (intro exI [of _ ?job]) (simp add: finish_order_tables)
qed

definition sample_buy :: "rat create_order_request" where
  "sample_buy =
     \<lparr>cr_user_id = Some ''u3'', cr_pair_id = ''BTC-USDT'', cr_side = Buy, cr_order_type = Limit, cr_tif = None,
      cr_price = Some (i64_to_decimal 9), cr_quantity = i64_to_decimal 8, cr_stp_mode = None, cr_client_order_id = None\<rparr>"

definition sample_worker :: "(vdata, rat) api_state" where
  "sample_worker =
     \<lparr>aw_world = sample_world two_asks [], aw_pairs_cache = ws_pairs_cache sample_state,
      aw_pair_keys = ws_pair_keys sample_state, aw_persist = [], aw_spawned = [], aw_dirty_users = [], aw_events = [],
      aw_receivers = 0, aw_metrics = new_metrics_batch, aw_notified = [False, False, False]\<rparr>"

lemma sample_buy_order: "request_order 7 0 0 sample_buy = sample_ord GTC None"
  by (simp add: request_order_def sample_buy_def sample_ord_def)

lemma sample_buy_processed:
  "\<exists>st'. process_queued_order ref_valkey ref_ext ref_json (\<lambda>_. 7) (\<lambda>_. 0) 3
     (js_str ref_json (request_json ref_ext 7 0 sample_buy)) sample_worker = (Inr (), st')"
proof -
  let ?ord = "sample_ord GTC None"
  have r: "read_queued_order ref_ext ref_json (\<lambda>_. 0) (js_str ref_json (request_json ref_ext 7 0 sample_buy)) = Inr ?ord"
    using ref_ext.queued_order_of_request [of "\<lambda>_. 0" 7 0 sample_buy]
    by (simp add: read_queued_order_def ref_json.parse_str [OF canonical_request] parse_request sample_buy_order)
  have v: "validate_order (map_of (ws_pairs_cache sample_state)) ?ord = Inr ()"
    using sample_accepted [of GTC None] by (simp add: accepted_def sample_msg)
  have k: "o_tif ?ord \<noteq> FOK" "map_of (ws_pair_keys sample_state) (o_pair_id ?ord) = Some (new_pair_keys ''BTC-USDT'')"
    by (simp_all add: sample_ord_def sample_state_def)
  obtain res s' where m: "match_order_lua ref_valkey ref_ext ?ord (new_pair_keys ''BTC-USDT'') ''USDT'' 0 two_asks = (Inr res, s')"
    using sample_match(2) [of GTC None] by auto
  have w: "w_vk (aw_world sample_worker) = two_asks" "aw_pairs_cache sample_worker = ws_pairs_cache sample_state"
    "aw_pair_keys sample_worker = ws_pair_keys sample_state"
    by (simp_all add: sample_worker_def sample_world_def)
  show ?thesis
    using k(1) unfolding process_queued_order_def r validate_same w
    by (simp add: v sample_match(1) k(2) Let_def) (simp add: vbind_def on_w_def on_vk_def w m update_st_def)
qed

theorem dispatch_modes_agree_witness:
  "\<exists>st' job. process_queued_order ref_valkey ref_ext ref_json (\<lambda>_. 7) (\<lambda>_. 0) 3
      (js_str ref_json (request_json ref_ext 7 0 sample_buy)) sample_worker = (Inr (), st') \<and>
    hands_over job sample_worker st' \<and>
    process_order ref_valkey ref_ext ref_json (\<lambda>_ _. PostOk) (\<lambda>_. 7) (\<lambda>_. 0) 0 [] sample_state
        (request_json ref_ext 7 0 sample_buy) (sample_world two_asks []) =
      finish_order ref_valkey ref_ext ref_json (\<lambda>_ _. PostOk) (\<lambda>_. 0) 0 [] (pj_order job) (pj_trades job) (pj_lua_trades job)
        ((sample_world two_asks [])\<lparr>w_vk := w_vk (aw_world st')\<rparr>)"
proof -
  obtain st' where st': "process_queued_order ref_valkey ref_ext ref_json (\<lambda>_. 7) (\<lambda>_. 0) 3
      (js_str ref_json (request_json ref_ext 7 0 sample_buy)) sample_worker = (Inr (), st')"
    using sample_buy_processed by (elim exE)
  have c: "check_request sample_buy = Inr ()"
    by (simp add: check_request_def sample_buy_def) (simp add: i64_to_decimal_def SCALE_def)
  have h: "cr_tif sample_buy \<noteq> Some FOK" "aw_pairs_cache sample_worker = ws_pairs_cache sample_state"
    "aw_pair_keys sample_worker = ws_pair_keys sample_state" "w_vk (aw_world sample_worker) = w_vk (sample_world two_asks [])"
    by (simp_all add: sample_buy_def sample_worker_def)
  from dispatch_modes_agree [OF ref_ext.ext_spec_axioms ref_json.json_spec_axioms c h st', of "\<lambda>_ _. PostOk" 0 "[]"] st'
  show ?thesis by blast
qed

end
