(* ===== verification/Cancellation_Props.thy ===== *)
theory Cancellation_Props
  imports Queue_Props Persistence_Types
begin

text \<open>
  Cancellations, from the handlers of the gateway through the queue to the worker of
  the \<open>api\<close>: what each message does to the book, the orders and the balances.
\<close>

section \<open>Messages\<close>

lemma process_cancel:
  assumes "js_parse J s = Some j" "text_or j ''type'' ''cancel'' = ''cancel''"
  shows "process_cancellation V X J clock db_now (Suc n) s = cancel_one V X clock db_now j"
  using assms by simp

lemma process_cancel_all:
  assumes "js_parse J s = Some j" "text_or j ''type'' ''cancel'' = ''cancel_all''"
  shows "process_cancellation V X J clock db_now (Suc n) s =
    vbind (on_w (on_pg (pg_query (open_rows (text_or j ''user_id'' ''user-1'') (Option.bind (jget j ''pair_id'') jstr)))))
      (vforM (\<lambda>r. vor (process_cancellation V X J clock db_now n
         (cancel_msg J (x_uuid_str X (or_id r)) (text_or j ''user_id'' ''user-1''))) ()))"
  using assms by (simp add: Let_def)

definition cancel_json :: "string \<Rightarrow> string \<Rightarrow> json" where
  "cancel_json oid_str user_id =
     jobj [(''type'', JText ''cancel''), (''order_id'', JText oid_str), (''user_id'', JText user_id)]"

lemma cancel_json_fields:
  "jget (cancel_json i u) ''type'' = Some (JText ''cancel'')" "jget (cancel_json i u) ''order_id'' = Some (JText i)"
  "jget (cancel_json i u) ''user_id'' = Some (JText u)"
  unfolding cancel_json_def by (subst jget_jobj; simp)+

context json_spec
begin

lemma parse_cancel_msg: "js_parse J (cancel_msg J i u) = Some (cancel_json i u)"
  unfolding cancel_msg_def cancel_json_def [symmetric]
  by (rule parse_str) (auto simp: cancel_json_def intro!: canonical_jobj)

lemma process_cancel_msg:
  "process_cancellation V X J clock db_now (Suc n) (cancel_msg J i u) = cancel_one V X clock db_now (cancel_json i u)"
  using parse_cancel_msg by (rule process_cancel) (simp add: text_or_def cancel_json_fields)

end

text \<open>
  The calls of \<open>process_cancellation\<close> to itself nest once at most: with two levels of fuel it
  does what it does with any larger number, so the model never gives up.
\<close>

theorem cancellation_depth:
  assumes "json_spec J"
  shows "process_cancellation V X J clock db_now (Suc (Suc n)) cancel_str =
    process_cancellation V X J clock db_now (Suc (Suc 0)) cancel_str"
  by (simp only: process_cancellation.simps(2) [where n = "Suc _"] json_spec.process_cancel_msg [OF assms])

theorem cancellation_depth_witness:
  "process_cancellation ref_valkey ref_ext ref_json int 0 (Suc (Suc 5)) ''x'' =
    process_cancellation ref_valkey ref_ext ref_json int 0 (Suc (Suc 0)) ''x''"
  by (rule cancellation_depth [OF ref_json.json_spec_axioms])

section \<open>Cancelling one order\<close>

definition cancelled_tables :: "instant \<Rightarrow> string \<Rightarrow> 'd::floor_ceiling order_row \<Rightarrow> 'd tables \<Rightarrow> 'd tables" where
  "cancelled_tables db_now u r T =
     balances_update (balance_is u (fst (cancel_release r))) (unlock_row (snd (cancel_release r)))
       (orders_update (\<lambda>r'. or_id r' = or_id r) (cancel_row db_now) T)"

context valkey_spec
begin

lemma sim_remove [sim_rules]:
  "simulates \<alpha> (remove_order_from_book V X ord) (remove_order_from_book ref_valkey X ord)"
  unfolding remove_order_from_book_def Let_def ref_valkey_ops by (intro sim_rules)

lemma do_cancel_run:
  assumes "connected (\<alpha> (w_vk w))" "pg_outcomes (w_pg w) = []" "or_id r = oid"
  shows "\<exists>s'. do_cancel V X clock db_now oid u r w =
      (Inr (), w\<lparr>w_vk := s', w_pg := (w_pg w)\<lparr>pg_tables := cancelled_tables db_now u r (pg_tables (w_pg w))\<rparr>\<rparr>) \<and>
    \<alpha> s' = removed X (cancelled_order clock oid u r) (\<alpha> (w_vk w))"
proof -
  obtain s' where s': "remove_order_from_book V X (cancelled_order clock oid u r) (w_vk w) = (Inr (), s')"
      "\<alpha> s' = removed X (cancelled_order clock oid u r) (\<alpha> (w_vk w))"
    using simulates_run [OF sim_remove run_remove_order [OF assms(1)]] .
  show ?thesis
    using assms(2,3) s' by (cases "cancel_release r"; intro exI [of _ s'])
      (simp add: do_cancel_def vbind_def on_vk_def on_pg_def run_simps cancelled_tables_def)
qed

end

text \<open>The states on which a cancellation succeeds: both services answer.\<close>

definition api_up :: "('s \<Rightarrow> vdata) \<Rightarrow> ('s, 'd) api_state \<Rightarrow> bool" where
  "api_up \<alpha> st \<longleftrightarrow> connected (\<alpha> (w_vk (aw_world st))) \<and> pg_outcomes (w_pg (aw_world st)) = []"

abbreviation aw_tables :: "('s, 'd) api_state \<Rightarrow> 'd tables" where
  "aw_tables st \<equiv> pg_tables (w_pg (aw_world st))"

lemma send_dirty_world [simp]: "aw_world (send_dirty u st) = aw_world st"
  by (simp add: send_dirty_def)

context ext_spec
begin

lemma cancel_one_reads:
  assumes "jget j ''order_id'' = Some (JText (x_uuid_str X oid))" "pg_outcomes (w_pg (aw_world st)) = []"
  shows "cancel_one V X clock db_now j st =
    (case find (\<lambda>r. or_id r = oid \<and> or_user_id r = text_or j ''user_id'' []) (tb_orders (aw_tables st)) of
       None \<Rightarrow> vret ()
     | Some r \<Rightarrow>
         if \<not> row_open r then vret ()
         else vbind (on_w (do_cancel V X clock db_now oid (text_or j ''user_id'' []) r))
                (\<lambda>_. update_st (send_dirty (text_or j ''user_id'' [])))) st"
  using assms
  by (simp add: cancel_one_def uuid_round_trip Let_def)
    (simp add: vbind_def on_w_def on_pg_def run_simps split: option.split)

end

lemma cancel_one_run:
  assumes "valkey_spec V \<alpha>" "ext_spec X" "api_up \<alpha> st"
    and "find (\<lambda>r. or_id r = oid \<and> or_user_id r = u) (tb_orders (aw_tables st)) = Some r" "row_open r"
  shows "\<exists>st'. cancel_one V X clock db_now (cancel_json (x_uuid_str X oid) u) st = (Inr (), st') \<and>
    \<alpha> (w_vk (aw_world st')) = removed X (cancelled_order clock oid u r) (\<alpha> (w_vk (aw_world st))) \<and>
    w_pg (aw_world st') = (w_pg (aw_world st))\<lparr>pg_tables := cancelled_tables db_now u r (aw_tables st)\<rparr>"
proof -
  have "or_id r = oid" using assms(4) by (auto simp: find_Some_iff)
  with valkey_spec.do_cancel_run [OF assms(1), of "aw_world st" r oid X clock db_now u] assms(3) obtain s' where
    s': "do_cancel V X clock db_now oid u r (aw_world st) = (Inr (), (aw_world st)\<lparr>w_vk := s',
        w_pg := (w_pg (aw_world st))\<lparr>pg_tables := cancelled_tables db_now u r (aw_tables st)\<rparr>\<rparr>)"
      "\<alpha> s' = removed X (cancelled_order clock oid u r) (\<alpha> (w_vk (aw_world st)))"
    by (auto simp: api_up_def)
  have t: "text_or (cancel_json (x_uuid_str X oid) u) ''user_id'' [] = u"
    by (simp add: text_or_def cancel_json_fields)
  have "cancel_one V X clock db_now (cancel_json (x_uuid_str X oid) u) st =
    vbind (on_w (do_cancel V X clock db_now oid u r)) (\<lambda>_. update_st (send_dirty u)) st"
    using assms(3,5)
    by (subst ext_spec.cancel_one_reads [OF assms(2) cancel_json_fields(2)])
      (simp_all add: api_up_def t assms(4))
  with s' show ?thesis by (simp add: vbind_def on_w_def update_st_def)
qed

section \<open>Cancelling many orders\<close>

lemma cancel_row_sel [simp]:
  "or_id (cancel_row t r) = or_id r" "or_user_id (cancel_row t r) = or_user_id r"
  "or_pair_id (cancel_row t r) = or_pair_id r" "\<not> row_open (cancel_row t r)" "cancel_row t (cancel_row t r) = cancel_row t r"
  by (simp_all add: cancel_row_def row_open_def)

lemma cancelled_tables_orders:
  "tb_orders (cancelled_tables t u r T) = map (\<lambda>r'. if or_id r' = or_id r then cancel_row t r' else r') (tb_orders T)"
  by (simp add: cancelled_tables_def orders_update_def)

definition cancel_rows :: "instant \<Rightarrow> string \<Rightarrow> 'd::floor_ceiling order_row list \<Rightarrow> 'd tables \<Rightarrow> 'd tables" where
  "cancel_rows t u = fold (cancelled_tables t u)"

definition remove_rows ::
  "'d ext \<Rightarrow> (nat \<Rightarrow> instant) \<Rightarrow> string \<Rightarrow> 'd order_row list \<Rightarrow> vdata \<Rightarrow> vdata" where
  "remove_rows X clock u = fold (\<lambda>r. removed X (cancelled_order clock (or_id r) u r))"

lemma cancel_rows_orders:
  "tb_orders (cancel_rows t u rows T) =
     map (\<lambda>r. if or_id r \<in> or_id ` set rows then cancel_row t r else r) (tb_orders T)"
proof (induction rows arbitrary: T)
  case (Cons r rows)
  have "tb_orders (cancel_rows t u (r # rows) T) =
    map (\<lambda>r. if or_id r \<in> or_id ` set rows then cancel_row t r else r) (tb_orders (cancelled_tables t u r T))"
    using Cons.IH by (simp add: cancel_rows_def)
  then show ?case by (simp add: cancelled_tables_orders)
qed (simp add: cancel_rows_def)

text \<open>What a user owns of an asset, free or locked.\<close>

definition holdings :: "'d::plus tables \<Rightarrow> (string \<times> string \<times> 'd) list" where
  "holdings T = map (\<lambda>b. (b_user_id b, b_asset b, b_available b + b_locked b)) (tb_balances T)"

lemma cancel_rows_holdings: "holdings (cancel_rows t u rows T) = holdings T"
proof (induction rows arbitrary: T)
  case (Cons r rows)
  have "holdings (cancelled_tables t u r T) = holdings T"
    by (simp add: holdings_def cancelled_tables_def balances_update_def orders_update_def unlock_row_def)
  then show ?case using Cons.IH by (simp add: cancel_rows_def)
qed (simp add: cancel_rows_def)

text \<open>An order is out of the book: neither a hash nor an entry of its side.\<close>

definition absent :: "'d ext \<Rightarrow> 'd order_row \<Rightarrow> vdata \<Rightarrow> bool" where
  "absent X r d \<longleftrightarrow>
     (let i = x_uuid_str X (or_id r) in
      vd_keys d (okey i) = None \<and>
      i \<notin> snd ` set (zset_at d (book_key (or_pair_id r) (if or_side r = ''Buy'' then Buy else Sell))))"

lemma absent_removed: "absent X r (removed X (cancelled_order clock (or_id r) u r) d)"
  by (auto simp: absent_def removed_zset cancelled_order_def Let_def)
    (simp_all add: removed_def Let_def)

lemma absent_kept: "absent X r d \<Longrightarrow> absent X r (removed X ord d)"
  by (auto simp: absent_def removed_zset Let_def) (simp_all add: removed_def Let_def key_simps)

lemma absent_rows: "r \<in> set rows \<or> absent X r d \<Longrightarrow> absent X r (remove_rows X clock u rows d)"
proof (induction rows arbitrary: d)
  case (Cons r' rows)
  let ?d = "removed X (cancelled_order clock (or_id r') u r') d"
  have "r \<in> set rows \<or> absent X r ?d"
    using Cons.prems by (auto intro: absent_removed absent_kept)
  from Cons.IH [OF this] show ?case by (simp add: remove_rows_def)
qed (simp add: remove_rows_def)

lemma find_row:
  assumes "distinct (map or_id rs)" "r \<in> set rs" "or_user_id r = u"
  shows "find (\<lambda>r'. or_id r' = or_id r \<and> or_user_id r' = u) rs = Some r"
  using assms by (induction rs) auto

lemma cancel_loop_run:
  assumes "valkey_spec V \<alpha>" "ext_spec X" "json_spec J"
    and "api_up \<alpha> st" "distinct (map or_id (tb_orders (aw_tables st)))" "distinct (map or_id rows)"
    and "\<forall>r \<in> set rows. r \<in> set (tb_orders (aw_tables st)) \<and> or_user_id r = u \<and> row_open r"
  shows "\<exists>st'. vforM (\<lambda>r. vor (process_cancellation V X J clock db_now (Suc n)
      (cancel_msg J (x_uuid_str X (or_id r)) u)) ()) rows st = (Inr (), st') \<and>
    \<alpha> (w_vk (aw_world st')) = remove_rows X clock u rows (\<alpha> (w_vk (aw_world st))) \<and>
    w_pg (aw_world st') = (w_pg (aw_world st))\<lparr>pg_tables := cancel_rows db_now u rows (aw_tables st)\<rparr>"
  using assms(4-)
proof (induction rows arbitrary: st)
  case (Cons r rows)
  let ?m = "\<lambda>r. process_cancellation V X J clock db_now (Suc n) (cancel_msg J (x_uuid_str X (or_id r)) u)"
  have "find (\<lambda>r'. or_id r' = or_id r \<and> or_user_id r' = u) (tb_orders (aw_tables st)) = Some r" "row_open r"
    using Cons.prems by (simp_all add: find_row)
  from cancel_one_run [OF assms(1,2) Cons.prems(1) this, of clock db_now] obtain st1 where
    c: "cancel_one V X clock db_now (cancel_json (x_uuid_str X (or_id r)) u) st = (Inr (), st1)"
    and st1: "\<alpha> (w_vk (aw_world st1)) = removed X (cancelled_order clock (or_id r) u r) (\<alpha> (w_vk (aw_world st)))"
      "w_pg (aw_world st1) = (w_pg (aw_world st))\<lparr>pg_tables := cancelled_tables db_now u r (aw_tables st)\<rparr>"
    by (elim exE conjE)
  have up: "api_up \<alpha> st1" using Cons.prems(1) st1 by (simp add: api_up_def)
  have tabs: "tb_orders (aw_tables st1) = map (\<lambda>r'. if or_id r' = or_id r then cancel_row db_now r' else r') (tb_orders (aw_tables st))"
    by (simp add: st1(2) cancelled_tables_orders)
  have ids: "distinct (map or_id (tb_orders (aw_tables st1)))"
  proof -
    have "map or_id (tb_orders (aw_tables st1)) = map or_id (tb_orders (aw_tables st))" by (simp add: tabs)
    with Cons.prems(2) show ?thesis by (simp only:)
  qed
  have "\<forall>r' \<in> set rows. r' \<in> set (tb_orders (aw_tables st1)) \<and> or_user_id r' = u \<and> row_open r'"
  proof
    fix r' assume r': "r' \<in> set rows"
    then have "or_id r' \<noteq> or_id r" using Cons.prems(3) by simp (metis image_eqI)
    then have "r' = (if or_id r' = or_id r then cancel_row db_now r' else r')" by simp
    moreover have "r' \<in> set (tb_orders (aw_tables st))" using r' Cons.prems(4) by simp
    ultimately have "r' \<in> set (tb_orders (aw_tables st1))"
      unfolding tabs set_map by (rule image_eqI)
    with r' Cons.prems(4) show "r' \<in> set (tb_orders (aw_tables st1)) \<and> or_user_id r' = u \<and> row_open r'" by simp
  qed
  with Cons.IH [OF up ids] Cons.prems(3) obtain st' where
    st': "vforM (\<lambda>r. vor (?m r) ()) rows st1 = (Inr (), st')"
      "\<alpha> (w_vk (aw_world st')) = remove_rows X clock u rows (\<alpha> (w_vk (aw_world st1)))"
      "w_pg (aw_world st') = (w_pg (aw_world st1))\<lparr>pg_tables := cancel_rows db_now u rows (aw_tables st1)\<rparr>"
    by auto
  have "vforM (\<lambda>r. vor (?m r) ()) (r # rows) st = (Inr (), st')"
    by (simp only: vforM.simps vbind_def vor_def json_spec.process_cancel_msg [OF assms(3)] c prod.case sum.case)
      (simp only: st'(1) [unfolded json_spec.process_cancel_msg [OF assms(3)]])
  with st' st1 show ?case by (auto simp: remove_rows_def cancel_rows_def)
qed (simp add: vret_def remove_rows_def cancel_rows_def)

section \<open>From the gateway\<close>

definition cancel_all_json :: "'d ext \<Rightarrow> instant \<Rightarrow> string \<Rightarrow> string option \<Rightarrow> json" where
  "cancel_all_json X now u pair_id =
     jobj [(''type'', JText ''cancel_all''), (''user_id'', JText u), (''pair_id'', jopt JText pair_id),
           (''requested_at'', JText (x_time_str X now))]"

lemma cancel_all_json_fields:
  "text_or (cancel_all_json X now u p) ''type'' ''cancel'' = ''cancel_all''"
  "text_or (cancel_all_json X now u p) ''user_id'' ''user-1'' = u"
  "Option.bind (jget (cancel_all_json X now u p) ''pair_id'') jstr = p"
proof -
  have "jget (cancel_all_json X now u p) ''type'' = Some (JText ''cancel_all'')"
    "jget (cancel_all_json X now u p) ''user_id'' = Some (JText u)"
    "jget (cancel_all_json X now u p) ''pair_id'' = Some (jopt JText p)"
    unfolding cancel_all_json_def by (subst jget_jobj; simp)+
  then show "text_or (cancel_all_json X now u p) ''type'' ''cancel'' = ''cancel_all''"
    "text_or (cancel_all_json X now u p) ''user_id'' ''user-1'' = u"
    "Option.bind (jget (cancel_all_json X now u p) ''pair_id'') jstr = p"
    by (simp_all add: text_or_def jopt_def split: option.split)
qed

lemma canonical_cancel_all: "canonical (cancel_all_json X now u p)"
  unfolding cancel_all_json_def by (rule canonical_jobj) auto

lemma cancel_all_run:
  assumes "valkey_spec V \<alpha>" "ext_spec X" "json_spec J"
    and "api_up \<alpha> st" "distinct (map or_id (tb_orders (aw_tables st)))"
    and rows_def: "rows = open_rows u pair_id (aw_tables st)"
  shows "\<exists>st'. process_cancellation V X J clock db_now (Suc (Suc n)) (js_str J (cancel_all_json X now u pair_id)) st =
      (Inr (), st') \<and>
    \<alpha> (w_vk (aw_world st')) = remove_rows X clock u rows (\<alpha> (w_vk (aw_world st))) \<and>
    aw_tables st' = cancel_rows db_now u rows (aw_tables st)"
proof -
  have r: "distinct (map or_id rows)" "\<forall>r \<in> set rows. r \<in> set (tb_orders (aw_tables st)) \<and> or_user_id r = u \<and> row_open r"
    using assms(5) by (auto simp: rows_def open_rows_def distinct_map_filter)
  from cancel_loop_run [OF assms(1-5) r, of clock db_now n] obtain st' where
    st': "vforM (\<lambda>r. vor (process_cancellation V X J clock db_now (Suc n)
        (cancel_msg J (x_uuid_str X (or_id r)) u)) ()) rows st = (Inr (), st')"
      "\<alpha> (w_vk (aw_world st')) = remove_rows X clock u rows (\<alpha> (w_vk (aw_world st)))"
      "w_pg (aw_world st') = (w_pg (aw_world st))\<lparr>pg_tables := cancel_rows db_now u rows (aw_tables st)\<rparr>"
    by (elim exE conjE)
  have p: "js_parse J (js_str J (cancel_all_json X now u pair_id)) = Some (cancel_all_json X now u pair_id)"
    by (rule json_spec.parse_str [OF assms(3) canonical_cancel_all])
  have q: "on_w (on_pg (pg_query (open_rows u pair_id))) st = (Inr rows, st)"
    using assms(4) by (simp add: on_w_def on_pg_def run_simps api_up_def rows_def)
  have "process_cancellation V X J clock db_now (Suc (Suc n)) (js_str J (cancel_all_json X now u pair_id)) st =
      (Inr (), st')"
    by (simp only: process_cancel_all [OF p cancel_all_json_fields(1)] cancel_all_json_fields vbind_def [of "on_w _"]
        q prod.case sum.case st'(1))
  with st' show ?thesis by simp
qed

lemma gateway_pushes:
  assumes "valkey_spec V \<alpha>" "connected (\<alpha> (w_vk (gs_world g)))"
  shows "\<exists>g'. push_cancellation V J msg g = (Inr (), g') \<and>
    list_at (\<alpha> (w_vk (gs_world g'))) ''queue:cancellations'' =
      js_str J msg # list_at (\<alpha> (w_vk (gs_world g))) ''queue:cancellations''"
proof -
  obtain s' where "push_cancellation V J msg g = (Inr (), g\<lparr>gs_world := (gs_world g)\<lparr>w_vk := s'\<rparr>\<rparr>)"
    "\<alpha> s' = put_key ''queue:cancellations'' (Some (VList (js_str J msg #
        list_at (\<alpha> (w_vk (gs_world g))) ''queue:cancellations''))) (\<alpha> (w_vk (gs_world g)))"
    using valkey_spec.gw_push_run [OF assms queue_keys(3)] unfolding push_cancellation_def by metis
  then show ?thesis by simp
qed

text \<open>
  C10: a request to cancel all orders of a user does so. The handler of the gateway
  answers 200 and puts a message into the queue; the worker that takes it succeeds
  when both services answer and identifiers are unique. Afterwards the user has no
  open order (in the pair, when the request names one): those rows are cancelled with
  nothing remaining and every other row is as it was, none of the cancelled orders is left in the cached book, and what every user
  holds of an asset, free or locked, is unchanged in the database.
\<close>

theorem cancel_all_reaches_worker:
  assumes "valkey_spec V \<alpha>" and "ext_spec X" and "json_spec J"
    and "connected (\<alpha> (w_vk (gs_world g)))" and u: "u = option_or user_id ''user-1''"
    and "api_up \<alpha> st" and "distinct (map or_id (tb_orders (aw_tables st)))"
  shows "\<exists>resp g' msg st'. cancel_all_orders V X J now user_id pair_id g = (Inr (200, resp), g') \<and>
    list_at (\<alpha> (w_vk (gs_world g'))) ''queue:cancellations'' =
      msg # list_at (\<alpha> (w_vk (gs_world g))) ''queue:cancellations'' \<and>
    process_cancellation V X J clock db_now 2 msg st = (Inr (), st') \<and>
    open_rows u pair_id (aw_tables st') = [] \<and>
    tb_orders (aw_tables st') =
      map (\<lambda>r. if r \<in> set (open_rows u pair_id (aw_tables st)) then cancel_row db_now r else r) (tb_orders (aw_tables st)) \<and>
    (\<forall>r \<in> set (open_rows u pair_id (aw_tables st)). absent X r (\<alpha> (w_vk (aw_world st')))) \<and>
    holdings (aw_tables st') = holdings (aw_tables st)"
proof -
  let ?msg = "js_str J (cancel_all_json X now u pair_id)" and ?rows = "open_rows u pair_id (aw_tables st)"
  let ?T = "aw_tables st" and ?T' = "cancel_rows db_now u ?rows (aw_tables st)"
  obtain g' where g': "push_cancellation V J (cancel_all_json X now u pair_id) g = (Inr (), g')"
      "list_at (\<alpha> (w_vk (gs_world g'))) ''queue:cancellations'' =
        ?msg # list_at (\<alpha> (w_vk (gs_world g))) ''queue:cancellations''"
    using gateway_pushes [OF assms(1,4)] by metis
  from g'(1) obtain resp where "cancel_all_orders V X J now user_id pair_id g = (Inr (200, resp), g')"
    unfolding cancel_all_orders_def cancel_all_json_def u Let_def by (simp add: vbind_def vret_def)
  moreover from cancel_all_run [OF assms(1-3,6,7) refl, of clock db_now 0 now u pair_id] obtain st' where
    st': "process_cancellation V X J clock db_now 2 ?msg st = (Inr (), st')" "aw_tables st' = ?T'"
      "\<alpha> (w_vk (aw_world st')) = remove_rows X clock u ?rows (\<alpha> (w_vk (aw_world st)))"
    by (auto simp: numeral_2_eq_2 simp del: process_cancellation.simps)
  moreover have "open_rows u pair_id ?T' = []"
    by (auto simp: open_rows_def filter_empty_conv cancel_rows_orders)
  moreover have "tb_orders ?T' = map (\<lambda>r. if r \<in> set ?rows then cancel_row db_now r else r) (tb_orders ?T)"
    unfolding cancel_rows_orders using assms(7)
    by (intro map_cong refl) (auto simp: open_rows_def distinct_map dest: inj_onD)
  ultimately show ?thesis
    using g'(2) absent_rows [of _ ?rows X] cancel_rows_holdings [of db_now u ?rows ?T] by auto
qed

definition sample_row :: "rat order_row" where
  "sample_row =
     \<lparr>or_id = 7, or_user_id = ''user-1'', or_pair_id = ''BTC-USDT'', or_side = ''Sell'', or_order_type = ''Limit'',
      or_tif = ''GTC'', or_price = Some 50000, or_quantity = 2, or_remaining = 2, or_status = ''New'',
      or_stp_mode = ''None'', or_version = 1, or_sequence = 1, or_created_at = 0, or_updated_at = 0,
      or_client_order_id = None, or_received_at = None, or_matched_at = None, or_persisted_at = None\<rparr>"

definition sample_api :: "(vdata, rat) api_state" where
  "sample_api =
     \<lparr>aw_world = empty_world\<lparr>w_pg := (w_pg empty_world)\<lparr>pg_tables := (pg_tables (w_pg empty_world))
        \<lparr>tb_orders := [sample_row],
         tb_balances := [\<lparr>b_user_id = ''user-1'', b_asset = ''BTC'', b_available = 1, b_locked = 2\<rparr>]\<rparr>\<rparr>\<rparr>,
      aw_pairs_cache = [], aw_pair_keys = [], aw_persist = [], aw_spawned = [], aw_dirty_users = [], aw_events = [],
      aw_receivers = 0, aw_metrics = new_metrics_batch, aw_notified = [False, False, False]\<rparr>"

lemma sample_api_sel [simp]:
  "tb_orders (aw_tables sample_api) = [sample_row]" "w_vk (aw_world sample_api) = empty_vdata"
  by (simp_all add: sample_api_def empty_world_def)

lemma sample_api_up: "api_up id sample_api"
  by (simp add: api_up_def sample_api_def empty_world_def)

theorem cancel_all_reaches_worker_witness:
  "\<exists>resp g' msg st'. cancel_all_orders ref_valkey ref_ext ref_json 5 None None idle_gateway = (Inr (200, resp), g') \<and>
    process_cancellation ref_valkey ref_ext ref_json int 9 2 msg sample_api = (Inr (), st') \<and>
    tb_orders (aw_tables st') = [sample_row\<lparr>or_status := ''Cancelled'', or_remaining := 0, or_updated_at := 9\<rparr>]"
proof -
  have "open_rows ''user-1'' None (aw_tables sample_api) = [sample_row]"
    by (simp add: open_rows_def) (simp add: sample_row_def row_open_def)
  then show ?thesis
    using cancel_all_reaches_worker [OF ref.valkey_spec_axioms ref_ext.ext_spec_axioms ref_json.json_spec_axioms _ refl
        sample_api_up, where g = idle_gateway and user_id = None and now = 5 and pair_id = None and clock = int and db_now = 9]
    by (auto simp: cancel_row_def simp del: process_cancellation.simps)
qed

section \<open>Single cancellations from the gateway\<close>

lemma cancel_one_nobody:
  assumes "cancel_one V X clock db_now j st = (r, st')" "text_or j ''user_id'' [] = u"
    and "\<forall>row \<in> set (tb_orders (aw_tables st)). or_user_id row \<noteq> u"
  shows "w_vk (aw_world st') = w_vk (aw_world st) \<and> aw_tables st' = aw_tables st"
proof (cases "\<exists>i oid. Option.bind (jget j ''order_id'') jstr = Some i \<and> x_uuid_parse X i = Some oid")
  case False
  with assms(1) have "st' = st"
    by (cases "Option.bind (jget j ''order_id'') jstr") (auto simp: cancel_one_def vbind_def vlift_def ok_or_def)
  then show ?thesis by simp
next
  case True
  then obtain i oid where i: "Option.bind (jget j ''order_id'') jstr = Some i" "x_uuid_parse X i = Some oid" by blast
  let ?q = "\<lambda>T. find (\<lambda>r. or_id r = oid \<and> or_user_id r = u) (tb_orders T)"
  obtain qr p where q: "pg_query ?q (w_pg (aw_world st)) = (qr, p)" by (cases "pg_query ?q (w_pg (aw_world st))") auto
  have "?q (aw_tables st) = None" using assms(3) by (auto simp: find_None_iff)
  then have qr: "qr = Inr None" if "qr = Inr a" for a using pg_query_Inr [OF q [unfolded that]] that by simp
  have "st' = st\<lparr>aw_world := (aw_world st)\<lparr>w_pg := p\<rparr>\<rparr>"
    using assms(1) qr
    by (cases qr) (auto simp: cancel_one_def i assms(2) Let_def vbind_def on_w_def on_pg_def q vlift_def vret_def)
  with pg_query_tables [OF q] show ?thesis by simp
qed

text \<open>
  A message without effect on the book, the orders and the balances, whatever the
  state in which the worker takes it: as long as no order belongs to the user with
  the empty name.
\<close>

definition no_effect ::
  "'s valkey \<Rightarrow> 'd::floor_ceiling ext \<Rightarrow> json_ext \<Rightarrow> (nat \<Rightarrow> instant) \<Rightarrow> instant \<Rightarrow> string \<Rightarrow> bool" where
  "no_effect V X J clock db_now msg \<longleftrightarrow>
     (\<forall>st r st'. (\<forall>row \<in> set (tb_orders (aw_tables st)). or_user_id row \<noteq> []) \<longrightarrow>
        process_cancellation V X J clock db_now 2 msg st = (r, st') \<longrightarrow>
        w_vk (aw_world st') = w_vk (aw_world st) \<and> aw_tables st' = aw_tables st)"

lemma cancel_request_fields:
  "text_or (cancel_request X oid now) ''type'' ''cancel'' = ''cancel''"
  "text_or (cancel_request X oid now) ''user_id'' [] = []"
proof -
  have "jget (cancel_request X oid now) ''type'' = Some (JText ''cancel'')" "jget (cancel_request X oid now) ''user_id'' = None"
    unfolding cancel_request_def by (subst jget_jobj; simp)+
  then show "text_or (cancel_request X oid now) ''type'' ''cancel'' = ''cancel''"
    "text_or (cancel_request X oid now) ''user_id'' [] = []"
    by (simp_all add: text_or_def)
qed

definition modify_json :: "'d ext \<Rightarrow> uuid \<Rightarrow> instant \<Rightarrow> json" where
  "modify_json X oid now =
     jobj [(''type'', JText ''modify''), (''order_id'', JText (x_uuid_str X oid)), (''requested_at'', JText (x_time_str X now))]"

lemma modify_json_fields:
  "text_or (modify_json X oid now) ''type'' ''cancel'' = ''modify''"
  "text_or (modify_json X oid now) ''user_id'' [] = []"
  "Option.bind (jget (modify_json X oid now) ''order_id'') jstr = Some (x_uuid_str X oid)"
  "jget (modify_json X oid now) ''new_order'' = None"
proof -
  have "jget (modify_json X oid now) ''type'' = Some (JText ''modify'')" "jget (modify_json X oid now) ''user_id'' = None"
    "jget (modify_json X oid now) ''order_id'' = Some (JText (x_uuid_str X oid))"
    and "jget (modify_json X oid now) ''new_order'' = None"
    unfolding modify_json_def by (subst jget_jobj; simp)+
  then show "text_or (modify_json X oid now) ''type'' ''cancel'' = ''modify''"
    "text_or (modify_json X oid now) ''user_id'' [] = []"
    "Option.bind (jget (modify_json X oid now) ''order_id'') jstr = Some (x_uuid_str X oid)"
    "jget (modify_json X oid now) ''new_order'' = None"
    by (simp_all add: text_or_def)
qed

context json_spec
begin

lemma cancel_request_no_effect: "no_effect V X J clock db_now (js_str J (cancel_request X oid now))"
proof -
  have "js_parse J (js_str J (cancel_request X oid now)) = Some (cancel_request X oid now)"
    by (rule parse_str) (auto simp: cancel_request_def intro!: canonical_jobj)
  from process_cancel [OF this cancel_request_fields(1), of V X clock db_now "Suc 0"] show ?thesis
    using cancel_one_nobody [OF _ cancel_request_fields(2)]
    by (simp only: no_effect_def numeral_2_eq_2) blast
qed

lemma modify_no_effect: "no_effect V X J clock db_now (js_str J (modify_json X oid now))"
proof -
  have p: "js_parse J (js_str J (modify_json X oid now)) = Some (modify_json X oid now)"
    by (rule parse_str) (auto simp: modify_json_def intro!: canonical_jobj)
  have "process_cancellation V X J clock db_now 2 (js_str J (modify_json X oid now)) =
    vbind (cancel_one V X clock db_now (cancel_json (x_uuid_str X oid) [])) (\<lambda>_. vret ())"
    by (simp add: numeral_2_eq_2 p modify_json_fields process_cancel_msg del: process_cancellation.simps)
      (simp add: p modify_json_fields process_cancel_msg process_cancellation.simps(2) [of _ _ _ _ _ "Suc 0"]
        del: process_cancellation.simps)
  moreover have "text_or (cancel_json (x_uuid_str X oid) []) ''user_id'' [] = []"
    by (simp add: text_or_def cancel_json_fields)
  note cancel_one_nobody [OF _ this]
  ultimately show ?thesis by (simp add: no_effect_def) blast
qed

end

text \<open>
  C35: a single order cannot be cancelled through the gateway. \<open>cancel_order\<close> and
  \<open>modify_order\<close> answer 200 and queue a message, but the message names no user: the
  worker looks for an order of the user with the empty name, finds none, and leaves
  the book, the orders and the balances as they are.
\<close>

theorem gateway_cancel_has_no_effect:
  assumes "valkey_spec V \<alpha>" and "json_spec J" and "connected (\<alpha> (w_vk (gs_world g)))"
    and "h = cancel_order V X J now oid \<or> h = modify_order V X J now oid req"
  shows "\<exists>resp g' msg. h g = (Inr (200, resp), g') \<and>
    list_at (\<alpha> (w_vk (gs_world g'))) ''queue:cancellations'' =
      msg # list_at (\<alpha> (w_vk (gs_world g))) ''queue:cancellations'' \<and>
    no_effect V X J clock db_now msg"
proof -
  obtain g1 where g1: "push_cancellation V J (cancel_request X oid now) g = (Inr (), g1)"
      "list_at (\<alpha> (w_vk (gs_world g1))) ''queue:cancellations'' =
        js_str J (cancel_request X oid now) # list_at (\<alpha> (w_vk (gs_world g))) ''queue:cancellations''"
    using gateway_pushes [OF assms(1,3)] by metis
  obtain g2 where g2: "push_cancellation V J (modify_json X oid now) g = (Inr (), g2)"
      "list_at (\<alpha> (w_vk (gs_world g2))) ''queue:cancellations'' =
        js_str J (modify_json X oid now) # list_at (\<alpha> (w_vk (gs_world g))) ''queue:cancellations''"
    using gateway_pushes [OF assms(1,3)] by metis
  from assms(4) show ?thesis
  proof
    assume "h = cancel_order V X J now oid"
    with g1 json_spec.cancel_request_no_effect [OF assms(2)] show ?thesis
      by (auto simp: cancel_order_def vbind_def vret_def)
  next
    assume "h = modify_order V X J now oid req"
    with g2 json_spec.modify_no_effect [OF assms(2)] show ?thesis
      by (auto simp: modify_order_def modify_json_def vbind_def vret_def)
  qed
qed

theorem gateway_cancel_has_no_effect_witness:
  "\<exists>resp g' msg. cancel_order ref_valkey ref_ext ref_json 5 (or_id sample_row) idle_gateway = (Inr (200, resp), g') \<and>
    list_at (w_vk (gs_world g')) ''queue:cancellations'' = [msg] \<and>
    tb_orders (aw_tables (snd (process_cancellation ref_valkey ref_ext ref_json int 9 2 msg sample_api))) = [sample_row]"
proof -
  have "connected (id (w_vk (gs_world idle_gateway)))" by simp
  from gateway_cancel_has_no_effect [OF ref.valkey_spec_axioms ref_json.json_spec_axioms this disjI1 [OF refl],
      of ref_ext 5 "or_id sample_row" int 9]
  obtain resp g' msg where
    g': "cancel_order ref_valkey ref_ext ref_json 5 (or_id sample_row) idle_gateway = (Inr (200, resp), g')"
      "list_at (id (w_vk (gs_world g'))) ''queue:cancellations'' = msg # list_at (id (w_vk (gs_world idle_gateway))) ''queue:cancellations''"
    and n: "no_effect ref_valkey ref_ext ref_json int 9 msg" by (elim exE conjE)
  obtain r st' where st': "process_cancellation ref_valkey ref_ext ref_json int 9 2 msg sample_api = (r, st')" by force
  have "\<forall>row \<in> set (tb_orders (aw_tables sample_api)). or_user_id row \<noteq> []" by (simp add: sample_row_def)
  with n st' have "aw_tables st' = aw_tables sample_api" unfolding no_effect_def by blast
  with g' st' show ?thesis by (auto simp: list_at_def empty_vdata_def simp del: process_cancellation.simps)
qed

end
