(* ===== verification/Consumers.thy ===== *)
theory Consumers
  imports Cancellation_Props "HOL-Library.Multiset"
begin

text \<open>
  The consumers of the queues (\<open>order_queue_consumer\<close> of \<open>api/src/worker.rs\<close>): one
  task per queue takes messages and spawns a task for each of them, at most as many
  at a time as its semaphore has permits. The steps of all of them interleave. A
  spawned task is one step: of what it does only the matching script touches the
  queues' service, and that is atomic.
\<close>

section \<open>A pool of consumers\<close>

record ('st, 'r) pool =
  po_state :: 'st
  po_batch :: "string \<Rightarrow> string list"
  po_running :: "string \<Rightarrow> string list"
  po_done :: "(string \<times> string \<times> 'r) list"
  po_arrived :: "(string \<times> string) list"

inductive pool_step ::
  "string set \<Rightarrow> nat \<Rightarrow> (string \<Rightarrow> 'st \<Rightarrow> string list \<times> 'st) \<Rightarrow> (string \<Rightarrow> 'st \<Rightarrow> 'r \<Rightarrow> 'st \<Rightarrow> bool) \<Rightarrow>
   (string \<Rightarrow> string \<Rightarrow> 'st \<Rightarrow> 'st \<Rightarrow> bool) \<Rightarrow> ('st, 'r) pool \<Rightarrow> ('st, 'r) pool \<Rightarrow> bool"
  for queues permits pop run arrives where
  wake: "q \<in> queues \<Longrightarrow> po_batch p q = [] \<Longrightarrow> pop q (po_state p) = (ms, st') \<Longrightarrow>
    pool_step queues permits pop run arrives p (p\<lparr>po_state := st', po_batch := (po_batch p)(q := ms)\<rparr>)"
| spawn: "po_batch p q = s # ss \<Longrightarrow> length (po_running p q) < permits \<Longrightarrow>
    pool_step queues permits pop run arrives p
      (p\<lparr>po_batch := (po_batch p)(q := ss), po_running := (po_running p)(q := po_running p q @ [s])\<rparr>)"
| finish: "po_running p q = xs @ s # ys \<Longrightarrow> run s (po_state p) r st' \<Longrightarrow>
    pool_step queues permits pop run arrives p
      (p\<lparr>po_state := st', po_running := (po_running p)(q := xs @ ys), po_done := po_done p @ [(q, s, r)]\<rparr>)"
| arrive: "q \<in> queues \<Longrightarrow> arrives q s (po_state p) st' \<Longrightarrow>
    pool_step queues permits pop run arrives p (p\<lparr>po_state := st', po_arrived := po_arrived p @ [(q, s)]\<rparr>)"

inductive_cases pool_stepE: "pool_step queues permits pop run arrives p p'"

definition start_pool :: "'st \<Rightarrow> ('st, 'r) pool" where
  "start_pool st = \<lparr>po_state = st, po_batch = (\<lambda>_. []), po_running = (\<lambda>_. []), po_done = [], po_arrived = []\<rparr>"

section \<open>The queues of the worker\<close>

definition order_queues :: "string list" where
  "order_queues = map (\<lambda>p. ''queue:orders:'' @ p) PAIRS @ [''queue:orders'']"

text \<open>The consumer of the fallback queue asks the pool for a connection each time; after an error nothing is taken.\<close>

definition pop_orders :: "'s valkey \<Rightarrow> string \<Rightarrow> ('s, string list) vm" where
  "pop_orders V q =
     vor (if q = ''queue:orders'' then vbind (vk_conn V) (\<lambda>_. take_batch V q) else take_batch V q) []"

definition pop_order_queue :: "'s valkey \<Rightarrow> string \<Rightarrow> ('s, 'd) api_state \<Rightarrow> string list \<times> ('s, 'd) api_state" where
  "pop_order_queue V q st =
     (case on_w (on_vk (pop_orders V q)) st of (r, st') \<Rightarrow> (case r of Inr ms \<Rightarrow> ms | Inl _ \<Rightarrow> [], st'))"

text \<open>A task for an order: the identifiers, times and latency it sees are its own.\<close>

definition runs_order ::
  "'s valkey \<Rightarrow> 'd::floor_ceiling ext \<Rightarrow> json_ext \<Rightarrow> string \<Rightarrow> ('s, 'd) api_state \<Rightarrow> unit result \<Rightarrow> ('s, 'd) api_state \<Rightarrow> bool" where
  "runs_order V X J s st r st' \<longleftrightarrow>
     (\<exists>fresh clock lua_ms. process_queued_order V X J fresh clock lua_ms s st = (r, st'))"

text \<open>The other processes: one adds a message to a queue, in front of the list, and may change other keys.\<close>

definition order_arrives ::
  "('s \<Rightarrow> vdata) \<Rightarrow> string \<Rightarrow> string \<Rightarrow> ('s, 'd) api_state \<Rightarrow> ('s, 'd) api_state \<Rightarrow> bool" where
  "order_arrives \<alpha> q s st st' \<longleftrightarrow>
     (\<exists>v. st' = st\<lparr>aw_world := (aw_world st)\<lparr>w_vk := v\<rparr>\<rparr> \<and>
        list_at (\<alpha> v) q = s # list_at (\<alpha> (w_vk (aw_world st))) q \<and>
        (\<forall>q' \<in> set order_queues. q' \<noteq> q \<longrightarrow> list_at (\<alpha> v) q' = list_at (\<alpha> (w_vk (aw_world st))) q'))"

text \<open>Three permits per queue of orders.\<close>

abbreviation order_pool_step ::
  "'s valkey \<Rightarrow> ('s \<Rightarrow> vdata) \<Rightarrow> 'd::floor_ceiling ext \<Rightarrow> json_ext \<Rightarrow>
   (('s, 'd) api_state, unit result) pool \<Rightarrow> (('s, 'd) api_state, unit result) pool \<Rightarrow> bool" where
  "order_pool_step V \<alpha> X J \<equiv>
     pool_step (set order_queues) 3 (pop_order_queue V) (runs_order V X J) (order_arrives \<alpha>)"

text \<open>Cancellations are taken one at a time, with five permits per queue.\<close>

definition cancellation_queues :: "string list" where
  "cancellation_queues = map (\<lambda>p. ''queue:cancellations:'' @ p) PAIRS @ [''queue:cancellations'']"

definition pop_cancellation :: "'s valkey \<Rightarrow> string \<Rightarrow> ('s, string option) vm" where
  "pop_cancellation V q = vor (vbind (vk_conn V) (\<lambda>_. vk_rpop V q)) None"

definition pop_cancellation_queue :: "'s valkey \<Rightarrow> string \<Rightarrow> ('s, 'd) api_state \<Rightarrow> string list \<times> ('s, 'd) api_state" where
  "pop_cancellation_queue V q st =
     (case on_w (on_vk (pop_cancellation V q)) st of (r, st') \<Rightarrow> (case r of Inr (Some s) \<Rightarrow> [s] | _ \<Rightarrow> [], st'))"

definition runs_cancellation ::
  "'s valkey \<Rightarrow> 'd::floor_ceiling ext \<Rightarrow> json_ext \<Rightarrow> string \<Rightarrow> ('s, 'd) api_state \<Rightarrow> unit result \<Rightarrow> ('s, 'd) api_state \<Rightarrow> bool" where
  "runs_cancellation V X J s st r st' \<longleftrightarrow>
     (\<exists>clock db_now. process_cancellation V X J clock db_now 2 s st = (r, st'))"

definition cancellation_arrives ::
  "('s \<Rightarrow> vdata) \<Rightarrow> string \<Rightarrow> string \<Rightarrow> ('s, 'd) api_state \<Rightarrow> ('s, 'd) api_state \<Rightarrow> bool" where
  "cancellation_arrives \<alpha> q s st st' \<longleftrightarrow>
     list_at (\<alpha> (w_vk (aw_world st'))) q = s # list_at (\<alpha> (w_vk (aw_world st))) q \<and>
     (\<forall>q' \<in> set cancellation_queues. q' \<noteq> q \<longrightarrow>
        list_at (\<alpha> (w_vk (aw_world st'))) q' = list_at (\<alpha> (w_vk (aw_world st))) q')"

abbreviation cancellation_pool_step ::
  "'s valkey \<Rightarrow> ('s \<Rightarrow> vdata) \<Rightarrow> 'd::floor_ceiling ext \<Rightarrow> json_ext \<Rightarrow>
   (('s, 'd) api_state, unit result) pool \<Rightarrow> (('s, 'd) api_state, unit result) pool \<Rightarrow> bool" where
  "cancellation_pool_step V \<alpha> X J \<equiv>
     pool_step (set cancellation_queues) 5 (pop_cancellation_queue V) (runs_cancellation V X J) (cancellation_arrives \<alpha>)"

section \<open>The interface\<close>

text \<open>The messages of a queue in a list of labelled ones.\<close>

definition of_queue :: "string \<Rightarrow> (string \<times> 'a) list \<Rightarrow> 'a list" where
  "of_queue q l = map snd (filter (\<lambda>e. fst e = q) l)"

lemma of_queue_simps [simp]:
  "of_queue q [] = []" "of_queue q (l @ [e]) = of_queue q l @ (if fst e = q then [snd e] else [])"
  by (simp_all add: of_queue_def)

locale pool_spec =
  fixes queues :: "string set"
    and permits :: nat
    and width :: nat
    and pending :: "'st \<Rightarrow> string \<Rightarrow> string list"
    and good :: "'st \<Rightarrow> bool"
    and pop :: "string \<Rightarrow> 'st \<Rightarrow> string list \<times> 'st"
    and run :: "string \<Rightarrow> 'st \<Rightarrow> 'r \<Rightarrow> 'st \<Rightarrow> bool"
    and arrives :: "string \<Rightarrow> string \<Rightarrow> 'st \<Rightarrow> 'st \<Rightarrow> bool"
  assumes pop_takes: "good st \<Longrightarrow> q \<in> queues \<Longrightarrow> pop q st = (ms, st') \<Longrightarrow>
      good st' \<and> pending st q = pending st' q @ rev ms \<and> length ms \<le> width \<and>
      (\<forall>q' \<in> queues. q' \<noteq> q \<longrightarrow> pending st' q' = pending st q')"
    and run_keeps: "good st \<Longrightarrow> run s st r st' \<Longrightarrow> good st' \<and> (\<forall>q \<in> queues. pending st' q = pending st q)"
    and arrive_adds: "good st \<Longrightarrow> q \<in> queues \<Longrightarrow> arrives q s st st' \<Longrightarrow>
      good st' \<and> pending st' q = s # pending st q \<and> (\<forall>q' \<in> queues. q' \<noteq> q \<longrightarrow> pending st' q' = pending st q')"
begin

text \<open>Every message is in exactly one place, and the bounds hold.\<close>

lemma accounts:
  assumes "(pool_step queues permits pop run arrives)\<^sup>*\<^sup>* (start_pool st0) p" "good st0"
  shows "good (po_state p) \<and> (\<forall>q \<in> queues.
    mset (pending st0 q) + mset (of_queue q (po_arrived p)) =
      mset (pending (po_state p) q) + mset (po_batch p q) + mset (po_running p q) + mset (map fst (of_queue q (po_done p))) \<and>
    length (po_running p q) \<le> permits \<and> length (po_batch p q) \<le> width)"
  using assms(1)
proof (induction rule: rtranclp_induct)
  case base
  then show ?case using assms(2) by (simp add: start_pool_def)
next
  case (step p p')
  from step.hyps(2) show ?case
  proof (cases rule: pool_step.cases)
    case (wake q ms st')
    with step.IH pop_takes [of "po_state p" q ms st'] show ?thesis by (auto simp: ac_simps)
  next
    case (spawn q s ss)
    with step.IH show ?thesis by (auto simp: ac_simps)
  next
    case (finish q xs s ys r st')
    with step.IH run_keeps [of "po_state p" s r st'] show ?thesis by (auto simp: ac_simps)
  next
    case (arrive q s st')
    with step.IH arrive_adds [of "po_state p" q s st'] show ?thesis by (auto simp: ac_simps)
  qed
qed

end

section \<open>What the matching script leaves alone\<close>

lemma keeps_read_key [keeps_rules]: "keeps f (read_key view g k)"
  by (auto simp: keeps_def read_key_def split: sum.splits)

lemma keeps_edit_key: "k \<noteq> k' \<Longrightarrow> keeps (\<lambda>d. vd_keys d k') (edit_key view f k)"
  by (auto simp: keeps_def edit_key_def split: sum.splits)

lemma keeps_d_conn [keeps_rules]: "keeps (\<lambda>d. vd_keys d k) d_conn"
  by (auto simp: keeps_def split: list.splits)

lemma keeps_reads [keeps_rules]:
  "keeps f (d_hget k h)" "keeps f (d_hmget k fs)" "keeps f (d_zrangebyscore k hi lmt)"
  by (simp_all add: d_hget_def d_hmget_def d_zrangebyscore_def keeps_read_key)

lemma keeps_writes:
  assumes "k \<noteq> k'"
  shows "keeps (\<lambda>d. vd_keys d k') (d_hset k fvs)" "keeps (\<lambda>d. vd_keys d k') (d_hincrby k f by)"
    "keeps (\<lambda>d. vd_keys d k') (d_zadd k sc m)" "keeps (\<lambda>d. vd_keys d k') (d_zrem k m)"
    "keeps (\<lambda>d. vd_keys d k') (d_incrby k by)" "keeps (\<lambda>d. vd_keys d k') (d_del k)"
  using assms
  by (simp_all add: d_hset_def d_hincrby_def d_zadd_def d_zrem_def d_incrby_def keeps_edit_key)
    (simp add: keeps_def d_del_def)

lemma keeps_expire [keeps_rules]: "keeps (\<lambda>d. vd_keys d k') (d_expire k secs)"
  by (auto simp: keeps_def d_expire_def)

text \<open>The script writes no other key than those of orders, balances, the two sides and the version.\<close>

lemma script_keeps_key:
  assumes ne: "\<And>i. okey i \<noteq> k" "\<And>u a. balance_key u a \<noteq> k" "bids_key p \<noteq> k" "asks_key p \<noteq> k" "version_key p \<noteq> k"
  shows "keeps (\<lambda>d. vd_keys d k) (match_order_lua ref_valkey X ord (new_pair_keys p) la n)"
proof -
  note [keeps_rules] = keeps_writes [OF ne(1)] keeps_writes [OF ne(2)] keeps_writes [OF ne(3)] keeps_writes [OF ne(4)]
    keeps_writes [OF ne(5)]
  have d: "keeps (\<lambda>d. vd_keys d k) (drop_resting ref_valkey opp i)" if "opp = bids_key p \<or> opp = asks_key p" for opp i
    using that unfolding drop_resting_def ref_valkey_ops by (auto intro!: keeps_rules)
  have one: "keeps (\<lambda>d. vd_keys d k) (match_one ref_valkey A opp st i)" if "opp = bids_key p \<or> opp = asks_key p" for A opp st i
    unfolding match_one_def ref_valkey_ops Let_def by (intro keeps_rules d that)
  have loop: "keeps (\<lambda>d. vd_keys d k) (match_loop ref_valkey A opp st is)" if "opp = bids_key p \<or> opp = asks_key p" for A opp st "is"
    by (induction "is" arbitrary: st) (auto intro!: keeps_rules one that)
  have hin: "keeps (\<lambda>d. vd_keys d k) (lua_hincrby ref_valkey (balance_key u a) f m)" for u a f m
    unfolding lua_hincrby_def ref_valkey_ops by (intro keeps_rules)
  have lock: "keeps (\<lambda>d. vd_keys d k) (match_lock ref_valkey A)" for A
    unfolding match_lock_def ref_valkey_ops Let_def by (intro keeps_rules hin)
  have rest: "keeps (\<lambda>d. vd_keys d k) (rest_incoming ref_valkey A own (okey i) q st)" if "own = bids_key p \<or> own = asks_key p" for A own i q st
    using that unfolding rest_incoming_def ref_valkey_ops Let_def by (auto intro!: keeps_rules)
  have keys: "pk_bids (new_pair_keys p) = bids_key p" "pk_asks (new_pair_keys p) = asks_key p"
    "pk_version (new_pair_keys p) = version_key p"
    by (simp_all add: new_pair_keys_def bids_key_def asks_key_def version_key_def)
  show ?thesis
    unfolding match_order_lua_def match_script_def ref_valkey_ops Let_def keys
    by (intro keeps_rules lock loop rest) auto
qed

lemma script_keeps_lists:
  "key_kind k = Some KList \<Longrightarrow> keeps (\<lambda>d. vd_keys d k) (match_order_lua ref_valkey X ord (new_pair_keys p) la n)"
  by (rule script_keeps_key) (use key_kinds(5) key_kinds(6) key_kinds(1,2,4) [of p] in auto)

section \<open>What taking messages does\<close>

lemma butlast_empty: "z \<noteq> [] \<Longrightarrow> butlast z = [] \<Longrightarrow> z = [last z]"
  by (metis append_butlast_last_id append_Nil)

lemma rpop_cases:
  assumes "d_rpop k d = (r, d')"
  shows "(\<forall>k'. k' \<noteq> k \<longrightarrow> vd_keys d' k' = vd_keys d k') \<and>
    (case r of Inl e \<Rightarrow> d' = d | Inr None \<Rightarrow> list_at d' k = list_at d k | Inr (Some s) \<Rightarrow> list_at d k = list_at d' k @ [s])"
  using assms
  by (cases "vd_keys d k" rule: as_list.cases)
    (auto simp: d_rpop_def edit_key_def list_at_def list_value_def butlast_empty split: if_splits)

lemma drain_queue_cases:
  "drain_queue ref_valkey k n d = (r, d') \<Longrightarrow>
     \<exists>ms. r = Inr ms \<and> list_at d k = list_at d' k @ rev ms \<and> length ms \<le> n \<and> (\<forall>k'. k' \<noteq> k \<longrightarrow> vd_keys d' k' = vd_keys d k')"
proof (induction n arbitrary: d r d')
  case (Suc n)
  obtain r1 d1 where p: "d_rpop k d = (r1, d1)" by (cases "d_rpop k d")
  show ?case
  proof (cases "\<exists>s. r1 = Inr (Some s)")
    case True
    then obtain s where r1: "r1 = Inr (Some s)" by blast
    obtain r2 d2 where q: "drain_queue ref_valkey k n d1 = (r2, d2)" by (cases "drain_queue ref_valkey k n d1")
    from Suc.IH [OF q] obtain ms where ms: "r2 = Inr ms" "list_at d1 k = list_at d2 k @ rev ms" "length ms \<le> n"
        "\<forall>k'. k' \<noteq> k \<longrightarrow> vd_keys d2 k' = vd_keys d1 k'" by (elim exE conjE)
    have "r = Inr (s # ms)" "d' = d2"
      using Suc.prems by (simp_all add: vbind_def vor_def p r1 q ms(1) vret_def)
    then show ?thesis using rpop_cases [OF p] ms by (simp add: r1)
  next
    case False
    then have "r = Inr []" "d' = d1"
      using Suc.prems by (cases r1; auto simp: vbind_def vor_def p vret_def split: option.splits)+
    then show ?thesis using False rpop_cases [OF p] by (auto split: sum.splits option.splits)
  qed
qed (simp add: vret_def)

lemma take_batch_drain: "vor (take_batch ref_valkey k) [] d = drain_queue ref_valkey k 10 d"
proof -
  obtain r1 d1 where p: "d_rpop k d = (r1, d1)" by (cases "d_rpop k d")
  obtain r2 d2 where q: "drain_queue ref_valkey k 9 d1 = (r2, d2)" by (cases "drain_queue ref_valkey k 9 d1")
  from drain_queue_cases [OF q] obtain ms where r2: "r2 = Inr ms" by (elim exE conjE)
  have ten: "(10 :: nat) = Suc 9" by simp
  show ?thesis
    unfolding ten drain_queue.simps
    by (cases r1) (auto simp: take_batch_def vbind_def vor_def p q r2 vret_def split: option.splits)
qed

lemma pop_orders_cases:
  assumes "pop_orders ref_valkey q d = (r, d')"
  shows "\<exists>ms. r = Inr ms \<and> list_at d q = list_at d' q @ rev ms \<and> length ms \<le> 10 \<and> (\<forall>k. k \<noteq> q \<longrightarrow> list_at d' k = list_at d k)"
proof -
  obtain rc d1 where c: "d_conn d = (rc, d1)" by (cases "d_conn d")
  have k: "vd_keys d1 = vd_keys d" using d_conn_keys [OF c] by simp
  have step: "\<exists>ms. r = Inr ms \<and> list_at d q = list_at d' q @ rev ms \<and> length ms \<le> 10 \<and> (\<forall>k. k \<noteq> q \<longrightarrow> list_at d' k = list_at d k)"
    if "vor (take_batch ref_valkey q) [] e = (r, d')" "vd_keys e = vd_keys d" for e
    using drain_queue_cases [OF that(1) [unfolded take_batch_drain]] that(2) by (auto simp: list_at_def)
  show ?thesis
  proof (cases "q = ''queue:orders'' \<and> (\<exists>e. rc = Inl e)")
    case True
    with assms c k show ?thesis by (auto simp: pop_orders_def vor_def vbind_def list_at_def)
  next
    case False
    with assms c k step [of d] step [of d1] show ?thesis
      by (cases rc) (auto simp: pop_orders_def vor_def vbind_def split: if_splits)
  qed
qed

text \<open>The pairs of the worker have their own keys, as \<open>main\<close> builds them.\<close>

definition own_keys :: "('s, 'd) api_state \<Rightarrow> bool" where
  "own_keys st \<longleftrightarrow> (\<forall>p K. map_of (aw_pair_keys st) p = Some K \<longrightarrow> K = new_pair_keys p)"

abbreviation queue_of :: "('s \<Rightarrow> vdata) \<Rightarrow> ('s, 'd) api_state \<Rightarrow> string \<Rightarrow> string list" where
  "queue_of \<alpha> st q \<equiv> list_at (\<alpha> (w_vk (aw_world st))) q"

lemma order_queue_kinds: "q \<in> set order_queues \<Longrightarrow> key_kind q = Some KList"
proof -
  assume "q \<in> set order_queues"
  then have "q \<in> (\<lambda>p. ''queue:orders:'' @ p) ` set PAIRS \<or> q = ''queue:'' @ ''orders''"
    by (simp only: order_queues_def set_append set_map) auto
  then show ?thesis by (elim disjE imageE) (simp_all only: queue_keys)
qed

lemma order_queues_ne: "''queue:orders'' \<in> set order_queues"
  by (simp add: order_queues_def)

lemma after_match_keys [simp]: "aw_pair_keys (after_match X J ms ord trades lts st) = aw_pair_keys st"
proof -
  have "aw_pair_keys (fold send_dirty us st) = aw_pair_keys st" for us and st :: "('a, 'b) api_state"
    by (induction us arbitrary: st) (simp_all add: send_dirty_def)
  then show ?thesis by (simp add: after_match_def send_job_def mark_dirty_def Let_def)
qed

text \<open>An order is refused before the script is called, or the script runs on the keys of its pair.\<close>

lemma queued_order_cases:
  assumes "process_queued_order V X J fresh clock lua_ms s st = (r, st')" "own_keys st"
  obtains (refused) "st' = st"
  | (matched) ord la n res v' where "match_order_lua V X ord (new_pair_keys (o_pair_id ord)) la n (w_vk (aw_world st)) = (res, v')"
      "w_vk (aw_world st') = v'" "aw_pair_keys st' = aw_pair_keys st"
      "st' = (case res of Inl _ \<Rightarrow> st\<lparr>aw_world := (aw_world st)\<lparr>w_vk := v'\<rparr>\<rparr>
        | Inr m \<Rightarrow> after_match X J lua_ms (matched_order clock ord m) (build_trades fresh (clock 3) (matched_order clock ord m) (lr_trades m))
            (lr_trades m) (st\<lparr>aw_world := (aw_world st)\<lparr>w_vk := v'\<rparr>\<rparr>))"
proof (cases "read_queued_order X J clock s")
  case (Inl e)
  with assms(1) refused show thesis by (simp add: process_queued_order_def vbind_def vlift_def)
next
  case ord: (Inr ord)
  show thesis
  proof (cases "validate_order_request (map_of (aw_pairs_cache st)) ord")
    case (Inl e)
    with ord assms(1) refused show thesis by (simp add: process_queued_order_def vbind_def vlift_def)
  next
    case v: (Inr u)
    show thesis
    proof (cases "lock_params ord")
      case (Inl e)
      with ord v assms(1) refused show thesis by (simp add: process_queued_order_def vbind_def vlift_def)
    next
      case l: (Inr lp)
      obtain la n where lp: "lp = (la, n)" by (cases lp)
      show thesis
      proof (cases "o_tif ord = FOK \<or> map_of (aw_pair_keys st) (o_pair_id ord) = None")
        case True
        with ord v l lp assms(1) refused show thesis
          by (auto simp: process_queued_order_def vbind_def vlift_def update_order_cache_after_processing_def vret_def on_w_def split: if_splits)
      next
        case False
        with assms(2) have K: "map_of (aw_pair_keys st) (o_pair_id ord) = Some (new_pair_keys (o_pair_id ord))"
          by (auto simp: own_keys_def)
        obtain res v' where mr: "match_order_lua V X ord (new_pair_keys (o_pair_id ord)) la n (w_vk (aw_world st)) = (res, v')" by force
        show thesis
          by (rule matched [OF mr]) (use ord v l lp False K mr assms(1) in \<open>cases res;
            auto simp: process_queued_order_def vbind_def vlift_def on_w_def on_vk_def update_st_def Let_def after_match_hands_over(2)\<close>)+
      qed
    qed
  qed
qed

context valkey_spec
begin

lemma sim_pop_orders [sim_rules]: "simulates \<alpha> (pop_orders V q) (pop_orders ref_valkey q)"
  unfolding pop_orders_def ref_valkey_ops by (intro sim_rules sim_take_batch)

lemma process_keeps_queues:
  assumes "process_queued_order V X J fresh clock lua_ms s st = (r, st')" "own_keys st" "q \<in> set order_queues"
  shows "aw_pair_keys st' = aw_pair_keys st \<and> queue_of \<alpha> st' q = queue_of \<alpha> st q"
  using assms(1,2)
proof (cases rule: queued_order_cases)
  case (matched ord la n res v')
  have "vd_keys (\<alpha> v') q = vd_keys (\<alpha> (w_vk (aw_world st))) q"
    using keepsD [OF script_keeps_lists [OF order_queue_kinds [OF assms(3)]] simulatesD [OF sim_match_order_lua matched(1)]] .
  then show ?thesis using matched(2,3) by (simp add: list_at_def)
qed simp

end

sublocale valkey_spec \<subseteq> order_pool: pool_spec "set order_queues" 3 10 "queue_of \<alpha>" own_keys "pop_order_queue V"
  "runs_order V X J" "order_arrives \<alpha>" for X :: "'d::floor_ceiling ext" and J
proof
  fix st :: "('s, 'd) api_state" and q ms st'
  assume "own_keys st" "pop_order_queue V q st = (ms, st')"
  moreover obtain r v where p: "pop_orders V q (w_vk (aw_world st)) = (r, v)" by (cases "pop_orders V q (w_vk (aw_world st))")
  ultimately show "own_keys st' \<and> queue_of \<alpha> st q = queue_of \<alpha> st' q @ rev ms \<and> length ms \<le> 10 \<and>
      (\<forall>q' \<in> set order_queues. q' \<noteq> q \<longrightarrow> queue_of \<alpha> st' q' = queue_of \<alpha> st q')"
    using pop_orders_cases [OF simulatesD [OF sim_pop_orders p]]
    by (auto simp: pop_order_queue_def on_w_def on_vk_def own_keys_def)
next
  fix s and st st' :: "('s, 'd) api_state" and r
  assume o: "own_keys st" and "runs_order V X J s st r st'"
  then obtain fresh clock lua_ms where "process_queued_order V X J fresh clock lua_ms s st = (r, st')"
    by (auto simp: runs_order_def)
  from process_keeps_queues [OF this o] order_queues_ne o
  show "own_keys st' \<and> (\<forall>q \<in> set order_queues. queue_of \<alpha> st' q = queue_of \<alpha> st q)"
    by (auto simp: own_keys_def)
qed (auto simp: order_arrives_def own_keys_def)

interpretation ref_pool: pool_spec "set order_queues" 3 10 "queue_of id" own_keys "pop_order_queue ref_valkey"
  "runs_order ref_valkey X J" "order_arrives id" for X :: "'d::floor_ceiling ext" and J
  by (rule ref.order_pool.pool_spec_axioms)

subsection \<open>Cancellations\<close>

lemma cancellation_queue_names:
  assumes "q \<in> set cancellation_queues"
  shows "key_kind q = Some KList" "q \<noteq> ''queue:orders'' @ p"
proof -
  from assms have "q \<in> (\<lambda>p. ''queue:cancellations:'' @ p) ` set PAIRS \<or> q = ''queue:cancellations''"
    by (simp only: cancellation_queues_def set_append set_map) auto
  then obtain r where r: "q = ''queue:'' @ CHR ''c'' # r" by auto
  then show "key_kind q = Some KList" by (simp only: queue_keys)
  from r show "q \<noteq> ''queue:orders'' @ p" by simp
qed

lemma keeps_vpipe_2 [keeps_rules]: "keeps f a \<Longrightarrow> keeps f b \<Longrightarrow> keeps f (vpipe [a, b])"
  by (auto simp: keeps_def split: prod.splits)

lemma keeps_on_w [keeps_rules]: "keeps f m \<Longrightarrow> keeps (\<lambda>st. f (aw_world st)) (on_w m)"
  by (auto simp: keeps_def on_w_def split: prod.splits)

lemma keeps_send_dirty [keeps_rules]: "keeps (\<lambda>st. f (aw_world st)) (update_st (send_dirty u))"
  by (simp add: keeps_def update_st_def)

lemma keeps_pg_vk [keeps_rules]: "keeps (\<lambda>w. f (w_vk w)) (on_pg m)"
  by (auto simp: keeps_def on_pg_D)

context valkey_spec
begin

lemma keeps_key_vk [keeps_rules]:
  assumes "simulates \<alpha> m m'" "keeps (\<lambda>d. vd_keys d q) m'"
  shows "keeps (\<lambda>w. vd_keys (\<alpha> (w_vk w)) q) (on_vk m)"
  using assms by (auto simp: keeps_def dest!: on_vk_D(1) simulatesD)

lemma keeps_do_cancel:
  assumes "key_kind q = Some KList"
  shows "keeps (\<lambda>w. vd_keys (\<alpha> (w_vk w)) q) (do_cancel V X clock db_now oid u r)"
proof -
  have ne: "okey i \<noteq> q" "book_key p sd \<noteq> q" for i p sd
    using assms key_kinds(5) [of i] key_kinds(3) [of p sd] by auto
  have r: "keeps (\<lambda>d. vd_keys d q) (remove_order_from_book ref_valkey X ord)" for ord
    unfolding remove_order_from_book_def ref_valkey_ops Let_def
    by (intro keeps_rules keeps_writes ne)
  show ?thesis
    unfolding do_cancel_def by (intro keeps_vbind keeps_key_vk [OF sim_remove r] keeps_pg_vk keeps_prod)
qed

lemma keeps_cancel_one:
  assumes "key_kind q = Some KList"
  shows "keeps (\<lambda>st. vd_keys (\<alpha> (w_vk (aw_world st))) q) (cancel_one V X clock db_now j)"
  unfolding cancel_one_def Let_def by (intro keeps_rules keeps_do_cancel assms)

lemma keeps_replacement:
  assumes "q \<in> set cancellation_queues"
  shows "keeps (\<lambda>st. vd_keys (\<alpha> (w_vk (aw_world st))) q)
    (on_w (on_vk (vbind (vk_conn V) (\<lambda>_. vk_lpush V (replacement_queue j) v))))"
proof -
  have "replacement_queue j \<noteq> q"
    using cancellation_queue_names(2) [OF assms, of "[]"] cancellation_queue_names(2) [OF assms, of "CHR '':'' # _"]
    by (auto simp: replacement_queue_def split: option.split)
  then have "keeps (\<lambda>d. vd_keys d q) (vbind d_conn (\<lambda>_. d_lpush (replacement_queue j) v))"
    unfolding d_lpush_def by (intro keeps_rules keeps_edit_key)
  moreover have "simulates \<alpha> (vbind (vk_conn V) (\<lambda>_. vk_lpush V (replacement_queue j) v))
      (vbind d_conn (\<lambda>_. d_lpush (replacement_queue j) v))"
    by (intro sim_rules)
  ultimately show ?thesis by (intro keeps_on_w keeps_key_vk)
qed

lemma keeps_process_cancellation:
  assumes "q \<in> set cancellation_queues"
  shows "keeps (\<lambda>st. vd_keys (\<alpha> (w_vk (aw_world st))) q) (process_cancellation V X J clock db_now n s)"
proof (induction n arbitrary: s)
  case (Suc n)
  note k = cancellation_queue_names(1) [OF assms]
  show ?case
    unfolding process_cancellation.simps Let_def
    by (intro keeps_rules keeps_cancel_one [OF k] keeps_replacement [OF assms] Suc)
qed (simp add: keeps_rules)

lemma sim_pop_cancellation [sim_rules]: "simulates \<alpha> (pop_cancellation V q) (pop_cancellation ref_valkey q)"
  unfolding pop_cancellation_def ref_valkey_ops by (intro sim_rules)

end

lemma pop_cancellation_cases:
  assumes "pop_cancellation ref_valkey q d = (r, d')"
  shows "(\<forall>k. k \<noteq> q \<longrightarrow> list_at d' k = list_at d k) \<and>
    (\<exists>m. r = Inr m \<and> list_at d q = list_at d' q @ (case m of None \<Rightarrow> [] | Some s \<Rightarrow> [s]))"
proof -
  obtain rc d1 where c: "d_conn d = (rc, d1)" by (cases "d_conn d")
  obtain r2 d2 where p: "d_rpop q d1 = (r2, d2)" by (cases "d_rpop q d1")
  have k: "list_at d1 = list_at d" using d_conn_keys [OF c] by (simp add: list_at_def fun_eq_iff)
  have o: "\<forall>k. k \<noteq> q \<longrightarrow> list_at d2 k = list_at d1 k" using rpop_cases [OF p] by (simp add: list_at_def)
  show ?thesis
    using assms rpop_cases [OF p] k o
    by (cases rc; cases r2) (auto simp: pop_cancellation_def vor_def vbind_def c p simp del: d_conn.simps split: option.splits)
qed

sublocale valkey_spec \<subseteq> cancellation_pool: pool_spec "set cancellation_queues" 5 1 "queue_of \<alpha>" "\<lambda>_. True"
  "pop_cancellation_queue V" "runs_cancellation V X J" "cancellation_arrives \<alpha>" for X :: "'d::floor_ceiling ext" and J
proof
  fix st :: "('s, 'd) api_state" and q ms st'
  assume "pop_cancellation_queue V q st = (ms, st')"
  moreover obtain r v where p: "pop_cancellation V q (w_vk (aw_world st)) = (r, v)"
    by (cases "pop_cancellation V q (w_vk (aw_world st))")
  ultimately show "True \<and> queue_of \<alpha> st q = queue_of \<alpha> st' q @ rev ms \<and> length ms \<le> 1 \<and>
      (\<forall>q' \<in> set cancellation_queues. q' \<noteq> q \<longrightarrow> queue_of \<alpha> st' q' = queue_of \<alpha> st q')"
    using pop_cancellation_cases [OF simulatesD [OF sim_pop_cancellation p]]
    by (auto simp: pop_cancellation_queue_def on_w_def on_vk_def split: option.splits)
next
  fix s and st st' :: "('s, 'd) api_state" and r
  assume "runs_cancellation V X J s st r st'"
  then obtain clock db_now where "process_cancellation V X J clock db_now 2 s st = (r, st')"
    unfolding runs_cancellation_def by (elim exE)
  from keepsD [OF keeps_process_cancellation this]
  show "True \<and> (\<forall>q \<in> set cancellation_queues. queue_of \<alpha> st' q = queue_of \<alpha> st q)"
    by (simp add: list_at_def)
qed (simp_all add: cancellation_arrives_def)

interpretation ref_cancellation_pool: pool_spec "set cancellation_queues" 5 1 "queue_of id" "\<lambda>_. True"
  "pop_cancellation_queue ref_valkey" "runs_cancellation ref_valkey X J" "cancellation_arrives id"
  for X :: "'d::floor_ceiling ext" and J
  by (rule ref.cancellation_pool.pool_spec_axioms)

context valkey_spec
begin

lemmas order_pool_accounts = order_pool.accounts

end

section \<open>Properties\<close>

text \<open>
  C9: no order is lost or processed twice, and the number of orders in flight is
  bounded. Along any interleaving of the consumers, their tasks and arriving
  messages, every message that was or came into a queue is in exactly one place: in
  the queue, in a batch taken from it, in a running task or among the finished ones;
  at most three tasks of a queue run, and a batch holds at most ten messages.
\<close>

theorem orders_processed_once:
  assumes "valkey_spec V \<alpha>" and "own_keys st0" and "q \<in> set order_queues"
    and "(order_pool_step V \<alpha> X J)\<^sup>*\<^sup>* (start_pool st0) p"
  shows "mset (queue_of \<alpha> st0 q) + mset (of_queue q (po_arrived p)) =
      mset (queue_of \<alpha> (po_state p) q) + mset (po_batch p q) + mset (po_running p q) +
        mset (map fst (of_queue q (po_done p))) \<and>
    length (po_running p q) \<le> 3 \<and> length (po_batch p q) \<le> 10"
  using valkey_spec.order_pool_accounts [OF assms(1,4,2)] assms(3) by blast

definition queued_api :: "(vdata, rat) api_state" where
  "queued_api = sample_worker\<lparr>aw_world := (aw_world sample_worker)\<lparr>w_vk :=
     put_key ''queue:orders'' (Some (VList [''b'', ''a''])) empty_vdata\<rparr>\<rparr>"

lemma queued_api_keys: "own_keys queued_api"
  by (auto simp: own_keys_def queued_api_def sample_worker_def sample_state_def split: if_splits)

text \<open>Taking both messages and starting the task of the older one.\<close>

lemma queued_api_run:
  "\<exists>p. (order_pool_step ref_valkey id ref_ext ref_json)\<^sup>*\<^sup>* (start_pool queued_api) p \<and>
     po_batch p ''queue:orders'' = [''b''] \<and> po_running p ''queue:orders'' = [''a'']"
proof -
  let ?q = "''queue:orders''"
  let ?step = "order_pool_step ref_valkey id ref_ext ref_json"
  let ?p0 = "start_pool queued_api :: ((vdata, rat) api_state, unit result) pool"
  have v: "w_vk (aw_world queued_api) = put_key ?q (Some (VList [''b'', ''a''])) empty_vdata"
    by (simp add: queued_api_def)
  have k: "key_kind ?q = Some KList" using queue_keys(1) [of "''orders''"] by simp
  have wk: "well_keyed (put_key ?q (Some (VList [''b'', ''a''])) empty_vdata)" by (simp add: k)
  obtain d' where d': "take_batch ref_valkey ?q (put_key ?q (Some (VList [''b'', ''a''])) empty_vdata) = (Inr [''a'', ''b''], d')"
    using take_batch_run [OF wk k] by (auto simp: numeral_eq_Suc)
  obtain st' where st': "pop_order_queue ref_valkey ?q queued_api = ([''a'', ''b''], st')"
    using d' by (simp add: pop_order_queue_def on_w_def on_vk_def v pop_orders_def vor_def vbind_def empty_vdata_def)
  let ?p1 = "?p0\<lparr>po_state := st', po_batch := (po_batch ?p0)(?q := [''a'', ''b''])\<rparr>"
  let ?p2 = "?p1\<lparr>po_batch := (po_batch ?p1)(?q := [''b'']), po_running := (po_running ?p1)(?q := po_running ?p1 ?q @ [''a''])\<rparr>"
  have "?step ?p0 ?p1" by (rule pool_step.wake) (simp_all add: order_queues_ne start_pool_def st')
  moreover have "?step ?p1 ?p2" by (rule pool_step.spawn) (simp_all add: start_pool_def)
  ultimately have "?step\<^sup>*\<^sup>* ?p0 ?p2" by (meson rtranclp.rtrancl_into_rtrancl rtranclp.rtrancl_refl)
  then show ?thesis by (intro exI [of _ ?p2]) (simp add: start_pool_def)
qed

theorem orders_processed_once_witness:
  "\<exists>p. (order_pool_step ref_valkey id ref_ext ref_json)\<^sup>*\<^sup>* (start_pool queued_api) p \<and>
    po_running p ''queue:orders'' = [''a''] \<and> po_batch p ''queue:orders'' = [''b''] \<and>
    {#''b'', ''a''#} + mset (of_queue ''queue:orders'' (po_arrived p)) =
      mset (queue_of id (po_state p) ''queue:orders'') + {#''b''#} + {#''a''#} +
        mset (map fst (of_queue ''queue:orders'' (po_done p)))"
proof -
  obtain p where p: "(order_pool_step ref_valkey id ref_ext ref_json)\<^sup>*\<^sup>* (start_pool queued_api) p"
    "po_batch p ''queue:orders'' = [''b'']" "po_running p ''queue:orders'' = [''a'']"
    using queued_api_run by (elim exE conjE)
  have "queue_of id queued_api ''queue:orders'' = [''b'', ''a'']" by (simp add: queued_api_def)
  with orders_processed_once [OF ref.valkey_spec_axioms queued_api_keys order_queues_ne p(1)] p show ?thesis
    by (intro exI [of _ p]) simp
qed

end
