(* ===== verification/Debounce.thy ===== *)
theory Debounce
  imports Consumers
begin

text \<open>
  The displayed order book of the api worker (\<open>OrderbookDebouncer\<close> and
  \<open>spawn_orderbook_debounce_workers\<close> of \<open>api/src/worker.rs\<close>) beside the tasks that change the books
  (\<open>process_queued_order\<close>, \<open>process_cancellation\<close>): a task that has run the script
  marks the pair when trades were made or the order rests; the task of the pair takes the mark, waits, reads the book
  and writes the displayed value. Marks are merged: at most one is stored. The steps of
  all tasks interleave, also between the script and the mark and between the read and the write; no marked change of a book
  is left out of what is displayed unless the last rebuild failed. A change that is not
  marked, as that of a cancellation, is not displayed.
\<close>

section \<open>Model\<close>

definition view_key :: "string \<Rightarrow> string" where
  "view_key p = ''cache:orderbook:'' @ p"

text \<open>A task waits for a mark, has taken one, or has read the book and holds the value to write.\<close>

datatype task = Idle | Woken | Built string

text \<open>
  The state, the tasks of the pairs, whether the last rebuild of a pair failed (it is only
  logged), the marks still to be set by tasks that have run the script, and, as an observation, whether the
  book of the pair has changed without a mark since it was last read.
\<close>

record ('s, 'd) debounce =
  ds_api :: "('s, 'd) api_state"
  ds_tasks :: "task list"
  ds_failed :: "bool list"
  ds_due :: "string list"
  ds_hidden :: "bool list"

abbreviation ds_world :: "('s, 'd) debounce \<Rightarrow> ('s, 'd) world" where
  "ds_world D \<equiv> aw_world (ds_api D)"

abbreviation with_world :: "('s, 'd) world \<Rightarrow> ('s, 'd) debounce \<Rightarrow> ('s, 'd) debounce" where
  "with_world w D \<equiv> D\<lparr>ds_api := (ds_api D)\<lparr>aw_world := w\<rparr>\<rparr>"

definition view_text :: "json_ext \<Rightarrow> string \<Rightarrow> (string \<times> string) list \<times> (string \<times> string) list \<Rightarrow> string" where
  "view_text J p = (\<lambda>(bids, asks). js_str J (orderbook_json p (map level_json bids) (map level_json asks)))"

text \<open>The value that displays the book as it is.\<close>

definition book_text :: "'d::floor_ceiling ext \<Rightarrow> json_ext \<Rightarrow> string \<Rightarrow> vdata \<Rightarrow> vvalue option" where
  "book_text X J p d =
     (case fst (ORDERBOOK_SNAPSHOT_LUA ref_valkey p 50 d) of
        Inl _ \<Rightarrow> None
      | Inr result \<Rightarrow> (case parse_snapshot result :: ('d \<times> 'd) list \<times> ('d \<times> 'd) list of (bids, asks) \<Rightarrow>
          Some (VStr (view_text J p (map (level_text X) bids, map (level_text X) asks)))))"

text \<open>
  After a run of the worker, made on a state without marks, that ended in \<open>st'\<close>: what it did to the cache is done, the
  marks it makes are due.
\<close>

definition no_marks :: "bool list" where
  "no_marks = replicate (length PAIRS) False"

definition marks_of :: "('s, 'd) api_state \<Rightarrow> string list" where
  "marks_of st' = filter (\<lambda>p. aw_notified st' ! pair_index p) PAIRS"

definition after_run ::
  "('s \<Rightarrow> vdata) \<Rightarrow> 'd::floor_ceiling ext \<Rightarrow> json_ext \<Rightarrow> ('s, 'd) api_state \<Rightarrow> ('s, 'd) debounce \<Rightarrow> ('s, 'd) debounce" where
  "after_run \<alpha> X J st' D =
     D\<lparr>ds_api := st'\<lparr>aw_notified := aw_notified (ds_api D)\<rparr>, ds_due := marks_of st' @ ds_due D,
       ds_hidden := map (\<lambda>p. ds_hidden D ! pair_index p \<or> p \<notin> set (marks_of st') \<and>
         book_text X J p (\<alpha> (w_vk (aw_world st'))) \<noteq> book_text X J p (\<alpha> (w_vk (ds_world D)))) PAIRS\<rparr>"

inductive debounce_step ::
  "'s valkey \<Rightarrow> ('s \<Rightarrow> vdata) \<Rightarrow> 'd::floor_ceiling ext \<Rightarrow> json_ext \<Rightarrow> ('s, 'd) debounce \<Rightarrow> ('s, 'd) debounce \<Rightarrow> bool"
  for V :: "'s valkey" and \<alpha> :: "'s \<Rightarrow> vdata" and X :: "'d::floor_ceiling ext" and J :: json_ext where
  order: "process_queued_order V X J fresh clock lua_ms msg ((ds_api D)\<lparr>aw_notified := no_marks\<rparr>) = (r, st') \<Longrightarrow>
    debounce_step V \<alpha> X J D (after_run \<alpha> X J st' D)"
| cancellation: "process_cancellation V X J clock db_now n msg ((ds_api D)\<lparr>aw_notified := no_marks\<rparr>) = (r, st') \<Longrightarrow>
    debounce_step V \<alpha> X J D (after_run \<alpha> X J st' D)"
| mark: "p \<in> set (ds_due D) \<Longrightarrow>
    debounce_step V \<alpha> X J D (D\<lparr>ds_api := mark_dirty p (ds_api D), ds_due := remove1 p (ds_due D)\<rparr>)"
| wake: "i < length PAIRS \<Longrightarrow> aw_notified (ds_api D) ! i \<Longrightarrow> ds_tasks D ! i = Idle \<Longrightarrow>
    debounce_step V \<alpha> X J D (D\<lparr>ds_api := (ds_api D)\<lparr>aw_notified := (aw_notified (ds_api D))[i := False]\<rparr>,
      ds_tasks := (ds_tasks D)[i := Woken]\<rparr>)"
| snapshot: "i < length PAIRS \<Longrightarrow> ds_tasks D ! i = Woken \<Longrightarrow>
    on_vk (orderbook_snapshot_lua V X (PAIRS ! i) 50) (ds_world D) = (r, w') \<Longrightarrow>
    debounce_step V \<alpha> X J D ((with_world w' D)\<lparr>
      ds_tasks := (ds_tasks D)[i := (case r of Inl _ \<Rightarrow> Idle | Inr levels \<Rightarrow> Built (view_text J (PAIRS ! i) levels))],
      ds_failed := (ds_failed D)[i := isl r], ds_hidden := (ds_hidden D)[i := ds_hidden D ! i \<and> isl r]\<rparr>)"
| publish: "i < length PAIRS \<Longrightarrow> ds_tasks D ! i = Built t \<Longrightarrow>
    on_vk (set_and_publish V (view_key (PAIRS ! i)) t) (ds_world D) = (r, w') \<Longrightarrow>
    debounce_step V \<alpha> X J D ((with_world w' D)\<lparr>ds_tasks := (ds_tasks D)[i := Idle], ds_failed := (ds_failed D)[i := isl r]\<rparr>)"

text \<open>A pair is due while a mark is still to be set or is stored, and pending until its task is idle as well.\<close>

definition due :: "('s, 'd) debounce \<Rightarrow> nat \<Rightarrow> bool" where
  "due D i \<longleftrightarrow> PAIRS ! i \<in> set (ds_due D) \<or> aw_notified (ds_api D) ! i"

definition pending :: "('s, 'd) debounce \<Rightarrow> nat \<Rightarrow> bool" where
  "pending D i \<longleftrightarrow> due D i \<or> ds_tasks D ! i \<noteq> Idle"

definition current :: "('s \<Rightarrow> vdata) \<Rightarrow> 'd::floor_ceiling ext \<Rightarrow> json_ext \<Rightarrow> ('s, 'd) debounce \<Rightarrow> nat \<Rightarrow> bool" where
  "current \<alpha> X J D i \<longleftrightarrow> vd_keys (\<alpha> (w_vk (ds_world D))) (view_key (PAIRS ! i)) = book_text X J (PAIRS ! i) (\<alpha> (w_vk (ds_world D)))"

definition pair_ok :: "('s \<Rightarrow> vdata) \<Rightarrow> 'd::floor_ceiling ext \<Rightarrow> json_ext \<Rightarrow> ('s, 'd) debounce \<Rightarrow> nat \<Rightarrow> bool" where
  "pair_ok \<alpha> X J D i \<longleftrightarrow> due D i \<or> ds_hidden D ! i \<or>
     (case ds_tasks D ! i of
        Idle \<Rightarrow> ds_failed D ! i \<or> current \<alpha> X J D i
      | Woken \<Rightarrow> True
      | Built t \<Rightarrow> book_text X J (PAIRS ! i) (\<alpha> (w_vk (ds_world D))) = Some (VStr t))"

definition debounce_ok :: "('s \<Rightarrow> vdata) \<Rightarrow> 'd::floor_ceiling ext \<Rightarrow> json_ext \<Rightarrow> ('s, 'd) debounce \<Rightarrow> bool" where
  "debounce_ok \<alpha> X J D \<longleftrightarrow> own_keys (ds_api D) \<and> length (aw_notified (ds_api D)) = length PAIRS \<and> length (ds_tasks D) = length PAIRS \<and>
     length (ds_failed D) = length PAIRS \<and> length (ds_hidden D) = length PAIRS \<and> set (ds_due D) \<subseteq> set PAIRS \<and>
     (\<forall>i < length PAIRS. pair_ok \<alpha> X J D i)"

text \<open>The start of the worker: whatever the displayed values are, those that do not show their book count as changed without a mark.\<close>

definition debounce_start :: "('s \<Rightarrow> vdata) \<Rightarrow> 'd::floor_ceiling ext \<Rightarrow> json_ext \<Rightarrow> ('s, 'd) api_state \<Rightarrow> ('s, 'd) debounce" where
  "debounce_start \<alpha> X J st =
     \<lparr>ds_api = st\<lparr>aw_notified := no_marks\<rparr>, ds_tasks = replicate (length PAIRS) Idle, ds_failed = replicate (length PAIRS) False,
      ds_due = [], ds_hidden = map (\<lambda>p. vd_keys (\<alpha> (w_vk (aw_world st))) (view_key p) \<noteq> book_text X J p (\<alpha> (w_vk (aw_world st)))) PAIRS\<rparr>"

text \<open>The two steps of a task, with nothing in between, are \<open>rebuild_orderbook_cache\<close>.\<close>

lemma rebuild_two_steps:
  "rebuild_orderbook_cache V X J p =
     vbind (on_vk (orderbook_snapshot_lua V X p 50)) (\<lambda>levels. on_vk (set_and_publish V (view_key p) (view_text J p levels)))"
  unfolding rebuild_orderbook_cache_def view_key_def view_text_def by (intro arg_cong2 [where f = vbind] refl ext) (simp split: prod.split)

section \<open>Computations that read only other keys\<close>

definition same_books :: "vdata \<Rightarrow> vdata \<Rightarrow> bool" where
  "same_books d d' \<longleftrightarrow> (\<forall>k. (\<forall>p. k \<noteq> view_key p) \<longrightarrow> vd_keys d k = vd_keys d' k)"

definition reads_alike :: "(vdata, 'a) vm \<Rightarrow> bool" where
  "reads_alike m \<longleftrightarrow> (\<forall>d d'. same_books d d' \<longrightarrow> (\<exists>r. m d = (r, d) \<and> m d' = (r, d')))"

lemma reads_alikeD: "reads_alike m \<Longrightarrow> same_books d d' \<Longrightarrow> \<exists>r. m d = (r, d) \<and> m d' = (r, d')"
  by (simp add: reads_alike_def)

lemma reads_alike_vret: "reads_alike (vret a)"
  by (simp add: reads_alike_def vret_def)

lemma reads_alike_vbind: "reads_alike m \<Longrightarrow> (\<And>a. reads_alike (f a)) \<Longrightarrow> reads_alike (vbind m f)"
proof -
  assume m: "reads_alike m" and f: "\<And>a. reads_alike (f a)"
  show ?thesis unfolding reads_alike_def
  proof (intro allI impI)
    fix d d' assume s: "same_books d d'"
    obtain r where r: "m d = (r, d)" "m d' = (r, d')" using reads_alikeD [OF m s] by blast
    show "\<exists>r. vbind m f d = (r, d) \<and> vbind m f d' = (r, d')"
      using r reads_alikeD [OF f s] by (cases r) (simp_all add: vbind_def)
  qed
qed

lemma reads_alike_read_key: "(\<And>p. k \<noteq> view_key p) \<Longrightarrow> reads_alike (read_key view g k)"
  by (auto simp: reads_alike_def same_books_def read_key_def split: sum.split)

lemma reads_alike_vfoldM: "(\<And>x a. reads_alike (f x a)) \<Longrightarrow> reads_alike (vfoldM f xs a)"
  by (induction xs arbitrary: a) (simp_all add: reads_alike_vret reads_alike_vbind)

lemma book_keys_no_view: "okey oid \<noteq> view_key q" "bids_key p \<noteq> view_key q" "asks_key p \<noteq> view_key q"
  by (simp_all add: okey_def bids_key_def asks_key_def view_key_def)

lemma reads_alike_level_order: "reads_alike (level_order ref_valkey oid levels)"
  unfolding level_order_def ref_valkey_ops d_hget_def
  by (intro reads_alike_vbind reads_alike_read_key book_keys_no_view)
     (auto simp: reads_alike_vret Let_def split: option.split)

lemma reads_alike_side:
  "(\<And>q. k \<noteq> view_key q) \<Longrightarrow> reads_alike (aggregate_side ref_valkey k limit)"
  unfolding aggregate_side_def ref_valkey_ops d_zrangebyscore_def
  by (intro reads_alike_vbind reads_alike_read_key reads_alike_vfoldM reads_alike_level_order reads_alike_vret)

lemma reads_alike_snapshot: "reads_alike (ORDERBOOK_SNAPSHOT_LUA ref_valkey p limit)"
  unfolding ORDERBOOK_SNAPSHOT_LUA_def
  by (intro reads_alike_vbind reads_alike_side reads_alike_vret book_keys_no_view)

lemma book_text_cong:
  assumes "same_books d d'"
  shows "book_text X J p d = book_text X J p d'"
proof -
  obtain r where "ORDERBOOK_SNAPSHOT_LUA ref_valkey p 50 d = (r, d)" "ORDERBOOK_SNAPSHOT_LUA ref_valkey p 50 d' = (r, d')"
    using reads_alikeD [OF reads_alike_snapshot assms] by blast
  then show ?thesis by (simp add: book_text_def)
qed

section \<open>Rebuilding\<close>

lemma d_conn_same: "d_conn d = (r, d') \<Longrightarrow> vd_keys d' = vd_keys d"
  by (auto split: list.splits if_splits)

lemma snapshot_keys:
  assumes "orderbook_snapshot_lua ref_valkey X p 50 d = (r, d')"
  shows "vd_keys d' = vd_keys d"
proof -
  obtain c d1 where c: "d_conn d = (c, d1)" by force
  have "same_books d1 d1" by (simp add: same_books_def)
  from reads_alikeD [OF reads_alike_snapshot [of p 50] this] obtain r' where "ORDERBOOK_SNAPSHOT_LUA ref_valkey p 50 d1 = (r', d1)" by blast
  with c assms have "d' = d1" by (auto simp: orderbook_snapshot_lua_def vbind_def vret_def split: prod.splits sum.splits)
  then show ?thesis using d_conn_same [OF c] by simp
qed

lemma snapshot_text:
  fixes X :: "'d::floor_ceiling ext"
  assumes "orderbook_snapshot_lua ref_valkey X p 50 d = (Inr levels, d')"
  shows "book_text X J p d' = Some (VStr (view_text J p levels))"
proof -
  obtain d1 result where r: "d_conn d = (Inr (), d1)" "ORDERBOOK_SNAPSHOT_LUA ref_valkey p 50 d1 = (Inr result, d')"
    "(case parse_snapshot result :: ('d \<times> 'd) list \<times> ('d \<times> 'd) list of (b, a) \<Rightarrow> (map (level_text X) b, map (level_text X) a)) = levels"
    using assms by (auto simp: orderbook_snapshot_lua_def vbind_def vret_def split: prod.splits sum.splits)
  have "same_books d1 d'" using snapshot_keys [OF assms] d_conn_same [OF r(1)] by (simp add: same_books_def)
  from reads_alikeD [OF reads_alike_snapshot [of p 50] this] r(2) have "ORDERBOOK_SNAPSHOT_LUA ref_valkey p 50 d' = (Inr result, d')" by auto
  then show ?thesis using r(3) by (auto simp: book_text_def split: prod.splits)
qed

lemma publish_keys:
  assumes "set_and_publish ref_valkey k v d = (Inr (), d')"
  shows "vd_keys d' = (vd_keys d)(k \<mapsto> VStr v)"
  using assms d_conn_same by (auto simp: set_and_publish_def vbind_def d_set_def d_publish_def split: prod.splits sum.splits)

lemma publish_other_keys:
  assumes "set_and_publish ref_valkey k v d = (r, d')" "k' \<noteq> k"
  shows "vd_keys d' k' = vd_keys d k'"
  using assms d_conn_same by (auto simp: set_and_publish_def vbind_def d_set_def d_publish_def split: prod.splits sum.splits)

context valkey_spec
begin

lemma snapshot_step:
  fixes X :: "'d::floor_ceiling ext"
  assumes "on_vk (orderbook_snapshot_lua V X p 50) w = (r, w')"
  shows "vd_keys (\<alpha> (w_vk w')) = vd_keys (\<alpha> (w_vk w))"
    and "r = Inr levels \<Longrightarrow> book_text X J p (\<alpha> (w_vk w')) = Some (VStr (view_text J p levels))"
proof -
  have s: "orderbook_snapshot_lua ref_valkey X p 50 (\<alpha> (w_vk w)) = (r, \<alpha> (w_vk w'))"
    using simulatesD [OF sim_orderbook_snapshot_lua on_vk_D(1) [OF assms]] .
  show "vd_keys (\<alpha> (w_vk w')) = vd_keys (\<alpha> (w_vk w))" using snapshot_keys [OF s] .
  show "r = Inr levels \<Longrightarrow> book_text X J p (\<alpha> (w_vk w')) = Some (VStr (view_text J p levels))"
    using s by (auto intro: snapshot_text)
qed

lemma publish_step:
  assumes "on_vk (set_and_publish V k v) w = (r, w')"
  shows "k' \<noteq> k \<Longrightarrow> vd_keys (\<alpha> (w_vk w')) k' = vd_keys (\<alpha> (w_vk w)) k'"
    and "r = Inr () \<Longrightarrow> vd_keys (\<alpha> (w_vk w')) k = Some (VStr v)"
proof -
  have s: "set_and_publish ref_valkey k v (\<alpha> (w_vk w)) = (r, \<alpha> (w_vk w'))"
    using simulatesD [OF sim_set_and_publish on_vk_D(1) [OF assms]] .
  show "k' \<noteq> k \<Longrightarrow> vd_keys (\<alpha> (w_vk w')) k' = vd_keys (\<alpha> (w_vk w)) k'" using publish_other_keys [OF s] .
  show "r = Inr () \<Longrightarrow> vd_keys (\<alpha> (w_vk w')) k = Some (VStr v)" using s publish_keys by auto
qed

end

section \<open>What the runs of the worker keep\<close>

lemma keeps_marks [keeps_rules]: "keeps aw_notified (on_w m)" "keeps aw_notified (update_st (send_dirty u))"
  by (auto simp: keeps_def on_w_def update_st_def send_dirty_def split: prod.splits)

lemma keeps_pair_keys [keeps_rules]: "keeps aw_pair_keys (on_w m)" "keeps aw_pair_keys (update_st (send_dirty u))"
  by (auto simp: keeps_def on_w_def update_st_def send_dirty_def split: prod.splits)

lemma cancellation_keeps_pair_keys: "keeps aw_pair_keys (process_cancellation V X J clock db_now n s)"
proof (induction n arbitrary: s)
  case (Suc n)
  have one: "keeps aw_pair_keys (cancel_one V X clock db_now j)" for j
    unfolding cancel_one_def Let_def by (intro keeps_rules)
  show ?case unfolding process_cancellation.simps Let_def by (intro keeps_rules one Suc)
qed (simp add: keeps_rules)

lemma cancellation_keeps_marks: "keeps aw_notified (process_cancellation V X J clock db_now n s)"
proof (induction n arbitrary: s)
  case (Suc n)
  have one: "keeps aw_notified (cancel_one V X clock db_now j)" for j
    unfolding cancel_one_def Let_def by (intro keeps_rules)
  show ?case unfolding process_cancellation.simps Let_def by (intro keeps_rules one Suc)
qed (simp add: keeps_rules)

context valkey_spec
begin

lemma cancellation_keeps_view:
  "keeps (\<lambda>st. vd_keys (\<alpha> (w_vk (aw_world st))) (view_key p)) (process_cancellation V X J clock db_now n s)"
proof (induction n arbitrary: s)
  case (Suc n)
  have ne: "okey i \<noteq> view_key p" "book_key q sd \<noteq> view_key p" "replacement_queue j \<noteq> view_key p" for i q sd j
    by (auto simp: okey_def bids_key_def asks_key_def book_key_def replacement_queue_def view_key_def split: side.split option.split)
  have r: "keeps (\<lambda>d. vd_keys d (view_key p)) (remove_order_from_book ref_valkey X ord)" for ord
    unfolding remove_order_from_book_def ref_valkey_ops Let_def by (intro keeps_rules keeps_writes ne)
  have "keeps (\<lambda>w. vd_keys (\<alpha> (w_vk w)) (view_key p)) (do_cancel V X clock db_now oid u row)" for oid u row
    unfolding do_cancel_def by (intro keeps_vbind keeps_key_vk [OF sim_remove r] keeps_pg_vk keeps_prod)
  then have one: "keeps (\<lambda>st. vd_keys (\<alpha> (w_vk (aw_world st))) (view_key p)) (cancel_one V X clock db_now j)" for j
    unfolding cancel_one_def Let_def by (intro keeps_rules)
  have l: "keeps (\<lambda>d. vd_keys d (view_key p)) (vbind d_conn (\<lambda>_. d_lpush (replacement_queue j) v))" for j v
    unfolding d_lpush_def by (intro keeps_rules keeps_edit_key ne)
  have sl: "simulates \<alpha> (vbind (vk_conn V) (\<lambda>_. vk_lpush V k v)) (vbind d_conn (\<lambda>_. d_lpush k v))" for k v by (intro sim_rules)
  show ?case
    unfolding process_cancellation.simps Let_def by (intro keeps_rules one Suc keeps_key_vk [OF sl l])
qed (simp add: keeps_rules)

lemma order_keeps_view:
  assumes "process_queued_order V X J fresh clock lua_ms msg st = (r, st')" "own_keys st"
  shows "own_keys st' \<and> vd_keys (\<alpha> (w_vk (aw_world st'))) (view_key p) = vd_keys (\<alpha> (w_vk (aw_world st))) (view_key p)"
  using assms
proof (cases rule: queued_order_cases)
  case (matched ord la n res v')
  have "keeps (\<lambda>d. vd_keys d (view_key p)) (match_order_lua ref_valkey X ord (new_pair_keys (o_pair_id ord)) la n)"
    by (rule script_keeps_key) (simp_all add: okey_def balance_key_def bids_key_def asks_key_def version_key_def view_key_def)
  from keepsD [OF this simulatesD [OF sim_match_order_lua matched(1)]] show ?thesis
    using matched(2,3) assms(2) by (simp add: own_keys_def)
qed (use assms(2) in simp)

end

lemma job_sent_marks [simp]: "aw_notified (send_job j (fold send_dirty us s)) = aw_notified s"
  by (induction us arbitrary: s) (simp_all add: send_job_def send_dirty_def)

text \<open>An order that trades or rests marks its pair.\<close>

lemma order_marks:
  assumes "process_queued_order V X J fresh clock lua_ms msg (st\<lparr>aw_notified := no_marks\<rparr>) = (r, st')" "own_keys st"
    and "hands_over job st st'" "pj_lua_trades job \<noteq> [] \<or> o_status (pj_order job) \<in> {New, PartiallyFilled}"
  shows "aw_notified st' ! pair_index (o_pair_id (pj_order job))"
proof -
  let ?st = "st\<lparr>aw_notified := no_marks\<rparr>"
  have h: "hands_over job ?st st'" using assms(3) by (simp add: hands_over_def)
  have own: "own_keys ?st" using assms(2) by (simp add: own_keys_def)
  from assms(1) own show ?thesis
  proof (cases rule: queued_order_cases)
    case refused
    then show ?thesis using h by (simp add: hands_over_def split: if_splits)
  next
    case (matched ord la n res v')
    show ?thesis
    proof (cases res)
      case (Inl e)
      then show ?thesis using h matched(4) by (simp add: hands_over_def split: if_splits)
    next
      case (Inr m)
      let ?o = "matched_order clock ord m"
      let ?job = "\<lparr>pj_order = ?o, pj_trades = build_trades fresh (clock 3) ?o (lr_trades m), pj_lua_trades = lr_trades m\<rparr>"
      have st': "st' = after_match X J lua_ms ?o (build_trades fresh (clock 3) ?o (lr_trades m)) (lr_trades m)
          (?st\<lparr>aw_world := (aw_world st)\<lparr>w_vk := v'\<rparr>\<rparr>)" using matched(4) Inr by simp
      have "hands_over ?job (?st\<lparr>aw_world := (aw_world st)\<lparr>w_vk := v'\<rparr>\<rparr>) st'" unfolding st' by (rule after_match_hands_over(1))
      then have "hands_over ?job ?st st'" by (simp add: hands_over_def)
      then have "job = ?job" using h by (auto simp: hands_over_def split: if_splits)
      then have "lr_trades m \<noteq> [] \<or> o_status ?o = New \<or> o_status ?o = PartiallyFilled" using assms(4) by simp
      moreover have "pair_index q < length PAIRS" for q by (simp add: pair_index_def PAIRS_def)
      ultimately show ?thesis
        unfolding st' \<open>job = ?job\<close> by (auto simp: after_match_def Let_def mark_dirty_def no_marks_def)
    qed
  qed
qed

section \<open>No change is lost\<close>

lemma pair_index_nth: "i < length PAIRS \<Longrightarrow> pair_index (PAIRS ! i) = i" "p \<in> set PAIRS \<Longrightarrow> pair_index p < length PAIRS"
    "p \<in> set PAIRS \<Longrightarrow> PAIRS ! pair_index p = p"
  by (auto simp: PAIRS_def pair_index_def less_Suc_eq numeral_3_eq_3)

lemma PAIRS_inj: "i < length PAIRS \<Longrightarrow> j < length PAIRS \<Longrightarrow> PAIRS ! i = PAIRS ! j \<longleftrightarrow> i = j"
  using pair_index_nth(1) by metis

lemma mark_due:
  assumes "p \<in> set PAIRS" "length (aw_notified (ds_api D)) = length PAIRS" "i < length PAIRS" "due D i"
  shows "due (D\<lparr>ds_api := mark_dirty p (ds_api D), ds_due := remove1 p (ds_due D)\<rparr>) i"
proof (cases "PAIRS ! i = p")
  case True
  then show ?thesis using assms(2,3) pair_index_nth(1) [OF assms(3)] by (simp add: due_def mark_dirty_def)
next
  case False
  then have "pair_index p \<noteq> i" using pair_index_nth(3) [OF assms(1)] by auto
  then show ?thesis using assms(4) False by (auto simp: due_def mark_dirty_def)
qed

text \<open>The steps of other pairs, and those that leave the book and the displayed value alone.\<close>

lemma pair_ok_frame:
  assumes "pair_ok \<alpha> X J D i" "ds_tasks D' ! i = ds_tasks D ! i" "ds_failed D' ! i = ds_failed D ! i" "due D i \<Longrightarrow> due D' i"
    and "ds_hidden D ! i \<Longrightarrow> ds_hidden D' ! i"
    and "\<not> due D' i \<Longrightarrow> \<not> ds_hidden D' ! i \<Longrightarrow>
      book_text X J (PAIRS ! i) (\<alpha> (w_vk (ds_world D'))) = book_text X J (PAIRS ! i) (\<alpha> (w_vk (ds_world D)))"
    and "vd_keys (\<alpha> (w_vk (ds_world D'))) (view_key (PAIRS ! i)) = vd_keys (\<alpha> (w_vk (ds_world D))) (view_key (PAIRS ! i))"
  shows "pair_ok \<alpha> X J D' i"
  using assms by (cases "due D' i \<or> ds_hidden D' ! i"; cases "ds_tasks D ! i") (auto simp: pair_ok_def current_def)

lemma marks_of_nth: "i < length PAIRS \<Longrightarrow> PAIRS ! i \<in> set (marks_of st') \<longleftrightarrow> aw_notified st' ! i"
  by (simp add: marks_of_def pair_index_nth)

lemma after_run_ok:
  assumes "debounce_ok \<alpha> X J D" "own_keys st'"
    and "\<And>p. vd_keys (\<alpha> (w_vk (aw_world st'))) (view_key p) = vd_keys (\<alpha> (w_vk (ds_world D))) (view_key p)"
  shows "debounce_ok \<alpha> X J (after_run \<alpha> X J st' D)"
proof -
  let ?D = "after_run \<alpha> X J st' D"
  have "pair_ok \<alpha> X J ?D i" if i: "i < length PAIRS" for i
  proof (rule pair_ok_frame [of \<alpha> X J D])
    show "pair_ok \<alpha> X J D i" using assms(1) i by (simp add: debounce_ok_def)
    have h: "ds_hidden ?D ! i = (ds_hidden D ! i \<or> PAIRS ! i \<notin> set (marks_of st') \<and>
        book_text X J (PAIRS ! i) (\<alpha> (w_vk (aw_world st'))) \<noteq> book_text X J (PAIRS ! i) (\<alpha> (w_vk (ds_world D))))"
      using i by (simp add: after_run_def pair_index_nth(1))
    then show "ds_hidden D ! i \<Longrightarrow> ds_hidden ?D ! i" by simp
    show "\<not> due ?D i \<Longrightarrow> \<not> ds_hidden ?D ! i \<Longrightarrow>
        book_text X J (PAIRS ! i) (\<alpha> (w_vk (ds_world ?D))) = book_text X J (PAIRS ! i) (\<alpha> (w_vk (ds_world D)))"
      unfolding h by (auto simp: due_def after_run_def)
  qed (use assms(3) in \<open>auto simp: after_run_def due_def\<close>)
  then show ?thesis using assms(1,2) by (auto simp: debounce_ok_def after_run_def own_keys_def marks_of_def)
qed

context valkey_spec
begin

lemma snapshot_ok:
  fixes X :: "'d::floor_ceiling ext"
  assumes "on_vk (orderbook_snapshot_lua V X (PAIRS ! i) 50) (ds_world D) = (r, w')" "debounce_ok \<alpha> X J D" "i < length PAIRS" "j < length PAIRS"
    and D': "D' = (with_world w' D)\<lparr>
      ds_tasks := (ds_tasks D)[i := (case r of Inl _ \<Rightarrow> Idle | Inr levels \<Rightarrow> Built (view_text J (PAIRS ! i) levels))],
      ds_failed := (ds_failed D)[i := isl r], ds_hidden := (ds_hidden D)[i := ds_hidden D ! i \<and> isl r]\<rparr>"
  shows "pair_ok \<alpha> X J D' j"
proof (cases "j = i")
  case True
  then show ?thesis using assms(2,3) snapshot_step(2) [OF assms(1)] by (auto simp: D' pair_ok_def debounce_ok_def split: sum.split)
next
  case False
  have k: "vd_keys (\<alpha> (w_vk w')) = vd_keys (\<alpha> (w_vk (ds_world D)))" using snapshot_step(1) [OF assms(1)] .
  then have "book_text X J q (\<alpha> (w_vk w')) = book_text X J q (\<alpha> (w_vk (ds_world D)))" for q
    by (intro book_text_cong) (simp add: same_books_def)
  moreover have "pair_ok \<alpha> X J D j" using assms(2,4) by (simp add: debounce_ok_def)
  ultimately show ?thesis using False k by (intro pair_ok_frame [of \<alpha> X J D j D']) (simp_all add: D' due_def)
qed

lemma publish_ok:
  fixes X :: "'d::floor_ceiling ext"
  assumes "on_vk (set_and_publish V (view_key (PAIRS ! i)) t) (ds_world D) = (r, w')" "debounce_ok \<alpha> X J D" "i < length PAIRS" "j < length PAIRS"
    and "ds_tasks D ! i = Built t"
    and D': "D' = (with_world w' D)\<lparr>ds_tasks := (ds_tasks D)[i := Idle], ds_failed := (ds_failed D)[i := isl r]\<rparr>"
  shows "pair_ok \<alpha> X J D' j"
proof -
  have b: "book_text X J q (\<alpha> (w_vk w')) = book_text X J q (\<alpha> (w_vk (ds_world D)))" for q
    by (rule book_text_cong) (use publish_step(1) [OF assms(1)] in \<open>auto simp: same_books_def\<close>)
  show ?thesis
  proof (cases "j = i")
    case True
    then show ?thesis using assms(2-5) b publish_step(2) [OF assms(1)]
      by (cases r) (auto simp: D' pair_ok_def debounce_ok_def due_def current_def)
  next
    case False
    then have "view_key (PAIRS ! j) \<noteq> view_key (PAIRS ! i)" using PAIRS_inj [OF assms(4,3)] by (simp add: view_key_def)
    moreover have "pair_ok \<alpha> X J D j" using assms(2,4) by (simp add: debounce_ok_def)
    ultimately show ?thesis using False b publish_step(1) [OF assms(1)]
      by (intro pair_ok_frame [of \<alpha> X J D j D']) (simp_all add: D' due_def)
  qed
qed

lemma debounce_step_ok:
  fixes X :: "'d::floor_ceiling ext"
  assumes "debounce_step V \<alpha> X J D D'" "debounce_ok \<alpha> X J D"
  shows "debounce_ok \<alpha> X J D'"
  using assms
proof (cases rule: debounce_step.cases)
  case (order fresh clock lua_ms msg r st')
  let ?st = "(ds_api D)\<lparr>aw_notified := no_marks\<rparr>"
  have "own_keys ?st" using assms(2) by (simp add: debounce_ok_def own_keys_def)
  from order_keeps_view [OF order(2) this] show ?thesis
    unfolding order(1) by (intro after_run_ok [OF assms(2)]) simp_all
next
  case (cancellation clock db_now n msg r st')
  have "own_keys st'" using keepsD [OF cancellation_keeps_pair_keys cancellation(2)] assms(2) by (simp add: debounce_ok_def own_keys_def)
  moreover have "vd_keys (\<alpha> (w_vk (aw_world st'))) (view_key p) = vd_keys (\<alpha> (w_vk (ds_world D))) (view_key p)" for p
    using keepsD [OF cancellation_keeps_view cancellation(2)] by simp
  ultimately show ?thesis unfolding cancellation(1) by (rule after_run_ok [OF assms(2)])
next
  case (mark p)
  have p: "p \<in> set PAIRS" using mark(2) assms(2) by (auto simp: debounce_ok_def)
  have "pair_ok \<alpha> X J D' i" if i: "i < length PAIRS" for i
  proof -
    have "pair_ok \<alpha> X J D i" "length (aw_notified (ds_api D)) = length PAIRS" using assms(2) i by (simp_all add: debounce_ok_def)
    then show ?thesis using mark_due [OF p _ i, of D] by (intro pair_ok_frame [of \<alpha> X J D i D']) (simp_all add: mark(1) mark_dirty_def)
  qed
  then show ?thesis using assms(2) set_remove1_subset [of p "ds_due D"] by (auto simp: mark(1) debounce_ok_def mark_dirty_def own_keys_def)
next
  case (wake i)
  have "pair_ok \<alpha> X J D' j" if j: "j < length PAIRS" for j
    using assms(2) j wake(2) by (cases "j = i") (auto simp: wake(1) debounce_ok_def pair_ok_def current_def due_def split: task.splits)
  then show ?thesis using assms(2) by (simp add: wake(1) debounce_ok_def own_keys_def)
next
  case (snapshot i r w')
  show ?thesis using assms(2) snapshot_ok [OF snapshot(4) assms(2) snapshot(2) _ snapshot(1)] by (simp add: debounce_ok_def own_keys_def snapshot(1))
next
  case (publish i t r w')
  show ?thesis using assms(2) publish_ok [OF publish(4) assms(2) publish(2) _ publish(3,1)] by (simp add: debounce_ok_def own_keys_def publish(1))
qed

end

lemma debounce_start_ok: "own_keys st \<Longrightarrow> debounce_ok \<alpha> X J (debounce_start \<alpha> X J st)"
  by (simp add: debounce_ok_def debounce_start_def own_keys_def no_marks_def pair_ok_def current_def)

text \<open>
  C17: no marked change of a book is left out of what is displayed. From the start of the worker, along any interleaving of
  orders and cancellations that it processes, of the marks it makes, and of the reads and writes of the tasks of the
  pairs: (1) a pair for which no mark is due or stored, whose task is idle, whose last rebuild succeeded and whose book has not
  changed without a mark since it was read (as by a cancellation, or by the start, which displays empty books) displays its book as it is,
  although marks are merged and set after the change, and a book may change between the read and the
  write of its rebuild; (2) an order that made trades or rests has its pair marked.
\<close>

theorem displayed_book_follows:
  fixes X :: "'d::floor_ceiling ext"
  assumes "valkey_spec V \<alpha>" and "own_keys st" and "(debounce_step V \<alpha> X J)\<^sup>*\<^sup>* (debounce_start \<alpha> X J st) D"
  shows "(\<forall>i < length PAIRS. \<not> pending D i \<and> \<not> ds_failed D ! i \<and> \<not> ds_hidden D ! i \<longrightarrow>
      vd_keys (\<alpha> (w_vk (ds_world D))) (view_key (PAIRS ! i)) = book_text X J (PAIRS ! i) (\<alpha> (w_vk (ds_world D)))) \<and>
    (\<forall>fresh clock lua_ms msg r st' job.
      process_queued_order V X J fresh clock lua_ms msg ((ds_api D)\<lparr>aw_notified := no_marks\<rparr>) = (r, st') \<and> hands_over job (ds_api D) st' \<and>
      (pj_lua_trades job \<noteq> [] \<or> o_status (pj_order job) \<in> {New, PartiallyFilled}) \<longrightarrow>
      debounce_step V \<alpha> X J D (after_run \<alpha> X J st' D) \<and> due (after_run \<alpha> X J st' D) (pair_index (o_pair_id (pj_order job))))"
proof -
  from assms(3) have ok: "debounce_ok \<alpha> X J D"
    by (induction rule: rtranclp_induct)
       (auto intro: valkey_spec.debounce_step_ok [OF assms(1)] debounce_start_ok [OF assms(2)])
  then have "own_keys (ds_api D)" by (simp add: debounce_ok_def)
  then have "due (after_run \<alpha> X J st' D) (pair_index (o_pair_id (pj_order job)))"
    if "process_queued_order V X J fresh clock lua_ms msg ((ds_api D)\<lparr>aw_notified := no_marks\<rparr>) = (r, st')" "hands_over job (ds_api D) st'"
      "pj_lua_trades job \<noteq> [] \<or> o_status (pj_order job) \<in> {New, PartiallyFilled}" for fresh clock lua_ms msg r st' job
    using order_marks [OF that(1) _ that(2,3)] marks_of_nth [of "pair_index (o_pair_id (pj_order job))" st']
    by (simp add: due_def after_run_def pair_index_def PAIRS_def)
  moreover have "vd_keys (\<alpha> (w_vk (ds_world D))) (view_key (PAIRS ! i)) = book_text X J (PAIRS ! i) (\<alpha> (w_vk (ds_world D)))"
    if "i < length PAIRS" "\<not> pending D i" "\<not> ds_failed D ! i" "\<not> ds_hidden D ! i" for i
    using ok that by (auto simp: debounce_ok_def pair_ok_def pending_def current_def)
  ultimately show ?thesis by (blast intro: debounce_step.order)
qed

lemma snapshot_succeeds:
  assumes "connected d"
  shows "\<exists>r. orderbook_snapshot_lua ref_valkey X p 50 d = (Inr r, d)"
proof -
  have "\<exists>ls'. level_order ref_valkey i ls d = (Inr ls', d)" for i ls
  proof -
    have "d_hget (okey i) f d = (Inr (hash_at d (okey i) f), d)" for f using assms key_kinds(5) by (simp add: hash_ops)
    then show ?thesis by (auto simp: level_order_def vbind_def vret_def ref_valkey_ops Let_def split: option.split)
  qed
  then have fold: "\<exists>ls'. vfoldM (level_order ref_valkey) ids ls d = (Inr ls', d)" for ids ls
    by (induction ids arbitrary: ls) (auto simp: vret_def vbind_def, metis (mono_tags, lifting) prod.case sum.case(2))
  have side: "\<exists>r. aggregate_side ref_valkey k 50 d = (Inr r, d)" if "key_kind k = Some KZset" for k
  proof -
    obtain ls' where "vfoldM (level_order ref_valkey) (zrange_upto None (Some (0, 50)) (zset_at d k)) [] d = (Inr ls', d)" using fold by blast
    then show ?thesis using assms that by (simp add: aggregate_side_def vbind_def vret_def ref_valkey_ops run_simps)
  qed
  obtain b where b: "aggregate_side ref_valkey (bids_key p) 50 d = (Inr b, d)" using side key_kinds(1) by blast
  obtain a where a: "aggregate_side ref_valkey (asks_key p) 50 d = (Inr a, d)" using side key_kinds(2) by blast
  show ?thesis
    using assms a b by (simp add: orderbook_snapshot_lua_def ORDERBOOK_SNAPSHOT_LUA_def vbind_def vret_def ref_valkey_ops split: prod.split)
qed

text \<open>A worker with an empty cache, and the order that then rests in the book.\<close>

definition resting_worker :: "(vdata, rat) api_state" where
  "resting_worker = sample_worker\<lparr>aw_world := sample_world empty_vdata []\<rparr>"

lemma resting_worker_sel:
  "w_vk (aw_world resting_worker) = empty_vdata" "aw_notified resting_worker = no_marks" "own_keys resting_worker"
  "resting_worker\<lparr>aw_notified := no_marks\<rparr> = resting_worker"
  by (simp_all add: resting_worker_def sample_worker_def sample_world_def no_marks_def PAIRS_def own_keys_def sample_state_def numeral_3_eq_3)

lemma resting_processed:
  "\<exists>st'. process_queued_order ref_valkey ref_ext ref_json (\<lambda>_. 7) (\<lambda>_. 0) 3 (js_str ref_json (request_json ref_ext 7 0 sample_buy)) resting_worker =
     (Inr (), st') \<and> connected (w_vk (aw_world st')) \<and> aw_notified st' = [True, False, False]"
proof -
  let ?ord = "sample_ord GTC None"
  have r: "read_queued_order ref_ext ref_json (\<lambda>_. 0) (js_str ref_json (request_json ref_ext 7 0 sample_buy)) = Inr ?ord"
    using ref_ext.queued_order_of_request [of "\<lambda>_. 0" 7 0 sample_buy]
    by (simp add: read_queued_order_def ref_json.parse_str [OF canonical_request] parse_request sample_buy_order)
  have v: "validate_order (map_of (ws_pairs_cache sample_state)) ?ord = Inr ()"
    using sample_accepted [of GTC None] by (simp add: accepted_def sample_msg)
  have k: "o_tif ?ord \<noteq> FOK" "map_of (ws_pair_keys sample_state) (o_pair_id ?ord) = Some (new_pair_keys ''BTC-USDT'')" "o_pair_id ?ord = ''BTC-USDT''"
    by (simp_all add: sample_ord_def sample_state_def)
  obtain res s' where m: "match_order_lua ref_valkey ref_ext ?ord (new_pair_keys ''BTC-USDT'') ''USDT'' 0 empty_vdata = (Inr res, s')"
    and res: "lr_trades res = []" "lr_status res = New" "connected s'" using sample_rests by blast
  let ?o = "matched_order (\<lambda>_. 0) ?ord res"
  let ?st = "after_match ref_ext ref_json 3 ?o (build_trades (\<lambda>_. 7) 0 ?o (lr_trades res)) (lr_trades res)
      (resting_worker\<lparr>aw_world := (aw_world resting_worker)\<lparr>w_vk := s'\<rparr>\<rparr>)"
  have c: "aw_pairs_cache resting_worker = ws_pairs_cache sample_state" "aw_pair_keys resting_worker = ws_pair_keys sample_state"
    by (simp_all add: resting_worker_def sample_worker_def)
  have "process_queued_order ref_valkey ref_ext ref_json (\<lambda>_. 7) (\<lambda>_. 0) 3 (js_str ref_json (request_json ref_ext 7 0 sample_buy)) resting_worker =
      (Inr (), ?st)"
    using k(1) unfolding process_queued_order_def r validate_same c
    by (simp add: v sample_match(1) k(2) Let_def) (simp add: vbind_def on_w_def on_vk_def resting_worker_sel m update_st_def)
  moreover have "w_vk (aw_world ?st) = s'" by (simp add: after_match_hands_over(2))
  moreover have "aw_notified ?st = no_marks[pair_index ''BTC-USDT'' := True]"
    using res(1,2) k(3) by (simp add: after_match_def Let_def mark_dirty_def resting_worker_sel matched_order_def)
  ultimately show ?thesis using res(3) by (simp add: no_marks_def PAIRS_def pair_index_def numeral_3_eq_3)
qed

theorem displayed_book_follows_witness:
  "\<exists>D. (debounce_step ref_valkey id ref_ext ref_json)\<^sup>*\<^sup>* (debounce_start id ref_ext ref_json resting_worker) D \<and>
     \<not> pending D 0 \<and> \<not> ds_failed D ! 0 \<and> \<not> ds_hidden D ! 0 \<and>
     vd_keys (w_vk (ds_world D)) (view_key ''BTC-USDT'') = book_text ref_ext ref_json ''BTC-USDT'' (w_vk (ds_world D))"
proof -
  let ?step = "debounce_step ref_valkey id ref_ext ref_json" and ?p = "PAIRS ! 0"
  define D0 where "D0 = debounce_start id ref_ext ref_json resting_worker"
  obtain st' where st': "process_queued_order ref_valkey ref_ext ref_json (\<lambda>_. 7) (\<lambda>_. 0) 3
      (js_str ref_json (request_json ref_ext 7 0 sample_buy)) resting_worker = (Inr (), st')"
    and c: "connected (w_vk (aw_world st'))" and marks: "aw_notified st' = [True, False, False]" using resting_processed by blast
  define D1 where "D1 = after_run id ref_ext ref_json st' D0"
  define D2 where "D2 = D1\<lparr>ds_api := mark_dirty ?p (ds_api D1), ds_due := remove1 ?p (ds_due D1)\<rparr>"
  define D3 where "D3 = D2\<lparr>ds_api := (ds_api D2)\<lparr>aw_notified := (aw_notified (ds_api D2))[0 := False]\<rparr>, ds_tasks := (ds_tasks D2)[0 := Woken]\<rparr>"
  let ?w = "aw_world st'"
  obtain R r where r: "on_vk (orderbook_snapshot_lua ref_valkey ref_ext ?p 50) ?w = (R, ?w)" and R: "R = Inr r"
    using snapshot_succeeds [OF c, of ref_ext ?p] by (auto simp: on_vk_def)
  obtain Q w' where w': "on_vk (set_and_publish ref_valkey (view_key ?p) (view_text ref_json ?p r)) ?w = (Q, w')" and Q: "Q = Inr ()"
    using c by (simp add: on_vk_def set_and_publish_def vbind_def d_set_def d_publish_def)
  define D4 where "D4 = (with_world ?w D3)\<lparr>
      ds_tasks := (ds_tasks D3)[0 := (case R of Inl _ \<Rightarrow> Idle | Inr levels \<Rightarrow> Built (view_text ref_json ?p levels))],
      ds_failed := (ds_failed D3)[0 := isl R], ds_hidden := (ds_hidden D3)[0 := ds_hidden D3 ! 0 \<and> isl R]\<rparr>"
  define D5 where "D5 = (with_world w' D4)\<lparr>ds_tasks := (ds_tasks D4)[0 := Idle], ds_failed := (ds_failed D4)[0 := isl Q]\<rparr>"
  have three: "length PAIRS = 3" "PAIRS ! 0 = ''BTC-USDT''" "pair_index ''BTC-USDT'' = 0" by (simp_all add: PAIRS_def pair_index_def)
  have m: "marks_of st' = [?p]" by (simp add: marks_of_def marks PAIRS_def pair_index_def)
  have d0: "ds_api D0 = resting_worker" "ds_due D0 = []" "ds_tasks D0 = [Idle, Idle, Idle]" "ds_failed D0 = [False, False, False]"
    by (simp_all add: D0_def debounce_start_def resting_worker_sel three numeral_3_eq_3)
  have d1: "ds_due D1 = [?p]" "ds_tasks D1 = [Idle, Idle, Idle]" "ds_failed D1 = [False, False, False]" "length (ds_hidden D1) = 3"
      "aw_notified (ds_api D1) = [False, False, False]" "ds_world D1 = ?w"
    by (simp_all add: D1_def after_run_def d0 m resting_worker_sel no_marks_def three numeral_3_eq_3)
  have d3: "aw_notified (ds_api D3) = [False, False, False]" "ds_due D3 = []" "ds_tasks D3 = [Woken, Idle, Idle]" "ds_world D3 = ?w"
      "ds_failed D3 = [False, False, False]" "length (ds_hidden D3) = 3"
    by (simp_all add: D3_def D2_def d1 mark_dirty_def three)
  have "?step D0 D1" unfolding D1_def by (rule debounce_step.order) (use st' in \<open>simp add: d0 resting_worker_sel\<close>)
  moreover have "?step D1 D2" unfolding D2_def by (rule debounce_step.mark) (simp add: d1)
  moreover have "?step D2 D3" unfolding D3_def by (rule debounce_step.wake) (simp_all add: D2_def d1 mark_dirty_def three)
  moreover have "?step D3 D4" unfolding D4_def by (rule debounce_step.snapshot) (use r in \<open>simp_all add: d3 three\<close>)
  moreover have "?step D4 D5" unfolding D5_def by (rule debounce_step.publish) (use w' in \<open>simp_all add: D4_def d3 R three\<close>)
  ultimately have run: "?step\<^sup>*\<^sup>* D0 D5" by (meson converse_rtranclp_into_rtranclp rtranclp.rtrancl_refl)
  have e: "\<not> pending D5 0" "\<not> ds_failed D5 ! 0" "\<not> ds_hidden D5 ! 0"
    by (simp_all add: pending_def due_def D5_def D4_def d3 Q R)
  note conjunct1 [OF displayed_book_follows [OF ref.valkey_spec_axioms resting_worker_sel(3) run [unfolded D0_def]]]
  from this [rule_format, of 0] e have "vd_keys (id (w_vk (ds_world D5))) (view_key ?p) = book_text ref_ext ref_json ?p (id (w_vk (ds_world D5)))" by (simp add: three)
  with run e show ?thesis unfolding D0_def three by (intro exI [of _ D5]) simp
qed

section \<open>Cancellations\<close>

text \<open>
  C36: a cancellation is not displayed. Whatever \<open>process_cancellation\<close> does to the book, it sets no mark
  and leaves the displayed values alone: a pair that was displayed as it is and whose book changes by the cancellation
  shows the cancelled order, with nothing pending, until the next order on the pair.
\<close>

theorem cancellation_not_displayed:
  fixes X :: "'d::floor_ceiling ext"
  assumes "valkey_spec V \<alpha>" and "process_cancellation V X J clock db_now n msg (ds_api D) = (r, st')"
    and "D' = D\<lparr>ds_api := st'\<rparr>"
  shows "pending D' i = pending D i \<and>
    vd_keys (\<alpha> (w_vk (ds_world D'))) (view_key p) = vd_keys (\<alpha> (w_vk (ds_world D))) (view_key p) \<and>
    (current \<alpha> X J D i \<and> book_text X J (PAIRS ! i) (\<alpha> (w_vk (ds_world D'))) \<noteq> book_text X J (PAIRS ! i) (\<alpha> (w_vk (ds_world D))) \<longrightarrow>
      \<not> current \<alpha> X J D' i)"
proof -
  have m: "aw_notified st' = aw_notified (ds_api D)" using keepsD [OF cancellation_keeps_marks assms(2)] .
  have v: "vd_keys (\<alpha> (w_vk (aw_world st'))) (view_key q) = vd_keys (\<alpha> (w_vk (ds_world D))) (view_key q)" for q
    using keepsD [OF valkey_spec.cancellation_keeps_view [OF assms(1)] assms(2)] .
  show ?thesis using m v by (auto simp: assms(3) pending_def due_def current_def)
qed

definition one_ask :: vdata where
  "one_ask = put_key (okey ''7'') (Some (VHash [''price_i'' \<mapsto> ''5'', ''remaining_i'' \<mapsto> ''3'']))
     (put_key (asks_key ''BTC-USDT'') (Some (VZset [(5, ''7'')])) empty_vdata)"

definition displayed :: vdata where
  "displayed = put_key (view_key ''BTC-USDT'') (book_text ref_ext ref_json ''BTC-USDT'' one_ask) one_ask"

definition displayed_state :: "(vdata, rat) debounce" where
  "displayed_state = \<lparr>ds_api = sample_api\<lparr>aw_world := (aw_world sample_api)\<lparr>w_vk := displayed\<rparr>\<rparr>, ds_tasks = [Idle, Idle, Idle],
     ds_failed = [False, False, False], ds_due = [], ds_hidden = [False, False, False]\<rparr>"

lemma one_ask_text:
  "book_text ref_ext ref_json ''BTC-USDT'' one_ask =
     Some (VStr (js_str ref_json (orderbook_json ''BTC-USDT'' [] [level_json (level_text ref_ext (i64_to_decimal 5, i64_to_decimal 3))])))"
proof -
  have b: "vd_keys one_ask (bids_key p) = None" for p by (simp add: one_ask_def put_key_def okey_def asks_key_def bids_key_def empty_vdata_def)
  have a: "vd_keys one_ask (asks_key ''BTC-USDT'') = Some (VZset [(5, ''7'')])" "vd_keys one_ask (okey ''7'') = Some (VHash [''price_i'' \<mapsto> ''5'', ''remaining_i'' \<mapsto> ''3''])"
    by (simp_all add: one_ask_def put_key_def okey_def asks_key_def)
  have three: "string_of_int 3 = ''3''" by (simp add: string_of_int_def string_of_nat.simps)
  have n: "lua_tonumber ''3'' = Some 3" "lua_tostring 3 = ''3''"
    using lua_tonumber_int [of 3] lua_tostring_small [of 3] by (simp_all add: three)
  have "ORDERBOOK_SNAPSHOT_LUA ref_valkey ''BTC-USDT'' 50 one_ask = (Inr [''0'', ''2'', ''5'', ''3''], one_ask)"
    by (simp add: ORDERBOOK_SNAPSHOT_LUA_def aggregate_side_def level_order_def vbind_def vret_def d_zrangebyscore_def d_hget_def read_key_def
        a b n zrange_upto_def zlimit_def Let_def string_of_nat.simps numeral_2_eq_2 [symmetric])
  moreover have "parse_nat ''0'' = Some 0" "parse_nat ''2'' = Some 2" "parse_i64 ''5'' = Some 5" "parse_i64 ''3'' = Some 3"
    by (simp_all add: parse_nat_def parse_i64_def parse_int_def digits_value_def is_digit_def digit_val_def i64_ok_def)
  ultimately show ?thesis
    by (simp add: book_text_def view_text_def parse_snapshot_def read_count_def option_or_def)
qed

lemma no_levels_text:
  assumes "vd_keys d (bids_key p) = None" "vd_keys d (asks_key p) = None"
  shows "book_text ref_ext ref_json p d = Some (VStr (js_str ref_json (orderbook_json p [] [])))"
proof -
  have "ORDERBOOK_SNAPSHOT_LUA ref_valkey p 50 d = (Inr [''0'', ''0''], d)"
    by (simp add: ORDERBOOK_SNAPSHOT_LUA_def aggregate_side_def vbind_def vret_def d_zrangebyscore_def read_key_def
        assms zrange_upto_def zlimit_def string_of_nat.simps)
  moreover have "parse_nat ''0'' = Some 0"
    by (simp add: parse_nat_def digits_value_def is_digit_def digit_val_def)
  ultimately show ?thesis by (simp add: book_text_def view_text_def parse_snapshot_def read_count_def option_or_def)
qed

theorem cancellation_not_displayed_witness:
  "\<exists>D'. process_cancellation ref_valkey ref_ext ref_json int 9 2 (cancel_msg ref_json (x_uuid_str ref_ext 7) ''user-1'')
      (ds_api displayed_state) = (Inr (), ds_api D') \<and>
    current id ref_ext ref_json displayed_state 0 \<and> \<not> pending D' 0 \<and> \<not> current id ref_ext ref_json D' 0"
proof -
  let ?msg = "cancel_msg ref_json (x_uuid_str ref_ext 7) ''user-1''"
  have up: "api_up id (ds_api displayed_state)"
    by (simp add: api_up_def displayed_state_def displayed_def one_ask_text) (simp add: one_ask_def sample_api_def empty_world_def key_kind_def okey_def asks_key_def view_key_def suffix_def)
  have f: "find (\<lambda>r. or_id r = 7 \<and> or_user_id r = ''user-1'') (tb_orders (aw_tables (ds_api displayed_state))) = Some sample_row"
    "row_open sample_row"
    by (simp_all add: displayed_state_def) (simp_all add: sample_row_def row_open_def)
  obtain st' where st': "process_cancellation ref_valkey ref_ext ref_json int 9 2 ?msg (ds_api displayed_state) = (Inr (), st')"
    and d: "w_vk (aw_world st') = removed ref_ext (cancelled_order int 7 ''user-1'' sample_row) displayed"
    using cancel_one_run [OF ref.valkey_spec_axioms ref_ext.ext_spec_axioms up f, of int 9]
    by (auto simp: numeral_2_eq_2 ref_json.process_cancel_msg displayed_state_def simp del: process_cancellation.simps)
  have id7: "x_uuid_str ref_ext 7 = ''7''" by (simp add: ref_ext_def string_of_nat.simps)
  have k: "okey i \<noteq> bids_key p" "okey i \<noteq> asks_key p" "bids_key p \<noteq> asks_key p" "view_key p \<noteq> bids_key p" "view_key p \<noteq> asks_key p" for i p
    by (simp_all add: okey_def bids_key_def asks_key_def view_key_def)
  have dk: "vd_keys displayed (bids_key ''BTC-USDT'') = None" "zset_at displayed (asks_key ''BTC-USDT'') = [(5, ''7'')]"
    by (simp_all add: displayed_def one_ask_def k k [symmetric] zset_at_def empty_vdata_def)
  have rm: "removed ref_ext (cancelled_order int 7 ''user-1'' sample_row) displayed =
      put_key (okey ''7'') None (put_key (asks_key ''BTC-USDT'') None displayed)"
    using dk(2) by (simp add: removed_def id7 cancelled_order_def sample_row_def book_key_def zset_remove_def zset_value_def)
  have "vd_keys (w_vk (aw_world st')) (bids_key ''BTC-USDT'') = None" "vd_keys (w_vk (aw_world st')) (asks_key ''BTC-USDT'') = None"
    unfolding d rm using dk(1) k by (auto simp: put_key_def)
  then have after: "book_text ref_ext ref_json ''BTC-USDT'' (w_vk (aw_world st')) = Some (VStr (js_str ref_json (orderbook_json ''BTC-USDT'' [] [])))"
    by (rule no_levels_text)
  have "book_text ref_ext ref_json ''BTC-USDT'' displayed = book_text ref_ext ref_json ''BTC-USDT'' one_ask"
    by (rule book_text_cong) (simp add: same_books_def displayed_def put_key_def)
  note before = this one_ask_text
  have "js_str ref_json (orderbook_json ''BTC-USDT'' [] []) \<noteq>
      js_str ref_json (orderbook_json ''BTC-USDT'' [] [level_json (level_text ref_ext (i64_to_decimal 5, i64_to_decimal 3))])"
    using ref_json.str_inj [of "orderbook_json ''BTC-USDT'' [] []" "orderbook_json ''BTC-USDT'' [] [level_json (level_text ref_ext (i64_to_decimal 5, i64_to_decimal 3))]"]
    by (auto simp: orderbook_json_def level_json_def level_text_def jobj_def intro!: canonical_jobj)
  then have ne: "book_text ref_ext ref_json ''BTC-USDT'' (w_vk (aw_world st')) \<noteq> book_text ref_ext ref_json ''BTC-USDT'' displayed"
    by (simp add: after before)
  have c: "current id ref_ext ref_json displayed_state 0"
    using before by (simp add: current_def displayed_state_def PAIRS_def) (simp add: displayed_def put_key_def)
  have "\<not> pending displayed_state 0" by (simp add: pending_def due_def displayed_state_def sample_api_def)
  with cancellation_not_displayed [OF ref.valkey_spec_axioms st' refl, of 0 "view_key ''BTC-USDT''"] c ne st' show ?thesis
    by (intro exI [of _ "displayed_state\<lparr>ds_api := st'\<rparr>"]) (simp add: PAIRS_def displayed_state_def del: process_cancellation.simps)
qed

end
