(* ===== verification/Mirror_Props.thy ===== *)
theory Mirror_Props
  imports Gateway_Routes Book_Cache_Props
begin

text \<open>
  The values the gateway mirrors in memory against the values in the service: the
  interface between the writers, which set a key and publish it, and the readers,
  which ask the gateway; and the caches of the gateway itself.
\<close>

section \<open>The interface of publications\<close>

text \<open>
  A store that follows a sequence of messages: a message made of a key and a value
  sets exactly that key when the store knows it, and nothing otherwise, provided both can be sent.
\<close>

locale publication =
  fixes message :: "'k \<Rightarrow> 'v \<Rightarrow> 'm"
    and receive :: "'t \<Rightarrow> 'm \<Rightarrow> 's \<Rightarrow> 's"
    and look :: "'s \<Rightarrow> 'k \<Rightarrow> 'v option"
    and known :: "'s \<Rightarrow> 'k \<Rightarrow> bool"
    and sendable :: "'k \<Rightarrow> 'v \<Rightarrow> bool"
  assumes look_receive: "sendable k v \<Longrightarrow>
      look (receive t (message k v) s) k' = (if k' = k \<and> known s k then Some v else look s k')"
    and known_receive: "known (receive t (message k v) s) k' = known s k'"
begin

lemma look_after_all:
  assumes "length ts = length es" "\<forall>(k, v) \<in> set es. sendable k v"
  shows "look (fold (\<lambda>(t, m). receive t m) (zip ts (map (\<lambda>(k, v). message k v) es)) s) k =
    (case map_of (rev es) k of Some v \<Rightarrow> if known s k then Some v else look s k | None \<Rightarrow> look s k)"
  using assms
proof (induction ts es arbitrary: s rule: list_induct2)
  case (Cons t ts e es)
  obtain k1 v1 where e: "e = (k1, v1)" by (cases e)
  have "\<forall>(k, v) \<in> set es. sendable k v" using Cons.prems by auto
  from Cons.IH [OF this] show ?case
    using Cons.prems by (auto simp: e look_receive known_receive map_add_def split: option.split)
qed simp

end

definition sendable_update :: "string \<Rightarrow> string \<Rightarrow> bool" where
  "sendable_update key val \<longleftrightarrow> CHR 0x0A \<notin> set key \<and> val \<noteq> [] \<and> val \<noteq> ''{}''"

lemma split_message:
  assumes "CHR 0x0A \<notin> set key"
  shows "receive_update t (update_message key val) cache = update_if_set t key val cache"
proof -
  have "takeWhile (\<lambda>c. c \<noteq> CHR 0x0A) (key @ CHR 0x0A # val) = key"
    "dropWhile (\<lambda>c. c \<noteq> CHR 0x0A) (key @ CHR 0x0A # val) = CHR 0x0A # val"
    using assms by (induction key) auto
  then show ?thesis by (simp only: receive_update_def update_message_def list.case)
qed

lemma cache_update_latest:
  "get_latest (cache_update t key val cache) k = (if k = key \<and> key \<in> dom cache then Some val else get_latest cache k)"
  by (auto simp: cache_update_def get_latest_def split: option.split)

lemma receive_update_dom [simp]: "dom (receive_update t m cache) = dom cache"
proof -
  have "dom (cache_update t key val cache) = dom cache" for key val
    by (auto simp: cache_update_def split: option.split)
  then show ?thesis by (simp add: receive_update_def update_if_set_def split: list.split)
qed

interpretation mirror: publication update_message receive_update get_latest "\<lambda>cache k. k \<in> dom cache" sendable_update
proof
  fix k v k' t and cache :: cache_broadcasts
  assume "sendable_update k v"
  then show "get_latest (receive_update t (update_message k v) cache) k' = (if k' = k \<and> k \<in> dom cache then Some v else get_latest cache k')"
    by (simp add: sendable_update_def split_message update_if_set_def cache_update_latest)
qed simp

section \<open>Start of the gateway\<close>

definition mirrored_value :: "string option \<Rightarrow> string option" where
  "mirrored_value v = (if v = None \<or> v = Some [] \<or> v = Some ''{}'' then None else v)"

lemma cache_key_kind: "key_kind (''cache:'' @ r) = Some KStr"
  by (simp add: key_kind_def)

lemma poll_spec_kinds: "k \<in> set poll_specs \<Longrightarrow> key_kind k = Some KStr"
proof -
  have "list_all (prefix ''cache:'') poll_specs" by (simp add: poll_specs_def)
  then show "k \<in> set poll_specs \<Longrightarrow> key_kind k = Some KStr"
    using cache_key_kind by (metis list_all_iff prefixE)
qed

lemma poll_keys_run:
  assumes "well_keyed d" "\<forall>k \<in> set ks. key_kind k = Some KStr" "set ks \<subseteq> dom cache"
  shows "\<exists>cache'. vfoldM (poll_key ref_valkey t) ks cache d = (Inr cache', d) \<and> dom cache' = dom cache \<and>
    (\<forall>k. get_latest cache' k =
       (if k \<in> set ks \<and> mirrored_value (str_at d k) \<noteq> None then str_at d k else get_latest cache k))"
  using assms
proof (induction ks arbitrary: cache)
  case (Cons k ks)
  let ?c = "case str_at d k of None \<Rightarrow> cache | Some v \<Rightarrow> update_if_set t k v cache"
  have "d_get k d = (Inr (str_at d k), d)"
    using Cons.prems by (simp add: d_get_def read_key_def well_keyed_view)
  then have step: "poll_key ref_valkey t k cache d = (Inr ?c, d)"
    by (simp add: poll_key_def vbind_def vor_def vret_def)
  have dom: "dom ?c = dom cache"
    by (auto simp: update_if_set_def cache_update_def split: option.split)
  have latest: "get_latest ?c k' = (if k' = k \<and> mirrored_value (str_at d k) \<noteq> None then str_at d k else get_latest cache k')" for k'
    using Cons.prems(3) by (auto simp: update_if_set_def cache_update_latest mirrored_value_def split: option.split)
  have "\<forall>k \<in> set ks. key_kind k = Some KStr" "set ks \<subseteq> dom ?c" using Cons.prems(2,3) dom by auto
  from Cons.IH [OF Cons.prems(1) this] obtain cache' where
    c: "vfoldM (poll_key ref_valkey t) ks ?c d = (Inr cache', d)" "dom cache' = dom ?c"
      "\<forall>k'. get_latest cache' k' =
        (if k' \<in> set ks \<and> mirrored_value (str_at d k') \<noteq> None then str_at d k' else get_latest ?c k')"
    by blast
  have "vfoldM (poll_key ref_valkey t) (k # ks) cache d = (Inr cache', d)"
    using step c(1) by (simp add: vbind_def)
  moreover have "get_latest cache' k' =
      (if k' \<in> set (k # ks) \<and> mirrored_value (str_at d k') \<noteq> None then str_at d k' else get_latest cache k')" for k'
    using c(3) [rule_format, of k'] latest [of k'] by auto
  ultimately show ?case using c(2) dom by metis
qed (simp add: vret_def)

text \<open>The first reading: the gateway shows what the service holds, of every key it mirrors.\<close>

lemma warm_cache_shows_service:
  assumes "well_keyed d" "vd_pool d = []"
  obtains cache where "warm_cache ref_valkey t d = (Inr cache, d)"
    "\<And>k. get_latest cache k = (if k \<in> set poll_specs then mirrored_value (str_at d k) else None)"
proof -
  have "set poll_specs \<subseteq> dom (new_cache t)" by (auto simp: new_cache_def dom_def)
  from poll_keys_run [OF assms(1) ballI [OF poll_spec_kinds] this, of t] obtain cache where
    c: "vfoldM (poll_key ref_valkey t) poll_specs (new_cache t) d = (Inr cache, d)"
      "\<forall>k. get_latest cache k =
        (if k \<in> set poll_specs \<and> mirrored_value (str_at d k) \<noteq> None then str_at d k else get_latest (new_cache t) k)"
    by auto
  have "get_latest (new_cache t) k = None" for k by (simp add: get_latest_def new_cache_def)
  moreover have "mirrored_value v \<noteq> None \<Longrightarrow> mirrored_value v = v" for v by (auto simp: mirrored_value_def split: if_splits)
  ultimately have "get_latest cache k = (if k \<in> set poll_specs then mirrored_value (str_at d k) else None)" for k
    using c(2) by metis
  moreover have "warm_cache ref_valkey t d = (Inr cache, d)"
    using c(1) assms(2) by (simp add: warm_cache_def poll_all_def vor_def vbind_def)
  ultimately show thesis using that by blast
qed

section \<open>The per-user cache\<close>

lemma user_cache_distinct: "distinct (map fst m) \<Longrightarrow> distinct (map fst (user_cache_set t k v m))"
  by (auto simp: user_cache_set_def Let_def distinct_map_filter)

text \<open>
  A value stored is returned until it is two seconds old, whatever is stored and
  evicted in between.
\<close>

lemma user_cache_get_set:
  assumes "t \<le> now_ms" "distinct (map fst m)"
  shows "user_cache_get now_ms k (user_cache_set t k' v m) =
    (if k = k' then (if now_ms - t < USER_CACHE_TTL_MS then Some v else None) else user_cache_get now_ms k m)"
proof -
  define m' where "m' = (k', t, v) # filter (\<lambda>e. fst e \<noteq> k') m"
  have "map_of (filter (\<lambda>e. fst e \<noteq> k') m) k = map_of m k" if "k \<noteq> k'" using that by (induction m) auto
  then have get: "user_cache_get now_ms k m' =
      (if k = k' then (if now_ms - t < USER_CACHE_TTL_MS then Some v else None) else user_cache_get now_ms k m)"
    by (simp add: m'_def user_cache_get_def)
  have old: "user_cache_get now_ms k (filter (\<lambda>(_, ts, _). t - ts < USER_CACHE_TTL_MS * 2) l) = user_cache_get now_ms k l"
    if "distinct (map fst l)" for l
    using that
  proof (induction l)
    case (Cons e l)
    obtain a ts w where e: "e = (a, ts, w)" by (cases e) auto
    have "k = a \<Longrightarrow> map_of l k = None" using Cons.prems e by (auto simp: map_of_eq_None_iff)
    moreover from this have "k = a \<Longrightarrow> map_of (filter (\<lambda>(_, ts, _). t - ts < USER_CACHE_TTL_MS * 2) l) k = None"
      by (auto simp: map_of_eq_None_iff)
    ultimately show ?case using Cons e assms(1) by (auto simp: user_cache_get_def USER_CACHE_TTL_MS_def)
  qed simp
  show ?thesis
  proof (cases "length m' > 1000")
    case False
    then show ?thesis using get by (simp add: user_cache_set_def m'_def Let_def)
  next
    case True
    moreover have "distinct (map fst m')" using assms(2) by (auto simp: m'_def distinct_map_filter)
    ultimately show ?thesis using get old [of m'] by (simp add: user_cache_set_def m'_def Let_def)
  qed
qed

section \<open>What the service holds and sends\<close>

lemma set_publish_pipe:
  "\<exists>d'. vpipe (concat (map (\<lambda>(k, v). [d_set k v, d_publish CACHE_UPDATES_CHANNEL (update_message k v)]) es)) d = (Inr (), d') \<and>
    vd_published d' = vd_published d @ map (\<lambda>(k, v). (CACHE_UPDATES_CHANNEL, update_message k v)) es \<and>
    (\<forall>k. str_at d' k = (case map_of (rev es) k of Some v \<Rightarrow> Some v | None \<Rightarrow> str_at d k))"
proof (induction es arbitrary: d)
  case (Cons e es)
  obtain k1 v1 where e: "e = (k1, v1)" by (cases e)
  let ?d = "d\<lparr>vd_keys := (vd_keys d)(k1 \<mapsto> VStr v1), vd_ttl := (vd_ttl d)(k1 := None),
    vd_published := vd_published d @ [(CACHE_UPDATES_CHANNEL, update_message k1 v1)]\<rparr>"
  from Cons.IH [of ?d] obtain d' where
    d': "vpipe (concat (map (\<lambda>(k, v). [d_set k v, d_publish CACHE_UPDATES_CHANNEL (update_message k v)]) es)) ?d = (Inr (), d')"
      "vd_published d' = vd_published ?d @ map (\<lambda>(k, v). (CACHE_UPDATES_CHANNEL, update_message k v)) es"
      "\<forall>k. str_at d' k = (case map_of (rev es) k of Some v \<Rightarrow> Some v | None \<Rightarrow> str_at ?d k)"
    by (elim exE conjE)
  have "vpipe (concat (map (\<lambda>(k, v). [d_set k v, d_publish CACHE_UPDATES_CHANNEL (update_message k v)]) (e # es))) d = (Inr (), d')"
    using d'(1) by (simp add: e d_set_def d_publish_def)
  with d'(2,3) show ?case
    by (auto simp: e map_add_def str_at_def split: option.split)
qed simp

lemma batch_pipe:
  "vd_pool d = [] \<Longrightarrow> set_and_publish_batch ref_valkey es d =
     vpipe (concat (map (\<lambda>(k, v). [d_set k v, d_publish CACHE_UPDATES_CHANNEL (update_message k v)]) es)) d"
  by (cases "es = []") (simp_all add: set_and_publish_batch_def vbind_def vret_def)

text \<open>
  C14: the values the gateway shows are those of the service. When values are written
  by \<open>set_and_publish_batch\<close>, the service afterwards holds the last value of each
  key and has sent one message per value; a gateway that receives these messages, at
  whatever times, shows for every key it mirrors exactly the last value written, and for the
  other keys of the batch (the portfolios) nothing; for keys outside the batch it shows what it showed before. (The keys hold
  no line feed, and no value is empty or the empty object: these are not mirrored.)
\<close>

theorem mirror_follows_service:
  assumes "valkey_spec V \<alpha>" and "vd_pool (\<alpha> s) = []"
    and "\<forall>(key, val) \<in> set entries. sendable_update key val" and "length ts = length entries"
  shows "\<exists>s' msgs. set_and_publish_batch V entries s = (Inr (), s') \<and>
    vd_published (\<alpha> s') = vd_published (\<alpha> s) @ map (Pair CACHE_UPDATES_CHANNEL) msgs \<and> length msgs = length entries \<and>
    (\<forall>key \<in> fst ` set entries. str_at (\<alpha> s') key = map_of (rev entries) key \<and>
       get_latest (fold (\<lambda>(t, m). receive_update t m) (zip ts msgs) cache) key =
         (if key \<in> dom cache then str_at (\<alpha> s') key else None)) \<and>
    (\<forall>key. key \<notin> fst ` set entries \<longrightarrow>
       get_latest (fold (\<lambda>(t, m). receive_update t m) (zip ts msgs) cache) key = get_latest cache key)"
proof -
  let ?msgs = "map (\<lambda>(k, v). update_message k v) entries"
  let ?cache = "fold (\<lambda>(t, m). receive_update t m) (zip ts ?msgs) cache"
  obtain d' where d': "set_and_publish_batch ref_valkey entries (\<alpha> s) = (Inr (), d')"
      "vd_published d' = vd_published (\<alpha> s) @ map (\<lambda>(k, v). (CACHE_UPDATES_CHANNEL, update_message k v)) entries"
      "\<forall>k. str_at d' k = (case map_of (rev entries) k of Some v \<Rightarrow> Some v | None \<Rightarrow> str_at (\<alpha> s) k)"
    using set_publish_pipe [of entries "\<alpha> s"] batch_pipe [OF assms(2)] by metis
  from simulates_run [OF valkey_spec.sim_set_and_publish_batch [OF assms(1)] d'(1)] obtain s' where
    s': "set_and_publish_batch V entries s = (Inr (), s')" "\<alpha> s' = d'" .
  have l: "get_latest ?cache k = (case map_of (rev entries) k of Some v \<Rightarrow> if k \<in> dom cache then Some v else get_latest cache k | None \<Rightarrow> get_latest cache k)" for k
    by (rule mirror.look_after_all [OF assms(4,3)])
  have m: "map_of (rev entries) k = None \<longleftrightarrow> k \<notin> fst ` set entries" for k
    by (simp add: map_of_eq_None_iff)
  have "str_at (\<alpha> s') key = map_of (rev entries) key \<and> get_latest ?cache key = (if key \<in> dom cache then str_at (\<alpha> s') key else None)"
    if "key \<in> fst ` set entries" for key
  proof -
    from that m obtain v where "map_of (rev entries) key = Some v" by (cases "map_of (rev entries) key") auto
    moreover have "key \<notin> dom cache \<Longrightarrow> get_latest cache key = None" by (simp add: get_latest_def domIff)
    ultimately show ?thesis using l [of key] by (simp add: s'(2) d'(3))
  qed
  moreover have "get_latest ?cache key = get_latest cache key" if "key \<notin> fst ` set entries" for key
    using l [of key] m [of key] that by simp
  moreover have "vd_published (\<alpha> s') = vd_published (\<alpha> s) @ map (Pair CACHE_UPDATES_CHANNEL) ?msgs"
    by (auto simp: s'(2) d'(2))
  ultimately show ?thesis using s'(1) by (intro exI [of _ s'] exI [of _ ?msgs]) simp
qed

theorem mirror_follows_service_witness:
  "\<exists>s' msgs. set_and_publish_batch ref_valkey [(''cache:pairs'', ''a''), (''cache:portfolio:u1'', ''c''), (''cache:pairs'', ''b'')] empty_vdata =
      (Inr (), s') \<and>
    vd_published s' = map (Pair CACHE_UPDATES_CHANNEL) msgs \<and>
    get_latest (fold (\<lambda>(t, m). receive_update t m) (zip [0, 50, 60] msgs) (new_cache 0)) ''cache:pairs'' = Some ''b'' \<and>
    get_latest (fold (\<lambda>(t, m). receive_update t m) (zip [0, 50, 60] msgs) (new_cache 0)) ''cache:portfolio:u1'' = None"
proof -
  let ?es = "[(''cache:pairs'', ''a''), (''cache:portfolio:u1'', ''c''), (''cache:pairs'', ''b'')]"
  have es: "\<forall>(key, val) \<in> set ?es. sendable_update key val" by (simp add: sendable_update_def)
  have dom: "''cache:pairs'' \<in> dom (new_cache 0)" "''cache:portfolio:u1'' \<notin> dom (new_cache 0)"
    by (simp_all add: new_cache_def poll_specs_def dom_def)
  have pool: "vd_pool (id empty_vdata) = []" "length [0, 50, 60 :: int] = length ?es" by (simp_all add: empty_vdata_def)
  obtain s' msgs where m: "set_and_publish_batch ref_valkey ?es empty_vdata = (Inr (), s')"
      "vd_published (id s') = vd_published (id empty_vdata) @ map (Pair CACHE_UPDATES_CHANNEL) msgs"
    and k: "\<forall>key \<in> fst ` set ?es. str_at (id s') key = map_of (rev ?es) key \<and>
       get_latest (fold (\<lambda>(t, m). receive_update t m) (zip [0, 50, 60] msgs) (new_cache 0)) key =
         (if key \<in> dom (new_cache 0) then str_at (id s') key else None)"
    using mirror_follows_service [OF ref.valkey_spec_axioms pool(1) es pool(2), of "new_cache 0"] by (elim exE conjE) rule
  from k have "get_latest (fold (\<lambda>(t, m). receive_update t m) (zip [0, 50, 60] msgs) (new_cache 0)) ''cache:pairs'' = Some ''b''"
    "get_latest (fold (\<lambda>(t, m). receive_update t m) (zip [0, 50, 60] msgs) (new_cache 0)) ''cache:portfolio:u1'' = None"
    using dom by simp_all
  with m show ?thesis by (intro exI [of _ s'] exI [of _ msgs]) (simp add: empty_vdata_def)
qed

end
