(* ===== verification/Admin_Props.thy ===== *)
theory Admin_Props
  imports Gateway_Routes Queue_Worker Book_Cache_Props Persistence_Types
begin

text \<open>
  The administration commands of the gateway and the seeding of the database at the
  start of the worker: what they leave behind.
\<close>

section \<open>Sweeping stale entries\<close>

context valkey_spec
begin

lemma sim_sweep_entry [sim_rules]: "simulates \<alpha> (sweep_entry V k m n) (sweep_entry ref_valkey k m n)"
  unfolding sweep_entry_def ref_valkey_ops by (intro sim_rules)

lemma sim_sweep_side [sim_rules]: "simulates \<alpha> (sweep_side V k n) (sweep_side ref_valkey k n)"
  unfolding sweep_side_def ref_valkey_ops by (intro sim_rules)

lemma sim_sweep_stale_orders: "simulates (map_world \<alpha>) (sweep_stale_orders V) (sweep_stale_orders ref_valkey)"
  unfolding sweep_stale_orders_def ref_valkey_ops by (intro sim_rules)

end

text \<open>Whether an entry of a book has an order behind it; the number of those that do not.\<close>

definition has_order :: "vdata \<Rightarrow> string \<Rightarrow> bool" where
  "has_order d i \<longleftrightarrow> vd_keys d (okey i) \<noteq> None"

definition stale_count :: "vdata \<Rightarrow> string \<Rightarrow> nat" where
  "stale_count d k = length (filter (\<lambda>e. \<not> has_order d (snd e)) (zset_at d k))"

lemma sweep_entries_run:
  assumes "connected d" "key_kind k = Some KZset"
  shows "\<exists>d'. vfoldM (sweep_entry ref_valkey k) ms n d = (Inr (n + length (filter (\<lambda>m. \<not> has_order d m) ms)), d') \<and>
    connected d' \<and> zset_at d' k = filter (\<lambda>e. snd e \<notin> {m \<in> set ms. \<not> has_order d m}) (zset_at d k) \<and>
    (\<forall>k'. k' \<noteq> k \<longrightarrow> vd_keys d' k' = vd_keys d k')"
  using assms(1)
proof (induction ms arbitrary: n d)
  case (Cons m ms)
  let ?d = "if has_order d m then d else put_key k (zset_value (zset_remove m (zset_at d k))) d"
  have s: "sweep_entry ref_valkey k m n d = (Inr (if has_order d m then n else n + 1), ?d)"
    using Cons.prems assms(2)
    by (simp add: sweep_entry_def vbind_def vor_def d_exists_def vret_def run_simps has_order_def)
  have o: "okey i \<noteq> k" for i using assms(2) key_kinds(5) [of i] by auto
  have c: "connected ?d" using Cons.prems assms(2) by simp
  have h: "has_order ?d = has_order d" by (rule ext) (simp add: has_order_def o)
  from Cons.IH [OF c, of "if has_order d m then n else n + 1"] obtain d' where
    d': "vfoldM (sweep_entry ref_valkey k) ms (if has_order d m then n else n + 1) ?d =
        (Inr ((if has_order d m then n else n + 1) + length (filter (\<lambda>m. \<not> has_order d m) ms)), d')"
      "well_keyed d'" "vd_pool d' = []"
      "zset_at d' k = filter (\<lambda>e. snd e \<notin> {m \<in> set ms. \<not> has_order d m}) (zset_at ?d k)"
      "\<forall>k'. k' \<noteq> k \<longrightarrow> vd_keys d' k' = vd_keys ?d k'"
    unfolding h by (elim exE conjE)
  have "vfoldM (sweep_entry ref_valkey k) (m # ms) n d =
    (Inr (n + length (filter (\<lambda>m. \<not> has_order d m) (m # ms))), d')"
    using d'(1) by (simp add: vbind_def s)
  moreover have "zset_at d' k = filter (\<lambda>e. snd e \<notin> {m' \<in> set (m # ms). \<not> has_order d m'}) (zset_at d k)"
    unfolding d'(4) by (auto simp: zset_remove_def intro!: filter_cong)
  ultimately show ?case using d'(2,3,5) by auto
qed (simp add: vret_def)

lemma sweep_side_run:
  assumes "connected d" "key_kind k = Some KZset"
  shows "\<exists>d'. sweep_side ref_valkey k n d = (Inr (n + stale_count d k), d') \<and> connected d' \<and>
    zset_at d' k = filter (\<lambda>e. has_order d (snd e)) (zset_at d k) \<and> (\<forall>k'. k' \<noteq> k \<longrightarrow> vd_keys d' k' = vd_keys d k')"
proof -
  let ?ms = "map snd (zset_at d k)"
  have "zrange_upto None None (zset_at d k) = ?ms" by (simp add: zrange_upto_def zlimit_def)
  then have s: "sweep_side ref_valkey k n d = vfoldM (sweep_entry ref_valkey k) ?ms n d"
    using assms by (simp add: sweep_side_def vbind_def vor_def run_simps)
  have "length (filter (\<lambda>m. \<not> has_order d m) ?ms) = stale_count d k" by (simp add: stale_count_def filter_map o_def)
  moreover have "filter (\<lambda>e. snd e \<notin> {m \<in> set ?ms. \<not> has_order d m}) (zset_at d k) =
      filter (\<lambda>e. has_order d (snd e)) (zset_at d k)"
    by (rule filter_cong) auto
  ultimately show ?thesis using sweep_entries_run [OF assms, of ?ms n] by (simp add: s)
qed

lemma has_order_kept:
  assumes "\<forall>k'. k' \<noteq> k \<longrightarrow> vd_keys d' k' = vd_keys d k'" "key_kind k = Some KZset"
  shows "has_order d' = has_order d"
proof
  fix i
  have "okey i \<noteq> k" using assms(2) key_kinds(5) [of i] by auto
  with assms(1) show "has_order d' i = has_order d i" by (simp add: has_order_def)
qed

lemma sweep_sides_run:
  assumes "connected d" "\<forall>k \<in> set ks. key_kind k = Some KZset" "distinct ks"
  shows "\<exists>d'. vfoldM (sweep_side ref_valkey) ks n d = (Inr (n + sum_list (map (stale_count d) ks)), d') \<and> connected d' \<and>
    (\<forall>k \<in> set ks. zset_at d' k = filter (\<lambda>e. has_order d (snd e)) (zset_at d k)) \<and>
    (\<forall>k. k \<notin> set ks \<longrightarrow> vd_keys d' k = vd_keys d k)"
  using assms
proof (induction ks arbitrary: n d)
  case (Cons k ks)
  have kk: "key_kind k = Some KZset" using Cons.prems(2) by simp
  from sweep_side_run [OF Cons.prems(1) kk, of n] obtain d1 where
    d1: "sweep_side ref_valkey k n d = (Inr (n + stale_count d k), d1)" "well_keyed d1" "vd_pool d1 = []"
      "zset_at d1 k = filter (\<lambda>e. has_order d (snd e)) (zset_at d k)" "\<forall>k'. k' \<noteq> k \<longrightarrow> vd_keys d1 k' = vd_keys d k'"
    by (elim exE conjE)
  have h: "has_order d1 = has_order d" using d1(5) kk by (rule has_order_kept)
  have z: "zset_at d1 k' = zset_at d k'" if "k' \<in> set ks" for k'
  proof -
    have "k' \<noteq> k" using that Cons.prems(3) by auto
    with d1(5) show ?thesis by (simp add: zset_at_def)
  qed
  have c: "map (stale_count d1) ks = map (stale_count d) ks" using z by (simp add: stale_count_def h)
  have "connected d1" "\<forall>k \<in> set ks. key_kind k = Some KZset" "distinct ks" using d1(2,3) Cons.prems by simp_all
  from Cons.IH [OF this, of "n + stale_count d k"] obtain d' where
    d': "vfoldM (sweep_side ref_valkey) ks (n + stale_count d k) d1 =
        (Inr (n + stale_count d k + sum_list (map (stale_count d) ks)), d')" "well_keyed d'" "vd_pool d' = []"
      "\<forall>k \<in> set ks. zset_at d' k = filter (\<lambda>e. has_order d (snd e)) (zset_at d1 k)"
      "\<forall>k. k \<notin> set ks \<longrightarrow> vd_keys d' k = vd_keys d1 k"
    unfolding h c by (elim exE conjE)
  have "zset_at d' k = zset_at d1 k" using d'(5) Cons.prems(3) by (simp add: zset_at_def)
  with d1(4) d'(4) z have "\<forall>k' \<in> set (k # ks). zset_at d' k' = filter (\<lambda>e. has_order d (snd e)) (zset_at d k')" by simp
  moreover have "vfoldM (sweep_side ref_valkey) (k # ks) n d = (Inr (n + sum_list (map (stale_count d) (k # ks))), d')"
    using d'(1) by (simp add: vbind_def d1(1) add.assoc)
  ultimately show ?case using d'(2,3,5) d1(5) by auto
qed (simp add: vret_def)

definition swept_keys :: "string list" where
  "swept_keys = concat (map (\<lambda>p. [bids_key p, asks_key p]) manage_pairs)"

lemma swept_keys_ok: "\<forall>k \<in> set swept_keys. key_kind k = Some KZset" "distinct swept_keys"
  by (simp_all add: swept_keys_def manage_pairs_def key_simps)

text \<open>
  C16: sweeping removes exactly the stale entries. With a connection available the
  command \<open>sweep_stale_orders\<close> answers the number of entries of the six sides of
  the books that have no order hash; afterwards each side holds exactly the entries
  that have one, in the same order, and no other key of the cache and nothing in the
  database has changed.
\<close>

theorem sweep_removes_exactly_stale:
  assumes "valkey_spec V \<alpha>" and "connected (\<alpha> (w_vk w))"
  shows "\<exists>w'. sweep_stale_orders V w =
      (Inr (200, Body (jobj [(''ok'', JBool True),
         (''removed'', JInt (int (sum_list (map (stale_count (\<alpha> (w_vk w))) swept_keys))))])), w') \<and>
    (\<forall>k \<in> set swept_keys.
       zset_at (\<alpha> (w_vk w')) k = filter (\<lambda>e. has_order (\<alpha> (w_vk w)) (snd e)) (zset_at (\<alpha> (w_vk w)) k)) \<and>
    (\<forall>k. k \<notin> set swept_keys \<longrightarrow> vd_keys (\<alpha> (w_vk w')) k = vd_keys (\<alpha> (w_vk w)) k) \<and> w_pg w' = w_pg w"
proof -
  let ?d = "\<alpha> (w_vk w)"
  from sweep_sides_run [OF assms(2) swept_keys_ok, of 0] obtain d' where
    d': "vfoldM (sweep_side ref_valkey) swept_keys 0 ?d = (Inr (sum_list (map (stale_count ?d) swept_keys)), d')"
      "\<forall>k \<in> set swept_keys. zset_at d' k = filter (\<lambda>e. has_order ?d (snd e)) (zset_at ?d k)"
      "\<forall>k. k \<notin> set swept_keys \<longrightarrow> vd_keys d' k = vd_keys ?d k"
    unfolding add_0 by (elim exE conjE)
  have "sweep_stale_orders ref_valkey (map_world \<alpha> w) =
      (Inr (200, Body (jobj [(''ok'', JBool True),
         (''removed'', JInt (int (sum_list (map (stale_count ?d) swept_keys))))])), (map_world \<alpha> w)\<lparr>w_vk := d'\<rparr>)"
    using assms(2) by (simp add: sweep_stale_orders_def swept_keys_def [symmetric] vbind_def vor_def on_vk_def d'(1) vret_def)
  from simulates_run [OF valkey_spec.sim_sweep_stale_orders [OF assms(1)] this] obtain w' where
    w': "sweep_stale_orders V w = (Inr (200, Body (jobj [(''ok'', JBool True),
         (''removed'', JInt (int (sum_list (map (stale_count ?d) swept_keys))))])), w')"
      "map_world \<alpha> w' = (map_world \<alpha> w)\<lparr>w_vk := d'\<rparr>" .
  have "\<alpha> (w_vk w') = d'" "w_pg w' = w_pg w"
    using arg_cong [OF w'(2), of w_vk] arg_cong [OF w'(2), of w_pg] by simp_all
  with w'(1) d'(2,3) show ?thesis by auto
qed

definition stale_world :: "(vdata, rat) world" where
  "stale_world = empty_world\<lparr>w_vk := put_key (bids_key ''BTC-USDT'') (Some (VZset [(5, ''7'')])) empty_vdata\<rparr>"

theorem sweep_removes_exactly_stale_witness:
  "\<exists>w'. sweep_stale_orders ref_valkey stale_world =
      (Inr (200, Body (jobj [(''ok'', JBool True), (''removed'', JInt 1)])), w') \<and>
    zset_at (w_vk w') (bids_key ''BTC-USDT'') = []"
proof -
  let ?d = "put_key (bids_key ''BTC-USDT'') (Some (VZset [(5, ''7'')])) empty_vdata"
  have w: "w_vk stale_world = ?d" by (simp add: stale_world_def)
  have c: "connected (id (w_vk stale_world))"
    by (simp add: w key_simps)
  have z: "zset_at ?d k = (if k = bids_key ''BTC-USDT'' then [(5, ''7'')] else [])" for k
    by (simp add: zset_at_def empty_vdata_def)
  have h: "\<not> has_order ?d ''7''" by (simp add: has_order_def key_simps empty_vdata_def)
  have n: "sum_list (map (stale_count ?d) swept_keys) = 1"
    by (simp add: swept_keys_def manage_pairs_def stale_count_def z h key_simps)
  have "bids_key ''BTC-USDT'' \<in> set swept_keys" by (simp add: swept_keys_def manage_pairs_def)
  with sweep_removes_exactly_stale [OF ref.valkey_spec_axioms c] n h show ?thesis by (auto simp: w z)
qed

end
