(* ===== verification/Multiplex.thy ===== *)
theory Multiplex
  imports Gateway_Routes
begin

text \<open>
  The multiplexed websocket of the gateway (\<open>handle_multiplexed_ws\<close> of
  \<open>gateway/src/routes.rs\<close>): one connection, many subscriptions. The tasks of the
  subscriptions and the handler itself put messages into one channel of bounded
  capacity; the handler is its only receiver. Every \<open>await\<close> is a step of its own: while the
  handler goes through the channels of a command, the tasks it has already spawned
  send into the same channel. A task that finds the channel full waits; the handler that
  finds it full waits for itself.
\<close>

section \<open>State\<close>

definition AGG_CAP :: nat where "AGG_CAP = 256"

text \<open>The task of an orders channel, of a portfolio (with the last value sent), of a mirrored value.\<close>

datatype mux_task =
    OrdersTask string
  | PortfolioTask string string
  | ChannelTask string

text \<open>
  The handler waits in \<open>select!\<close>, has the channels of a command still to go through, or waits in
  \<open>tx.send(init)\<close> for room for the first value of a channel. It ends with the connection.
\<close>

datatype mux_handler =
    Selecting
  | Subscribing "json list"
  | Sending string string "json list"
  | Ended

record mux_state =
  mx_handler :: mux_handler
  mx_buffer :: "string list"
  mx_tasks :: "mux_task list"
  mx_sent :: "socket_output list"

definition mux_start :: mux_state where
  "mux_start = \<lparr>mx_handler = Selecting, mx_buffer = [], mx_tasks = [], mx_sent = []\<rparr>"

section \<open>The handler\<close>

definition add_task :: "mux_task \<Rightarrow> mux_state \<Rightarrow> mux_state" where
  "add_task t st = st\<lparr>mx_tasks := mx_tasks st @ [t]\<rparr>"

text \<open>\<open>tx.send(...)\<close>: \<open>None\<close> while the channel is full.\<close>

definition mux_send :: "string \<Rightarrow> mux_state \<Rightarrow> mux_state option" where
  "mux_send msg st =
     (if length (mx_buffer st) < AGG_CAP then Some (st\<lparr>mx_buffer := mx_buffer st @ [msg]\<rparr>) else None)"

text \<open>The channel named by the command, up to the point where its first value has to be sent.\<close>

definition mux_subscribe :: "cache_broadcasts \<Rightarrow> string \<Rightarrow> json list \<Rightarrow> mux_state \<Rightarrow> mux_state" where
  "mux_subscribe cache ch rest st =
     (if prefix ''orders:'' ch then (add_task (OrdersTask (drop 7 ch)) st)\<lparr>mx_handler := Subscribing rest\<rparr>
      else if prefix ''portfolio:'' ch then (add_task (PortfolioTask (drop 10 ch) []) st)\<lparr>mx_handler := Subscribing rest\<rparr>
      else
        (case get_latest cache (''cache:'' @ ch) of
           None \<Rightarrow> (add_task (ChannelTask ch) st)\<lparr>mx_handler := Subscribing rest\<rparr>
         | Some val \<Rightarrow> st\<lparr>mx_handler := Sending (ws_message ch val) ch rest\<rparr>))"

text \<open>The next step of the handler inside a command; \<open>None\<close> when it is not in one, or has to wait.\<close>

definition mux_handle :: "cache_broadcasts \<Rightarrow> mux_state \<Rightarrow> mux_state option" where
  "mux_handle cache st =
     (case mx_handler st of
        Subscribing [] \<Rightarrow> Some (st\<lparr>mx_handler := Selecting\<rparr>)
      | Subscribing (JText ch # rest) \<Rightarrow> Some (mux_subscribe cache ch rest st)
      | Subscribing (_ # rest) \<Rightarrow> Some (st\<lparr>mx_handler := Subscribing rest\<rparr>)
      | Sending msg ch rest \<Rightarrow>
          map_option (\<lambda>st'. (add_task (ChannelTask ch) st')\<lparr>mx_handler := Subscribing rest\<rparr>) (mux_send msg st)
      | _ \<Rightarrow> None)"

definition mux_command :: "json_ext \<Rightarrow> string \<Rightarrow> mux_state \<Rightarrow> mux_state" where
  "mux_command J text st =
     (case Option.bind (js_parse J text) (\<lambda>cmd. Option.bind (jget cmd ''subscribe'') jarr) of
        None \<Rightarrow> st
      | Some chs \<Rightarrow> st\<lparr>mx_handler := Subscribing chs\<rparr>)"

text \<open>The two arms of \<open>select!\<close>; \<open>alive\<close> says whether sending to the client succeeds.\<close>

definition mux_forward :: "bool \<Rightarrow> mux_state \<Rightarrow> mux_state option" where
  "mux_forward alive st =
     (case mx_buffer st of
        [] \<Rightarrow> None
      | msg # rest \<Rightarrow>
          Some (if alive then st\<lparr>mx_buffer := rest, mx_sent := mx_sent st @ [Text msg]\<rparr>
                else st\<lparr>mx_handler := Ended, mx_buffer := rest, mx_tasks := []\<rparr>))"

definition mux_client :: "json_ext \<Rightarrow> bool \<Rightarrow> socket_input \<Rightarrow> mux_state \<Rightarrow> mux_state" where
  "mux_client J alive msg st =
     (case msg of
        ClientText text \<Rightarrow> mux_command J text st
      | ClientPing data \<Rightarrow> if alive then st\<lparr>mx_sent := mx_sent st @ [Pong data]\<rparr> else st
      | ClientClose \<Rightarrow> st\<lparr>mx_handler := Ended, mx_tasks := []\<rparr>
      | _ \<Rightarrow> st)"

section \<open>The tasks\<close>

text \<open>What a portfolio task reads: first the per-user cache, then the service; an error is an empty text.\<close>

definition portfolio_value :: "'s valkey \<Rightarrow> int \<Rightarrow> string \<Rightarrow> (('s, 'd) gw_state, string) vm" where
  "portfolio_value V now_ms user_id g =
     (let cache_key = ''cache:portfolio:'' @ user_id in
      case user_cache_get now_ms cache_key (gs_user_cache g) of
        Some cval \<Rightarrow> (Inr cval, g)
      | None \<Rightarrow> vor (on_gw (on_vk (vbind (vk_conn V) (\<lambda>_. vbind (vk_get V cache_key) (\<lambda>v. vret (option_or v [])))))) [] g)"

text \<open>What a task makes of a value it receives or reads: the task afterwards and the message.\<close>

definition task_value :: "json_ext \<Rightarrow> mux_task \<Rightarrow> string \<Rightarrow> mux_task \<times> string option" where
  "task_value J t val =
     (case t of
        OrdersTask u \<Rightarrow> (t, if is_mine J u val then Some (ws_message (''orders:'' @ u) val) else None)
      | PortfolioTask u last_val \<Rightarrow>
          if val \<noteq> [] \<and> val \<noteq> ''{}'' \<and> val \<noteq> last_val
          then (PortfolioTask u val, Some (ws_message (''portfolio:'' @ u) val)) else (t, None)
      | ChannelTask ch \<Rightarrow> (t, Some (ws_message ch val)))"

text \<open>A task that has a message and finds the channel full waits: it has no step.\<close>

definition mux_task_step :: "json_ext \<Rightarrow> nat \<Rightarrow> string \<Rightarrow> mux_state \<Rightarrow> mux_state option" where
  "mux_task_step J i val st =
     (if i < length (mx_tasks st) then
        (case task_value J (mx_tasks st ! i) val of
           (t, None) \<Rightarrow> Some (st\<lparr>mx_tasks := (mx_tasks st)[i := t]\<rparr>)
         | (t, Some msg) \<Rightarrow> mux_send msg (st\<lparr>mx_tasks := (mx_tasks st)[i := t]\<rparr>))
      else None)"

text \<open>
  The steps of one connection, in any order; \<open>mirror cache\<close> says that the gateway mirrors the values of \<open>cache\<close> at
  some time.
\<close>

inductive mux_step :: "json_ext \<Rightarrow> (cache_broadcasts \<Rightarrow> bool) \<Rightarrow> mux_state \<Rightarrow> mux_state \<Rightarrow> bool" for J mirror where
  forward: "mx_handler st = Selecting \<Longrightarrow> mux_forward alive st = Some st' \<Longrightarrow> mux_step J mirror st st'"
| client: "mx_handler st = Selecting \<Longrightarrow> mux_step J mirror st (mux_client J alive msg st)"
| handle: "mirror cache \<Longrightarrow> mux_handle cache st = Some st' \<Longrightarrow> mux_step J mirror st st'"
| task: "mux_task_step J i val st = Some st' \<Longrightarrow> mux_step J mirror st st'"

section \<open>The channel is bounded\<close>

lemma mux_subscribe_sel [simp]: "mx_buffer (mux_subscribe cache ch rest st) = mx_buffer st" "mx_sent (mux_subscribe cache ch rest st) = mx_sent st"
  by (simp_all add: mux_subscribe_def add_task_def split: option.split)

lemma mux_send_sel: "mux_send msg st = Some st' \<Longrightarrow> length (mx_buffer st) < AGG_CAP \<and> mx_buffer st' = mx_buffer st @ [msg] \<and>
    mx_handler st' = mx_handler st \<and> mx_sent st' = mx_sent st \<and> mx_tasks st' = mx_tasks st"
  by (auto simp: mux_send_def split: if_splits)

lemma mux_task_step_sel:
  "mux_task_step J i val st = Some st' \<Longrightarrow> mx_handler st' = mx_handler st \<and> mx_sent st' = mx_sent st \<and>
     (mx_buffer st' = mx_buffer st \<or> length (mx_buffer st) < AGG_CAP \<and> (\<exists>msg. mx_buffer st' = mx_buffer st @ [msg]))"
  by (auto simp: mux_task_step_def split: if_splits prod.splits option.splits dest!: mux_send_sel)

lemma mux_handle_cases:
  assumes "mux_handle cache st = Some st'"
  obtains (finished) "mx_handler st = Subscribing []" "st' = st\<lparr>mx_handler := Selecting\<rparr>"
  | (channel) ch rest where "mx_handler st = Subscribing (JText ch # rest)" "st' = mux_subscribe cache ch rest st"
  | (other) j rest where "mx_handler st = Subscribing (j # rest)" "\<nexists>ch. j = JText ch" "st' = st\<lparr>mx_handler := Subscribing rest\<rparr>"
  | (sent) msg ch rest where "mx_handler st = Sending msg ch rest" "length (mx_buffer st) < AGG_CAP"
      "st' = st\<lparr>mx_buffer := mx_buffer st @ [msg], mx_tasks := mx_tasks st @ [ChannelTask ch], mx_handler := Subscribing rest\<rparr>"
  using assms by (auto simp: mux_handle_def mux_send_def add_task_def split: mux_handler.splits list.splits json.splits if_splits)

lemma mux_step_bounded: "mux_step J mirror st st' \<Longrightarrow> length (mx_buffer st) \<le> AGG_CAP \<Longrightarrow> length (mx_buffer st') \<le> AGG_CAP"
proof (induction rule: mux_step.induct)
  case (forward st alive st')
  then show ?case by (auto simp: mux_forward_def split: list.splits)
next
  case (client st alive msg)
  then show ?case by (cases msg) (auto simp: mux_client_def mux_command_def split: option.split)
next
  case (handle cache st st')
  from handle(2) show ?case by (cases rule: mux_handle_cases) (use handle(3) in simp_all)
next
  case (task i val st st')
  then show ?case by (auto dest!: mux_task_step_sel)
qed

lemma mux_run_bounded: "(mux_step J mirror)\<^sup>*\<^sup>* mux_start st \<Longrightarrow> length (mx_buffer st) \<le> AGG_CAP"
  by (induction rule: rtranclp_induct) (auto simp: mux_start_def intro: mux_step_bounded)

section \<open>Subscribing to many channels\<close>

definition mirrored :: "cache_broadcasts \<Rightarrow> string \<Rightarrow> bool" where
  "mirrored cache ch \<longleftrightarrow>
     get_latest cache (''cache:'' @ ch) \<noteq> None \<and> \<not> prefix ''orders:'' ch \<and> \<not> prefix ''portfolio:'' ch"

definition first_message :: "cache_broadcasts \<Rightarrow> string \<Rightarrow> string" where
  "first_message cache ch = ws_message ch (the (get_latest cache (''cache:'' @ ch)))"

text \<open>The first values that a command still has to send, and that they do not all fit.\<close>

fun sends_left :: "mux_handler \<Rightarrow> nat" where
  "sends_left (Subscribing chs) = length chs"
| "sends_left (Sending _ _ chs) = Suc (length chs)"
| "sends_left _ = 0"

fun channels_left :: "mux_handler \<Rightarrow> json list" where
  "channels_left (Subscribing chs) = chs"
| "channels_left (Sending _ _ chs) = chs"
| "channels_left _ = []"

definition overfull :: "(cache_broadcasts \<Rightarrow> bool) \<Rightarrow> mux_state \<Rightarrow> bool" where
  "overfull mirror st \<longleftrightarrow> length (mx_buffer st) \<le> AGG_CAP \<and> AGG_CAP < length (mx_buffer st) + sends_left (mx_handler st) \<and>
     (\<forall>j \<in> set (channels_left (mx_handler st)). \<exists>ch. j = JText ch \<and> (\<forall>cache. mirror cache \<longrightarrow> mirrored cache ch))"

lemma mux_subscribe_mirrored:
  "mirrored cache ch \<Longrightarrow> mux_subscribe cache ch rest st = st\<lparr>mx_handler := Sending (first_message cache ch) ch rest\<rparr>"
  by (auto simp: mirrored_def mux_subscribe_def first_message_def)

lemma overfull_step:
  assumes "mux_step J mirror st st'" "overfull mirror st"
  shows "overfull mirror st' \<and> mx_sent st' = mx_sent st"
  using assms
proof (induction rule: mux_step.induct)
  case (handle cache st st')
  from handle(2) show ?case
  proof (cases rule: mux_handle_cases)
    case (channel ch rest)
    then have "mirrored cache ch" using handle(1,3) by (simp add: overfull_def)
    then show ?thesis using handle(3) channel by (simp add: overfull_def mux_subscribe_mirrored)
  qed (use handle(3) in \<open>auto simp: overfull_def\<close>)
next
  case (task i val st st')
  then show ?case by (auto simp: overfull_def dest!: mux_task_step_sel)
qed (auto simp: overfull_def)

lemma overfull_for_ever:
  "(mux_step J mirror)\<^sup>*\<^sup>* st st' \<Longrightarrow> overfull mirror st \<Longrightarrow> overfull mirror st' \<and> mx_sent st' = mx_sent st"
  by (induction rule: rtranclp_induct) (auto dest: overfull_step)

text \<open>When the first values fit and no task sends in between, the command is carried out.\<close>

lemma subscribe_all_run:
  assumes "mirror cache" "\<forall>ch \<in> set chs. mirrored cache ch" "mx_handler st = Subscribing (map JText chs)"
    and "length (mx_buffer st) + length chs \<le> AGG_CAP"
  shows "(mux_step J mirror)\<^sup>*\<^sup>* st (st\<lparr>mx_handler := Selecting, mx_buffer := mx_buffer st @ map (first_message cache) chs,
    mx_tasks := mx_tasks st @ map ChannelTask chs\<rparr>)"
  using assms(2-4)
proof (induction chs arbitrary: st)
  case Nil
  then have "mux_handle cache st = Some (st\<lparr>mx_handler := Selecting\<rparr>)" by (simp add: mux_handle_def)
  from mux_step.handle [where mirror = mirror and J = J, OF assms(1) this] show ?case by simp
next
  case (Cons ch chs)
  let ?st1 = "st\<lparr>mx_handler := Sending (first_message cache ch) ch (map JText chs)\<rparr>"
  let ?st2 = "?st1\<lparr>mx_buffer := mx_buffer st @ [first_message cache ch], mx_tasks := mx_tasks st @ [ChannelTask ch],
    mx_handler := Subscribing (map JText chs)\<rparr>"
  have "mux_handle cache st = Some ?st1" using Cons.prems by (simp add: mux_handle_def mux_subscribe_mirrored)
  note 1 = mux_step.handle [where mirror = mirror and J = J, OF assms(1) this]
  have "mux_handle cache ?st1 = Some ?st2" using Cons.prems(3) by (simp add: mux_handle_def mux_send_def add_task_def)
  note 2 = mux_step.handle [where mirror = mirror and J = J, OF assms(1) this]
  have "(mux_step J mirror)\<^sup>*\<^sup>* ?st2 (?st2\<lparr>mx_handler := Selecting, mx_buffer := mx_buffer ?st2 @ map (first_message cache) chs,
      mx_tasks := mx_tasks ?st2 @ map ChannelTask chs\<rparr>)"
    by (rule Cons.IH) (use Cons.prems in simp_all)
  then have "(mux_step J mirror)\<^sup>*\<^sup>* st (?st2\<lparr>mx_handler := Selecting, mx_buffer := mx_buffer ?st2 @ map (first_message cache) chs,
      mx_tasks := mx_tasks ?st2 @ map ChannelTask chs\<rparr>)"
    using 1 2 converse_rtranclp_into_rtranclp [of "mux_step J mirror"] by blast
  then show ?case by simp
qed

lemma parse_subscription:
  assumes "json_spec J"
  shows "Option.bind (js_parse J (js_str J (jobj [(''subscribe'', JArr (map JText chs))])))
    (\<lambda>cmd. Option.bind (jget cmd ''subscribe'') jarr) = Some (map JText chs)"
proof -
  have "js_parse J (js_str J (jobj [(''subscribe'', JArr (map JText chs))])) = Some (jobj [(''subscribe'', JArr (map JText chs))])"
    by (rule json_spec.parse_str [OF assms]) (auto simp: jobj_def)
  then show ?thesis by (simp add: jobj_def)
qed

text \<open>
  C38: a client can block its connection for good. Take a command that subscribes to channels the gateway mirrors, at any reachable
  state of the connection in which the handler waits for its client. If the first values fit into what is free of the channel
  between the tasks and the client (256 messages), the connection can go on to the state in which all are
  sent in the order of the command and the handler waits for its client again (namely when no task sends in between). If they do not
  fit, the handler, whatever the tasks do, never returns to its client: it waits for room in a channel that only it
  itself empties, and nothing is ever sent to the client again.
\<close>

theorem mux_subscription_can_block:
  assumes "json_spec J" and "\<forall>ch \<in> set chs. \<forall>cache. mirror cache \<longrightarrow> mirrored cache ch"
    and "(mux_step J mirror)\<^sup>*\<^sup>* mux_start st" and "mx_handler st = Selecting"
    and "st1 = mux_client J alive (ClientText (js_str J (jobj [(''subscribe'', JArr (map JText chs))]))) st"
  shows "mux_step J mirror st st1 \<and>
    (if length (mx_buffer st) + length chs \<le> AGG_CAP
     then \<forall>cache. mirror cache \<longrightarrow> (mux_step J mirror)\<^sup>*\<^sup>* st1 (st\<lparr>mx_buffer := mx_buffer st @ map (first_message cache) chs,
            mx_tasks := mx_tasks st @ map ChannelTask chs\<rparr>)
     else \<forall>st2. (mux_step J mirror)\<^sup>*\<^sup>* st1 st2 \<longrightarrow> mx_handler st2 \<noteq> Selecting \<and> mx_handler st2 \<noteq> Ended \<and> mx_sent st2 = mx_sent st)"
proof -
  have st1: "st1 = st\<lparr>mx_handler := Subscribing (map JText chs)\<rparr>"
    by (simp add: assms(5) mux_client_def mux_command_def parse_subscription [OF assms(1)])
  have step: "mux_step J mirror st st1" unfolding assms(5) using assms(4) by (rule mux_step.client)
  have same: "st1\<lparr>mx_handler := Selecting, mx_buffer := b, mx_tasks := ts\<rparr> = st\<lparr>mx_buffer := b, mx_tasks := ts\<rparr>" for b ts
    using assms(4) by (simp add: st1)
  show ?thesis
  proof (cases "length (mx_buffer st) + length chs \<le> AGG_CAP")
    case True
    have "(mux_step J mirror)\<^sup>*\<^sup>* st1 (st\<lparr>mx_buffer := mx_buffer st @ map (first_message cache) chs, mx_tasks := mx_tasks st @ map ChannelTask chs\<rparr>)"
      if "mirror cache" for cache
      using subscribe_all_run [where mirror = mirror, OF that, of chs st1 J] assms(2) that True unfolding same by (simp add: st1)
    then show ?thesis using step True by simp
  next
    case False
    then have "overfull mirror st1" using mux_run_bounded [OF assms(3)] assms(2) by (auto simp: overfull_def st1)
    have "mx_handler st2 \<noteq> Selecting \<and> mx_handler st2 \<noteq> Ended \<and> mx_sent st2 = mx_sent st" if "(mux_step J mirror)\<^sup>*\<^sup>* st1 st2" for st2
    proof -
      have o: "overfull mirror st2" "mx_sent st2 = mx_sent st1" using overfull_for_ever [OF that \<open>overfull mirror st1\<close>] by simp_all
      then have "sends_left (mx_handler st2) \<noteq> 0" by (auto simp: overfull_def)
      then show ?thesis using o(2) by (auto simp: st1)
    qed
    then show ?thesis using step False by simp
  qed
qed

theorem mux_subscription_can_block_witness:
  "\<exists>st1. mux_step ref_json (\<lambda>cache. cache = cache_update 0 ''cache:pairs'' ''x'' (new_cache 0)) mux_start st1 \<and>
    (\<forall>st2. (mux_step ref_json (\<lambda>cache. cache = cache_update 0 ''cache:pairs'' ''x'' (new_cache 0)))\<^sup>*\<^sup>* st1 st2 \<longrightarrow>
      mx_handler st2 \<noteq> Selecting \<and> mx_sent st2 = [])"
proof -
  let ?cache = "cache_update 0 ''cache:pairs'' ''x'' (new_cache 0)" and ?chs = "replicate 257 ''pairs''"
  have "mirrored ?cache ''pairs''"
    by (simp add: mirrored_def cache_update_def get_latest_def new_cache_def poll_specs_def)
  then have m: "\<forall>ch \<in> set ?chs. \<forall>cache. cache = ?cache \<longrightarrow> mirrored cache ch" by simp
  from mux_subscription_can_block [OF ref_json.json_spec_axioms m rtranclp.rtrancl_refl _ refl, of True] show ?thesis
    by (auto simp: mux_start_def AGG_CAP_def)
qed

end
