(* ===== verification/Streams.thy ===== *)
theory Streams
  imports Lua_Match
begin

text \<open>
  \<open>crates/shared/src/streams.rs\<close>: work queues on Valkey streams. The commands
  \<open>XGROUP CREATE\<close>, \<open>XADD\<close>, \<open>XREADGROUP\<close> and \<open>XACK\<close> are the parameter \<open>S\<close>; what they
  are documented to do is written on \<open>sdata\<close>, with the locale \<open>stream_spec\<close> as the
  interface and \<open>ref_streams\<close> as an instance. The encoding of values (MessagePack)
  is the parameter \<open>M\<close>.
\<close>

section \<open>The service\<close>

text \<open>Entries with their fields, the number of entries each group has been given, the entries not yet acknowledged.\<close>

record sdata =
  sd_entries :: "string \<Rightarrow> (string \<times> (string \<times> string) list) list"
  sd_groups :: "string \<times> string \<Rightarrow> nat option"
  sd_pending :: "string \<times> string \<Rightarrow> string list"
  sd_next :: nat
  sd_pool :: "bool list"

definition empty_sdata :: sdata where
  "empty_sdata = \<lparr>sd_entries = (\<lambda>_. []), sd_groups = (\<lambda>_. None), sd_pending = (\<lambda>_. []), sd_next = 1, sd_pool = []\<rparr>"

fun s_conn :: "(sdata, unit) vm" where
  "s_conn d =
     (case sd_pool d of [] \<Rightarrow> (Inr (), d)
      | b # bs \<Rightarrow> (if b then Inr () else Inl PoolError, d\<lparr>sd_pool := bs\<rparr>))"

text \<open>\<open>XGROUP CREATE stream group $ MKSTREAM\<close>: the group starts behind the last entry.\<close>

definition s_xgroup_create :: "string \<Rightarrow> string \<Rightarrow> (sdata, unit) vm" where
  "s_xgroup_create stream grp d =
     (case sd_groups d (stream, grp) of
        Some _ \<Rightarrow> (Inl (CommandError ''BUSYGROUP Consumer Group name already exists''), d)
      | None \<Rightarrow> (Inr (), d\<lparr>sd_groups := (sd_groups d)((stream, grp) \<mapsto> length (sd_entries d stream))\<rparr>))"

definition s_xadd :: "string \<Rightarrow> (string \<times> string) list \<Rightarrow> (sdata, string) vm" where
  "s_xadd stream fvs d =
     (let i = string_of_nat (sd_next d) @ ''-0'' in
      (Inr i, d\<lparr>sd_entries := (sd_entries d)(stream := sd_entries d stream @ [(i, fvs)]), sd_next := sd_next d + 1\<rparr>))"

definition entry_reply :: "string \<times> (string \<times> string) list \<Rightarrow> redis_value" where
  "entry_reply e =
     ArrayVal [BulkString (fst e), ArrayVal (concat (map (\<lambda>(f, v). [BulkString f, BulkString v]) (snd e)))]"

text \<open>\<open>XREADGROUP ... COUNT count STREAMS stream >\<close>: the next entries; a count of 0 is no limit.\<close>

definition s_xreadgroup :: "string \<Rightarrow> string \<Rightarrow> string \<Rightarrow> nat \<Rightarrow> (sdata, redis_value) vm" where
  "s_xreadgroup stream grp consumer count d =
     (case sd_groups d (stream, grp) of
        None \<Rightarrow> (Inl (CommandError ''NOGROUP No such key or consumer group''), d)
      | Some n \<Rightarrow>
          let rest = drop n (sd_entries d stream); new = (if count = 0 then rest else take count rest) in
          if new = [] then (Inr NilVal, d)
          else (Inr (ArrayVal [ArrayVal [BulkString stream, ArrayVal (map entry_reply new)]]),
                d\<lparr>sd_groups := (sd_groups d)((stream, grp) \<mapsto> n + length new),
                  sd_pending := (sd_pending d)((stream, grp) := sd_pending d (stream, grp) @ map fst new)\<rparr>))"

definition s_xack :: "string \<Rightarrow> string \<Rightarrow> string \<Rightarrow> (sdata, int) vm" where
  "s_xack stream grp i d =
     (let p = sd_pending d (stream, grp) in
      (Inr (if i \<in> set p then 1 else 0), d\<lparr>sd_pending := (sd_pending d)((stream, grp) := filter (\<lambda>x. x \<noteq> i) p)\<rparr>))"

record 's streams =
  sm_conn :: "('s, unit) vm"
  sm_xgroup_create :: "string \<Rightarrow> string \<Rightarrow> ('s, unit) vm"
  sm_xadd :: "string \<Rightarrow> (string \<times> string) list \<Rightarrow> ('s, string) vm"
  sm_xreadgroup :: "string \<Rightarrow> string \<Rightarrow> string \<Rightarrow> nat \<Rightarrow> ('s, redis_value) vm"
  sm_xack :: "string \<Rightarrow> string \<Rightarrow> string \<Rightarrow> ('s, int) vm"

definition ref_streams :: "sdata streams" where
  "ref_streams = \<lparr>sm_conn = s_conn, sm_xgroup_create = s_xgroup_create, sm_xadd = s_xadd,
     sm_xreadgroup = s_xreadgroup, sm_xack = s_xack\<rparr>"

lemma ref_streams_ops [simp]:
  "sm_conn ref_streams = s_conn" "sm_xgroup_create ref_streams = s_xgroup_create" "sm_xadd ref_streams = s_xadd"
  "sm_xreadgroup ref_streams = s_xreadgroup" "sm_xack ref_streams = s_xack"
  by (simp_all add: ref_streams_def)

locale stream_spec =
  fixes S :: "'s streams" and \<alpha> :: "'s \<Rightarrow> sdata"
  assumes sim_s_conn [sim_rules]: "simulates \<alpha> (sm_conn S) s_conn"
    and sim_xgroup_create [sim_rules]: "simulates \<alpha> (sm_xgroup_create S st g) (s_xgroup_create st g)"
    and sim_xadd [sim_rules]: "simulates \<alpha> (sm_xadd S st fs) (s_xadd st fs)"
    and sim_xreadgroup [sim_rules]: "simulates \<alpha> (sm_xreadgroup S st g c n) (s_xreadgroup st g c n)"
    and sim_xack [sim_rules]: "simulates \<alpha> (sm_xack S st g i) (s_xack st g i)"

interpretation ref_stream: stream_spec ref_streams id
  by unfold_locales (simp_all add: sim_rules)

section \<open>Replies\<close>

record stream_message =
  sg_id :: string
  sg_data :: string

fun extract_string :: "redis_value \<Rightarrow> string result" where
  "extract_string (BulkString b) = Inr b"
| "extract_string (SimpleString s) = Inr s"
| "extract_string _ = Inl (ParseError ''expected string'')"

text \<open>The loop of \<open>extract_field_data\<close> over pairs; an unreadable name counts as empty.\<close>

fun find_field :: "redis_value list \<Rightarrow> string result" where
  "find_field (f # v # pairs) =
     (if (case extract_string f of Inr s \<Rightarrow> s | Inl _ \<Rightarrow> []) = ''d''
      then (case v of BulkString b \<Rightarrow> Inr b | _ \<Rightarrow> Inl (ParseError ''expected bulk string for field d''))
      else find_field pairs)"
| "find_field _ = Inl (ParseError ''field d not found in stream message'')"

definition extract_field_data :: "redis_value \<Rightarrow> string result" where
  "extract_field_data v =
     (case v of ArrayVal pairs \<Rightarrow> find_field pairs | _ \<Rightarrow> Inl (ParseError ''expected array of field-value pairs''))"

text \<open>What is no array of two parts is skipped; an error in a message ends the whole.\<close>

fun parse_messages :: "redis_value list \<Rightarrow> stream_message list result" where
  "parse_messages [] = Inr []"
| "parse_messages (ArrayVal (i # fs # _) # msgs) =
     result_bind (extract_string i) (\<lambda>mid.
     result_bind (extract_field_data fs) (\<lambda>data.
     result_bind (parse_messages msgs) (\<lambda>out. Inr (\<lparr>sg_id = mid, sg_data = data\<rparr> # out))))"
| "parse_messages (_ # msgs) = parse_messages msgs"

fun parse_streams :: "redis_value list \<Rightarrow> stream_message list result" where
  "parse_streams [] = Inr []"
| "parse_streams (ArrayVal (_ # ArrayVal msgs # _) # entries) =
     result_bind (parse_messages msgs) (\<lambda>out. result_bind (parse_streams entries) (\<lambda>out'. Inr (out @ out')))"
| "parse_streams (_ # entries) = parse_streams entries"

definition parse_stream_reply :: "redis_value \<Rightarrow> stream_message list result" where
  "parse_stream_reply reply =
     (case reply of NilVal \<Rightarrow> Inr [] | ArrayVal entries \<Rightarrow> parse_streams entries
      | _ \<Rightarrow> Inl (ParseError ''unexpected XREADGROUP reply type''))"

section \<open>Operations\<close>

definition is_busygroup :: "error \<Rightarrow> bool" where
  "is_busygroup e = (case e of CommandError m \<Rightarrow> sublist ''BUSYGROUP'' m | _ \<Rightarrow> False)"

definition create_consumer_group :: "'s streams \<Rightarrow> string \<Rightarrow> string \<Rightarrow> ('s, unit) vm" where
  "create_consumer_group S stream grp =
     vbind (sm_conn S) (\<lambda>_.
     vbind (vtry (sm_xgroup_create S stream grp)) (\<lambda>r.
     case r of Inr _ \<Rightarrow> vret () | Inl e \<Rightarrow> if is_busygroup e then vret () else vfail e))"

definition publish_bytes :: "'s streams \<Rightarrow> string \<Rightarrow> string \<Rightarrow> ('s, string) vm" where
  "publish_bytes S stream data = vbind (sm_conn S) (\<lambda>_. sm_xadd S stream [(''d'', data)])"

record 'v msgpack =
  mp_encode :: "'v \<Rightarrow> string result"
  mp_decode :: "string \<Rightarrow> 'v result"

definition publish :: "'s streams \<Rightarrow> 'v msgpack \<Rightarrow> string \<Rightarrow> 'v \<Rightarrow> ('s, string) vm" where
  "publish S M stream val = vbind (vlift (mp_encode M val)) (publish_bytes S stream)"

definition consume :: "'s streams \<Rightarrow> string \<Rightarrow> string \<Rightarrow> string \<Rightarrow> nat \<Rightarrow> ('s, stream_message list) vm" where
  "consume S stream grp consumer count =
     vbind (sm_conn S) (\<lambda>_.
     vbind (sm_xreadgroup S stream grp consumer count) (\<lambda>reply. vlift (parse_stream_reply reply)))"

definition deserialize :: "'v msgpack \<Rightarrow> stream_message \<Rightarrow> 'v result" where
  "deserialize M msg = mp_decode M (sg_data msg)"

definition ack :: "'s streams \<Rightarrow> string \<Rightarrow> string \<Rightarrow> string \<Rightarrow> ('s, unit) vm" where
  "ack S stream grp i = vbind (sm_conn S) (\<lambda>_. vbind (sm_xack S stream grp i) (\<lambda>_. vret ()))"

section \<open>Reading what was published\<close>

lemma parse_published:
  "parse_messages (map entry_reply (map (\<lambda>(i, data). (i, [(''d'', data)])) es)) =
     Inr (map (\<lambda>(i, data). \<lparr>sg_id = i, sg_data = data\<rparr>) es)"
  by (induction es) (auto simp: entry_reply_def extract_field_data_def)

lemma parse_reply_published:
  "parse_stream_reply (ArrayVal [ArrayVal [BulkString stream, ArrayVal (map entry_reply (map (\<lambda>(i, data). (i, [(''d'', data)])) es))]]) =
     Inr (map (\<lambda>(i, data). \<lparr>sg_id = i, sg_data = data\<rparr>) es)"
  by (simp add: parse_stream_reply_def parse_published del: map_map)

context stream_spec
begin

lemma sim_publish_bytes [sim_rules]: "simulates \<alpha> (publish_bytes S st d) (publish_bytes ref_streams st d)"
  unfolding publish_bytes_def ref_streams_ops by (intro sim_rules)

lemma sim_consume [sim_rules]: "simulates \<alpha> (consume S st g c n) (consume ref_streams st g c n)"
  unfolding consume_def ref_streams_ops by (intro sim_rules)

lemma sim_create_group [sim_rules]: "simulates \<alpha> (create_consumer_group S st g) (create_consumer_group ref_streams st g)"
  unfolding create_consumer_group_def ref_streams_ops by (intro sim_rules)

lemma sim_ack [sim_rules]: "simulates \<alpha> (ack S st g i) (ack ref_streams st g i)"
  unfolding ack_def ref_streams_ops by (intro sim_rules)

end

text \<open>The effect of publishing a list of values: the entries it adds.\<close>

lemma publish_all_run:
  "sd_pool d = [] \<Longrightarrow>
     \<exists>ids d'. vmapM (publish_bytes ref_streams stream) datas d = (Inr ids, d') \<and> length ids = length datas \<and> sd_pool d' = [] \<and>
       sd_entries d' stream = sd_entries d stream @ map (\<lambda>(i, data). (i, [(''d'', data)])) (zip ids datas) \<and>
       sd_groups d' = sd_groups d \<and> sd_pending d' = sd_pending d"
proof (induction datas arbitrary: d)
  case (Cons data datas)
  let ?i = "string_of_nat (sd_next d) @ ''-0''"
  let ?d = "d\<lparr>sd_entries := (sd_entries d)(stream := sd_entries d stream @ [(?i, [(''d'', data)])]), sd_next := sd_next d + 1\<rparr>"
  have p: "publish_bytes ref_streams stream data d = (Inr ?i, ?d)"
    using Cons.prems by (simp add: publish_bytes_def vbind_def s_xadd_def Let_def)
  from Cons.IH [of ?d] Cons.prems obtain ids d' where
    d': "vmapM (publish_bytes ref_streams stream) datas ?d = (Inr ids, d')" "length ids = length datas" "sd_pool d' = []"
      "sd_entries d' stream = sd_entries ?d stream @ map (\<lambda>(i, data). (i, [(''d'', data)])) (zip ids datas)"
      "sd_groups d' = sd_groups d" "sd_pending d' = sd_pending d" by auto
  have "vmapM (publish_bytes ref_streams stream) (data # datas) d = (Inr (?i # ids), d')"
    by (simp only: vmapM.simps vbind_def p d'(1) vret_def prod.case sum.case)
  with d' show ?case by (intro exI [of _ "?i # ids"] exI [of _ d']) simp
qed (simp add: vret_def)

lemma consume_new_run:
  assumes "sd_pool d = []" "sd_groups d (stream, grp) = Some n"
    and "drop n (sd_entries d stream) = map (\<lambda>(i, data). (i, [(''d'', data)])) es" "length es \<le> count"
  shows "\<exists>d'. consume ref_streams stream grp c count d = (Inr (map (\<lambda>(i, data). \<lparr>sg_id = i, sg_data = data\<rparr>) es), d') \<and>
    sd_pool d' = [] \<and> sd_groups d' (stream, grp) = Some (n + length es) \<and> sd_entries d' = sd_entries d \<and>
    sd_pending d' (stream, grp) = sd_pending d (stream, grp) @ map fst es"
proof -
  let ?f = "\<lambda>(i, data). (i, [(''d'', data)])"
  have l: "take count (map ?f es) = map ?f es" "map fst (map ?f es) = map fst es" using assms(4) by auto
  show ?thesis
  proof (cases "es = []")
    case True
    with assms show ?thesis
      by (simp add: consume_def vbind_def s_xreadgroup_def vlift_def parse_stream_reply_def)
  next
    case False
    with assms(4) have "count \<noteq> 0" by (cases es) auto
    with False assms l show ?thesis
      by (simp add: consume_def vbind_def s_xreadgroup_def vlift_def parse_reply_published Let_def del: map_map)
  qed
qed

lemma create_group_run:
  assumes "sd_pool d = []"
  shows "\<exists>d' n. create_consumer_group ref_streams stream grp d = (Inr (), d') \<and> sd_pool d' = [] \<and>
    sd_entries d' = sd_entries d \<and> sd_pending d' = sd_pending d \<and> sd_groups d' (stream, grp) = Some n \<and>
    n = option_or (sd_groups d (stream, grp)) (length (sd_entries d stream))"
proof -
  have "is_busygroup (CommandError ''BUSYGROUP Consumer Group name already exists'')"
    by (simp add: is_busygroup_def sublist_code)
  with assms show ?thesis
    by (cases "sd_groups d (stream, grp)")
      (simp_all add: create_consumer_group_def vbind_def vtry_def s_xgroup_create_def vret_def)
qed

lemma ack_all_run:
  "sd_pool d = [] \<Longrightarrow> \<exists>d'. vforM (ack ref_streams stream grp) is d = (Inr (), d') \<and>
     sd_pending d' (stream, grp) = filter (\<lambda>i. i \<notin> set is) (sd_pending d (stream, grp))"
proof (induction "is" arbitrary: d)
  case (Cons i "is")
  let ?d = "d\<lparr>sd_pending := (sd_pending d)((stream, grp) := filter (\<lambda>x. x \<noteq> i) (sd_pending d (stream, grp)))\<rparr>"
  have "ack ref_streams stream grp i d = (Inr (), ?d)"
    using Cons.prems by (simp add: ack_def vbind_def s_xack_def Let_def vret_def)
  moreover from Cons.IH [of ?d] Cons.prems obtain d' where
    "vforM (ack ref_streams stream grp) is ?d = (Inr (), d')"
    "sd_pending d' (stream, grp) = filter (\<lambda>i. i \<notin> set is) (sd_pending ?d (stream, grp))" by auto
  ultimately show ?case by (intro exI [of _ d']) (simp add: vbind_def conj_commute)
qed (simp add: vret_def)



end
