(* ===== verification/Websockets.thy ===== *)
theory Websockets
  imports Gateway_Worker
begin

text \<open>
  \<open>crates/ws-handler/src/main.rs\<close>: the connections of the websocket API. The
  subscriptions are kept twice, as the set of connections of a channel and as the
  set of channels of a connection; the abstract view is a relation between the two.
  Texts are ASCII, where \<open>char::is_alphanumeric\<close> is letters and digits.
\<close>

section \<open>Model\<close>

record ws_event =
  we_route :: string
  we_conn :: string
  we_body :: "string option"

type_synonym ws_response = "nat \<times> string option"

definition connections_key :: string where "connections_key = ''ws:connections''"

definition subs_key :: "string \<Rightarrow> string" where
  "subs_key ch = ''ws:subs:'' @ ch"

definition conn_key :: "string \<Rightarrow> string" where
  "conn_key c = ''ws:conn:'' @ c"

definition is_alnum :: "char \<Rightarrow> bool" where
  "is_alnum c \<longleftrightarrow> (let n = of_char c :: nat in n \<in> {48..57} \<or> n \<in> {65..90} \<or> n \<in> {97..122})"

definition is_valid_channel :: "string \<Rightarrow> bool" where
  "is_valid_channel ch \<longleftrightarrow>
     length ch \<le> 64 \<and> list_all (\<lambda>c. is_alnum c \<or> c = CHR '':'' \<or> c = CHR ''-'' \<or> c = CHR ''_'') ch"

definition handle_connect :: "'s valkey \<Rightarrow> string \<Rightarrow> (('s, 'd) world, ws_response) vm" where
  "handle_connect V c =
     on_vk (vbind (vk_conn V) (\<lambda>_.
            vbind (vk_sadd V connections_key c) (\<lambda>_.
            vbind (vk_expire V connections_key 86400) (\<lambda>_. vret (200, None)))))"

definition handle_disconnect :: "'s valkey \<Rightarrow> string \<Rightarrow> (('s, 'd) world, ws_response) vm" where
  "handle_disconnect V c =
     on_vk (vbind (vk_conn V) (\<lambda>_.
            vbind (vk_srem V connections_key c) (\<lambda>_.
            vbind (vor (vk_smembers V (conn_key c)) []) (\<lambda>channels.
            vbind (vforM (\<lambda>ch. vk_srem V (subs_key ch) c) channels) (\<lambda>_.
            vbind (vk_del V (conn_key c)) (\<lambda>_. vret (200, None)))))))"

definition add_subscription :: "'s valkey \<Rightarrow> string \<Rightarrow> string \<Rightarrow> ('s, string option) vm" where
  "add_subscription V c ch =
     vbind (vk_sadd V (subs_key ch) c) (\<lambda>_.
     vbind (vk_sadd V (conn_key c) ch) (\<lambda>_.
     vbind (vk_expire V (conn_key c) 3600) (\<lambda>_.
     vbind (vk_expire V (subs_key ch) 3600) (\<lambda>_.
     vor (vk_get V (''cache:'' @ ch)) None))))"

definition send_snapshot ::
  "(string \<Rightarrow> string \<Rightarrow> post_result) \<Rightarrow> string \<Rightarrow> string \<Rightarrow> string option \<Rightarrow> (('s, 'd) world, unit) vm" where
  "send_snapshot post c ch val w =
     (Inr (), case val of
        None \<Rightarrow> w
      | Some v \<Rightarrow> if v \<noteq> [] \<and> post c (ws_message ch v) = PostOk
                  then w\<lparr>w_sent := w_sent w @ [(c, ws_message ch v)]\<rparr> else w)"

text \<open>A channel that is not a text, or not a valid name, is skipped.\<close>

definition subscribe_one ::
  "'s valkey \<Rightarrow> (string \<Rightarrow> string \<Rightarrow> post_result) \<Rightarrow> string \<Rightarrow> json \<Rightarrow> (('s, 'd) world, unit) vm" where
  "subscribe_one V post c j =
     (case jstr j of None \<Rightarrow> vret ()
      | Some ch \<Rightarrow>
          if \<not> is_valid_channel ch then vret ()
          else vbind (on_vk (add_subscription V c ch)) (send_snapshot post c ch))"

definition handle_subscribe ::
  "'s valkey \<Rightarrow> (string \<Rightarrow> string \<Rightarrow> post_result) \<Rightarrow> string \<Rightarrow> json list \<Rightarrow> (('s, 'd) world, unit) vm" where
  "handle_subscribe V post c channels =
     vbind (on_vk (vk_conn V)) (\<lambda>_. vforM (subscribe_one V post c) channels)"

definition unsubscribe_one :: "'s valkey \<Rightarrow> string \<Rightarrow> json \<Rightarrow> ('s, unit) vm" where
  "unsubscribe_one V c j =
     (case jstr j of None \<Rightarrow> vret ()
      | Some ch \<Rightarrow> vbind (vk_srem V (subs_key ch) c) (\<lambda>_. vk_srem V (conn_key c) ch))"

definition handle_unsubscribe :: "'s valkey \<Rightarrow> string \<Rightarrow> json list \<Rightarrow> (('s, 'd) world, unit) vm" where
  "handle_unsubscribe V c channels =
     on_vk (vbind (vk_conn V) (\<lambda>_. vforM (unsubscribe_one V c) channels))"

definition channel_list :: "json \<Rightarrow> string \<Rightarrow> json list option" where
  "channel_list cmd k = Option.bind (jget cmd k) jarr"

definition handle_default ::
  "'s valkey \<Rightarrow> json_ext \<Rightarrow> (string \<Rightarrow> string \<Rightarrow> post_result) \<Rightarrow> ws_event \<Rightarrow> (('s, 'd) world, ws_response) vm" where
  "handle_default V J post ev =
     (if option_or (we_body ev) [] = [] then vret (200, None)
      else
        (case js_parse J (option_or (we_body ev) []) of
           None \<Rightarrow> vret (400, Some ''invalid JSON'')
         | Some cmd \<Rightarrow>
             vbind (case channel_list cmd ''subscribe'' of None \<Rightarrow> vret ()
                    | Some chs \<Rightarrow> handle_subscribe V post (we_conn ev) chs) (\<lambda>_.
             vbind (case channel_list cmd ''unsubscribe'' of None \<Rightarrow> vret ()
                    | Some chs \<Rightarrow> handle_unsubscribe V (we_conn ev) chs) (\<lambda>_.
             vret (200, None)))))"

definition handle_ws_event ::
  "'s valkey \<Rightarrow> json_ext \<Rightarrow> (string \<Rightarrow> string \<Rightarrow> post_result) \<Rightarrow> ws_event \<Rightarrow> (('s, 'd) world, ws_response) vm" where
  "handle_ws_event V J post ev =
     (if we_route ev = ''$connect'' then handle_connect V (we_conn ev)
      else if we_route ev = ''$disconnect'' then handle_disconnect V (we_conn ev)
      else handle_default V J post ev)"

section \<open>Abstract subscriptions\<close>

definition subscribed :: "vdata \<Rightarrow> (string \<times> string) set" where
  "subscribed d = {(c, ch). c \<in> set (set_at d (subs_key ch))}"

text \<open>The two sets of keys agree.\<close>

definition subs_ok :: "vdata \<Rightarrow> bool" where
  "subs_ok d \<longleftrightarrow> well_keyed d \<and> (\<forall>c ch. ch \<in> set (set_at d (conn_key c)) \<longleftrightarrow> (c, ch) \<in> subscribed d)"

definition texts :: "json list option \<Rightarrow> string set" where
  "texts chs = {s. JText s \<in> set (option_or chs [])}"

definition subs_spec :: "json_ext \<Rightarrow> ws_event \<Rightarrow> (string \<times> string) set \<Rightarrow> (string \<times> string) set" where
  "subs_spec J ev R =
     (if we_route ev = ''$connect'' then R
      else if we_route ev = ''$disconnect'' then {(c, ch) \<in> R. c \<noteq> we_conn ev}
      else (case js_parse J (option_or (we_body ev) []) of
              None \<Rightarrow> R
            | Some cmd \<Rightarrow>
                if option_or (we_body ev) [] = [] then R
                else (R \<union> {we_conn ev} \<times> {ch \<in> texts (channel_list cmd ''subscribe''). is_valid_channel ch}) -
                     {we_conn ev} \<times> texts (channel_list cmd ''unsubscribe'')))"

section \<open>Commands\<close>

lemma ws_keys [key_simps]:
  "key_kind (subs_key ch) = Some KSet" "key_kind (conn_key c) = Some KSet" "key_kind connections_key = Some KSet"
  "key_kind (''cache:'' @ ch) = Some KStr"
  "subs_key ch = subs_key ch' \<longleftrightarrow> ch = ch'" "conn_key c = conn_key c' \<longleftrightarrow> c = c'"
  "subs_key ch \<noteq> conn_key c" "conn_key c \<noteq> subs_key ch" "connections_key \<noteq> subs_key ch"
  "subs_key ch \<noteq> connections_key" "connections_key \<noteq> conn_key c" "conn_key c \<noteq> connections_key"
  by (simp_all add: key_kind_def subs_key_def conn_key_def connections_key_def)

lemma set_ops [run_simps]:
  assumes "well_keyed d" "key_kind k = Some KSet"
  shows "d_sadd k m d = (Inr (), put_key k (Some (VSet (if m \<in> set (set_at d k) then set_at d k else set_at d k @ [m]))) d)"
    "d_srem k m d = (Inr (), put_key k (set_value (filter (\<lambda>x. x \<noteq> m) (set_at d k))) d)"
    "d_smembers k d = (Inr (set_at d k), d)"
  using assms by (simp_all add: d_sadd_def d_srem_def d_smembers_def edit_key_def read_key_def well_keyed_view)

lemma ttl_irrelevant [simp]:
  "set_at (d\<lparr>vd_ttl := t\<rparr>) = set_at d" "well_keyed (d\<lparr>vd_ttl := t\<rparr>) = well_keyed d"
  by (simp_all add: fun_eq_iff at_defs well_keyed_def)

lemma expire_op: "\<exists>t. d_expire k n d = (Inr (), d\<lparr>vd_ttl := t\<rparr>)"
  by (cases "vd_keys d k") (auto simp: d_expire_def intro: exI [of _ "vd_ttl d"])

lemma subs_okI:
  assumes "well_keyed d" "\<And>c ch. ch \<in> set (set_at d (conn_key c)) \<longleftrightarrow> (c, ch) \<in> R" "subscribed d = R"
  shows "subs_ok d"
  using assms by (simp add: subs_ok_def)

lemma subs_okD: "subs_ok d \<Longrightarrow> well_keyed d"
  "subs_ok d \<Longrightarrow> c \<in> set (set_at d (subs_key ch)) \<longleftrightarrow> ch \<in> set (set_at d (conn_key c))"
  by (simp_all add: subs_ok_def subscribed_def)

lemma subs_ok_ttl [simp]: "subs_ok (d\<lparr>vd_ttl := t\<rparr>) = subs_ok d" "subscribed (d\<lparr>vd_ttl := t\<rparr>) = subscribed d"
  by (simp_all add: subs_ok_def subscribed_def)

lemma set_at_put:
  "set_at (put_key k (Some (VSet z)) d) k' = (if k' = k then z else set_at d k')"
  "set_at (put_key k (set_value z) d) k' = (if k' = k then z else set_at d k')"
  "set_at (put_key k None d) k' = (if k' = k then [] else set_at d k')"
  by (simp_all add: at_defs set_value_def)

lemma run_add_subscription:
  assumes "subs_ok d" "vd_pool d = []"
  shows "\<exists>v d'. add_subscription ref_valkey c ch d = (Inr v, d') \<and> subs_ok d' \<and> vd_pool d' = [] \<and>
    subscribed d' = insert (c, ch) (subscribed d)"
proof -
  let ?add = "\<lambda>m z. if m \<in> set z then z else z @ [m]"
  let ?d1 = "put_key (subs_key ch) (Some (VSet (?add c (set_at d (subs_key ch))))) d"
  let ?d2 = "put_key (conn_key c) (Some (VSet (?add ch (set_at d (conn_key c))))) ?d1"
  have wk: "well_keyed d" "well_keyed ?d1" "well_keyed ?d2"
    using assms(1) by (simp_all add: subs_okD key_simps)
  obtain t where t: "d_expire (conn_key c) 3600 ?d2 = (Inr (), ?d2\<lparr>vd_ttl := t\<rparr>)" using expire_op by blast
  obtain t' where t': "d_expire (subs_key ch) 3600 (?d2\<lparr>vd_ttl := t\<rparr>) = (Inr (), ?d2\<lparr>vd_ttl := t\<rparr>\<lparr>vd_ttl := t'\<rparr>)"
    using expire_op by blast
  let ?d3 = "?d2\<lparr>vd_ttl := t\<rparr>\<lparr>vd_ttl := t'\<rparr>"
  have s1: "d_sadd (subs_key ch) c d = (Inr (), ?d1)" by (rule set_ops(1) [OF wk(1) ws_keys(1)])
  have s2: "d_sadd (conn_key c) ch ?d1 = (Inr (), ?d2)"
    using set_ops(1) [OF wk(2) ws_keys(2), of c ch] by (simp add: set_at_put key_simps)
  have g: "vor (d_get (''cache:'' @ ch)) None ?d3 = (Inr (str_at ?d3 (''cache:'' @ ch)), ?d3)"
    using str_ops(1) [OF _ ws_keys(4), of ?d3 ch] wk(3) by (simp add: vor_def)
  have R: "subscribed ?d2 = insert (c, ch) (subscribed d)"
    by (auto simp: subscribed_def set_at_put key_simps)
  have "subs_ok ?d2"
    by (rule subs_okI [OF wk(3) _ R]) (auto simp: set_at_put key_simps subscribed_def subs_okD(2) [OF assms(1), symmetric])
  then show ?thesis
    using s1 s2 t t' g R assms(2) by (simp add: add_subscription_def vbind_def ref_valkey_ops)
qed

lemma run_remove_subscription:
  assumes "subs_ok d" "vd_pool d = []"
  shows "\<exists>d'. vbind (d_srem (subs_key ch) c) (\<lambda>_. d_srem (conn_key c) ch) d = (Inr (), d') \<and> subs_ok d' \<and>
    vd_pool d' = [] \<and> subscribed d' = subscribed d - {(c, ch)}"
proof -
  let ?d1 = "put_key (subs_key ch) (set_value (filter (\<lambda>x. x \<noteq> c) (set_at d (subs_key ch)))) d"
  let ?d2 = "put_key (conn_key c) (set_value (filter (\<lambda>x. x \<noteq> ch) (set_at d (conn_key c)))) ?d1"
  have wk: "well_keyed d" "well_keyed ?d1" "well_keyed ?d2"
    using assms(1) by (simp_all add: subs_okD key_simps)
  have s1: "d_srem (subs_key ch) c d = (Inr (), ?d1)" by (rule set_ops(2) [OF wk(1) ws_keys(1)])
  have s2: "d_srem (conn_key c) ch ?d1 = (Inr (), ?d2)"
    using set_ops(2) [OF wk(2) ws_keys(2), of c ch] by (simp add: set_at_put key_simps)
  have R: "subscribed ?d2 = subscribed d - {(c, ch)}" by (auto simp: subscribed_def set_at_put key_simps)
  have "subs_ok ?d2"
    by (rule subs_okI [OF wk(3) _ R]) (auto simp: set_at_put key_simps subscribed_def subs_okD(2) [OF assms(1), symmetric])
  then show ?thesis using s1 s2 R assms(2) by (simp add: vbind_def)
qed

text \<open>The loop of a disconnection over the channels of the connection.\<close>

lemma run_leave_channels:
  assumes "well_keyed d" "vd_pool d = []"
  shows "\<exists>d'. vforM (\<lambda>ch. d_srem (subs_key ch) c) chs d = (Inr (), d') \<and> well_keyed d' \<and> vd_pool d' = [] \<and>
    (\<forall>c'. set_at d' (conn_key c') = set_at d (conn_key c')) \<and>
    subscribed d' = {(c', ch) \<in> subscribed d. \<not> (c' = c \<and> ch \<in> set chs)}"
  using assms
proof (induction chs arbitrary: d)
  case (Cons ch chs)
  let ?d1 = "put_key (subs_key ch) (set_value (filter (\<lambda>x. x \<noteq> c) (set_at d (subs_key ch)))) d"
  have s1: "d_srem (subs_key ch) c d = (Inr (), ?d1)" by (rule set_ops(2) [OF Cons.prems(1) ws_keys(1)])
  have "well_keyed ?d1" "vd_pool ?d1 = []" using Cons.prems by (simp_all add: key_simps)
  from Cons.IH [OF this] obtain d' where
    d': "vforM (\<lambda>ch. d_srem (subs_key ch) c) chs ?d1 = (Inr (), d')" "well_keyed d'" "vd_pool d' = []"
      "\<forall>c'. set_at d' (conn_key c') = set_at ?d1 (conn_key c')"
      "subscribed d' = {(c', ch) \<in> subscribed ?d1. \<not> (c' = c \<and> ch \<in> set chs)}" by blast
  have "subscribed ?d1 = {(c', ch') \<in> subscribed d. \<not> (c' = c \<and> ch' = ch)}"
    by (auto simp: subscribed_def set_at_put key_simps)
  then have "subscribed d' = {(c', ch') \<in> subscribed d. \<not> (c' = c \<and> ch' \<in> set (ch # chs))}"
    using d'(5) by auto
  with d' s1 show ?case by (simp add: vbind_def set_at_put key_simps)
qed (auto simp: vret_def)

section \<open>Events\<close>

definition ws_ready :: "vdata \<Rightarrow> bool" where
  "ws_ready d \<longleftrightarrow> subs_ok d \<and> vd_pool d = []"

lemma run_connect:
  assumes "ws_ready (w_vk w)"
  shows "\<exists>w'. handle_connect ref_valkey c w = (Inr (200, None), w') \<and> ws_ready (w_vk w') \<and>
    subscribed (w_vk w') = subscribed (w_vk w)"
proof -
  let ?d = "w_vk w"
  let ?d1 = "put_key connections_key (Some (VSet (if c \<in> set (set_at ?d connections_key) then set_at ?d connections_key
    else set_at ?d connections_key @ [c]))) ?d"
  have wk: "well_keyed ?d" "well_keyed ?d1" using assms by (simp_all add: ws_ready_def subs_okD key_simps)
  have s1: "d_sadd connections_key c ?d = (Inr (), ?d1)" by (rule set_ops(1) [OF wk(1) ws_keys(3)])
  obtain t where t: "d_expire connections_key 86400 ?d1 = (Inr (), ?d1\<lparr>vd_ttl := t\<rparr>)" using expire_op by blast
  have R: "subscribed ?d1 = subscribed ?d" by (simp add: subscribed_def set_at_put key_simps)
  have "subs_ok ?d1"
    using assms by (intro subs_okI [OF wk(2) _ R]) (simp add: ws_ready_def subs_ok_def set_at_put key_simps)
  then show ?thesis
    using assms s1 t R by (simp add: handle_connect_def on_vk_def vbind_def ref_valkey_ops ws_ready_def vret_def)
qed

lemma run_disconnect:
  assumes "ws_ready (w_vk w)"
  shows "\<exists>w'. handle_disconnect ref_valkey c w = (Inr (200, None), w') \<and> ws_ready (w_vk w') \<and>
    subscribed (w_vk w') = {(c', ch) \<in> subscribed (w_vk w). c' \<noteq> c}"
proof -
  let ?d = "w_vk w"
  let ?d1 = "put_key connections_key (set_value (filter (\<lambda>x. x \<noteq> c) (set_at ?d connections_key))) ?d"
  have wk: "well_keyed ?d" "well_keyed ?d1" "vd_pool ?d1 = []"
    using assms by (simp_all add: ws_ready_def subs_okD key_simps)
  have s1: "d_srem connections_key c ?d = (Inr (), ?d1)" by (rule set_ops(2) [OF wk(1) ws_keys(3)])
  have c1: "set_at ?d1 (conn_key c') = set_at ?d (conn_key c')" for c' by (simp add: set_at_put key_simps)
  have m: "vor (d_smembers (conn_key c)) [] ?d1 = (Inr (set_at ?d (conn_key c)), ?d1)"
    using set_ops(3) [OF wk(2) ws_keys(2), of c] c1 by (simp add: vor_def)
  obtain d' where d': "vforM (\<lambda>ch. d_srem (subs_key ch) c) (set_at ?d (conn_key c)) ?d1 = (Inr (), d')"
      "well_keyed d'" "vd_pool d' = []" "\<forall>c'. set_at d' (conn_key c') = set_at ?d1 (conn_key c')"
      "subscribed d' = {(c', ch) \<in> subscribed ?d1. \<not> (c' = c \<and> ch \<in> set (set_at ?d (conn_key c)))}"
    using run_leave_channels [OF wk(2,3)] by blast
  let ?d2 = "put_key (conn_key c) None d'"
  have "subscribed ?d1 = subscribed ?d" by (simp add: subscribed_def set_at_put key_simps)
  then have "subscribed d' = {(c', ch) \<in> subscribed ?d. c' \<noteq> c}"
    using d'(5) assms by (auto simp: ws_ready_def subs_ok_def)
  then have R: "subscribed ?d2 = {(c', ch) \<in> subscribed ?d. c' \<noteq> c}" by (simp add: subscribed_def set_at_put key_simps)
  have "subs_ok ?d2"
    using assms d'(2,4) c1 by (intro subs_okI [OF _ _ R]) (auto simp: ws_ready_def subs_ok_def set_at_put key_simps)
  then show ?thesis
    using assms s1 m d' R
    by (simp add: handle_disconnect_def on_vk_def vbind_def ref_valkey_ops ws_ready_def vret_def d_del_def)
qed

lemma run_subscribe_one:
  assumes "ws_ready (w_vk w)"
  shows "\<exists>w'. subscribe_one ref_valkey post c j w = (Inr (), w') \<and> ws_ready (w_vk w') \<and>
    subscribed (w_vk w') = subscribed (w_vk w) \<union> {c} \<times> {ch. j = JText ch \<and> is_valid_channel ch}"
proof (cases "\<exists>ch. j = JText ch \<and> is_valid_channel ch")
  case True
  then obtain ch where j: "j = JText ch" "is_valid_channel ch" by blast
  obtain v d' where d': "add_subscription ref_valkey c ch (w_vk w) = (Inr v, d')" "subs_ok d'" "vd_pool d' = []"
      "subscribed d' = insert (c, ch) (subscribed (w_vk w))"
    using run_add_subscription [of "w_vk w" c ch] assms by (auto simp: ws_ready_def)
  obtain w' where w': "send_snapshot post c ch v (w\<lparr>w_vk := d'\<rparr>) = (Inr (), w')" by (simp add: send_snapshot_def)
  then have v: "w_vk w' = d'" by (auto simp: send_snapshot_def split: option.splits if_splits)
  have "subscribe_one ref_valkey post c j w = (Inr (), w')"
    using d'(1) j w' by (simp add: subscribe_one_def vbind_def on_vk_def)
  with d' v j show ?thesis by (auto simp: ws_ready_def)
next
  case False
  then show ?thesis using assms by (cases j) (auto simp: subscribe_one_def vret_def)
qed

lemma run_subscribe_all:
  assumes "ws_ready (w_vk w)"
  shows "\<exists>w'. vforM (subscribe_one ref_valkey post c) js w = (Inr (), w') \<and> ws_ready (w_vk w') \<and>
    subscribed (w_vk w') = subscribed (w_vk w) \<union> {c} \<times> {ch. JText ch \<in> set js \<and> is_valid_channel ch}"
  using assms
proof (induction js arbitrary: w)
  case (Cons j js)
  obtain w1 where w1: "subscribe_one ref_valkey post c j w = (Inr (), w1)" "ws_ready (w_vk w1)"
      "subscribed (w_vk w1) = subscribed (w_vk w) \<union> {c} \<times> {ch. j = JText ch \<and> is_valid_channel ch}"
    using run_subscribe_one [OF Cons.prems, of post c j] by (elim exE conjE)
  from Cons.IH [OF w1(2)] obtain w' where w': "vforM (subscribe_one ref_valkey post c) js w1 = (Inr (), w')"
      "ws_ready (w_vk w')"
      "subscribed (w_vk w') = subscribed (w_vk w1) \<union> {c} \<times> {ch. JText ch \<in> set js \<and> is_valid_channel ch}"
    by (elim exE conjE)
  have "subscribed (w_vk w') = subscribed (w_vk w) \<union> {c} \<times> {ch. JText ch \<in> set (j # js) \<and> is_valid_channel ch}"
    using w1(3) w'(3) by auto
  with w1 w' show ?case by (simp add: vbind_def)
qed (auto simp: vret_def)

lemma run_unsubscribe_all:
  assumes "ws_ready d"
  shows "\<exists>d'. vforM (unsubscribe_one ref_valkey c) js d = (Inr (), d') \<and> ws_ready d' \<and>
    subscribed d' = subscribed d - {c} \<times> {ch. JText ch \<in> set js}"
  using assms
proof (induction js arbitrary: d)
  case (Cons j js)
  have "\<exists>d1. unsubscribe_one ref_valkey c j d = (Inr (), d1) \<and> ws_ready d1 \<and>
    subscribed d1 = subscribed d - {c} \<times> {ch. j = JText ch}"
  proof (cases "jstr j")
    case None
    then have "\<And>ch. j \<noteq> JText ch" by auto
    with None Cons.prems show ?thesis by (simp add: unsubscribe_one_def vret_def)
  next
    case (Some ch)
    then have j: "j = JText ch" by (cases j) auto
    then have "{c} \<times> {ch. j = JText ch} = {(c, ch)}" by auto
    with run_remove_subscription [of d ch c] Cons.prems j show ?thesis
      by (simp add: unsubscribe_one_def ref_valkey_ops ws_ready_def)
  qed
  then obtain d1 where d1: "unsubscribe_one ref_valkey c j d = (Inr (), d1)" "ws_ready d1"
      "subscribed d1 = subscribed d - {c} \<times> {ch. j = JText ch}" by (elim exE conjE)
  from Cons.IH [OF d1(2)] obtain d' where d': "vforM (unsubscribe_one ref_valkey c) js d1 = (Inr (), d')"
      "ws_ready d'" "subscribed d' = subscribed d1 - {c} \<times> {ch. JText ch \<in> set js}" by (elim exE conjE)
  have "subscribed d' = subscribed d - {c} \<times> {ch. JText ch \<in> set (j # js)}" using d1(3) d'(3) by auto
  with d1 d' show ?case by (simp add: vbind_def)
qed (auto simp: vret_def)

lemma run_default:
  assumes "ws_ready (w_vk w)" and "we_route ev \<noteq> ''$connect''" "we_route ev \<noteq> ''$disconnect''"
  shows "\<exists>resp w'. handle_default ref_valkey J post ev w = (Inr resp, w') \<and> ws_ready (w_vk w') \<and>
    subscribed (w_vk w') = subs_spec J ev (subscribed (w_vk w))"
proof -
  let ?b = "option_or (we_body ev) []"
  consider "?b = []" | "?b \<noteq> []" "js_parse J ?b = None" | cmd where "?b \<noteq> []" "js_parse J ?b = Some cmd" by auto
  then show ?thesis
  proof cases
    case 1
    with assms show ?thesis by (auto simp: handle_default_def subs_spec_def vret_def split: option.split)
  next
    case 2
    with assms show ?thesis by (auto simp: handle_default_def subs_spec_def vret_def)
  next
    case 3
    let ?c = "we_conn ev" and ?S = "channel_list cmd ''subscribe''" and ?U = "channel_list cmd ''unsubscribe''"
    have conn: "on_vk (vk_conn ref_valkey) w = (Inr (), w)"
      using assms(1) by (simp add: on_vk_def ref_valkey_ops ws_ready_def)
    have "\<exists>w1. (case ?S of None \<Rightarrow> vret () | Some chs \<Rightarrow> handle_subscribe ref_valkey post ?c chs) w = (Inr (), w1) \<and>
      ws_ready (w_vk w1) \<and> subscribed (w_vk w1) = subscribed (w_vk w) \<union> {?c} \<times> {ch \<in> texts ?S. is_valid_channel ch}"
      using assms(1) run_subscribe_all [OF assms(1), of post ?c "option_or ?S []"] conn
      by (cases ?S) (simp_all add: texts_def vret_def handle_subscribe_def vbind_def)
    then obtain w1 where w1:
      "(case ?S of None \<Rightarrow> vret () | Some chs \<Rightarrow> handle_subscribe ref_valkey post ?c chs) w = (Inr (), w1)" "ws_ready (w_vk w1)"
      "subscribed (w_vk w1) = subscribed (w_vk w) \<union> {?c} \<times> {ch \<in> texts ?S. is_valid_channel ch}"
      by (elim exE conjE)
    have "\<exists>w2. (case ?U of None \<Rightarrow> vret () | Some chs \<Rightarrow> handle_unsubscribe ref_valkey ?c chs) w1 = (Inr (), w2) \<and>
      ws_ready (w_vk w2) \<and> subscribed (w_vk w2) = subscribed (w_vk w1) - {?c} \<times> texts ?U"
    proof (cases ?U)
      case None
      with w1(2) show ?thesis by (simp add: texts_def vret_def)
    next
      case (Some chs)
      obtain d' where "vforM (unsubscribe_one ref_valkey ?c) chs (w_vk w1) = (Inr (), d')" "ws_ready d'"
          "subscribed d' = subscribed (w_vk w1) - {?c} \<times> {ch. JText ch \<in> set chs}"
        using run_unsubscribe_all [OF w1(2), of ?c chs] by (elim exE conjE)
      with Some w1(2) show ?thesis
        by (simp add: texts_def handle_unsubscribe_def on_vk_def vbind_def ref_valkey_ops ws_ready_def)
    qed
    then obtain w2 where w2:
      "(case ?U of None \<Rightarrow> vret () | Some chs \<Rightarrow> handle_unsubscribe ref_valkey ?c chs) w1 = (Inr (), w2)" "ws_ready (w_vk w2)"
      "subscribed (w_vk w2) = subscribed (w_vk w1) - {?c} \<times> texts ?U"
      by (elim exE conjE)
    have "handle_default ref_valkey J post ev w = (Inr (200, None), w2)"
      using 3 w1(1) w2(1) by (simp add: handle_default_def vbind_def vret_def)
    with w1(3) w2 3 assms(2,3) show ?thesis by (simp add: subs_spec_def)
  qed
qed

lemma run_ws_event:
  assumes "ws_ready (w_vk w)"
  shows "\<exists>resp w'. handle_ws_event ref_valkey J post ev w = (Inr resp, w') \<and> ws_ready (w_vk w') \<and>
    subscribed (w_vk w') = subs_spec J ev (subscribed (w_vk w))"
proof -
  consider "we_route ev = ''$connect''" | "we_route ev = ''$disconnect''"
    | "we_route ev \<noteq> ''$connect''" "we_route ev \<noteq> ''$disconnect''" by blast
  then show ?thesis
  proof cases
    case 1
    with run_connect [OF assms, of "we_conn ev"] show ?thesis
      by (auto simp: handle_ws_event_def subs_spec_def)
  next
    case 2
    obtain w' where "handle_disconnect ref_valkey (we_conn ev) w = (Inr (200, None), w')" "ws_ready (w_vk w')"
      "subscribed (w_vk w') = {(c', ch) \<in> subscribed (w_vk w). c' \<noteq> we_conn ev}"
      using run_disconnect [OF assms, of "we_conn ev"] by (elim exE conjE)
    with 2 show ?thesis by (intro exI [of _ "(200, None)"] exI [of _ w']) (simp add: handle_ws_event_def subs_spec_def)
  next
    case 3
    with run_default [OF assms, of ev J post] show ?thesis by (simp add: handle_ws_event_def)
  qed
qed

lemma simulates_send_snapshot [sim_rules]:
  "simulates (map_world \<alpha>) (send_snapshot post c ch v) (send_snapshot post c ch v)"
  by (auto simp: simulates_def send_snapshot_def split: option.split)

context valkey_spec
begin

lemma sim_add_subscription [sim_rules]: "simulates \<alpha> (add_subscription V c ch) (add_subscription ref_valkey c ch)"
  unfolding add_subscription_def ref_valkey_ops by (intro sim_rules)

lemma sim_unsubscribe_one [sim_rules]: "simulates \<alpha> (unsubscribe_one V c j) (unsubscribe_one ref_valkey c j)"
  unfolding unsubscribe_one_def ref_valkey_ops by (intro sim_rules)

lemma sim_subscribe_one [sim_rules]:
  "simulates (map_world \<alpha>) (subscribe_one V post c j) (subscribe_one ref_valkey post c j)"
  unfolding subscribe_one_def by (intro sim_rules)

lemma sim_ws_event:
  "simulates (map_world \<alpha>) (handle_ws_event V J post ev) (handle_ws_event ref_valkey J post ev)"
  unfolding handle_ws_event_def handle_connect_def handle_disconnect_def handle_default_def handle_subscribe_def
    handle_unsubscribe_def ref_valkey_ops
  by (intro sim_rules)

end

text \<open>
  C15: the two records of the subscriptions stay in step. From a state in which they
  agree, every event of a client is answered, the sets of channels and the sets of
  connections agree again, and the relation they stand for has changed as
  specified: a disconnection removes the connection from every channel, a command
  adds the valid channels it subscribes to and removes those it unsubscribes from
  (connections to the cache are available, and no key has expired).
\<close>

theorem ws_events_refine_relation:
  assumes "valkey_spec V \<alpha>" and "subs_ok (\<alpha> (w_vk w))" and "vd_pool (\<alpha> (w_vk w)) = []"
  shows "\<exists>resp w'. handle_ws_event V J post ev w = (Inr resp, w') \<and> subs_ok (\<alpha> (w_vk w')) \<and>
    subscribed (\<alpha> (w_vk w')) = subs_spec J ev (subscribed (\<alpha> (w_vk w)))"
proof -
  have "ws_ready (w_vk (map_world \<alpha> w))" using assms by (simp add: ws_ready_def)
  from run_ws_event [OF this, of J post ev] obtain resp w1 where
    w1: "handle_ws_event ref_valkey J post ev (map_world \<alpha> w) = (Inr resp, w1)" "ws_ready (w_vk w1)"
      "subscribed (w_vk w1) = subs_spec J ev (subscribed (\<alpha> (w_vk w)))" by auto
  from simulates_run [OF valkey_spec.sim_ws_event [OF assms(1)] w1(1)] obtain w' where
    w': "handle_ws_event V J post ev w = (Inr resp, w')" "map_world \<alpha> w' = w1" by blast
  from w'(2) have "w_vk w1 = \<alpha> (w_vk w')" by auto
  with w1 w' show ?thesis by (auto simp: ws_ready_def)
qed

theorem ws_events_refine_relation_witness:
  "\<exists>resp w'. handle_ws_event ref_valkey ref_json (\<lambda>_ _. PostOk)
      \<lparr>we_route = ''$default'', we_conn = ''c1'',
       we_body = Some (js_str ref_json (jobj [(''subscribe'', JArr [JText ''ticker:BTC-USDT'', JText ''a b'', JNull])]))\<rparr>
      empty_world = (Inr resp, w') \<and>
    subs_ok (id (w_vk w')) \<and> subscribed (w_vk w') = {(''c1'', ''ticker:BTC-USDT'')}"
proof -
  let ?j = "jobj [(''subscribe'', JArr [JText ''ticker:BTC-USDT'', JText ''a b'', JNull])]"
  let ?ev = "\<lparr>we_route = ''$default'', we_conn = ''c1'', we_body = Some (js_str ref_json ?j)\<rparr>"
  have e: "subscribed empty_vdata = {}" "subs_ok empty_vdata" "vd_pool empty_vdata = []"
    by (simp_all add: subs_ok_def subscribed_def at_defs empty_vdata_def well_keyed_def)
  have p: "js_parse ref_json (js_str ref_json ?j) = Some ?j"
    by (rule ref_json.parse_str) (simp add: jobj_def)
  have c: "channel_list ?j ''subscribe'' = Some [JText ''ticker:BTC-USDT'', JText ''a b'', JNull]"
    "channel_list ?j ''unsubscribe'' = None"
    by (simp_all add: channel_list_def jobj_def)
  have v: "is_valid_channel ''ticker:BTC-USDT''" "\<not> is_valid_channel ''a b''"
    by (simp_all add: is_valid_channel_def is_alnum_def)
  have "js_str ref_json ?j \<noteq> []" using p by (auto simp: ref_json_def jobj_def)
  then have "subs_spec ref_json ?ev {} = {(''c1'', ''ticker:BTC-USDT'')}"
    using v by (auto simp: subs_spec_def p c texts_def)
  with ws_events_refine_relation [OF ref.valkey_spec_axioms, of empty_world ref_json "\<lambda>_ _. PostOk" ?ev] e
  show ?thesis by (simp add: empty_world_def)
qed

end
