(* ===== verification/Event_Stream.thy ===== *)
theory Event_Stream
  imports Gateway_Routes "HOL-Library.Sublist"
begin

text \<open>
  The event stream of a pair (\<open>sse_stream\<close> of \<open>gateway/src/routes.rs\<close>): the latest
  value of each of its keys, then a subscription to each key, then a loop that asks
  the receivers in turn. Values are mirrored by other threads meanwhile, so that the
  iterations of the three loops are single steps, and updates may come in between.
  The receivers are those of \<open>tokio::sync::broadcast\<close>: \<open>TR\<close> gives the result of
  \<open>try_recv\<close>, from the values sent so far and the position of the receiver.
\<close>

section \<open>Receivers of a broadcast channel\<close>

datatype try_recv = TryValue string | TryEmpty | TryLagged nat | TryClosed

type_synonym try_fun = "string list \<Rightarrow> nat \<Rightarrow> try_recv \<times> nat"

definition CHANNEL_CAP :: nat where "CHANNEL_CAP = 64"

text \<open>
  The documented behaviour: a channel keeps its last values, up to its capacity. A
  receiver gets the values in order; one that is behind by more than the capacity is
  told so once and goes on with the oldest value kept. The channel is closed when
  all senders are dropped; the mirrored values hold one for as long as they exist.
\<close>

locale broadcast_spec =
  fixes TR :: try_fun and cap :: nat
  assumes cap_pos: "0 < cap"
    and recv_empty: "TR sent (length sent) = (TryEmpty, length sent)"
    and recv_value: "pos < length sent \<Longrightarrow> length sent - pos \<le> cap \<Longrightarrow> TR sent pos = (TryValue (sent ! pos), Suc pos)"
    and recv_lagged: "cap < length sent - pos \<Longrightarrow>
      TR sent pos = (TryLagged (length sent - pos - cap), length sent - cap)"
begin

lemma recv_cases:
  assumes "pos \<le> length sent"
  obtains "pos = length sent" "TR sent pos = (TryEmpty, pos)"
  | "pos < length sent" "TR sent pos = (TryValue (sent ! pos), Suc pos)"
  | n where "pos < length sent - cap" "TR sent pos = (TryLagged n, length sent - cap)"
proof (cases "pos = length sent")
  case True
  then show ?thesis using that(1) recv_empty by simp
next
  case False
  then have l: "pos < length sent" using assms by simp
  show ?thesis
  proof (cases "length sent - pos \<le> cap")
    case True
    show ?thesis by (rule that(2) [OF l recv_value [OF l True]])
  next
    case False
    then show ?thesis using that(3) recv_lagged [of sent pos] by simp
  qed
qed

end

definition ring_recv :: "nat \<Rightarrow> try_fun" where
  "ring_recv cap sent pos =
     (if length sent \<le> pos then (TryEmpty, pos)
      else if cap < length sent - pos then (TryLagged (length sent - pos - cap), length sent - cap)
      else (TryValue (sent ! pos), Suc pos))"

interpretation ring: broadcast_spec "ring_recv CHANNEL_CAP" CHANNEL_CAP
  by unfold_locales (auto simp: ring_recv_def CHANNEL_CAP_def)

section \<open>The stream\<close>

type_synonym receiver = "string \<times> string \<times> nat"

text \<open>The three loops with the keys or receivers still to visit; \<open>FanIn\<close> also has those already asked.\<close>

datatype sse_phase =
    Initial "(string \<times> string) list"
  | Subscribing "(string \<times> string) list" "receiver list"
  | FanIn "receiver list" "receiver list" bool
  | Finished

record sse_state =
  se_phase :: sse_phase
  se_events :: "(string \<times> string) list"

definition sse_start :: "string \<Rightarrow> sse_state" where
  "sse_start pair_id = \<lparr>se_phase = Initial (sse_keys pair_id), se_events = []\<rparr>"

definition values_sent :: "cache_broadcasts \<Rightarrow> string \<Rightarrow> string list" where
  "values_sent cache key = (case cache key of None \<Rightarrow> [] | Some e \<Rightarrow> ce_sent e)"

definition cache_subscribe :: "cache_broadcasts \<Rightarrow> string \<Rightarrow> nat option" where
  "cache_subscribe cache key = map_option (\<lambda>e. length (ce_sent e)) (cache key)"

definition emit :: "string \<Rightarrow> string \<Rightarrow> sse_state \<Rightarrow> sse_state" where
  "emit event_name val st = st\<lparr>se_events := se_events st @ [(event_name, val)]\<rparr>"

definition goto :: "sse_phase \<Rightarrow> sse_state \<Rightarrow> sse_state" where
  "goto ph st = st\<lparr>se_phase := ph\<rparr>"

definition sse_step :: "try_fun \<Rightarrow> string \<Rightarrow> cache_broadcasts \<Rightarrow> sse_state \<Rightarrow> sse_state" where
  "sse_step TR pair_id cache st =
     (case se_phase st of
        Initial [] \<Rightarrow> goto (Subscribing (sse_keys pair_id) []) st
      | Initial ((key, event_name) # ks) \<Rightarrow>
          (case get_latest cache key of
             Some val \<Rightarrow> goto (Initial ks) (emit event_name val st)
           | None \<Rightarrow> goto (Initial ks) st)
      | Subscribing [] rs \<Rightarrow> goto (FanIn [] rs False) st
      | Subscribing ((key, event_name) # ks) rs \<Rightarrow>
          (case cache_subscribe cache key of
             Some pos \<Rightarrow> goto (Subscribing ks (rs @ [(key, event_name, pos)])) st
           | None \<Rightarrow> goto (Subscribing ks rs) st)
      | FanIn asked [] got_msg \<Rightarrow> goto (FanIn [] asked False) st
      | FanIn asked ((key, event_name, pos) # rs) got_msg \<Rightarrow>
          (case TR (values_sent cache key) pos of
             (TryValue val, pos') \<Rightarrow> goto (FanIn (asked @ [(key, event_name, pos')]) rs True) (emit event_name val st)
           | (TryClosed, _) \<Rightarrow> goto Finished st
           | (_, pos') \<Rightarrow> goto (FanIn (asked @ [(key, event_name, pos')]) rs got_msg) st)
      | Finished \<Rightarrow> st)"

text \<open>The stream beside the writers of the mirrored values.\<close>

datatype sse_action = Update int string string | Poll

fun sse_act :: "try_fun \<Rightarrow> string \<Rightarrow> sse_action \<Rightarrow> cache_broadcasts \<times> sse_state \<Rightarrow> cache_broadcasts \<times> sse_state" where
  "sse_act TR pair_id (Update now_ms key val) (cache, st) = (cache_update now_ms key val cache, st)"
| "sse_act TR pair_id Poll (cache, st) = (cache, sse_step TR pair_id cache st)"

definition sse_exec :: "try_fun \<Rightarrow> string \<Rightarrow> sse_action list \<Rightarrow> cache_broadcasts \<times> sse_state \<Rightarrow> cache_broadcasts \<times> sse_state" where
  "sse_exec TR pair_id = fold (sse_act TR pair_id)"

definition data_of :: "string \<Rightarrow> (string \<times> string) list \<Rightarrow> string list" where
  "data_of event_name evs = map snd (filter (\<lambda>ev. fst ev = event_name) evs)"

section \<open>Order and origin of the events\<close>

text \<open>
  \<open>splits D H xs\<close>: the data of one kind of event are at most one value of \<open>H\<close>,
  followed by some of the values \<open>xs\<close>, in their order and each at most once.
\<close>

definition splits :: "string list \<Rightarrow> string set \<Rightarrow> string list \<Rightarrow> bool" where
  "splits D H xs \<longleftrightarrow> (\<exists>first rest. D = first @ rest \<and> length first \<le> 1 \<and> set first \<subseteq> H \<and> subseq rest xs)"

lemma splits_single: "length D \<le> 1 \<Longrightarrow> set D \<subseteq> H \<Longrightarrow> splits D H xs"
  unfolding splits_def by (intro exI [of _ D] exI [of _ "[]"]) simp

lemma splits_mono: "splits D H xs \<Longrightarrow> H \<subseteq> H' \<Longrightarrow> subseq xs xs' \<Longrightarrow> splits D H' xs'"
  unfolding splits_def
  by (elim exE conjE, intro exI conjI, assumption, assumption, erule (1) order_trans, erule (1) subseq_order.trans)

lemma splits_snoc: "splits D H xs \<Longrightarrow> splits (D @ [v]) H (xs @ [v])"
  unfolding splits_def by (metis append.assoc list_emb_append_mono subseq_order.order_refl)

lemma subseq_take: "p \<le> q \<Longrightarrow> subseq (take p xs) (take q xs)"
  by (metis prefix_imp_subseq take_is_prefix take_take min.absorb1)

lemma subseq_take_whole: "subseq (take p xs) xs"
  by (metis prefix_imp_subseq take_is_prefix)

lemma data_of_emit [simp]: "data_of n (se_events (emit m v st)) = data_of n (se_events st) @ (if m = n then [v] else [])"
  by (simp add: data_of_def emit_def)

lemma goto_simps [simp]: "se_phase (goto ph st) = ph" "se_events (goto ph st) = se_events st"
  by (simp_all add: goto_def)

lemma emit_phase [simp]: "se_phase (emit n v st) = se_phase st"
  by (simp add: emit_def)

definition sse_kinds :: "string list" where
  "sse_kinds = [''orderbook'', ''trades'', ''ticker'', ''metrics'', ''throughput'', ''latency'']"

lemma sse_keys_names: "map snd (sse_keys p) = sse_kinds" "distinct sse_kinds"
  by (simp_all add: sse_keys_def sse_kinds_def)

lemma sse_key_unique: "(k, n) \<in> set (sse_keys p) \<Longrightarrow> (k', n) \<in> set (sse_keys p) \<Longrightarrow> k' = k"
proof -
  have "distinct (map snd (sse_keys p))" by (simp add: sse_keys_names)
  then show "(k, n) \<in> set (sse_keys p) \<Longrightarrow> (k', n) \<in> set (sse_keys p) \<Longrightarrow> k' = k"
    unfolding distinct_map by (auto dest: inj_onD [of snd _ "(k, n)" "(k', n)"])
qed

lemma values_sent_update:
  obtains "values_sent (cache_update t k' v cache) k = values_sent cache k"
  | "k = k'" "values_sent (cache_update t k' v cache) k = values_sent cache k @ [v]"
proof -
  have "values_sent (cache_update t k' v cache) k = values_sent cache k \<or>
      k = k' \<and> values_sent (cache_update t k' v cache) k = values_sent cache k @ [v]"
    by (cases "cache k'") (simp_all add: values_sent_def cache_update_def)
  then show thesis using that by blast
qed

lemma get_latest_update:
  "get_latest (cache_update t k' v cache) k = Some w \<Longrightarrow> get_latest cache k = Some w \<or> (k = k' \<and> w = v)"
  by (auto simp: cache_update_def get_latest_def split: option.splits if_splits)

lemma cache_subscribe_pos: "cache_subscribe cache k = Some q \<Longrightarrow> q = length (values_sent cache k)"
  by (auto simp: cache_subscribe_def values_sent_def)

fun receivers :: "sse_phase \<Rightarrow> receiver list" where
  "receivers (Initial ks) = []"
| "receivers (Subscribing ks rs) = rs"
| "receivers (FanIn asked rs got) = asked @ rs"
| "receivers Finished = []"

fun phase_ok :: "string \<Rightarrow> sse_phase \<Rightarrow> bool" where
  "phase_ok p (Initial ks) \<longleftrightarrow> suffix ks (sse_keys p)"
| "phase_ok p (Subscribing ks rs) \<longleftrightarrow>
     distinct (map (fst \<circ> snd) rs @ map snd ks) \<and> set (map (\<lambda>(k, n, _). (k, n)) rs @ ks) \<subseteq> set (sse_keys p)"
| "phase_ok p (FanIn asked rs got) \<longleftrightarrow>
     distinct (map (fst \<circ> snd) (asked @ rs)) \<and> set (map (\<lambda>(k, n, _). (k, n)) (asked @ rs)) \<subseteq> set (sse_keys p)"
| "phase_ok p Finished \<longleftrightarrow> True"

fun before_fan_in :: "sse_phase \<Rightarrow> bool" where
  "before_fan_in (FanIn _ _ _) = False"
| "before_fan_in Finished = False"
| "before_fan_in _ = True"

text \<open>What holds along every run, for values that come from \<open>H\<close>.\<close>

definition sse_inv :: "string \<Rightarrow> (string \<Rightarrow> string set) \<Rightarrow> cache_broadcasts \<Rightarrow> sse_state \<Rightarrow> bool" where
  "sse_inv p H cache st \<longleftrightarrow>
     phase_ok p (se_phase st) \<and>
     (\<forall>k v. get_latest cache k = Some v \<longrightarrow> v \<in> H k) \<and>
     (\<forall>(k, n) \<in> set (sse_keys p). splits (data_of n (se_events st)) (H k) (values_sent cache k)) \<and>
     (\<forall>(k, n, q) \<in> set (receivers (se_phase st)). q \<le> length (values_sent cache k) \<and>
        splits (data_of n (se_events st)) (H k) (take q (values_sent cache k))) \<and>
     (before_fan_in (se_phase st) \<longrightarrow>
        (\<forall>(k, n) \<in> set (sse_keys p). length (data_of n (se_events st)) \<le> 1 \<and> set (data_of n (se_events st)) \<subseteq> H k)) \<and>
     (\<forall>ks. se_phase st = Initial ks \<longrightarrow> (\<forall>(k, n) \<in> set ks. data_of n (se_events st) = []))"

lemma sse_inv_receiver:
  "sse_inv p H cache st \<Longrightarrow> (k, n, q) \<in> set (receivers (se_phase st)) \<Longrightarrow>
     q \<le> length (values_sent cache k) \<and> splits (data_of n (se_events st)) (H k) (take q (values_sent cache k))"
  by (fastforce simp: sse_inv_def)

lemma sse_inv_fan_inI:
  assumes "se_phase st = FanIn asked rs got" "phase_ok p (FanIn asked rs got)" "\<forall>k v. get_latest cache k = Some v \<longrightarrow> v \<in> H k"
    and "\<And>k n. (k, n) \<in> set (sse_keys p) \<Longrightarrow> splits (data_of n (se_events st)) (H k) (values_sent cache k)"
    and "\<And>k n q. (k, n, q) \<in> set (asked @ rs) \<Longrightarrow> q \<le> length (values_sent cache k) \<and>
      splits (data_of n (se_events st)) (H k) (take q (values_sent cache k))"
  shows "sse_inv p H cache st"
proof -
  have "\<forall>(k, n) \<in> set (sse_keys p). splits (data_of n (se_events st)) (H k) (values_sent cache k)"
    using assms(4) by blast
  moreover have "\<forall>(k, n, q) \<in> set (receivers (se_phase st)). q \<le> length (values_sent cache k) \<and>
      splits (data_of n (se_events st)) (H k) (take q (values_sent cache k))"
    using assms(1,5) by (simp only: receivers.simps) blast
  ultimately show ?thesis using assms(1-3) by (simp add: sse_inv_def)
qed

lemma sse_inv_initialI:
  assumes "se_phase st = Initial ks" "suffix ks (sse_keys p)" "\<forall>k v. get_latest cache k = Some v \<longrightarrow> v \<in> H k"
    and one: "\<And>k n. (k, n) \<in> set (sse_keys p) \<Longrightarrow> length (data_of n (se_events st)) \<le> 1 \<and> set (data_of n (se_events st)) \<subseteq> H k"
    and "\<And>k n. (k, n) \<in> set ks \<Longrightarrow> data_of n (se_events st) = []"
  shows "sse_inv p H cache st"
proof -
  have "\<forall>(k, n) \<in> set (sse_keys p). splits (data_of n (se_events st)) (H k) (values_sent cache k)"
    using splits_single one by blast
  moreover have "\<forall>(k, n) \<in> set (sse_keys p). length (data_of n (se_events st)) \<le> 1 \<and> set (data_of n (se_events st)) \<subseteq> H k"
    using one by blast
  moreover have "\<forall>(k, n) \<in> set ks. data_of n (se_events st) = []" using assms(5) by blast
  ultimately show ?thesis using assms(1-3) by (simp add: sse_inv_def)
qed

lemma sse_inv_update:
  assumes "sse_inv p H cache st" and "\<And>k. H k \<subseteq> H' k" and "v \<in> H' k0"
  shows "sse_inv p H' (cache_update t k0 v cache) st"
proof -
  let ?c = "cache_update t k0 v cache"
  note I = assms(1) [unfolded sse_inv_def]
  have ext: "subseq (values_sent cache k) (values_sent ?c k)" for k
    by (rule values_sent_update [of t k0 v cache k]) auto
  have tk: "q \<le> length (values_sent cache k) \<Longrightarrow>
      q \<le> length (values_sent ?c k) \<and> take q (values_sent ?c k) = take q (values_sent cache k)" for q k
    by (rule values_sent_update [of t k0 v cache k]) auto
  have "\<forall>k w. get_latest ?c k = Some w \<longrightarrow> w \<in> H' k"
    using I assms(2,3) get_latest_update [of t k0 v cache] by blast
  moreover have "\<forall>(k, n) \<in> set (sse_keys p). splits (data_of n (se_events st)) (H' k) (values_sent ?c k)"
    using I splits_mono [OF _ assms(2) ext] by fast
  moreover have "\<forall>(k, n, q) \<in> set (receivers (se_phase st)). q \<le> length (values_sent ?c k) \<and>
      splits (data_of n (se_events st)) (H' k) (take q (values_sent ?c k))"
    using I tk splits_mono [OF _ assms(2) subseq_order.order_refl] by fastforce
  moreover have "before_fan_in (se_phase st) \<longrightarrow>
      (\<forall>(k, n) \<in> set (sse_keys p). length (data_of n (se_events st)) \<le> 1 \<and> set (data_of n (se_events st)) \<subseteq> H' k)"
    using I assms(2) by fast
  ultimately show ?thesis using I by (simp add: sse_inv_def)
qed

text \<open>One step of each of the loops.\<close>

lemma sse_inv_initial:
  assumes "sse_inv p H cache st" "se_phase st = Initial ((k, n) # ks)" "get_latest cache k = Some v"
  shows "sse_inv p H cache (goto (Initial ks) (emit n v st))"
proof -
  note I = assms(1) [unfolded sse_inv_def]
  have sx: "suffix ((k, n) # ks) (sse_keys p)" using I assms(2) by simp
  then have kn: "(k, n) \<in> set (sse_keys p)" by (meson list.set_intros(1) set_mono_suffix subsetD)
  have D: "data_of n (se_events st) = []" using I assms(2) by simp
  have vH: "v \<in> H k" using I assms(3) by blast
  have dn: "n \<notin> snd ` set ks"
  proof -
    from sx obtain zs where "sse_keys p = zs @ (k, n) # ks" by (auto simp: suffix_def)
    with sse_keys_names(1) [of p] sse_keys_names(2) have "distinct (map snd (zs @ (k, n) # ks))" by metis
    then show ?thesis by simp
  qed
  have old: "\<forall>(k', m) \<in> set (sse_keys p). length (data_of m (se_events st)) \<le> 1 \<and> set (data_of m (se_events st)) \<subseteq> H k'"
    using I assms(2) by simp
  have one: "length (data_of m (se_events (emit n v st))) \<le> 1 \<and> set (data_of m (se_events (emit n v st))) \<subseteq> H k'"
    if "(k', m) \<in> set (sse_keys p)" for k' m
    using old that D vH sse_key_unique [OF kn] by (cases "m = n") auto
  have none: "data_of m (se_events (emit n v st)) = []" if "(k', m) \<in> set ks" for k' m
  proof -
    have "m \<noteq> n" using dn that by force
    then show ?thesis using I assms(2) that by auto
  qed
  show ?thesis
  proof (rule sse_inv_initialI)
    show "se_phase (goto (Initial ks) (emit n v st)) = Initial ks" by simp
    show "suffix ks (sse_keys p)" using sx by (rule suffix_ConsD)
    show "\<forall>k v. get_latest cache k = Some v \<longrightarrow> v \<in> H k" using I by blast
  qed (use one none in \<open>simp_all only: goto_simps\<close>)
qed

lemma sse_inv_subscribe:
  assumes "sse_inv p H cache st" "se_phase st = Subscribing ((k, n) # ks) rs" "cache k = Some e"
  shows "sse_inv p H cache (goto (Subscribing ks (rs @ [(k, n, length (ce_sent e))])) st)"
proof -
  note I = assms(1) [unfolded sse_inv_def]
  have kn: "(k, n) \<in> set (sse_keys p)" using I assms(2) by auto
  then have "splits (data_of n (se_events st)) (H k) xs" for xs
    using I assms(2) by (intro splits_single) auto
  moreover have "values_sent cache k = ce_sent e" using assms(3) by (simp add: values_sent_def)
  ultimately show ?thesis using I assms(2) by (auto simp: sse_inv_def)
qed

lemma sse_inv_move:
  assumes "sse_inv p H cache st" "se_phase st = FanIn asked ((k, n, q) # rs) got"
    and "q \<le> q'" "q' \<le> length (values_sent cache k)"
  shows "sse_inv p H cache (goto (FanIn (asked @ [(k, n, q')]) rs got') st)"
proof -
  note I = assms(1) [unfolded sse_inv_def]
  have "splits (data_of n (se_events st)) (H k) (take q (values_sent cache k))" using I assms(2) by auto
  then have "splits (data_of n (se_events st)) (H k) (take q' (values_sent cache k))"
    by (rule splits_mono [OF _ order_refl subseq_take [OF assms(3)]])
  then show ?thesis using I assms(2,4) by (auto simp: sse_inv_def)
qed

lemma sse_inv_receive:
  assumes "sse_inv p H cache st" "se_phase st = FanIn asked ((k, n, q) # rs) got" and "q < length (values_sent cache k)"
  shows "sse_inv p H cache (goto (FanIn (asked @ [(k, n, Suc q)]) rs got') (emit n (values_sent cache k ! q) st))"
proof -
  let ?xs = "values_sent cache k" and ?st = "emit n (values_sent cache k ! q) st"
  note I = assms(1) [unfolded sse_inv_def]
  have kn: "(k, n) \<in> set (sse_keys p)" using I assms(2) by auto
  have other: "n \<notin> (fst \<circ> snd) ` set (asked @ rs)" using I assms(2) by auto
  have "splits (data_of n (se_events st)) (H k) (take q ?xs)" using I assms(2) by auto
  from splits_snoc [OF this, of "?xs ! q"] have new: "splits (data_of n (se_events ?st)) (H k) (take (Suc q) ?xs)"
    using assms(3) by (simp add: take_Suc_conv_app_nth)
  then have all: "splits (data_of n (se_events ?st)) (H k) ?xs"
    by (rule splits_mono [OF _ order_refl subseq_take_whole])
  have keys: "splits (data_of m (se_events ?st)) (H k') (values_sent cache k')" if "(k', m) \<in> set (sse_keys p)" for k' m
    using I that all sse_key_unique [OF kn] by (cases "m = n") auto
  have recv: "q2 \<le> length (values_sent cache k') \<and> splits (data_of m (se_events ?st)) (H k') (take q2 (values_sent cache k'))"
    if "(k', m, q2) \<in> set (asked @ rs)" for k' m q2
  proof -
    have "m \<noteq> n" using other that by force
    then show ?thesis using sse_inv_receiver [OF assms(1)] assms(2) that by auto
  qed
  let ?ph = "FanIn (asked @ [(k, n, Suc q)]) rs got'"
  show ?thesis
  proof (rule sse_inv_fan_inI)
    show "se_phase (goto ?ph ?st) = ?ph" by simp
    show "phase_ok p ?ph" using I assms(2) by auto
    show "splits (data_of m (se_events (goto ?ph ?st))) (H k') (values_sent cache k')"
      if "(k', m) \<in> set (sse_keys p)" for k' m using keys [OF that] by simp
    show "q2 \<le> length (values_sent cache k') \<and>
        splits (data_of m (se_events (goto ?ph ?st))) (H k') (take q2 (values_sent cache k'))"
      if "(k', m, q2) \<in> set ((asked @ [(k, n, Suc q)]) @ rs)" for k' m q2
      using that new assms(3) recv [of k' m q2] by auto
  qed (use I in simp)
qed

lemma sse_inv_skip:
  "sse_inv p H cache st \<Longrightarrow> se_phase st = Initial (x # ks) \<Longrightarrow> sse_inv p H cache (goto (Initial ks) st)"
  "sse_inv p H cache st \<Longrightarrow> se_phase st = Subscribing (x # ks) rs \<Longrightarrow> sse_inv p H cache (goto (Subscribing ks rs) st)"
  "sse_inv p H cache st \<Longrightarrow> sse_inv p H cache (goto Finished st)"
  by (auto simp: sse_inv_def dest: suffix_ConsD)

lemma sse_inv_next_loop:
  "sse_inv p H cache st \<Longrightarrow> se_phase st = Initial [] \<Longrightarrow> sse_inv p H cache (goto (Subscribing (sse_keys p) []) st)"
  "sse_inv p H cache st \<Longrightarrow> se_phase st = Subscribing [] rs \<Longrightarrow> sse_inv p H cache (goto (FanIn [] rs False) st)"
  "sse_inv p H cache st \<Longrightarrow> se_phase st = FanIn asked [] got \<Longrightarrow> sse_inv p H cache (goto (FanIn [] asked False) st)"
  by (auto simp: sse_inv_def sse_keys_names)

context broadcast_spec
begin

lemma sse_inv_step:
  assumes I: "sse_inv p H cache st"
  shows "sse_inv p H cache (sse_step TR p cache st)"
proof (cases "se_phase st")
  case (Initial ks)
  then show ?thesis using I sse_inv_initial [OF I] sse_inv_skip(1) [OF I] sse_inv_next_loop(1) [OF I]
    by (cases ks) (auto simp: sse_step_def split: option.split prod.split)
next
  case (Subscribing ks rs)
  then show ?thesis using I sse_inv_subscribe [OF I] sse_inv_skip(2) [OF I] sse_inv_next_loop(2) [OF I]
    by (cases ks) (auto simp: sse_step_def cache_subscribe_def split: option.split prod.split)
next
  case (FanIn asked rs got)
  show ?thesis
  proof (cases rs)
    case Nil
    then show ?thesis using FanIn sse_inv_next_loop(3) [OF I] by (simp add: sse_step_def)
  next
    case (Cons r rs')
    obtain k n q where r: "r = (k, n, q)" by (cases r) auto
    with FanIn Cons have ph: "se_phase st = FanIn asked ((k, n, q) # rs') got" by simp
    have q: "q \<le> length (values_sent cache k)" using sse_inv_receiver [OF I, of k n q] ph by auto
    then show ?thesis
    proof (cases rule: recv_cases)
      case 1
      then show ?thesis using sse_inv_move [OF I ph order_refl q] by (simp add: sse_step_def ph)
    next
      case 2
      then show ?thesis using sse_inv_receive [OF I ph] by (simp add: sse_step_def ph)
    next
      case 3
      then show ?thesis using sse_inv_move [OF I ph, of "length (values_sent cache k) - cap"] by (simp add: sse_step_def ph)
    qed
  qed
next
  case Finished
  then show ?thesis using I by (simp add: sse_step_def)
qed

end

text \<open>The values a key has had: the one it starts with and those written to it.\<close>

definition mirrored_values :: "cache_broadcasts \<Rightarrow> sse_action list \<Rightarrow> string \<Rightarrow> string set" where
  "mirrored_values cache acts key = {v. get_latest cache key = Some v \<or> (\<exists>t. Update t key v \<in> set acts)}"

context broadcast_spec
begin

lemma sse_inv_exec:
  "sse_exec TR p acts (cache, sse_start p) = (cache', st) \<Longrightarrow> sse_inv p (mirrored_values cache acts) cache' st"
proof (induction acts arbitrary: cache' st rule: rev_induct)
  case Nil
  then show ?case
    by (auto simp: sse_exec_def sse_start_def data_of_def mirrored_values_def intro!: sse_inv_initialI)
next
  case (snoc a acts)
  obtain c1 st1 where e: "sse_exec TR p acts (cache, sse_start p) = (c1, st1)" by (meson surj_pair)
  note I = snoc.IH [OF e]
  show ?case
  proof (cases a)
    case (Update t k v)
    then have "cache' = cache_update t k v c1" "st = st1" using snoc.prems e by (auto simp: sse_exec_def)
    then show ?thesis using Update by (auto intro!: sse_inv_update [OF I] simp: mirrored_values_def)
  next
    case Poll
    then have "cache' = c1" "st = sse_step TR p c1 st1" using snoc.prems e by (auto simp: sse_exec_def)
    moreover have "mirrored_values cache (acts @ [a]) = mirrored_values cache acts"
      by (auto simp: mirrored_values_def Poll fun_eq_iff)
    ultimately show ?thesis using sse_inv_step [OF I] by simp
  qed
qed

end

section \<open>Values that are not seen\<close>

text \<open>A key whose first value was sent, if it had one, and that has no receiver yet.\<close>

fun unsubscribed :: "string \<times> string \<Rightarrow> sse_phase \<Rightarrow> bool" where
  "unsubscribed kn (Initial ks) \<longleftrightarrow> snd kn \<notin> snd ` set ks"
| "unsubscribed kn (Subscribing ks rs) \<longleftrightarrow> kn \<in> set ks"
| "unsubscribed kn _ \<longleftrightarrow> False"

text \<open>Nothing is left to be sent for the kind \<open>n\<close>, whose key is \<open>k\<close>.\<close>

fun quiet_phase :: "string \<Rightarrow> string \<Rightarrow> nat \<Rightarrow> sse_phase \<Rightarrow> bool" where
  "quiet_phase k n len (Initial ks) \<longleftrightarrow> n \<notin> snd ` set ks"
| "quiet_phase k n len (Subscribing ks rs) \<longleftrightarrow>
     (\<forall>k'. (k', n) \<in> set ks \<longrightarrow> k' = k) \<and> (\<forall>k' q. (k', n, q) \<in> set rs \<longrightarrow> k' = k \<and> q = len)"
| "quiet_phase k n len (FanIn asked rs got) \<longleftrightarrow> (\<forall>k' q. (k', n, q) \<in> set (asked @ rs) \<longrightarrow> k' = k \<and> q = len)"
| "quiet_phase k n len Finished \<longleftrightarrow> True"

lemma unsubscribed_quiet:
  assumes "sse_inv p H cache st" "unsubscribed (k, n) (se_phase st)" "(k, n) \<in> set (sse_keys p)"
  shows "quiet_phase k n len (se_phase st)"
proof (cases "se_phase st")
  case (Subscribing ks rs)
  then have sub: "set ks \<subseteq> set (sse_keys p)" and d: "distinct (map (fst \<circ> snd) rs @ map snd ks)" and kn: "(k, n) \<in> set ks"
    using assms(1,2) by (auto simp: sse_inv_def)
  have "(k', n, q) \<notin> set rs" for k' q
  proof
    assume "(k', n, q) \<in> set rs"
    then have "n \<in> set (map (fst \<circ> snd) rs)" by force
    moreover have "n \<in> set (map snd ks)" using kn by force
    ultimately show False using d by auto
  qed
  then show ?thesis using Subscribing sub sse_key_unique [OF assms(3)] by auto
qed (use assms(2) in auto)

context broadcast_spec
begin

lemma quiet_step:
  assumes "quiet_phase k n (length (values_sent cache k)) (se_phase st)" "(k, n) \<in> set (sse_keys p)"
  shows "quiet_phase k n (length (values_sent cache k)) (se_phase (sse_step TR p cache st)) \<and>
    data_of n (se_events (sse_step TR p cache st)) = data_of n (se_events st)"
proof (cases "se_phase st")
  case (Initial ks)
  have "\<forall>k'. (k', n) \<in> set (sse_keys p) \<longrightarrow> k' = k" using sse_key_unique [OF assms(2)] by blast
  then show ?thesis using assms(1) Initial
    by (cases ks) (auto simp: sse_step_def split: option.split)
next
  case (Subscribing ks rs)
  define len where "len = length (values_sent cache k)"
  have q: "cache_subscribe cache k = Some q \<Longrightarrow> q = len" for q unfolding len_def by (rule cache_subscribe_pos)
  have "quiet_phase k n len (se_phase (sse_step TR p cache st)) \<and>
      data_of n (se_events (sse_step TR p cache st)) = data_of n (se_events st)"
    using assms(1) [folded len_def] Subscribing q
    by (cases ks) (auto simp: sse_step_def split: option.split)
  then show ?thesis by (simp add: len_def)
next
  case (FanIn asked rs got)
  show ?thesis
  proof (cases rs)
    case (Cons r rs')
    obtain k' m q where r: "r = (k', m, q)" by (cases r) auto
    show ?thesis
    proof (cases "m = n")
      case True
      then have "k' = k" "q = length (values_sent cache k)" using assms FanIn Cons r by auto
      then show ?thesis using assms FanIn Cons r recv_empty [of "values_sent cache k"] by (auto simp: sse_step_def)
    next
      case False
      then show ?thesis using assms FanIn Cons r
        by (auto simp: sse_step_def split: prod.split try_recv.split)
    qed
  qed (use assms FanIn in \<open>fastforce simp: sse_step_def\<close>)
qed (simp add: sse_step_def)

lemma quiet_exec:
  assumes "sse_exec TR p acts (cache, st) = (cache', st')" "\<forall>t v. Update t k v \<notin> set acts"
    and "quiet_phase k n (length (values_sent cache k)) (se_phase st)" "(k, n) \<in> set (sse_keys p)"
  shows "data_of n (se_events st') = data_of n (se_events st) \<and> cache' k = cache k"
  using assms
proof (induction acts arbitrary: cache st)
  case (Cons a acts)
  show ?case
  proof (cases a)
    case (Update t k0 v)
    then have k0: "k0 \<noteq> k" using Cons.prems(2) by auto
    then have "cache_update t k0 v cache k = cache k" by (auto simp: cache_update_def split: option.split)
    then show ?thesis using Cons.IH [of "cache_update t k0 v cache" st] Cons.prems Update
      by (simp add: sse_exec_def values_sent_def)
  next
    case Poll
    then show ?thesis using Cons.IH [of cache "sse_step TR p cache st"] Cons.prems quiet_step [OF Cons.prems(3,4)]
      by (simp add: sse_exec_def)
  qed
qed (simp add: sse_exec_def)

end

section \<open>Catching up\<close>

text \<open>What asking a receiver once, or \<open>i\<close> times, gives while nothing is sent.\<close>

definition ask_out :: "try_fun \<Rightarrow> string list \<Rightarrow> nat \<Rightarrow> string list" where
  "ask_out TR xs q = (case fst (TR xs q) of TryValue v \<Rightarrow> [v] | _ \<Rightarrow> [])"

fun asks :: "try_fun \<Rightarrow> string list \<Rightarrow> nat \<Rightarrow> nat \<Rightarrow> string list" where
  "asks TR xs 0 q = []"
| "asks TR xs (Suc i) q = ask_out TR xs q @ asks TR xs i (snd (TR xs q))"

definition ask_all :: "try_fun \<Rightarrow> cache_broadcasts \<Rightarrow> receiver list \<Rightarrow> receiver list" where
  "ask_all TR cache = map (\<lambda>(k, n, q). (k, n, snd (TR (values_sent cache k) q)))"

definition round_events :: "try_fun \<Rightarrow> cache_broadcasts \<Rightarrow> receiver list \<Rightarrow> (string \<times> string) list" where
  "round_events TR cache rs = concat (map (\<lambda>(k, n, q). map (Pair n) (ask_out TR (values_sent cache k) q)) rs)"

lemma data_of_append [simp]: "data_of n (xs @ ys) = data_of n xs @ data_of n ys"
  by (simp add: data_of_def)

lemma data_of_map_Pair: "data_of n (map (Pair m) vs) = (if m = n then vs else [])"
  by (induction vs) (auto simp: data_of_def)

lemma data_of_round:
  assumes "distinct (map (fst \<circ> snd) rs)"
  shows "(k, n, q) \<in> set rs \<Longrightarrow> data_of n (round_events TR cache rs) = ask_out TR (values_sent cache k) q"
    "n \<notin> (fst \<circ> snd) ` set rs \<Longrightarrow> data_of n (round_events TR cache rs) = []"
proof -
  have none: "n \<notin> (fst \<circ> snd) ` set rs \<Longrightarrow> data_of n (round_events TR cache rs) = []" for rs
  proof (induction rs)
    case (Cons r rs)
    then show ?case by (cases r) (auto simp: round_events_def data_of_map_Pair)
  qed (simp add: round_events_def data_of_def)
  then show "n \<notin> (fst \<circ> snd) ` set rs \<Longrightarrow> data_of n (round_events TR cache rs) = []" .
  show "(k, n, q) \<in> set rs \<Longrightarrow> data_of n (round_events TR cache rs) = ask_out TR (values_sent cache k) q"
    using assms
  proof (induction rs)
    case (Cons r rs)
    show ?case
    proof (cases "r = (k, n, q)")
      case True
      then show ?thesis using Cons.prems none [of rs] by (simp add: round_events_def data_of_map_Pair)
    next
      case False
      then have "fst (snd r) \<noteq> n" using Cons.prems by (auto simp: rev_image_eqI)
      then show ?thesis using Cons False by (cases r) (auto simp: round_events_def data_of_map_Pair)
    qed
  qed simp
qed

context broadcast_spec
begin

lemma asks_exact:
  assumes "q \<le> length xs" "length xs - q \<le> i"
  shows "asks TR xs i q = drop (max q (length xs - cap)) xs"
  using assms
proof (induction i arbitrary: q)
  case (Suc i)
  from Suc.prems(1) show ?case
  proof (cases rule: recv_cases)
    case 1
    then show ?thesis using Suc.IH [of q] by (simp add: ask_out_def)
  next
    case 2
    then have "asks TR xs i (Suc q) = drop (max (Suc q) (length xs - cap)) xs" using Suc by simp
    moreover have "max (Suc q) (length xs - cap) = Suc q" "max q (length xs - cap) = q"
    proof -
      have "\<not> cap < length xs - q" using recv_lagged [of xs q] 2 by auto
      then show "max (Suc q) (length xs - cap) = Suc q" "max q (length xs - cap) = q" by auto
    qed
    ultimately show ?thesis using 2 by (simp add: ask_out_def Cons_nth_drop_Suc)
  next
    case (3 n)
    then have "asks TR xs i (length xs - cap) = drop (max (length xs - cap) (length xs - cap)) xs"
      using Suc.prems by (intro Suc.IH) auto
    then show ?thesis using 3 by (simp add: ask_out_def)
  qed
qed simp

lemma fan_in_round:
  assumes "se_phase st = FanIn asked rs got" "\<forall>(k, n, q) \<in> set rs. q \<le> length (values_sent cache k)"
  shows "\<exists>st'. sse_exec TR p (replicate (Suc (length rs)) Poll) (cache, st) = (cache, st') \<and>
    se_phase st' = FanIn [] (asked @ ask_all TR cache rs) False \<and>
    se_events st' = se_events st @ round_events TR cache rs"
  using assms
proof (induction rs arbitrary: asked got st)
  case Nil
  then show ?case by (simp add: sse_exec_def sse_step_def ask_all_def round_events_def)
next
  case (Cons r rs)
  obtain k n q where r: "r = (k, n, q)" by (cases r) auto
  let ?q = "snd (TR (values_sent cache k) q)" and ?st = "sse_step TR p cache st"
  have "q \<le> length (values_sent cache k)" using Cons.prems r by simp
  then have st: "(\<exists>g. se_phase ?st = FanIn (asked @ [(k, n, ?q)]) rs g) \<and>
      se_events ?st = se_events st @ map (Pair n) (ask_out TR (values_sent cache k) q)"
    using Cons.prems(1) by (cases rule: recv_cases) (auto simp: sse_step_def r ask_out_def emit_def)
  then obtain g where g: "se_phase ?st = FanIn (asked @ [(k, n, ?q)]) rs g" by blast
  have "\<forall>(k, n, q) \<in> set rs. q \<le> length (values_sent cache k)" using Cons.prems(2) by simp
  from Cons.IH [OF g this] st show ?case
    by (auto simp: sse_exec_def r ask_all_def round_events_def)
qed

lemma sse_inv_polls:
  "sse_inv p H cache st \<Longrightarrow> sse_exec TR p (replicate i Poll) (cache, st) = (cache', st') \<Longrightarrow> cache' = cache \<and> sse_inv p H cache st'"
  by (induction i arbitrary: st) (auto simp: sse_exec_def dest: sse_inv_step)

lemma one_round:
  assumes I: "sse_inv p H cache st" and ph: "se_phase st = FanIn asked rs got"
  obtains i st' where "sse_exec TR p (replicate i Poll) (cache, st) = (cache, st')" "sse_inv p H cache st'"
    "se_phase st' = FanIn [] (asked @ ask_all TR cache rs) False"
    "\<And>k n q. (k, n, q) \<in> set rs \<Longrightarrow> data_of n (se_events st') = data_of n (se_events st) @ ask_out TR (values_sent cache k) q"
    "\<And>k n q. (k, n, q) \<in> set asked \<Longrightarrow> data_of n (se_events st') = data_of n (se_events st)"
proof -
  have "\<forall>(k, n, q) \<in> set rs. q \<le> length (values_sent cache k)" using sse_inv_receiver [OF I] ph by auto
  from fan_in_round [OF ph this] obtain st' where
    st': "sse_exec TR p (replicate (Suc (length rs)) Poll) (cache, st) = (cache, st')"
      "se_phase st' = FanIn [] (asked @ ask_all TR cache rs) False" "se_events st' = se_events st @ round_events TR cache rs"
    by blast
  have d: "distinct (map (fst \<circ> snd) (asked @ rs))" using I ph by (simp add: sse_inv_def)
  then have dr: "distinct (map (fst \<circ> snd) rs)" by simp
  have no: "n \<notin> (fst \<circ> snd) ` set rs" if "(k, n, q) \<in> set asked" for k n q
    using d that by (force simp: image_iff)
  show thesis
  proof (rule that [OF st'(1) _ st'(2)])
    show "sse_inv p H cache st'" using sse_inv_polls [OF I st'(1)] by simp
    show "data_of n (se_events st') = data_of n (se_events st) @ ask_out TR (values_sent cache k) q"
      if "(k, n, q) \<in> set rs" for k n q by (simp add: st'(3) data_of_round(1) [OF dr that])
    show "data_of n (se_events st') = data_of n (se_events st)" if "(k, n, q) \<in> set asked" for k n q
      by (simp add: st'(3) data_of_round(2) [OF dr no [OF that]])
  qed
qed

lemma rounds:
  assumes "sse_inv p H cache st" "se_phase st = FanIn [] rs got" "(k, n, q) \<in> set rs"
  shows "\<exists>i st'. sse_exec TR p (replicate i Poll) (cache, st) = (cache, st') \<and>
    data_of n (se_events st') = data_of n (se_events st) @ asks TR (values_sent cache k) m q"
  using assms
proof (induction m arbitrary: st rs got q)
  case 0
  show ?case by (intro exI [of _ "0 :: nat"] exI [of _ st]) (simp add: sse_exec_def)
next
  case (Suc m)
  obtain i st1 where r: "sse_exec TR p (replicate i Poll) (cache, st) = (cache, st1)" "sse_inv p H cache st1"
    "se_phase st1 = FanIn [] ([] @ ask_all TR cache rs) False"
    "data_of n (se_events st1) = data_of n (se_events st) @ ask_out TR (values_sent cache k) q"
    using one_round [OF Suc.prems(1,2)] Suc.prems(3) by metis
  have "(k, n, snd (TR (values_sent cache k) q)) \<in> set ([] @ ask_all TR cache rs)"
    using Suc.prems(3) by (force simp: ask_all_def)
  from Suc.IH [OF r(2,3) this] obtain j st2 where s: "sse_exec TR p (replicate j Poll) (cache, st1) = (cache, st2)"
    "data_of n (se_events st2) = data_of n (se_events st1) @ asks TR (values_sent cache k) m (snd (TR (values_sent cache k) q))"
    by blast
  have "sse_exec TR p (replicate (i + j) Poll) (cache, st) = (cache, st2)"
    using r(1) s(1) by (simp add: sse_exec_def replicate_add)
  then show ?case using r(4) s(2) by (metis append.assoc asks.simps(2))
qed

end

section \<open>A run\<close>

text \<open>A stream over a cache in which only the metrics have a value: the first values, then the receivers.\<close>

definition run_cache :: cache_broadcasts where
  "run_cache = cache_update 0 ''cache:metrics'' ''a'' (new_cache 0)"

lemma run_latest: "get_latest run_cache k = (if k = ''cache:metrics'' then Some ''a'' else None)"
  by (simp add: run_cache_def get_latest_def cache_update_def new_cache_def poll_specs_def)

lemma run_subscribe: "cache_subscribe run_cache k = (if k \<in> set poll_specs then Some 0 else None)"
  by (simp add: run_cache_def cache_subscribe_def cache_update_def new_cache_def poll_specs_def WS_BROADCAST_INTERVAL_MS_def)

lemma replicate_numeral: "replicate (numeral n) x = x # replicate (pred_numeral n) x"
  by (simp add: numeral_eq_Suc)

lemma run_first_values:
  "sse_exec TR ''BTC-USDT'' (replicate 7 Poll) (run_cache, sse_start ''BTC-USDT'') =
     (run_cache, \<lparr>se_phase = Subscribing (sse_keys ''BTC-USDT'') [], se_events = [(''metrics'', ''a'')]\<rparr>)"
  by (simp add: sse_exec_def replicate_numeral sse_start_def sse_keys_def sse_step_def run_latest goto_def emit_def)

lemma subscribe_all:
  assumes "\<forall>x \<in> set ks. cache_subscribe cache (fst x) = Some q" "se_phase st = Subscribing ks rs"
  shows "sse_exec TR p (replicate (Suc (length ks)) Poll) (cache, st) =
    (cache, goto (FanIn [] (rs @ map (\<lambda>(k, n). (k, n, q)) ks) False) st)"
  using assms
proof (induction ks arbitrary: rs st)
  case (Cons x ks)
  obtain k n where x: "x = (k, n)" by (cases x)
  have "sse_step TR p cache st = goto (Subscribing ks (rs @ [(k, n, q)])) st" using Cons.prems by (simp add: sse_step_def x)
  with Cons.IH [of "goto (Subscribing ks (rs @ [(k, n, q)])) st" "rs @ [(k, n, q)]"] Cons.prems x
  show ?case by (simp add: sse_exec_def goto_def)
qed (simp add: sse_exec_def sse_step_def)

lemma run_receivers:
  "sse_exec TR ''BTC-USDT'' (replicate 7 Poll @ replicate 7 Poll) (run_cache, sse_start ''BTC-USDT'') =
     (run_cache, \<lparr>se_phase = FanIn [] (map (\<lambda>(k, n). (k, n, 0)) (sse_keys ''BTC-USDT'')) False, se_events = [(''metrics'', ''a'')]\<rparr>)"
proof -
  have "\<forall>x \<in> set (sse_keys ''BTC-USDT''). cache_subscribe run_cache (fst x) = Some 0"
    by (simp add: sse_keys_def run_subscribe poll_specs_def)
  note s = subscribe_all [OF this, where st = "\<lparr>se_phase = Subscribing (sse_keys ''BTC-USDT'') [], se_events = [(''metrics'', ''a'')]\<rparr>" and rs = "[]"]
  have l: "Suc (length (sse_keys ''BTC-USDT'')) = 7" by (simp add: sse_keys_def)
  show ?thesis
    using s [of TR "''BTC-USDT''"] run_first_values [of TR] unfolding l by (simp add: sse_exec_def goto_def)
qed

lemma run_update:
  "values_sent (cache_update 500 ''cache:metrics'' ''b'' run_cache) ''cache:metrics'' = [''b'']"
  by (simp add: run_cache_def values_sent_def cache_update_def new_cache_def poll_specs_def WS_BROADCAST_INTERVAL_MS_def)

section \<open>Properties\<close>

text \<open>
  C18: the events of a stream are in order and true. In every run, with any
  updates of the mirrored values in between, the data sent under the name of a key are at most
  one first value, which the key has had, followed by values broadcast for that key,
  in the order of the broadcasts and each at most once.
\<close>

theorem sse_events_in_order:
  assumes "broadcast_spec TR cap" and "sse_exec TR pair_id acts (cache, sse_start pair_id) = (cache', st)"
    and "(key, event_name) \<in> set (sse_keys pair_id)"
  shows "\<exists>first rest. data_of event_name (se_events st) = first @ rest \<and> length first \<le> 1 \<and>
    set first \<subseteq> mirrored_values cache acts key \<and> subseq rest (values_sent cache' key)"
  using broadcast_spec.sse_inv_exec [OF assms(1,2)] assms(3)
  by (auto simp: sse_inv_def splits_def dest!: bspec)

theorem sse_events_in_order_witness:
  "\<exists>cache st first rest. sse_exec (ring_recv CHANNEL_CAP) ''BTC-USDT'' [Update 500 ''cache:metrics'' ''b'', Poll]
      (run_cache, sse_start ''BTC-USDT'') = (cache, st) \<and>
    data_of ''metrics'' (se_events st) = first @ rest \<and> length first \<le> 1 \<and> set first \<subseteq> {''a'', ''b''} \<and> subseq rest [''b'']"
proof -
  let ?acts = "[Update 500 ''cache:metrics'' ''b'', Poll]"
  obtain cache st where e: "sse_exec (ring_recv CHANNEL_CAP) ''BTC-USDT'' ?acts (run_cache, sse_start ''BTC-USDT'') = (cache, st)"
    by (meson surj_pair)
  have c: "cache = cache_update 500 ''cache:metrics'' ''b'' run_cache" using e by (simp add: sse_exec_def)
  have "(''cache:metrics'', ''metrics'') \<in> set (sse_keys ''BTC-USDT'')" by (simp add: sse_keys_def)
  from sse_events_in_order [OF ring.broadcast_spec_axioms e this] show ?thesis
    unfolding c run_update using e c by (auto simp: mirrored_values_def run_latest)
qed

text \<open>
  C31: a stream catches up. A stream that has its receivers, one of them behind at
  position \<open>q\<close> of its channel, sends after finitely many steps without further
  updates all values from \<open>q\<close> on that the channel still keeps (the last \<open>cap\<close> of them, 64 in the gateway), the
  last one included, and nothing else of its kind.
\<close>

theorem sse_stream_catches_up:
  assumes "broadcast_spec TR cap" and "sse_exec TR pair_id acts (cache, sse_start pair_id) = (cache', st)"
    and "se_phase st = FanIn asked rs got_msg" and "(key, event_name, q) \<in> set (asked @ rs)"
  shows "\<exists>i st'. sse_exec TR pair_id (replicate i Poll) (cache', st) = (cache', st') \<and>
    data_of event_name (se_events st') =
      data_of event_name (se_events st) @ drop (max q (length (values_sent cache' key) - cap)) (values_sent cache' key)"
proof -
  let ?xs = "values_sent cache' key"
  note I = broadcast_spec.sse_inv_exec [OF assms(1,2)]
  have q: "q \<le> length ?xs" using sse_inv_receiver [OF I] assms(3,4) by auto
  obtain i st1 where r: "sse_exec TR pair_id (replicate i Poll) (cache', st) = (cache', st1)"
    "sse_inv pair_id (mirrored_values cache acts) cache' st1" "se_phase st1 = FanIn [] (asked @ ask_all TR cache' rs) False"
    and d: "\<And>k n q. (k, n, q) \<in> set rs \<Longrightarrow> data_of n (se_events st1) = data_of n (se_events st) @ ask_out TR (values_sent cache' k) q"
    "\<And>k n q. (k, n, q) \<in> set asked \<Longrightarrow> data_of n (se_events st1) = data_of n (se_events st)"
    using broadcast_spec.one_round [OF assms(1) I assms(3)] by metis
  obtain m q1 where m: "(key, event_name, q1) \<in> set (asked @ ask_all TR cache' rs)"
    "data_of event_name (se_events st1) @ asks TR ?xs m q1 = data_of event_name (se_events st) @ asks TR ?xs (length ?xs - q) q \<or>
     data_of event_name (se_events st1) @ asks TR ?xs m q1 = data_of event_name (se_events st) @ asks TR ?xs (Suc (length ?xs - q)) q"
  proof (cases "(key, event_name, q) \<in> set asked")
    case True
    then show ?thesis using that [of q "length ?xs - q"] d(2) by auto
  next
    case False
    then have "(key, event_name, q) \<in> set rs" using assms(4) by simp
    moreover from this have "(key, event_name, snd (TR ?xs q)) \<in> set (ask_all TR cache' rs)" by (force simp: ask_all_def)
    ultimately show ?thesis using that [of "snd (TR ?xs q)" "length ?xs - q"] d(1) by auto
  qed
  have "data_of event_name (se_events st1) @ asks TR ?xs m q1 = data_of event_name (se_events st) @ drop (max q (length ?xs - cap)) ?xs"
    using m(2) broadcast_spec.asks_exact [OF assms(1) q, of "length ?xs - q"]
      broadcast_spec.asks_exact [OF assms(1) q, of "Suc (length ?xs - q)"] by auto
  moreover obtain j st2 where "sse_exec TR pair_id (replicate j Poll) (cache', st1) = (cache', st2)"
    "data_of event_name (se_events st2) = data_of event_name (se_events st1) @ asks TR ?xs m q1"
    using broadcast_spec.rounds [OF assms(1) r(2,3) m(1)] by blast
  moreover have "sse_exec TR pair_id (replicate (i + j) Poll) (cache', st) = (cache', st2)"
    using r(1) calculation(2) by (simp add: sse_exec_def replicate_add)
  ultimately show ?thesis by metis
qed

theorem sse_stream_catches_up_witness:
  "\<exists>i cache st. sse_exec (ring_recv CHANNEL_CAP) ''BTC-USDT''
      (replicate 7 Poll @ replicate 7 Poll @ Update 500 ''cache:metrics'' ''b'' # replicate i Poll)
      (run_cache, sse_start ''BTC-USDT'') = (cache, st) \<and> data_of ''metrics'' (se_events st) = [''a'', ''b'']"
proof -
  let ?acts = "(replicate 7 Poll @ replicate 7 Poll) @ [Update 500 ''cache:metrics'' ''b'']"
  let ?c = "cache_update 500 ''cache:metrics'' ''b'' run_cache" and ?rs = "map (\<lambda>(k, n). (k, n, 0)) (sse_keys ''BTC-USDT'')"
  let ?st = "\<lparr>se_phase = FanIn [] ?rs False, se_events = [(''metrics'', ''a'')]\<rparr>"
  have e: "sse_exec (ring_recv CHANNEL_CAP) ''BTC-USDT'' ?acts (run_cache, sse_start ''BTC-USDT'') = (?c, ?st)"
    using run_receivers [of "ring_recv CHANNEL_CAP"] by (simp add: sse_exec_def)
  have "(''cache:metrics'', ''metrics'', 0) \<in> set ([] @ ?rs)" by (simp add: sse_keys_def)
  from sse_stream_catches_up [OF ring.broadcast_spec_axioms e _ this, of False]
  obtain i st' where "sse_exec (ring_recv CHANNEL_CAP) ''BTC-USDT'' (replicate i Poll) (?c, ?st) = (?c, st')"
    "data_of ''metrics'' (se_events st') = [''a'', ''b'']"
    by (auto simp: run_update CHANNEL_CAP_def data_of_def)
  then show ?thesis using e by (auto simp: sse_exec_def)
qed

text \<open>
  An update between the first value of a key and its subscription is lost. The
  stream sends the first values before it subscribes. When a key is updated after
  its first value was sent and before it has a receiver, no event shows the new
  value until the key is updated again, although the gateway mirrors it.
\<close>

theorem sse_misses_update:
  assumes "broadcast_spec TR cap" and "sse_exec TR pair_id acts (cache, sse_start pair_id) = (cache1, st1)"
    and "(key, event_name) \<in> set (sse_keys pair_id)" and "unsubscribed (key, event_name) (se_phase st1)" and "key \<in> dom cache1"
    and "sse_exec TR pair_id acts' (cache_update now_ms key val cache1, st1) = (cache2, st2)"
    and "\<forall>t v. Update t key v \<notin> set acts'"
  shows "data_of event_name (se_events st2) = data_of event_name (se_events st1) \<and> get_latest cache2 key = Some val"
proof -
  note I = broadcast_spec.sse_inv_exec [OF assms(1,2)]
  from broadcast_spec.quiet_exec [OF assms(1,6,7) unsubscribed_quiet [OF I assms(4,3)] assms(3)]
  have "data_of event_name (se_events st2) = data_of event_name (se_events st1)" "cache2 key = cache_update now_ms key val cache1 key"
    by blast+
  then show ?thesis using assms(5) by (auto simp: get_latest_def cache_update_def)
qed

theorem sse_misses_update_witness:
  "\<exists>cache st. sse_exec (ring_recv CHANNEL_CAP) ''BTC-USDT''
      (replicate 7 Poll @ Update 500 ''cache:metrics'' ''b'' # replicate 1000 Poll)
      (run_cache, sse_start ''BTC-USDT'') = (cache, st) \<and>
    data_of ''metrics'' (se_events st) = [''a''] \<and> get_latest cache ''cache:metrics'' = Some ''b''"
proof -
  let ?TR = "ring_recv CHANNEL_CAP" and ?p = "''BTC-USDT''" and ?k = "''cache:metrics''"
  let ?st = "\<lparr>se_phase = Subscribing (sse_keys ?p) [], se_events = [(''metrics'', ''a'')]\<rparr>"
  obtain cache st where e: "sse_exec ?TR ?p (replicate 1000 Poll) (cache_update 500 ?k ''b'' run_cache, ?st) = (cache, st)"
    by (meson surj_pair)
  have k: "(?k, ''metrics'') \<in> set (sse_keys ?p)" "unsubscribed (?k, ''metrics'') (se_phase ?st)" by (simp_all add: sse_keys_def)
  have "get_latest run_cache ?k = Some ''a''" by (simp add: run_latest)
  then have d: "?k \<in> dom run_cache" by (auto simp: get_latest_def bind_eq_Some_conv)
  have "\<forall>t v. Update t ?k v \<notin> set (replicate 1000 Poll)" by simp
  from sse_misses_update [OF ring.broadcast_spec_axioms run_first_values k d e this]
  have "data_of ''metrics'' (se_events st) = [''a''] \<and> get_latest cache ?k = Some ''b''" by (simp add: data_of_def)
  moreover have "sse_exec ?TR ?p (replicate 7 Poll @ Update 500 ?k ''b'' # replicate 1000 Poll) (run_cache, sse_start ?p) = (cache, st)"
    using e run_first_values [of ?TR] by (simp add: sse_exec_def)
  ultimately show ?thesis by blast
qed

end
