(* ===== verification/Metrics_View.thy ===== *)
theory Metrics_View
  imports Queue_Worker Mirror_Props
begin

text \<open>
  The metrics shown to clients: one round of \<open>metrics_refresh_loop_worker\<close> of
  \<open>api/src/routes.rs\<close>, which reads counters and samples of all pairs, computes
  percentiles, averages and rates and publishes four values. Quotients are doubles:
  \<open>f64_div\<close> is the quotient rounded to 53 bits, half to even.
\<close>

section \<open>Model\<close>

text \<open>
  The quotient of two non-negative doubles with integral values: with 201 binary
  places, and a one at the end when more would follow, rounding gives the nearest double.
\<close>

definition f64_div :: "int \<Rightarrow> int \<Rightarrow> rat" where
  "f64_div a b =
     (let q = a * 2 ^ 200 div b; sticky = (if a * 2 ^ 200 mod b = 0 then 0 else 1) in
      of_int (f64_round (2 * q + sticky)) / 2 ^ 201)"

definition i64_add :: "int \<Rightarrow> int \<Rightarrow> int" where
  "i64_add a b = (a + b + 2 ^ 63) mod 2 ^ 64 - 2 ^ 63"

definition total_counts :: "'s valkey \<Rightarrow> ('s, int \<times> int) vm" where
  "total_counts V =
     vfoldM (\<lambda>pair_id (total_orders, total_trades).
       vbind (vor (get_order_count V pair_id) 0) (\<lambda>n.
       vbind (vor (get_trade_count V pair_id) 0) (\<lambda>m.
       vret (i64_add total_orders n, i64_add total_trades m)))) PAIRS (0, 0)"

definition all_samples :: "(string \<Rightarrow> ('s, nat list) vm) \<Rightarrow> ('s, nat list) vm" where
  "all_samples get = vfoldM (\<lambda>pair_id acc. vbind (vor (get pair_id) []) (\<lambda>samples. vret (acc @ samples))) PAIRS []"

definition percentile_fields :: "int \<times> int \<times> int \<Rightarrow> (string \<times> json) list" where
  "percentile_fields ps =
     (case ps of (p50, p95, p99) \<Rightarrow>
       [(''p50'', JReal (of_int p50)), (''p95'', JReal (of_int p95)), (''p99'', JReal (of_int p99))])"

definition metrics_val :: "int \<times> int \<Rightarrow> nat list \<Rightarrow> json" where
  "metrics_val totals all_latency =
     jobj [(''orders_per_sec'', JInt (fst totals)), (''matches_per_sec'', JInt (snd totals)),
           (''trades_per_sec'', JInt (snd totals)), (''active_pairs'', JInt 3), (''active_workers'', JInt 1),
           (''latency'', jobj (percentile_fields (compute_percentiles all_latency))), (''streams'', jobj [])]"

text \<open>\<open>sum::<u64>\<close> wraps; a wait of more than a millisecond counts as contended.\<close>

definition wait_stats :: "nat list \<Rightarrow> rat \<times> rat" where
  "wait_stats all_waits =
     (if all_waits = [] then (0, 0)
      else let n = f64_round (int (length all_waits)) in
           (f64_div (f64_round (int (sum_list all_waits mod 2 ^ 64))) n,
            f64_div (f64_round (int (length (filter (\<lambda>v. v > 1) all_waits)))) n))"

definition locks_val :: "nat list \<Rightarrow> json" where
  "locks_val all_waits =
     (case wait_stats all_waits of (avg_wait_ms, contention_rate) \<Rightarrow>
       jobj [(''contention_rate'', JReal contention_rate), (''avg_wait_ms'', JReal avg_wait_ms),
             (''retry_count'', JInt (int (length all_waits))), (''failures'', JInt 0)])"

definition pair_latency :: "string \<Rightarrow> nat list \<Rightarrow> json" where
  "pair_latency pair_id samples =
     jobj ([(''pair_id'', JText pair_id), (''sample_count'', JInt (int (length samples)))] @
           percentile_fields (compute_percentiles samples))"

definition latency_samples :: "'s valkey \<Rightarrow> ('s, json list \<times> nat list) vm" where
  "latency_samples V =
     vfoldM (\<lambda>pair_id (per_pair, all).
       vbind (vor (get_latency_samples V pair_id 1000) []) (\<lambda>samples.
       vret (per_pair @ [pair_latency pair_id samples], all @ samples))) PAIRS ([], [])"

definition latency_val :: "json list \<Rightarrow> nat list \<Rightarrow> json" where
  "latency_val per_pair all =
     jobj ([(''sample_count'', JInt (int (length all)))] @ percentile_fields (compute_percentiles all) @
           [(''per_pair'', JArr per_pair)])"

text \<open>The trades of the last hour per minute: \<open>date_trunc\<close>, \<open>GROUP BY bucket ORDER BY bucket\<close>.\<close>

definition MINUTE :: instant where "MINUTE = 60 * 1000000000"
definition HOUR :: instant where "HOUR = 3600 * 1000000000"

definition throughput_rows :: "instant \<Rightarrow> 'd tables \<Rightarrow> (instant \<times> nat) list" where
  "throughput_rows db_now T =
     (let buckets = map (\<lambda>t. t_created_at t - t_created_at t mod MINUTE)
            (filter (\<lambda>t. t_created_at t \<ge> db_now - HOUR) (tb_trades T)) in
      map (\<lambda>b. (b, count_list buckets b)) (sort (remdups buckets)))"

definition throughput_val :: "'d ext \<Rightarrow> (instant \<times> nat) list \<Rightarrow> json" where
  "throughput_val X rows =
     jobj [(''series'', JArr (map (\<lambda>(b, n). jobj [(''time'', JText (x_time_str X b)), (''count'', JInt (int n))]) rows))]"

definition publish_view :: "'s valkey \<Rightarrow> json_ext \<Rightarrow> string \<Rightarrow> json \<Rightarrow> (('s, 'd) world, unit) vm" where
  "publish_view V J key val = vor (on_vk (set_and_publish V key (js_str J val))) ()"

text \<open>One round; the error of the database query leaves an empty series.\<close>

definition metrics_refresh :: "'s valkey \<Rightarrow> 'd ext \<Rightarrow> json_ext \<Rightarrow> instant \<Rightarrow> (('s, 'd) world, unit) vm" where
  "metrics_refresh V X J db_now =
     vbind (on_vk (total_counts V)) (\<lambda>totals.
     vbind (on_vk (all_samples (\<lambda>p. get_latency_samples V p 100))) (\<lambda>all_latency.
     vbind (on_vk (all_samples (\<lambda>p. get_lock_wait_samples V p 1000))) (\<lambda>all_waits.
     vbind (on_vk (latency_samples V)) (\<lambda>(per_pair, all).
     vbind (vor (on_pg (pg_query (throughput_rows db_now))) []) (\<lambda>rows.
     vbind (publish_view V J ''cache:metrics'' (metrics_val totals all_latency)) (\<lambda>_.
     vbind (publish_view V J ''cache:lock_metrics'' (locks_val all_waits)) (\<lambda>_.
     vbind (publish_view V J ''cache:latency_metrics'' (latency_val per_pair all)) (\<lambda>_.
     publish_view V J ''cache:throughput'' (throughput_val X rows)))))))))"

section \<open>Rounding does not cross a double\<close>

text \<open>A large number is rounded to one of the two neighbouring multiples of \<open>2 ^ e\<close>, which has 53 digits.\<close>

lemma f64_round_big:
  assumes "2 ^ 53 < (a :: nat)"
  obtains e q r q' where "f64_round (int a) = int (q' * 2 ^ e)" "a = q * 2 ^ e + r" "r < 2 ^ e" "2 ^ 52 \<le> q"
    "0 < e" "q' = q \<or> q' = Suc q \<and> 0 < r"
proof -
  define e where "e = nbits a - 53"
  define q r where "q = a div 2 ^ e" and "r = a mod 2 ^ e"
  define q' where "q' = (if r > 2 ^ (e - 1) \<or> (r = 2 ^ (e - 1) \<and> odd q) then Suc q else q)"
  from nbits_bounds [of a] assms have nb: "2 ^ (nbits a - 1) \<le> a" "a < 2 ^ nbits a" by auto
  have "(53 :: nat) < nbits a" by (rule power_less_imp_less_exp [of 2, OF _ less_trans [OF assms nb(2)]]) simp
  then have e: "nbits a - 1 = 52 + e" "0 < e" by (auto simp: e_def)
  have "2 ^ 52 * 2 ^ e \<le> a" using nb(1) e(1) by (simp add: power_add)
  then have q: "2 ^ 52 \<le> q" by (simp add: q_def less_eq_div_iff_mult_less_eq)
  have "\<not> \<bar>int a\<bar> \<le> 2 ^ 53" using assms by (simp add: zless_nat_eq_int_zless flip: of_nat_power)
  then have "f64_round (int a) = int (q' * 2 ^ e)"
    using assms by (simp add: f64_round_def Let_def e_def q_def r_def q'_def)
  moreover have "a = q * 2 ^ e + r" "r < 2 ^ e" using div_mult_mod_eq [of a "2 ^ e"] by (simp_all add: q_def r_def)
  moreover have "q' = q \<or> q' = Suc q \<and> 0 < r" by (auto simp: q'_def intro: gr0I)
  ultimately show thesis using that q e(2) by blast
qed

lemma f64_round_lower:
  assumes "m * 2 ^ k \<le> (a :: nat)" "m \<le> 2 ^ 53"
  shows "int (m * 2 ^ k) \<le> f64_round (int a)"
proof (cases "a \<le> 2 ^ 53")
  case True
  then have "\<bar>int a\<bar> \<le> 2 ^ 53" by (metis abs_of_nat of_nat_le_iff of_nat_numeral of_nat_power)
  then show ?thesis using assms(1) by (metis f64_round_exact of_nat_le_iff)
next
  case False
  then obtain e q r q' where r: "f64_round (int a) = int (q' * 2 ^ e)" "a = q * 2 ^ e + r" "r < 2 ^ e" "2 ^ 52 \<le> q"
      "0 < e" "q' = q \<or> q' = Suc q \<and> 0 < r"
    using f64_round_big [of a] by (metis not_le)
  have "m * 2 ^ k \<le> q * 2 ^ e"
  proof (cases "e \<le> k")
    case True
    then obtain d where d: "k = e + d" using le_iff_add by blast
    have "(m * 2 ^ d) * 2 ^ e < Suc q * 2 ^ e" using assms(1) r(2,3) by (simp add: d power_add algebra_simps)
    then show ?thesis unfolding mult_less_cancel2 by (simp add: d power_add less_Suc_eq_le algebra_simps)
  next
    case False
    have "m * 2 ^ k \<le> 2 ^ 53 * 2 ^ k" using assms(2) by simp
    also have "\<dots> = 2 ^ 52 * 2 ^ Suc k" by simp
    also have "\<dots> \<le> q * 2 ^ e" using r(4) False by (intro mult_mono power_increasing) auto
    finally show ?thesis .
  qed
  also have "\<dots> \<le> q' * 2 ^ e" using r(6) by auto
  finally show ?thesis using r(1) by (metis of_nat_le_iff)
qed

lemma f64_round_upper:
  assumes "(a :: nat) \<le> m * 2 ^ k" "m \<le> 2 ^ 53"
  shows "f64_round (int a) \<le> int (m * 2 ^ k)"
proof (cases "a \<le> 2 ^ 53")
  case True
  then have "\<bar>int a\<bar> \<le> 2 ^ 53" by (metis abs_of_nat of_nat_le_iff of_nat_numeral of_nat_power)
  then show ?thesis using assms(1) by (metis f64_round_exact of_nat_le_iff)
next
  case False
  then obtain e q r q' where r: "f64_round (int a) = int (q' * 2 ^ e)" "a = q * 2 ^ e + r" "r < 2 ^ e" "2 ^ 52 \<le> q"
      "0 < e" "q' = q \<or> q' = Suc q \<and> 0 < r"
    using f64_round_big [of a] by (metis not_le)
  have "q' * 2 ^ e \<le> m * 2 ^ k"
  proof (cases "q' = q")
    case True
    then show ?thesis using assms(1) r(2) by simp
  next
    case False
    then have q': "q' = Suc q" "0 < r" using r(6) by auto
    have "e \<le> k"
    proof (rule ccontr)
      assume "\<not> e \<le> k"
      have "m * 2 ^ k \<le> 2 ^ 53 * 2 ^ k" using assms(2) by simp
      also have "\<dots> = 2 ^ 52 * 2 ^ Suc k" by simp
      also have "\<dots> \<le> q * 2 ^ e" using r(4) \<open>\<not> e \<le> k\<close> by (intro mult_mono power_increasing) auto
      finally show False using assms(1) r(2) q'(2) by simp
    qed
    then obtain d where d: "k = e + d" using le_iff_add by blast
    have "q * 2 ^ e < a" using r(2) q'(2) by simp
    also have "a \<le> (m * 2 ^ d) * 2 ^ e" using assms(1) by (simp add: d power_add algebra_simps)
    finally have "q * 2 ^ e < (m * 2 ^ d) * 2 ^ e" .
    then have "Suc q \<le> m * 2 ^ d" unfolding mult_less_cancel2 by simp
    from mult_right_mono [OF this, of "2 ^ e"] show ?thesis by (simp add: q'(1) d power_add algebra_simps)
  qed
  then show ?thesis using r(1) by (metis of_nat_le_iff)
qed

lemma f64_div_between:
  assumes "0 < b" "lo * b \<le> a" "a \<le> hi * b" "lo \<le> 2 ^ 53" "hi \<le> 2 ^ 53"
  shows "of_nat lo \<le> f64_div (int a) (int b) \<and> f64_div (int a) (int b) \<le> of_nat hi"
proof -
  define A Q R where "A = a * 2 ^ 200" and "Q = A div b" and "R = A mod b"
  define N where "N = 2 * Q + (if R = 0 then 0 else 1)"
  have A: "A = Q * b + R" "R < b" using assms(1) div_mult_mod_eq [of A b] by (simp_all add: Q_def R_def)
  have "(lo * 2 ^ 200) * b \<le> A" using mult_le_mono1 [OF assms(2), of "2 ^ 200"] by (simp add: A_def algebra_simps)
  then have "lo * 2 ^ 200 \<le> Q" using assms(1) by (simp add: Q_def less_eq_div_iff_mult_less_eq)
  then have low: "lo * 2 ^ 201 \<le> N" by (simp add: N_def)
  have "Q * b + R \<le> (hi * 2 ^ 200) * b" using mult_le_mono1 [OF assms(3), of "2 ^ 200"] A(1) by (simp add: A_def algebra_simps)
  then have "Q * b \<le> (hi * 2 ^ 200) * b" "R \<noteq> 0 \<longrightarrow> Q * b < (hi * 2 ^ 200) * b" by linarith+
  then have "Q \<le> hi * 2 ^ 200" "R \<noteq> 0 \<longrightarrow> Q < hi * 2 ^ 200" using assms(1) unfolding mult_less_cancel2 mult_le_cancel2 by auto
  then have up: "N \<le> hi * 2 ^ 201" by (auto simp: N_def)
  have d: "f64_div (int a) (int b) = of_int (f64_round (int N)) / 2 ^ 201"
  proof -
    have "int a * 2 ^ 200 = int A" by (simp add: A_def)
    then have "int a * 2 ^ 200 div int b = int Q" "int a * 2 ^ 200 mod int b = int R"
      by (simp_all add: Q_def R_def zdiv_int zmod_int)
    then show ?thesis by (simp add: f64_div_def Let_def N_def del: power_numeral)
  qed
  have "of_int (int (lo * 2 ^ 201)) \<le> (of_int (f64_round (int N)) :: rat)"
    "(of_int (f64_round (int N)) :: rat) \<le> of_int (int (hi * 2 ^ 201))"
    using f64_round_lower [OF low assms(4)] f64_round_upper [OF up assms(5)] by (simp_all only: of_int_le_iff)
  then have "of_nat lo * 2 ^ 201 \<le> (of_int (f64_round (int N)) :: rat)"
    "(of_int (f64_round (int N)) :: rat) \<le> of_nat hi * 2 ^ 201"
    by (simp_all only: of_int_of_nat_eq of_nat_mult of_nat_power of_nat_numeral of_int_mult of_int_power of_int_numeral)
  then show ?thesis unfolding d by (simp only: pos_le_divide_eq pos_divide_le_eq zero_less_power zero_less_numeral)
qed

section \<open>Waits\<close>

lemma sum_list_between:
  fixes xs :: "nat list"
  assumes "xs \<noteq> []"
  shows "Min (set xs) * length xs \<le> sum_list xs" "sum_list xs \<le> Max (set xs) * length xs"
proof -
  have "(\<forall>x \<in> set ys. lo \<le> x \<and> x \<le> hi) \<Longrightarrow> lo * length ys \<le> sum_list ys \<and> sum_list ys \<le> hi * length ys" for ys :: "nat list" and lo hi
    by (induction ys) auto
  from this [of xs "Min (set xs)" "Max (set xs)"]
  have "Min (set xs) * length xs \<le> sum_list xs \<and> sum_list xs \<le> Max (set xs) * length xs" by simp
  then show "Min (set xs) * length xs \<le> sum_list xs" "sum_list xs \<le> Max (set xs) * length xs" by auto
qed

text \<open>
  The waits shown are within range. For waits whose sum is at most \<open>2 ^ 53\<close>
  milliseconds the average that \<open>wait_stats\<close> computes in doubles lies between the smallest and
  the largest wait, and the rate of contended waits between 0 and 1.
\<close>

theorem wait_stats_in_range:
  assumes "waits \<noteq> []" and "length waits \<le> 2 ^ 53" and "sum_list waits \<le> 2 ^ 53"
    and "wait_stats waits = (avg_wait_ms, contention_rate)"
  shows "of_nat (Min (set waits)) \<le> avg_wait_ms \<and> avg_wait_ms \<le> of_nat (Max (set waits)) \<and>
    0 \<le> contention_rate \<and> contention_rate \<le> 1"
proof -
  let ?n = "length waits" and ?c = "length (filter (\<lambda>v. v > 1) waits)"
  have ex: "f64_round (int m) = int m" if "m \<le> 2 ^ 53" for m
    using that by (metis abs_of_nat f64_round_exact of_nat_le_iff of_nat_numeral of_nat_power)
  have c: "?c \<le> ?n" by simp
  have m: "sum_list waits mod 2 ^ 64 = sum_list waits" using assms(3) by simp
  have e: "avg_wait_ms = f64_div (int (sum_list waits)) (int ?n)" "contention_rate = f64_div (int ?c) (int ?n)"
    using assms(1,4) ex [OF assms(2)] ex [OF assms(3)] ex [OF order_trans [OF c assms(2)]]
    by (simp_all add: wait_stats_def Let_def m del: power_numeral power_Suc numeral_power_eq_of_nat_cancel_iff)
  have n: "0 < ?n" using assms(1) by simp
  have "Max (set waits) \<le> sum_list waits" using assms(1) by (simp add: member_le_sum_list)
  then have hi: "Max (set waits) \<le> 2 ^ 53" using assms(3) by linarith
  have "Min (set waits) \<le> Max (set waits)" using assms(1) by simp
  then have lo: "Min (set waits) \<le> 2 ^ 53" using hi by linarith
  show ?thesis
    using f64_div_between [OF n sum_list_between [OF assms(1)] lo hi] f64_div_between [OF n, of 0 ?c 1] c unfolding e by simp
qed

theorem wait_stats_in_range_witness:
  "\<exists>avg_wait_ms contention_rate. wait_stats [0, 3] = (avg_wait_ms, contention_rate) \<and>
     0 \<le> avg_wait_ms \<and> avg_wait_ms \<le> 3 \<and> 0 \<le> contention_rate \<and> contention_rate \<le> 1"
proof -
  obtain avg_wait_ms contention_rate where e: "wait_stats [0, 3] = (avg_wait_ms, contention_rate)" by (cases "wait_stats [0, 3]")
  from wait_stats_in_range [OF _ _ _ e] e show ?thesis by simp
qed

section \<open>Trades per minute\<close>

lemma throughput_rows_exact:
  "sum_list (map snd (throughput_rows now T)) = length (filter (\<lambda>t. t_created_at t \<ge> now - HOUR) (tb_trades T))"
  "sorted_wrt (<) (map fst (throughput_rows now T))"
proof -
  define bs where "bs = map (\<lambda>t. t_created_at t - t_created_at t mod MINUTE) (filter (\<lambda>t. t_created_at t \<ge> now - HOUR) (tb_trades T))"
  have r: "throughput_rows now T = map (\<lambda>b. (b, count_list bs b)) (sort (remdups bs))"
    by (simp add: throughput_rows_def bs_def Let_def)
  have "sum_list (map snd (throughput_rows now T)) = sum (count_list bs) (set bs)"
    by (simp add: r comp_def sum_list_distinct_conv_sum_set)
  also have "\<dots> = length bs" by (rule sum_count_set) auto
  finally show "sum_list (map snd (throughput_rows now T)) = length (filter (\<lambda>t. t_created_at t \<ge> now - HOUR) (tb_trades T))"
    by (simp add: bs_def)
  show "sorted_wrt (<) (map fst (throughput_rows now T))"
    by (simp add: r comp_def strict_sorted_iff)
qed

section \<open>A round\<close>

text \<open>The counter and the samples of a pair in the key space.\<close>

definition counter_at :: "vdata \<Rightarrow> string \<Rightarrow> string \<Rightarrow> int" where
  "counter_at d name pair_id =
     (case str_at d (metric_key pair_id name) of None \<Rightarrow> 0 | Some t \<Rightarrow> option_or (parse_i64 t) 0)"

definition samples_at :: "vdata \<Rightarrow> string \<Rightarrow> nat \<Rightarrow> string \<Rightarrow> nat list" where
  "samples_at d metric_type n pair_id = List.map_filter parse_u64 (take n (list_at d (metric_key pair_id metric_type)))"

lemma counter_key_kind: "key_kind (metric_key p ''orders'') = Some KStr" "key_kind (metric_key p ''trades'') = Some KStr"
  by (auto simp: key_kind_def metric_key_def dest!: suffix_last)

lemma run_counter:
  assumes "well_keyed d" "vd_pool d = []" "key_kind (metric_key p name) = Some KStr"
  shows "vor (get_counter ref_valkey p name) 0 d = (Inr (counter_at d name p), d)"
proof -
  have "d_get (metric_key p name) d = (Inr (str_at d (metric_key p name)), d)"
    using assms by (simp add: d_get_def read_key_def well_keyed_view)
  then show ?thesis using assms(2)
    by (auto simp: vor_def get_counter_def vbind_def counter_at_def vret_def vlift_def ok_or_def split: option.split)
qed

lemma run_samples:
  assumes "well_keyed d" "vd_pool d = []" "key_kind (metric_key p t) = Some KList" "0 < n"
  shows "vor (get_samples ref_valkey p t (int n)) [] d = (Inr (samples_at d t n p), d)"
proof -
  have "list_range 0 (int n - 1) ls = take n ls" for ls :: "string list"
    using assms(4) list_range_from_start [of "int n - 1" ls] by simp
  then show ?thesis
    using assms by (simp add: vor_def get_samples_def vbind_def list_ops(3) samples_at_def vret_def)
qed

lemma run_fold_read:
  "(\<And>x a. x \<in> set xs \<Longrightarrow> f x a d = (Inr (g x a), d)) \<Longrightarrow> vfoldM f xs a d = (Inr (fold g xs a), d)"
  by (induction xs arbitrary: a) (simp_all add: vbind_def vret_def)

lemma run_total_counts:
  assumes "well_keyed d" "vd_pool d = []"
  shows "total_counts ref_valkey d =
    (Inr (fold (\<lambda>p (n, m). (i64_add n (counter_at d ''orders'' p), i64_add m (counter_at d ''trades'' p))) PAIRS (0, 0)), d)"
  unfolding total_counts_def get_order_count_def get_trade_count_def
  by (rule run_fold_read)
    (simp add: vbind_def vret_def run_counter [OF assms counter_key_kind(1)] run_counter [OF assms counter_key_kind(2)]
      split: prod.split)

lemma totals_exact:
  assumes "\<forall>p \<in> set PAIRS. f p \<in> {0..<2 ^ 61} \<and> g p \<in> {0..<2 ^ 61}"
  shows "fold (\<lambda>p (n, m). (i64_add n (f p), i64_add m (g p))) PAIRS (0, 0) = (sum_list (map f PAIRS), sum_list (map g PAIRS))"
  using assms by (simp add: PAIRS_def i64_add_def)

lemma fold_append: "fold (\<lambda>p acc. acc @ f p) xs a = a @ concat (map f xs)"
  by (induction xs arbitrary: a) simp_all

lemma run_all_samples:
  assumes "well_keyed d" "vd_pool d = []" "\<And>p. key_kind (metric_key p t) = Some KList" "0 < n"
  shows "all_samples (\<lambda>p. get_samples ref_valkey p t (int n)) d = (Inr (concat (map (samples_at d t n) PAIRS)), d)"
  unfolding all_samples_def fold_append [of "samples_at d t n" PAIRS "[]", simplified, symmetric]
  by (rule run_fold_read) (simp add: vbind_def vret_def run_samples [OF assms])

lemma run_latency_samples:
  assumes "well_keyed d" "vd_pool d = []"
  shows "latency_samples ref_valkey d =
    (Inr (map (\<lambda>p. pair_latency p (samples_at d ''latency'' 1000 p)) PAIRS, concat (map (samples_at d ''latency'' 1000) PAIRS)), d)"
proof -
  let ?g = "\<lambda>p (per_pair, all). (per_pair @ [pair_latency p (samples_at d ''latency'' 1000 p)], all @ samples_at d ''latency'' 1000 p)"
  have "latency_samples ref_valkey d = (Inr (fold ?g PAIRS ([], [])), d)"
    unfolding latency_samples_def get_latency_samples_def
    using run_samples [OF assms sample_key_kind(1), of 1000]
    by (intro run_fold_read) (simp add: vbind_def vret_def split: prod.split)
  then show ?thesis by (simp add: PAIRS_def)
qed

context valkey_spec
begin

lemma sim_metrics_refresh: "simulates (map_world \<alpha>) (metrics_refresh V X J now) (metrics_refresh ref_valkey X J now)"
  unfolding metrics_refresh_def total_counts_def all_samples_def latency_samples_def publish_view_def
    get_order_count_def get_trade_count_def get_latency_samples_def get_lock_wait_samples_def get_counter_def
    get_samples_def ref_valkey_ops case_prod_beta
  by (intro sim_rules)

end

text \<open>What clients are shown: the four values, from the key space and the rows of the trades.\<close>

definition metrics_views :: "'d ext \<Rightarrow> vdata \<Rightarrow> (instant \<times> nat) list \<Rightarrow> (string \<times> json) list" where
  "metrics_views X d rows =
     [(''cache:metrics'', metrics_val (sum_list (map (counter_at d ''orders'') PAIRS), sum_list (map (counter_at d ''trades'') PAIRS))
         (concat (map (samples_at d ''latency'' 100) PAIRS))),
      (''cache:lock_metrics'', locks_val (concat (map (samples_at d ''lock_wait'' 1000) PAIRS))),
      (''cache:latency_metrics'', latency_val (map (\<lambda>p. pair_latency p (samples_at d ''latency'' 1000 p)) PAIRS)
         (concat (map (samples_at d ''latency'' 1000) PAIRS))),
      (''cache:throughput'', throughput_val X rows)]"

definition put_view :: "json_ext \<Rightarrow> string \<times> json \<Rightarrow> vdata \<Rightarrow> vdata" where
  "put_view J kv d =
     (case kv of (k, v) \<Rightarrow> d\<lparr>vd_keys := (vd_keys d)(k \<mapsto> VStr (js_str J v)), vd_ttl := (vd_ttl d)(k := None),
        vd_published := vd_published d @ [(CACHE_UPDATES_CHANNEL, update_message k (js_str J v))]\<rparr>)"

lemma put_view_sel [simp]: "vd_pool (put_view J kv d) = vd_pool d"
  "vd_keys (put_view J (k, v) d) = (vd_keys d)(k \<mapsto> VStr (js_str J v))"
  "vd_published (put_view J (k, v) d) = vd_published d @ [(CACHE_UPDATES_CHANNEL, update_message k (js_str J v))]"
  by (simp_all add: put_view_def split: prod.split)

lemma run_publish_view:
  "vd_pool (w_vk w) = [] \<Longrightarrow> publish_view ref_valkey J k v w = (Inr (), w\<lparr>w_vk := put_view J (k, v) (w_vk w)\<rparr>)"
  by (simp add: publish_view_def vor_def on_vk_def set_and_publish_def vbind_def d_set_def d_publish_def put_view_def)

text \<open>The rows a round sees: none when the statement fails.\<close>

definition shown_rows :: "instant \<Rightarrow> 'd pg \<Rightarrow> (instant \<times> nat) list" where
  "shown_rows now p = (if pg_outcomes p \<noteq> [] \<and> \<not> hd (pg_outcomes p) then [] else throughput_rows now (pg_tables p))"

lemma run_throughput:
  obtains p where "vor (on_pg (pg_query (throughput_rows now))) [] w = (Inr (shown_rows now (w_pg w)), w\<lparr>w_pg := p\<rparr>)"
    "pg_tables p = pg_tables (w_pg w)"
proof -
  define r p where "r = fst (pg_query (throughput_rows now) (w_pg w))" and "p = snd (pg_query (throughput_rows now) (w_pg w))"
  have "vor (on_pg (pg_query (throughput_rows now))) [] w = (Inr (case r of Inl _ \<Rightarrow> [] | Inr rows \<Rightarrow> rows), w\<lparr>w_pg := p\<rparr>)"
    by (simp add: vor_def on_pg_def r_def p_def split: prod.split sum.split)
  moreover have "(case r of Inl _ \<Rightarrow> [] | Inr rows \<Rightarrow> rows) = shown_rows now (w_pg w) \<and> pg_tables p = pg_tables (w_pg w)"
    by (cases "pg_outcomes (w_pg w)") (simp_all add: r_def p_def pg_query_def pg_stmt_def pg_apply_def shown_rows_def)
  ultimately show thesis using that by metis
qed

lemma run_metrics_refresh:
  assumes "well_keyed (w_vk w)" "vd_pool (w_vk w) = []"
    and "\<forall>p \<in> set PAIRS. counter_at (w_vk w) ''orders'' p \<in> {0..<2 ^ 61} \<and> counter_at (w_vk w) ''trades'' p \<in> {0..<2 ^ 61}"
  shows "\<exists>w'. metrics_refresh ref_valkey X J now w = (Inr (), w') \<and> pg_tables (w_pg w') = pg_tables (w_pg w) \<and>
    w_vk w' = fold (put_view J) (metrics_views X (w_vk w) (shown_rows now (w_pg w))) (w_vk w)"
proof -
  let ?d = "w_vk w"
  obtain p where p: "vor (on_pg (pg_query (throughput_rows now))) [] w = (Inr (shown_rows now (w_pg w)), w\<lparr>w_pg := p\<rparr>)"
      "pg_tables p = pg_tables (w_pg w)"
    by (rule run_throughput)
  have c: "on_vk (total_counts ref_valkey) w =
      (Inr (sum_list (map (counter_at ?d ''orders'') PAIRS), sum_list (map (counter_at ?d ''trades'') PAIRS)), w)"
    using run_total_counts [OF assms(1,2)] totals_exact [OF assms(3)] by (simp add: on_vk_def)
  have s: "on_vk (all_samples (\<lambda>p. get_latency_samples ref_valkey p 100)) w = (Inr (concat (map (samples_at ?d ''latency'' 100) PAIRS)), w)"
    using run_all_samples [OF assms(1,2) sample_key_kind(1), of 100] by (simp add: on_vk_def get_latency_samples_def)
  have t: "on_vk (all_samples (\<lambda>p. get_lock_wait_samples ref_valkey p 1000)) w = (Inr (concat (map (samples_at ?d ''lock_wait'' 1000) PAIRS)), w)"
    using run_all_samples [OF assms(1,2) sample_key_kind(2), of 1000] by (simp add: on_vk_def get_lock_wait_samples_def)
  have l: "on_vk (latency_samples ref_valkey) w =
      (Inr (map (\<lambda>p. pair_latency p (samples_at ?d ''latency'' 1000 p)) PAIRS, concat (map (samples_at ?d ''latency'' 1000) PAIRS)), w)"
    using run_latency_samples [OF assms(1,2)] by (simp add: on_vk_def)
  show ?thesis
    using assms(2) p(2)
    by (simp add: metrics_refresh_def vbind_def c s t l p(1) run_publish_view metrics_views_def)
qed

text \<open>
  C19: a round shows exactly the state. With a reachable service a round of
  \<open>metrics_refresh\<close> succeeds, publishes the four values that \<open>metrics_views\<close> computes from the
  counters, samples and trades as they were, and changes no other key and no table; an error of
  the database empties the series of trades only. The field \<open>orders_per_sec\<close> is the
  number of all orders ever counted.
\<close>

theorem metrics_refresh_shows_state:
  assumes "valkey_spec V \<alpha>" and "well_keyed (\<alpha> (w_vk w))" and "vd_pool (\<alpha> (w_vk w)) = []"
    and "\<forall>p \<in> set PAIRS. counter_at (\<alpha> (w_vk w)) ''orders'' p \<in> {0..<2 ^ 61} \<and> counter_at (\<alpha> (w_vk w)) ''trades'' p \<in> {0..<2 ^ 61}"
  shows "\<exists>w' views. metrics_refresh V X J now w = (Inr (), w') \<and> pg_tables (w_pg w') = pg_tables (w_pg w) \<and>
    views = metrics_views X (\<alpha> (w_vk w)) (shown_rows now (w_pg w)) \<and>
    (\<forall>k. vd_keys (\<alpha> (w_vk w')) k =
       (case map_of views k of Some v \<Rightarrow> Some (VStr (js_str J v)) | None \<Rightarrow> vd_keys (\<alpha> (w_vk w)) k)) \<and>
    vd_published (\<alpha> (w_vk w')) = vd_published (\<alpha> (w_vk w)) @
      map (\<lambda>(k, v). (CACHE_UPDATES_CHANNEL, update_message k (js_str J v))) views"
proof -
  let ?views = "metrics_views X (\<alpha> (w_vk w)) (shown_rows now (w_pg w))"
  let ?m = "map_world \<alpha> w"
  obtain u where u: "metrics_refresh ref_valkey X J now ?m = (Inr (), u)" "pg_tables (w_pg u) = pg_tables (w_pg ?m)"
    "w_vk u = fold (put_view J) ?views (w_vk ?m)"
    using run_metrics_refresh [of ?m X J now] assms(2-4) by auto
  from simulates_run [OF valkey_spec.sim_metrics_refresh [OF assms(1)] u(1)] obtain w' where
    w': "metrics_refresh V X J now w = (Inr (), w')" "map_world \<alpha> w' = u" .
  have d: "\<alpha> (w_vk w') = fold (put_view J) ?views (\<alpha> (w_vk w))" and T: "pg_tables (w_pg w') = pg_tables (w_pg w)"
    using w'(2) u(2,3) by auto
  have "vd_published (fold (put_view J) vs e) =
      vd_published e @ map (\<lambda>(k, v). (CACHE_UPDATES_CHANNEL, update_message k (js_str J v))) vs" for vs e
    by (induction vs arbitrary: e) auto
  moreover have "vd_keys (\<alpha> (w_vk w')) k =
      (case map_of ?views k of Some v \<Rightarrow> Some (VStr (js_str J v)) | None \<Rightarrow> vd_keys (\<alpha> (w_vk w)) k)" for k
    by (simp add: d metrics_views_def)
  ultimately show ?thesis using w'(1) T d by auto
qed

theorem metrics_refresh_shows_state_witness:
  "\<exists>w'. metrics_refresh ref_valkey ref_ext ref_json 0 empty_world = (Inr (), w') \<and>
     str_at (w_vk w') ''cache:metrics'' = Some (js_str ref_json (metrics_val (0, 0) [])) \<and>
     length (vd_published (w_vk w')) = 4"
proof -
  let ?w = "empty_world :: (vdata, rat) world"
  have k: "\<forall>p \<in> set PAIRS. counter_at (id (w_vk ?w)) ''orders'' p \<in> {0..<2 ^ 61} \<and>
      counter_at (id (w_vk ?w)) ''trades'' p \<in> {0..<2 ^ 61}"
    by (simp add: counter_at_def str_at_def empty_world_def empty_vdata_def)
  have w: "well_keyed (id (w_vk ?w))" "vd_pool (id (w_vk ?w)) = []"
    by (simp_all add: empty_world_def empty_vdata_def well_keyed_def)
  from metrics_refresh_shows_state [OF ref.valkey_spec_axioms w k, of ref_ext ref_json 0, unfolded id_apply] obtain w' views where
    w': "metrics_refresh ref_valkey ref_ext ref_json 0 ?w = (Inr (), w')"
      "pg_tables (w_pg w') = pg_tables (w_pg ?w)"
      "views = metrics_views ref_ext (w_vk ?w) (shown_rows 0 (w_pg ?w))"
      "\<forall>k. vd_keys (w_vk w') k = (case map_of views k of Some v \<Rightarrow> Some (VStr (js_str ref_json v)) | None \<Rightarrow> vd_keys (w_vk ?w) k)"
      "vd_published (w_vk w') = vd_published (w_vk ?w) @
        map (\<lambda>(k, v). (CACHE_UPDATES_CHANNEL, update_message k (js_str ref_json v))) views"
    by (elim exE conjE)
  have "length views = 4" "map_of views ''cache:metrics'' = Some (metrics_val (0, 0) [])"
    by (simp_all add: w'(3) metrics_views_def PAIRS_def counter_at_def samples_at_def str_at_def list_at_def empty_world_def
        empty_vdata_def List.map_filter_def)
  then show ?thesis using w'(1,4,5) by (auto simp: str_at_def empty_world_def empty_vdata_def)
qed

end
