(* ===== verification/Router.thy ===== *)
theory Router
  imports Mirror_Props Queue_Props
begin

text \<open>
  The gateway as a whole: the table of routes of \<open>build_router\<close> (\<open>gateway/src/lib.rs\<close>)
  and the handling of a request. The matching of paths and the extraction of
  arguments are those of \<open>axum\<close>: \<open>R\<close> finds the entry of a table for a method and a
  path (its documented behaviour is the locale \<open>route_spec\<close>), and a request carries
  what the extractors make of it, \<open>None\<close> where they refuse it.
\<close>

section \<open>Routes\<close>

datatype http_method = GET | POST | PUT | DELETE

datatype segment = Lit string | Param

datatype endpoint =
    ListPairs | GetOrderbook | GetTrades | GetTicker
  | ListOrders | CreateOrder | CancelAllOrders | CancelOrder | ModifyOrder
  | GetPortfolio | GetSnapshot | SseStream
  | WsStream | WsOrderbook | WsTrades | WsOrders
  | GetMetrics | GetLockMetrics | GetThroughput | GetLatency | GetAudit
  | InternalManage

type_synonym route = "segment list \<times> http_method \<times> endpoint"

definition route_table :: "route list" where
  "route_table =
     [([Lit ''api'', Lit ''pairs''], GET, ListPairs),
      ([Lit ''api'', Lit ''orderbook'', Param], GET, GetOrderbook),
      ([Lit ''api'', Lit ''trades'', Param], GET, GetTrades),
      ([Lit ''api'', Lit ''ticker'', Param], GET, GetTicker),
      ([Lit ''api'', Lit ''orders''], GET, ListOrders),
      ([Lit ''api'', Lit ''orders''], POST, CreateOrder),
      ([Lit ''api'', Lit ''orders''], DELETE, CancelAllOrders),
      ([Lit ''api'', Lit ''orders'', Param], DELETE, CancelOrder),
      ([Lit ''api'', Lit ''orders'', Param], PUT, ModifyOrder),
      ([Lit ''api'', Lit ''portfolio''], GET, GetPortfolio),
      ([Lit ''api'', Lit ''snapshot'', Param], GET, GetSnapshot),
      ([Lit ''api'', Lit ''stream'', Param], GET, SseStream),
      ([Lit ''ws'', Lit ''stream''], GET, WsStream),
      ([Lit ''ws'', Lit ''orderbook'', Param], GET, WsOrderbook),
      ([Lit ''ws'', Lit ''trades'', Param], GET, WsTrades),
      ([Lit ''ws'', Lit ''orders'', Param], GET, WsOrders),
      ([Lit ''api'', Lit ''metrics''], GET, GetMetrics),
      ([Lit ''api'', Lit ''metrics'', Lit ''locks''], GET, GetLockMetrics),
      ([Lit ''api'', Lit ''metrics'', Lit ''throughput''], GET, GetThroughput),
      ([Lit ''api'', Lit ''metrics'', Lit ''latency''], GET, GetLatency),
      ([Lit ''api'', Lit ''metrics'', Lit ''audit''], GET, GetAudit),
      ([Lit ''api'', Lit ''audit''], GET, GetAudit),
      ([Lit ''internal'', Lit ''manage''], POST, InternalManage)]"

text \<open>A pattern and a path of segments: the captured segments.\<close>

fun match_path :: "segment list \<Rightarrow> string list \<Rightarrow> string list option" where
  "match_path [] [] = Some []"
| "match_path (Lit s # ps) (x # xs) = (if s = x then match_path ps xs else None)"
| "match_path (Param # ps) (x # xs) = map_option ((#) x) (match_path ps xs)"
| "match_path _ _ = None"

type_synonym router = "route list \<Rightarrow> http_method \<Rightarrow> string list \<Rightarrow> (endpoint \<times> string list) option"

locale route_spec =
  fixes R :: router
  assumes found: "R tab m path = Some (ep, args) \<Longrightarrow> \<exists>pat. (pat, m, ep) \<in> set tab \<and> match_path pat path = Some args"
    and finds: "(pat, m, ep) \<in> set tab \<Longrightarrow> match_path pat path \<noteq> None \<Longrightarrow> R tab m path \<noteq> None"

definition first_route :: router where
  "first_route tab m path =
     (case find (\<lambda>(pat, m', _). m' = m \<and> match_path pat path \<noteq> None) tab of
        None \<Rightarrow> None
      | Some (pat, _, ep) \<Rightarrow> Some (ep, the (match_path pat path)))"

lemma first_route_found:
  assumes "first_route tab m path = Some (ep, args)"
  shows "\<exists>pat. (pat, m, ep) \<in> set tab \<and> match_path pat path = Some args"
proof -
  let ?P = "\<lambda>(pat, m', _). m' = m \<and> match_path pat path \<noteq> None"
  obtain pat m' where r: "find ?P tab = Some (pat, m', ep)" "args = the (match_path pat path)"
    using assms by (auto simp: first_route_def split: option.splits)
  then have "(pat, m', ep) \<in> set tab" "?P (pat, m', ep)" unfolding find_Some_iff by (metis nth_mem)+
  then show ?thesis using r(2) by auto
qed

interpretation first: route_spec first_route
proof
  fix tab :: "route list" and m path ep args
  assume "first_route tab m path = Some (ep, args)"
  then show "\<exists>pat. (pat, m, ep) \<in> set tab \<and> match_path pat path = Some args" by (rule first_route_found)
next
  fix tab :: "route list" and pat m ep path
  assume "(pat, m, ep) \<in> set tab" "match_path pat path \<noteq> None"
  then show "first_route tab m path \<noteq> None"
    by (auto simp: first_route_def find_None_iff split: option.split)
qed

section \<open>Requests\<close>

record query =
  qy_depth :: "int option"
  qy_user_id :: "string option"
  qy_pair_id :: "string option"

record 'd http_request =
  rq_method :: http_method
  rq_path :: "string list"
  rq_query :: "endpoint \<Rightarrow> query option"
  rq_order :: "'d create_order_request option"
  rq_manage :: "manage_request option"

text \<open>What a request finds around it: fresh identifiers, the clocks, the environment.\<close>

record 'd gw_env =
  ge_fresh :: "nat \<Rightarrow> uuid"
  ge_clock :: "nat \<Rightarrow> instant"
  ge_now :: instant
  ge_now_ms :: int
  ge_db_now :: instant
  ge_post :: "string \<Rightarrow> string \<Rightarrow> post_result"
  ge_ws_endpoint :: string
  ge_database_url :: "string option"
  ge_mode :: dispatch_mode
  ge_admin :: "'d admin_ext"

text \<open>The answer: a response, a refusal by an extractor, a stream or socket that is opened, or no route.\<close>

datatype answer = Answered response | Refused | Opened endpoint "string list" | NoRoute

type_synonym ('s, 'd) handler = "('s, 'd) gw_state \<Rightarrow> answer \<times> ('s, 'd) gw_state"

definition answer_with :: "(('s, 'd) gw_state, response) vm \<Rightarrow> ('s, 'd) handler" where
  "answer_with h g = (case respond h g of (r, g') \<Rightarrow> (Answered r, g'))"

definition with_arg :: "'a option \<Rightarrow> ('a \<Rightarrow> ('s, 'd) handler) \<Rightarrow> ('s, 'd) handler" where
  "with_arg x f g = (case x of None \<Rightarrow> (Refused, g) | Some a \<Rightarrow> f a g)"

definition call_endpoint ::
  "'s valkey \<Rightarrow> 'd::floor_ceiling ext \<Rightarrow> json_ext \<Rightarrow> 'd gw_env \<Rightarrow> 'd http_request \<Rightarrow> endpoint \<Rightarrow> string list \<Rightarrow> ('s, 'd) handler" where
  "call_endpoint V X J E rq ep args =
     (let arg = hd (args @ [[]]); qry = with_arg (rq_query rq ep) in
      case ep of
        ListPairs \<Rightarrow> answer_with list_pairs
      | GetOrderbook \<Rightarrow> qry (\<lambda>q. answer_with (get_orderbook V J arg (qy_depth q)))
      | GetTrades \<Rightarrow> answer_with (get_trades arg)
      | GetTicker \<Rightarrow> answer_with (get_ticker arg)
      | ListOrders \<Rightarrow> qry (\<lambda>q. answer_with (list_orders V (ge_now_ms E) (qy_user_id q)))
      | CreateOrder \<Rightarrow> with_arg (rq_order rq) (\<lambda>req. answer_with
          (create_order V X J (ge_post E) (ge_fresh E) (ge_clock E) (ge_db_now E) (ge_ws_endpoint E)
             (ge_database_url E) (ge_mode E) (ge_now E) req))
      | CancelAllOrders \<Rightarrow> qry (\<lambda>q. answer_with (cancel_all_orders V X J (ge_now E) (qy_user_id q) (qy_pair_id q)))
      | CancelOrder \<Rightarrow> with_arg (x_uuid_parse X arg) (\<lambda>oid. answer_with (cancel_order V X J (ge_now E) oid))
      | ModifyOrder \<Rightarrow> with_arg (x_uuid_parse X arg) (\<lambda>oid. with_arg (rq_order rq) (\<lambda>req.
          answer_with (modify_order V X J (ge_now E) oid req)))
      | GetPortfolio \<Rightarrow> qry (\<lambda>q. answer_with (get_portfolio V (ge_now_ms E) (qy_user_id q)))
      | GetSnapshot \<Rightarrow> qry (\<lambda>q. answer_with (get_snapshot J arg (qy_depth q)))
      | GetMetrics \<Rightarrow> answer_with get_metrics
      | GetLockMetrics \<Rightarrow> answer_with get_lock_metrics
      | GetThroughput \<Rightarrow> answer_with get_throughput
      | GetLatency \<Rightarrow> answer_with get_latency_percentiles
      | GetAudit \<Rightarrow> answer_with get_audit
      | InternalManage \<Rightarrow> with_arg (rq_manage rq) (\<lambda>req g.
          case internal_manage V X J (ge_admin E) (ge_db_now E) (ge_database_url E) req g of
            (r, g') \<Rightarrow> (Answered r, g'))
      | _ \<Rightarrow> (\<lambda>g. (Opened ep args, g)))"

definition serve ::
  "router \<Rightarrow> 's valkey \<Rightarrow> 'd::floor_ceiling ext \<Rightarrow> json_ext \<Rightarrow> 'd gw_env \<Rightarrow> 'd http_request \<Rightarrow> ('s, 'd) handler" where
  "serve R V X J E rq g =
     (case R route_table (rq_method rq) (rq_path rq) of
        None \<Rightarrow> (NoRoute, g)
      | Some (ep, args) \<Rightarrow> call_endpoint V X J E rq ep args g)"

text \<open>A sequence of requests, each with its surroundings.\<close>

fun serve_all ::
  "router \<Rightarrow> 's valkey \<Rightarrow> 'd::floor_ceiling ext \<Rightarrow> json_ext \<Rightarrow> ('d gw_env \<times> 'd http_request) list \<Rightarrow>
   ('s, 'd) gw_state \<Rightarrow> answer list \<times> ('s, 'd) gw_state" where
  "serve_all R V X J [] g = ([], g)"
| "serve_all R V X J ((E, rq) # rqs) g =
     (case serve R V X J E rq g of (a, g') \<Rightarrow>
       case serve_all R V X J rqs g' of (as, g'') \<Rightarrow> (a # as, g''))"

text \<open>A request for the examples below.\<close>

definition sample_env :: "rat gw_env" where
  "sample_env =
     \<lparr>ge_fresh = id, ge_clock = (\<lambda>_. 0), ge_now = 0, ge_now_ms = 0, ge_db_now = 0, ge_post = (\<lambda>_ _. PostOk),
      ge_ws_endpoint = [], ge_database_url = None, ge_mode = Queue,
      ge_admin = \<lparr>ad_migrate = vret (), ad_exec = (\<lambda>_. vret 0), ad_query = (\<lambda>_. vret [])\<rparr>\<rparr>"

definition sample_post :: "rat http_request" where
  "sample_post = \<lparr>rq_method = POST, rq_path = [''api'', ''orders''], rq_query = (\<lambda>_. None), rq_order = Some sample_request, rq_manage = None\<rparr>"

definition sample_gateway :: "(vdata, rat) gw_state" where
  "sample_gateway = \<lparr>gs_world = empty_world, gs_cache = new_cache 0, gs_user_cache = [], gs_memo = None\<rparr>"

section \<open>The table is unambiguous\<close>

fun overlap :: "segment list \<Rightarrow> segment list \<Rightarrow> bool" where
  "overlap [] [] = True"
| "overlap (Lit s # ps) (Lit t # qs) = (s = t \<and> overlap ps qs)"
| "overlap (_ # ps) (_ # qs) = overlap ps qs"
| "overlap _ _ = False"

lemma match_path_length: "match_path p xs = Some as \<Longrightarrow> length xs = length p"
  by (induction p xs arbitrary: as rule: match_path.induct) (auto split: if_splits)

lemma match_overlap: "match_path p xs \<noteq> None \<Longrightarrow> match_path q xs \<noteq> None \<Longrightarrow> overlap p q"
proof (induction p q arbitrary: xs rule: overlap.induct, goal_cases)
  case (2 s ps t qs xs)
  then show ?case by (cases xs) (auto split: if_splits)
next
  case (3 ps v qs xs)
  then show ?case by (cases xs; cases v) (auto split: if_splits)
next
  case (4 v ps qs xs)
  then show ?case by (cases xs; cases v) (auto split: if_splits)
qed (auto dest: match_path_length)

lemma routes_disjoint:
  "\<forall>(p, m, e) \<in> set route_table. \<forall>(p', m', e') \<in> set route_table. m = m' \<and> overlap p p' \<longrightarrow> p = p' \<and> e = e'"
  by code_simp

lemma route_determined:
  assumes "(p, m, e) \<in> set route_table" "(p', m, e') \<in> set route_table" "match_path p xs = Some as" "match_path p' xs = Some as'"
  shows "e' = e \<and> as' = as"
proof -
  have "overlap p p'" using match_overlap assms(3,4) by blast
  with routes_disjoint assms(1,2) have "p = p' \<and> e = e'" by fast
  then show ?thesis using assms(3,4) by simp
qed

context route_spec
begin

text \<open>So that every router with the documented behaviour takes the same route.\<close>

lemma route_unique: "R route_table m xs = first_route route_table m xs"
proof (cases "R route_table m xs")
  case None
  have "first_route route_table m xs = None"
  proof (rule ccontr)
    assume "first_route route_table m xs \<noteq> None"
    then obtain e as where "first_route route_table m xs = Some (e, as)" by auto
    from first_route_found [OF this] finds None show False by blast
  qed
  then show ?thesis using None by simp
next
  case (Some r)
  obtain e as where r: "r = (e, as)" by (cases r)
  from found [OF Some [unfolded r]] obtain p where p: "(p, m, e) \<in> set route_table" "match_path p xs = Some as" by blast
  have "first_route route_table m xs \<noteq> None" using first.finds [OF p(1)] p(2) by simp
  then obtain e' as' where f: "first_route route_table m xs = Some (e', as')" by auto
  from first_route_found [OF f] route_determined [OF p(1) _ p(2)] have "e' = e \<and> as' = as" by blast
  then show ?thesis using Some r f by simp
qed

end

definition reads :: "endpoint set" where
  "reads = {ListPairs, GetOrderbook, GetTrades, GetTicker, ListOrders, GetPortfolio, GetSnapshot, SseStream, WsStream,
     WsOrderbook, WsTrades, WsOrders, GetMetrics, GetLockMetrics, GetThroughput, GetLatency, GetAudit}"

lemma get_routes: "(p, GET, e) \<in> set route_table \<Longrightarrow> e \<in> reads"
  by (auto simp: route_table_def reads_def)

section \<open>Reading\<close>

text \<open>What clients can observe: everything but the connections left in the pool and the per-user cache.\<close>

definition store :: "vdata \<Rightarrow> (string \<rightharpoonup> vvalue) \<times> (string \<rightharpoonup> int) \<times> (string \<times> string) list" where
  "store d = (vd_keys d, vd_ttl d, vd_published d)"

definition observed :: "('s \<Rightarrow> vdata) \<Rightarrow> ('s, 'd) gw_state \<Rightarrow> _" where
  "observed \<alpha> g = (store (\<alpha> (w_vk (gs_world g))), w_pg (gs_world g), w_sent (gs_world g), gs_cache g, gs_memo g)"

lemma keeps_sim:
  assumes "simulates \<alpha> m m'" "keeps f m'"
  shows "keeps (\<lambda>s. f (\<alpha> s)) m"
  using assms simulatesD by (fastforce simp: keeps_def)

lemma keeps_observed_vk:
  assumes "keeps (\<lambda>s. store (\<alpha> s)) m"
  shows "keeps (observed \<alpha>) (on_gw (on_vk m))"
  using assms by (auto simp: keeps_def observed_def on_gw_def on_vk_def split: prod.splits)

lemma keeps_observed_sim: "simulates \<alpha> m m' \<Longrightarrow> keeps store m' \<Longrightarrow> keeps (observed \<alpha>) (on_gw (on_vk m))"
  by (rule keeps_observed_vk) (rule keeps_sim)

lemma keeps_store_conn: "keeps store d_conn"
  by (auto simp: keeps_def store_def split: list.splits)

lemma keeps_store_get: "keeps store (d_get k)"
  by (auto simp: keeps_def d_get_def read_key_def split: sum.splits)

lemma keeps_cached_or: "keeps (observed \<alpha>) (cached_or k dflt)"
  by (simp add: keeps_def cached_or_def)

lemma status_cached_or: "cached_or k dflt g = (r, g') \<Longrightarrow> \<exists>b. r = Inr (200, b)"
  by (auto simp: cached_or_def)

context valkey_spec
begin

lemma keeps_conn [keeps_rules]: "keeps (observed \<alpha>) (on_gw (on_vk (vk_conn V)))"
  by (rule keeps_observed_sim [OF sim_conn keeps_store_conn])

lemma keeps_get [keeps_rules]: "keeps (observed \<alpha>) (on_gw (on_vk (vk_get V k)))"
  by (rule keeps_observed_sim [OF sim_get keeps_store_get])

lemma keeps_read_live: "keeps (observed \<alpha>) (read_live V k)"
proof -
  have "keeps store (vbind d_conn (\<lambda>_. d_get k))" by (intro keeps_rules keeps_store_conn keeps_store_get)
  moreover have "simulates \<alpha> (vbind (vk_conn V) (\<lambda>_. vk_get V k)) (vbind d_conn (\<lambda>_. d_get k))" by (intro sim_rules)
  ultimately have "keeps (observed \<alpha>) (on_gw (on_vk (vbind (vk_conn V) (\<lambda>_. vk_get V k))))"
    by (rule keeps_observed_sim [rotated])
  then show ?thesis unfolding read_live_def by (intro keeps_rules)
qed

lemma keeps_get_orderbook: "keeps (observed \<alpha>) (get_orderbook V J p depth)"
proof -
  have "keeps (observed \<alpha>) (\<lambda>g. case get_latest (gs_cache g) k of Some c \<Rightarrow> (Inr (f c), g) | None \<Rightarrow> (Inr r, g))" for k f r
    by (auto simp: keeps_def split: option.splits)
  then show ?thesis unfolding get_orderbook_def Let_def
    by (intro keeps_rules keeps_read_live) (auto intro!: keeps_rules split: option.split list.split)
qed

lemma keeps_user_value: "keeps (observed \<alpha>) (user_value V t k dflt)"
proof -
  have c: "keeps (observed \<alpha>) (\<lambda>g. (Inr r, g\<lparr>gs_user_cache := f g\<rparr>))" for r f
    by (simp add: keeps_def observed_def)
  let ?m = "vbind (on_gw (on_vk (vk_conn V))) (\<lambda>_. vbind (vor (on_gw (on_vk (vk_get V k))) None) (\<lambda>val.
    let cval = option_or val ''{}'' in
    if cval \<noteq> ''{}'' then (\<lambda>g. (Inr (200, Raw cval), g\<lparr>gs_user_cache := user_cache_set t k cval (gs_user_cache g)\<rparr>))
    else vret (200, Raw dflt)))"
  have "keeps (observed \<alpha>) ?m" unfolding Let_def by (intro keeps_rules c)
  then show ?thesis by (auto simp: keeps_def user_value_def split: option.splits)
qed

end

text \<open>A handler that changes nothing observed and answers with 200, or 500 when it cannot reach the service.\<close>

definition harmless :: "('s \<Rightarrow> vdata) \<Rightarrow> ('s, 'd) handler \<Rightarrow> bool" where
  "harmless \<alpha> h \<longleftrightarrow> (\<forall>g a g'. h g = (a, g') \<longrightarrow>
     observed \<alpha> g' = observed \<alpha> g \<and> (\<forall>st b. a = Answered (st, b) \<longrightarrow> st = 200 \<or> st = 500))"

lemma harmless_answer:
  assumes "keeps (observed \<alpha>) m" "\<And>g r g'. m g = (r, g') \<Longrightarrow> (\<exists>b. r = Inr (200, b)) \<or> r = Inl PoolError"
  shows "harmless \<alpha> (answer_with m)"
  unfolding harmless_def
proof (intro allI impI)
  fix g a g' assume a: "answer_with m g = (a, g')"
  obtain r g1 where m: "m g = (r, g1)" by (cases "m g")
  from assms(2) [OF m] show "observed \<alpha> g' = observed \<alpha> g \<and> (\<forall>st b. a = Answered (st, b) \<longrightarrow> st = 200 \<or> st = 500)"
    using a keepsD [OF assms(1) m] by (auto simp: answer_with_def respond_def m)
qed

lemma harmless_with_arg: "(\<And>x. harmless \<alpha> (f x)) \<Longrightarrow> harmless \<alpha> (with_arg x f)"
  by (auto simp: harmless_def with_arg_def split: option.splits)

lemma harmless_cached [simp]: "harmless \<alpha> (answer_with (cached_or k dflt))"
  by (rule harmless_answer [OF keeps_cached_or]) (auto simp: cached_or_def)

lemma harmless_snapshot [simp]: "harmless \<alpha> (answer_with (get_snapshot J p depth))"
  by (rule harmless_answer) (auto simp: keeps_def get_snapshot_def Let_def)

lemma harmless_open [simp]: "harmless \<alpha> (\<lambda>g. (Opened ep args, g))"
  by (simp add: harmless_def)

context valkey_spec
begin

lemma harmless_orderbook [simp]: "harmless \<alpha> (answer_with (get_orderbook V J p depth))"
proof (rule harmless_answer [OF keeps_get_orderbook])
  fix g r g' assume "get_orderbook V J p depth g = (r, g')"
  then show "(\<exists>b. r = Inr (200, b)) \<or> r = Inl PoolError"
    by (auto simp: get_orderbook_def read_live_def vbind_def vor_def vret_def Let_def split: prod.splits sum.splits option.splits list.splits)
qed

lemma harmless_user_value [simp]: "harmless \<alpha> (answer_with (user_value V t k dflt))"
proof (rule harmless_answer [OF keeps_user_value])
  fix g r g' assume u: "user_value V t k dflt g = (r, g')"
  obtain c s where c: "vk_conn V (w_vk (gs_world g)) = (c, s)" by (cases "vk_conn V (w_vk (gs_world g))")
  have "c = Inr () \<or> c = Inl PoolError" using simulatesD [OF sim_conn c] by (auto split: list.splits if_splits)
  with u c show "(\<exists>b. r = Inr (200, b)) \<or> r = Inl PoolError"
    by (auto simp: user_value_def vbind_def vor_def vret_def Let_def on_gw_def on_vk_def split: prod.splits sum.splits option.splits if_splits)
qed

lemma harmless_reads: "ep \<in> reads \<Longrightarrow> harmless \<alpha> (call_endpoint V X J E rq ep args)"
  by (auto simp: reads_def call_endpoint_def Let_def list_pairs_def get_trades_def get_ticker_def list_orders_def get_portfolio_def
      get_metrics_def get_lock_metrics_def get_throughput_def get_latency_percentiles_def get_audit_def intro!: harmless_with_arg)

end

lemma route_get:
  assumes "route_spec R" "R route_table GET path = Some (ep, args)"
  shows "ep \<in> reads"
  using route_spec.found [OF assms] get_routes by blast

text \<open>
  C8: reading changes nothing. Whatever \<open>GET\<close> request a client sends, the keys,
  expiries and messages of the service, the tables, the messages sent, the mirrored
  values and the state of the worker stay as they are, and a response has status
  200, or 500 when the service cannot be reached.
\<close>

theorem get_requests_change_nothing:
  assumes "valkey_spec V \<alpha>" and "route_spec R" and "rq_method rq = GET" and "serve R V X J E rq g = (a, g')"
  shows "observed \<alpha> g' = observed \<alpha> g \<and> (\<forall>st b. a = Answered (st, b) \<longrightarrow> st = 200 \<or> st = 500)"
proof (cases "R route_table GET (rq_path rq)")
  case (Some r)
  obtain ep args where r: "r = (ep, args)" by (cases r)
  have "harmless \<alpha> (call_endpoint V X J E rq ep args)"
    by (rule valkey_spec.harmless_reads [OF assms(1) route_get [OF assms(2) Some [unfolded r]]])
  then show ?thesis using assms(3,4) Some r by (simp add: serve_def harmless_def)
qed (use assms(3,4) in \<open>simp add: serve_def\<close>)

theorem get_requests_change_nothing_witness:
  "\<exists>a g'. serve first_route ref_valkey ref_ext ref_json sample_env
      \<lparr>rq_method = GET, rq_path = [''api'', ''pairs''], rq_query = (\<lambda>_. None), rq_order = None, rq_manage = None\<rparr>
      sample_gateway = (a, g') \<and>
    store (w_vk (gs_world g')) = store empty_vdata"
proof -
  let ?rq = "\<lparr>rq_method = GET, rq_path = [''api'', ''pairs''], rq_query = (\<lambda>_. None), rq_order = None, rq_manage = None\<rparr> :: rat http_request"
  let ?g = sample_gateway
  obtain a g' where s: "serve first_route ref_valkey ref_ext ref_json sample_env ?rq ?g = (a, g')" by (meson surj_pair)
  have "rq_method ?rq = GET" by simp
  from get_requests_change_nothing [OF ref.valkey_spec_axioms first.route_spec_axioms this s] s show ?thesis
    by (auto simp: observed_def sample_gateway_def empty_world_def)
qed

section \<open>Orders in the queues\<close>

text \<open>The messages that a request answered with 201 puts into the queue of a pair.\<close>

definition queued_for :: "'d ext \<Rightarrow> json_ext \<Rightarrow> string \<Rightarrow> ('d gw_env \<times> 'd http_request) \<times> answer \<Rightarrow> string list" where
  "queued_for X J p x =
     (case x of ((E, rq), a) \<Rightarrow>
       case (a, rq_order rq) of
         (Answered (st, _), Some req) \<Rightarrow>
           if st = 201 \<and> cr_pair_id req = p then [js_str J (request_json X (ge_fresh E 0) (ge_now E) req)] else []
       | _ \<Rightarrow> [])"

definition same_rest :: "('s, 'd) gw_state \<Rightarrow> ('s, 'd) gw_state \<Rightarrow> bool" where
  "same_rest g g' \<longleftrightarrow> w_pg (gs_world g') = w_pg (gs_world g) \<and> gs_memo g' = gs_memo g"

context valkey_spec
begin

lemma push_cases:
  assumes "well_keyed (\<alpha> (w_vk (gs_world g)))" "key_kind k = Some KList"
    and "on_gw (on_vk (vbind (vk_conn V) (\<lambda>_. vk_lpush V k v))) g = (r, g')"
  obtains "r = Inl PoolError" "observed \<alpha> g' = observed \<alpha> g"
  | "r = Inr ()" "well_keyed (\<alpha> (w_vk (gs_world g')))" "same_rest g g'"
    "\<And>k'. list_at (\<alpha> (w_vk (gs_world g'))) k' = (if k' = k then v # list_at (\<alpha> (w_vk (gs_world g))) k else list_at (\<alpha> (w_vk (gs_world g))) k')"
proof -
  let ?s = "w_vk (gs_world g)"
  obtain s' where m: "vbind (vk_conn V) (\<lambda>_. vk_lpush V k v) ?s = (r, s')" and g': "g' = g\<lparr>gs_world := (gs_world g)\<lparr>w_vk := s'\<rparr>\<rparr>"
    using assms(3) by (auto simp: on_gw_def on_vk_def split: prod.splits)
  have "simulates \<alpha> (vbind (vk_conn V) (\<lambda>_. vk_lpush V k v)) (vbind d_conn (\<lambda>_. d_lpush k v))" by (intro sim_rules)
  from simulatesD [OF this m] have d: "vbind d_conn (\<lambda>_. d_lpush k v) (\<alpha> ?s) = (r, \<alpha> s')" .
  obtain c d1 where c: "d_conn (\<alpha> ?s) = (c, d1)" by (cases "d_conn (\<alpha> ?s)")
  have st: "store d1 = store (\<alpha> ?s)" using keepsD [OF keeps_store_conn c] .
  then have keys: "vd_keys d1 = vd_keys (\<alpha> ?s)" by (simp add: store_def)
  have "c = Inr () \<or> c = Inl PoolError" using c by (auto split: list.splits if_splits)
  then show thesis
  proof
    assume "c = Inl PoolError"
    then have "r = Inl PoolError" "\<alpha> s' = d1" using d c by (auto simp: vbind_def)
    then show thesis using that(1) st g' by (simp add: observed_def)
  next
    assume ok: "c = Inr ()"
    have wk: "well_keyed d1" using assms(1) keys by (simp add: well_keyed_def)
    have "d_lpush k v d1 = (Inr (), put_key k (Some (VList (v # list_at d1 k))) d1)" by (rule list_ops(1) [OF wk assms(2)])
    then have r: "r = Inr ()" "\<alpha> s' = put_key k (Some (VList (v # list_at d1 k))) d1" using d c ok by (auto simp: vbind_def)
    have "well_keyed (\<alpha> s')" using wk assms(2) unfolding r(2) by (auto simp: well_keyed_def)
    moreover have "list_at d1 = list_at (\<alpha> ?s)" using keys by (simp add: list_at_def fun_eq_iff)
    ultimately show thesis using that(2) r g' by (auto simp: same_rest_def)
  qed
qed

end

lemma observed_keeps:
  assumes "observed \<alpha> g' = observed \<alpha> g"
  shows "well_keyed (\<alpha> (w_vk (gs_world g'))) = well_keyed (\<alpha> (w_vk (gs_world g)))"
    "list_at (\<alpha> (w_vk (gs_world g'))) = list_at (\<alpha> (w_vk (gs_world g)))" "same_rest g g'"
  using assms by (simp_all add: observed_def store_def well_keyed_def list_at_def same_rest_def fun_eq_iff)

text \<open>What one request does to the queue of a pair.\<close>

definition queue_step :: "('s \<Rightarrow> vdata) \<Rightarrow> string \<Rightarrow> string list \<Rightarrow> ('s, 'd) gw_state \<Rightarrow> ('s, 'd) gw_state \<Rightarrow> bool" where
  "queue_step \<alpha> p new g g' \<longleftrightarrow> well_keyed (\<alpha> (w_vk (gs_world g'))) \<and> same_rest g g' \<and>
     list_at (\<alpha> (w_vk (gs_world g'))) (''queue:orders:'' @ p) = new @ list_at (\<alpha> (w_vk (gs_world g))) (''queue:orders:'' @ p)"

lemma queue_step_same:
  assumes "well_keyed (\<alpha> (w_vk (gs_world g)))" "observed \<alpha> g' = observed \<alpha> g"
  shows "queue_step \<alpha> p [] g g'"
  using observed_keeps [where \<alpha> = \<alpha>, OF assms(2)] assms(1) by (simp add: queue_step_def)

lemma queued_for_status: "(\<And>st b. a = Answered (st, b) \<Longrightarrow> st \<noteq> 201) \<Longrightarrow> queued_for X J p ((E, rq), a) = []"
  by (auto simp: queued_for_def split: answer.split option.split)

context valkey_spec
begin

lemma cancellation_step:
  assumes "well_keyed (\<alpha> (w_vk (gs_world g)))"
    and "answer_with (vbind (push_cancellation V J msg) (\<lambda>_. vret (200, b))) g = (a, g')"
  shows "queue_step \<alpha> p [] g g' \<and> (\<forall>st b. a = Answered (st, b) \<longrightarrow> st \<noteq> 201)"
proof -
  let ?k = "''queue:cancellations''"
  obtain r g1 where m: "on_gw (on_vk (vbind (vk_conn V) (\<lambda>_. vk_lpush V ?k (js_str J msg)))) g = (r, g1)" by (meson surj_pair)
  have k: "key_kind ?k = Some KList" by (simp add: key_kind_def)
  have ne: "''queue:orders:'' @ p \<noteq> ?k" by simp
  have g1: "g' = g1" "a = Answered (case r of Inr _ \<Rightarrow> (200, b) | Inl e \<Rightarrow> (error_status e, Body (jobj [(''error'', JText (error_text e))])))"
    using assms(2) m by (auto simp: answer_with_def respond_def push_cancellation_def vbind_def vret_def split: sum.splits)
  from assms(1) k m show ?thesis
  proof (rule push_cases)
    assume "r = Inl PoolError" "observed \<alpha> g1 = observed \<alpha> g"
    then show ?thesis using g1 queue_step_same [where \<alpha> = \<alpha> and p = p, OF assms(1)] by simp
  next
    assume "r = Inr ()" "well_keyed (\<alpha> (w_vk (gs_world g1)))" "same_rest g g1"
      and l: "\<And>k'. list_at (\<alpha> (w_vk (gs_world g1))) k' =
        (if k' = ?k then js_str J msg # list_at (\<alpha> (w_vk (gs_world g))) ?k else list_at (\<alpha> (w_vk (gs_world g))) k')"
    then show ?thesis using g1 l [of "''queue:orders:'' @ p"] by (simp add: queue_step_def)
  qed
qed

lemma creation_step:
  assumes "well_keyed (\<alpha> (w_vk (gs_world g)))" "rq_order rq = Some req"
    and "answer_with (create_order V X J post (ge_fresh E) clock db_now ws url Queue (ge_now E) req) g = (a, g')"
  shows "queue_step \<alpha> p (queued_for X J p ((E, rq), a)) g g'"
proof (cases "check_request req")
  case (Inl e)
  then have "observed \<alpha> g' = observed \<alpha> g" "a = Answered (error_status e, Body (jobj [(''error'', JText (error_text e))]))"
    using assms(3) by (auto simp: answer_with_def respond_def create_order_def vbind_def vlift_def)
  moreover have "error_status e \<noteq> 201" by (cases e) simp_all
  ultimately show ?thesis using queue_step_same [where \<alpha> = \<alpha> and p = p, OF assms(1)] queued_for_status [of a X J p E rq] by simp
next
  case (Inr u)
  let ?k = "''queue:orders:'' @ cr_pair_id req" and ?v = "js_str J (request_json X (ge_fresh E 0) (ge_now E) req)"
  obtain r g1 where m: "on_gw (on_vk (vbind (vk_conn V) (\<lambda>_. vk_lpush V ?k ?v))) g = (r, g1)" by (meson surj_pair)
  have a: "g' = g1" "a = Answered (case r of Inr _ \<Rightarrow> (201, Body (created_json X (ge_fresh E 0) (ge_now E) req))
      | Inl e \<Rightarrow> (error_status e, Body (jobj [(''error'', JText (error_text e))])))"
    using assms(3) m Inr by (auto simp: answer_with_def respond_def create_order_def vbind_def vlift_def vret_def Let_def split: sum.splits)
  have k: "key_kind ?k = Some KList" by (simp add: key_kind_def)
  from assms(1) k m show ?thesis
  proof (rule push_cases)
    assume "r = Inl PoolError" "observed \<alpha> g1 = observed \<alpha> g"
    then show ?thesis using a queue_step_same [where \<alpha> = \<alpha> and p = p, OF assms(1)] queued_for_status [of a X J p E rq] by simp
  next
    assume "r = Inr ()" "well_keyed (\<alpha> (w_vk (gs_world g1)))" "same_rest g g1"
      and l: "\<And>k'. list_at (\<alpha> (w_vk (gs_world g1))) k' = (if k' = ?k then ?v # list_at (\<alpha> (w_vk (gs_world g))) ?k else list_at (\<alpha> (w_vk (gs_world g))) k')"
    then show ?thesis using a assms(2) l [of "''queue:orders:'' @ p"] by (simp add: queue_step_def queued_for_def)
  qed
qed

end

context valkey_spec
begin

lemma serve_step:
  assumes "well_keyed (\<alpha> (w_vk (gs_world g)))" "ge_mode E = Queue" "ep \<noteq> InternalManage"
    and call: "call_endpoint V X J E rq ep args g = (a, g')"
  shows "queue_step \<alpha> p (queued_for X J p ((E, rq), a)) g g'"
proof -
  have refused: "queue_step \<alpha> p (queued_for X J p ((E, rq), Refused)) g g"
    using queue_step_same [where \<alpha> = \<alpha> and p = p, OF assms(1) refl] by (simp add: queued_for_def)
  have cancel: "queue_step \<alpha> p (queued_for X J p ((E, rq), a)) g g'"
    if "answer_with (vbind (push_cancellation V J msg) (\<lambda>_. vret (200, b))) g = (a, g')" for msg b
    using cancellation_step [OF assms(1) that, of p] queued_for_status [of a X J p E rq] by simp
  show ?thesis
  proof (cases "ep \<in> reads")
    case True
    then have h: "observed \<alpha> g' = observed \<alpha> g \<and> (\<forall>st b. a = Answered (st, b) \<longrightarrow> st = 200 \<or> st = 500)"
      using harmless_reads [OF True, of X J E rq args] call unfolding harmless_def by blast
    have "queued_for X J p ((E, rq), a) = []" by (rule queued_for_status) (use h in force)
    then show ?thesis using queue_step_same [where \<alpha> = \<alpha> and p = p, OF assms(1)] h by simp
  next
    case False
    then consider "ep = CreateOrder" | "ep = CancelAllOrders" | "ep = CancelOrder" | "ep = ModifyOrder"
      using assms(3) by (cases ep) (auto simp: reads_def)
    then show ?thesis
    proof cases
      case 1
      then show ?thesis using call assms(2) refused creation_step [OF assms(1)]
        by (auto simp: call_endpoint_def with_arg_def split: option.splits)
    next
      case 2
      then show ?thesis using call refused cancel
        by (auto simp: call_endpoint_def with_arg_def cancel_all_orders_def Let_def split: option.splits)
    next
      case 3
      then show ?thesis using call refused cancel
        by (auto simp: call_endpoint_def with_arg_def cancel_order_def Let_def split: option.splits)
    next
      case 4
      then show ?thesis using call refused cancel
        by (auto simp: call_endpoint_def with_arg_def modify_order_def Let_def split: option.splits)
    qed
  qed
qed

end

lemma manage_route:
  assumes "route_spec R" "R route_table m path = Some (InternalManage, args)"
  shows "path = [''internal'', ''manage'']"
proof -
  obtain pat where "(pat, m, InternalManage) \<in> set route_table" "match_path pat path = Some args"
    using route_spec.found [OF assms] by blast
  then have "match_path [Lit ''internal'', Lit ''manage''] path = Some args" by (auto simp: route_table_def)
  then show ?thesis by (cases path; cases "tl path") (auto split: if_splits dest: match_path_length)
qed

text \<open>
  C7: the gateway puts every order it accepts into the queue, once and in order. In
  the mode \<open>Queue\<close>, whatever requests arrive at paths other than \<open>/internal/manage\<close> (whose resets
  delete queues) and however often
  connections to the service fail, the queue of a pair afterwards holds the messages
  of exactly the requests for that pair that were answered with 201, the newest
  first, before what it held; the tables are not touched. (The comment at the head of the gateway's \<open>routes.rs\<close>
  promises 202; the handler answers 201.)
\<close>

theorem accepted_orders_are_queued:
  assumes "valkey_spec V \<alpha>" and "route_spec R" and "well_keyed (\<alpha> (w_vk (gs_world g)))"
    and "\<forall>(E, rq) \<in> set rqs. ge_mode E = Queue \<and> rq_path rq \<noteq> [''internal'', ''manage'']"
    and "serve_all R V X J rqs g = (answers, g')"
  shows "list_at (\<alpha> (w_vk (gs_world g'))) (''queue:orders:'' @ p) =
      rev (concat (map (queued_for X J p) (zip rqs answers))) @ list_at (\<alpha> (w_vk (gs_world g))) (''queue:orders:'' @ p) \<and>
    length answers = length rqs \<and> w_pg (gs_world g') = w_pg (gs_world g)"
  using assms(3-5)
proof (induction rqs arbitrary: g answers)
  case (Cons x rqs)
  obtain E rq where x: "x = (E, rq)" by (cases x)
  obtain a g1 as where s: "serve R V X J E rq g = (a, g1)" "serve_all R V X J rqs g1 = (as, g')" "answers = a # as"
    using Cons.prems(3) by (auto simp: x split: prod.splits)
  have mode: "ge_mode E = Queue" "rq_path rq \<noteq> [''internal'', ''manage'']" using Cons.prems(2) by (simp_all add: x)
  have step: "queue_step \<alpha> p (queued_for X J p ((E, rq), a)) g g1"
  proof (cases "R route_table (rq_method rq) (rq_path rq)")
    case None
    then have "a = NoRoute" "g1 = g" using s(1) by (auto simp: serve_def)
    then show ?thesis using queue_step_same [where \<alpha> = \<alpha> and p = p, OF Cons.prems(1) refl] by (simp add: queued_for_def)
  next
    case (Some r)
    obtain ep args where r: "r = (ep, args)" by (cases r)
    have "ep \<noteq> InternalManage" using manage_route [OF assms(2)] mode(2) Some r by blast
    from valkey_spec.serve_step [OF assms(1) Cons.prems(1) mode(1) this] s(1) Some r show ?thesis by (simp add: serve_def)
  qed
  then have "well_keyed (\<alpha> (w_vk (gs_world g1)))" by (simp add: queue_step_def)
  moreover have "\<forall>(E, rq) \<in> set rqs. ge_mode E = Queue \<and> rq_path rq \<noteq> [''internal'', ''manage'']" using Cons.prems(2) by simp
  moreover have "rev (queued_for X J p ((E, rq), a)) = queued_for X J p ((E, rq), a)"
    by (auto simp: queued_for_def split: answer.split option.split)
  ultimately show ?case using Cons.IH [OF _ _ s(2)] step s(3) by (simp add: x queue_step_def same_rest_def)
qed simp

lemma sample_post_accepted:
  "\<exists>b g'. serve first_route ref_valkey ref_ext ref_json sample_env sample_post sample_gateway = (Answered (201, b), g')"
proof -
  have r: "first_route route_table POST [''api'', ''orders''] = Some (CreateOrder, [])"
    by (simp add: first_route_def route_table_def)
  have c: "check_request sample_request = Inr ()" by (simp add: check_request_def sample_request_def)
  show ?thesis
    by (simp add: serve_def sample_post_def r call_endpoint_def with_arg_def answer_with_def respond_def create_order_def
        sample_env_def c vbind_def vlift_def vret_def Let_def on_gw_def on_vk_def sample_gateway_def empty_world_def
        empty_vdata_def d_lpush_def edit_key_def)
qed

theorem accepted_orders_are_queued_witness:
  "\<exists>answers g'. serve_all first_route ref_valkey ref_ext ref_json [(sample_env, sample_post)] sample_gateway = (answers, g') \<and>
     list_at (w_vk (gs_world g')) (''queue:orders:'' @ cr_pair_id sample_request) =
       [js_str ref_json (request_json ref_ext 0 0 sample_request)]"
proof -
  let ?p = "cr_pair_id sample_request" and ?rqs = "[(sample_env, sample_post)]"
  obtain b g1 where s: "serve first_route ref_valkey ref_ext ref_json sample_env sample_post sample_gateway = (Answered (201, b), g1)"
    using sample_post_accepted by blast
  then have all: "serve_all first_route ref_valkey ref_ext ref_json ?rqs sample_gateway = ([Answered (201, b)], g1)" by simp
  have w: "well_keyed (id (w_vk (gs_world sample_gateway)))" by (simp add: sample_gateway_def empty_world_def)
  have q: "\<forall>(E, rq) \<in> set ?rqs. ge_mode E = Queue \<and> rq_path rq \<noteq> [''internal'', ''manage'']"
    by (simp add: sample_env_def sample_post_def)
  from accepted_orders_are_queued [OF ref.valkey_spec_axioms first.route_spec_axioms w q all, of ?p] all
  show ?thesis
    by (auto simp: queued_for_def sample_post_def sample_env_def sample_gateway_def empty_world_def empty_vdata_def list_at_def)
qed

end
