(* ===== verification/Doubles.thy ===== *)
theory Doubles
  imports Metrics_View
begin

text \<open>
  Arithmetic of non-negative \<open>f64\<close> values: the rounding of a rational result, which
  is monotone, division with its two exceptional results and the addition of
  \<open>Duration::as_secs_f64\<close>. The results of the program lie between \<open>2 ^ -100\<close> and
  \<open>2 ^ 128\<close> or are 0, where 53 significant bits are all that rounding has to consider.
\<close>

datatype double = Fin rat | Inf | NaN

definition f64_of :: "rat \<Rightarrow> rat" where
  "f64_of r =
     (let x = r * 2 ^ 200; q = \<lfloor>x\<rfloor>; sticky = (if of_int q = x then 0 else 1) in
      of_int (f64_round (2 * q + sticky)) / 2 ^ 201)"

fun double_div :: "double \<Rightarrow> double \<Rightarrow> double" where
  "double_div (Fin a) (Fin b) = (if b = 0 then (if a = 0 then NaN else Inf) else Fin (f64_of (a / b)))"
| "double_div Inf (Fin b) = Inf"
| "double_div (Fin a) Inf = Fin 0"
| "double_div _ _ = NaN"

fun double_mult :: "double \<Rightarrow> double \<Rightarrow> double" where
  "double_mult (Fin a) (Fin b) = Fin (f64_of (a * b))"
| "double_mult Inf (Fin b) = (if b = 0 then NaN else Inf)"
| "double_mult (Fin a) Inf = (if a = 0 then NaN else Inf)"
| "double_mult Inf Inf = Inf"
| "double_mult _ _ = NaN"

definition double_of_nat :: "nat \<Rightarrow> double" where
  "double_of_nat n = Fin (of_int (f64_round (int n)))"

text \<open>A duration in nanoseconds: \<open>secs as f64 + nanos as f64 / 1e9\<close>.\<close>

definition as_secs_f64 :: "nat \<Rightarrow> double" where
  "as_secs_f64 ns =
     Fin (f64_of (of_int (f64_round (int (ns div 10 ^ 9))) + f64_of (of_nat (ns mod 10 ^ 9) / 10 ^ 9)))"

section \<open>Rounding is monotone\<close>

lemma nbits_binade:
  assumes "2 ^ 52 \<le> q" "q * 2 ^ e \<le> b" "b < Suc q * 2 ^ e" "Suc q \<le> 2 ^ 53"
  shows "nbits b = 53 + e"
proof -
  have "2 ^ 52 * 2 ^ e \<le> q * 2 ^ e" using assms(1) by (intro mult_right_mono) simp_all
  then have "2 ^ (52 + e) \<le> b" using assms(2) unfolding power_add by linarith
  moreover have "Suc q * 2 ^ e \<le> 2 ^ 53 * 2 ^ e" using assms(4) by (intro mult_right_mono) simp_all
  then have "b < 2 ^ 53 * 2 ^ e" by (rule less_le_trans [OF assms(3)])
  then have "b < 2 ^ Suc (52 + e)" by (simp add: power_add)
  ultimately have "nbits b = Suc (52 + e)" by (rule nbits_eqI)
  then show ?thesis by simp
qed

lemma f64_round_nat:
  assumes "2 ^ 53 < (a :: nat)"
  shows "f64_round (int a) =
    (let e = nbits a - 53; q = a div 2 ^ e; r = a mod 2 ^ e in
     int ((if r > 2 ^ (e - 1) \<or> r = 2 ^ (e - 1) \<and> odd q then Suc q else q) * 2 ^ e))"
proof -
  have "\<not> \<bar>int a\<bar> \<le> 2 ^ 53" using assms by (simp add: zless_nat_eq_int_zless flip: of_nat_power)
  then show ?thesis using assms by (simp add: f64_round_def Let_def)
qed

lemma f64_round_mono_nat:
  assumes "a \<le> (b :: nat)"
  shows "f64_round (int a) \<le> f64_round (int b)"
proof (cases "a \<le> 2 ^ 53")
  case True
  then have "f64_round (int a) = int a" by (metis abs_of_nat f64_round_exact of_nat_le_iff of_nat_numeral of_nat_power)
  then show ?thesis using f64_round_lower [of a 0 b] True assms by simp
next
  case False
  define e q r where "e = nbits a - 53" and "q = a div 2 ^ e" and "r = a mod 2 ^ e"
  have big: "2 ^ 53 < a" "2 ^ 53 < b" using False assms by linarith+
  have nb: "2 ^ (nbits a - 1) \<le> a" "a < 2 ^ nbits a" using nbits_bounds [of a] big(1) by auto
  have "(53 :: nat) < nbits a" by (rule power_less_imp_less_exp [of 2, OF _ less_trans [OF big(1) nb(2)]]) simp
  then have e: "nbits a - 1 = 52 + e" "nbits a = 53 + e" by (auto simp: e_def)
  have a: "a = q * 2 ^ e + r" "r < 2 ^ e" using div_mult_mod_eq [of a "2 ^ e"] by (simp_all add: q_def r_def)
  have q: "2 ^ 52 \<le> q" using nb(1) e(1) by (simp add: q_def less_eq_div_iff_mult_less_eq power_add)
  have "q * 2 ^ e < 2 ^ 53 * 2 ^ e" using nb(2) a(1) unfolding e(2) power_add by linarith
  then have q53: "Suc q \<le> 2 ^ 53" unfolding mult_less_cancel2 by simp
  show ?thesis
  proof (cases "Suc q * 2 ^ e \<le> b")
    case True
    have "f64_round (int a) \<le> int (Suc q * 2 ^ e)" using f64_round_upper [of a "Suc q" e] a q53 by simp
    also have "\<dots> \<le> f64_round (int b)" using f64_round_lower [OF True q53] .
    finally show ?thesis .
  next
    case False
    then have b: "q * 2 ^ e \<le> b" "b < Suc q * 2 ^ e" using a(1) assms by simp_all
    have bits: "nbits b - 53 = e" using nbits_binade [OF q b q53] by simp
    have bq: "b div 2 ^ e = q" using b by (intro div_nat_eqI) (simp_all add: mult.commute)
    then have "b = q * 2 ^ e + b mod 2 ^ e" using div_mult_mod_eq [of b "2 ^ e"] by simp
    then have "r \<le> b mod 2 ^ e" using a(1) assms by linarith
    then show ?thesis
      unfolding f64_round_nat [OF big(1)] f64_round_nat [OF big(2)] bits bq Let_def
      by (auto simp: e_def [symmetric] q_def [symmetric] r_def [symmetric])
  qed
qed

lemma f64_round_mono: "0 \<le> a \<Longrightarrow> a \<le> b \<Longrightarrow> f64_round a \<le> f64_round b"
  using f64_round_mono_nat [of "nat a" "nat b"] by simp

lemma f64_of_mono:
  assumes "0 \<le> r" "r \<le> s"
  shows "f64_of r \<le> f64_of s"
proof -
  define n where "n x = 2 * \<lfloor>x\<rfloor> + (if of_int \<lfloor>x\<rfloor> = x then 0 else 1)" for x :: rat
  let ?x = "r * 2 ^ 200" and ?y = "s * 2 ^ 200"
  have le: "?x \<le> ?y" "0 \<le> ?x" using assms by (simp_all add: mult_right_mono)
  have f: "\<lfloor>?x\<rfloor> \<le> \<lfloor>?y\<rfloor>" "0 \<le> \<lfloor>?x\<rfloor>" using le by (simp_all only: floor_mono zero_le_floor)
  have "n ?x \<le> n ?y"
  proof (cases "\<lfloor>?x\<rfloor> = \<lfloor>?y\<rfloor>")
    case True
    then have "of_int \<lfloor>?y\<rfloor> = ?y \<Longrightarrow> of_int \<lfloor>?x\<rfloor> = ?x" using le(1) of_int_floor_le [of ?x] by linarith
    then show ?thesis unfolding n_def True by simp
  next
    case False
    then show ?thesis using f(1) by (simp add: n_def)
  qed
  moreover have "0 \<le> n ?x" using f(2) by (simp add: n_def)
  ultimately have "of_int (f64_round (n ?x)) \<le> (of_int (f64_round (n ?y)) :: rat)"
    using f64_round_mono by (simp only: of_int_le_iff)
  then show ?thesis by (simp add: f64_of_def n_def Let_def divide_right_mono)
qed

text \<open>Whole numbers up to \<open>2 ^ 53\<close> are doubles.\<close>

lemma f64_of_nat: "n \<le> 2 ^ 53 \<Longrightarrow> f64_of (of_nat n) = of_nat n"
proof -
  assume n: "n \<le> 2 ^ 53"
  have x: "(of_nat n :: rat) * 2 ^ 200 = of_int (int (n * 2 ^ 200))" by simp
  have "f64_round (int (n * 2 ^ 201)) = int (n * 2 ^ 201)"
    using f64_round_lower [OF order_refl n, of 201] f64_round_upper [OF order_refl n, of 201] by (rule antisym [rotated])
  moreover have "2 * int (n * 2 ^ 200) + 0 = int (n * 2 ^ 201)" by simp
  ultimately have "f64_of (of_nat n) = of_int (int (n * 2 ^ 201)) / 2 ^ 201"
    unfolding f64_of_def x Let_def floor_of_int by (simp only: refl if_True)
  also have "\<dots> = of_nat n" by simp
  finally show ?thesis .
qed

lemma f64_of_0 [simp]: "f64_of 0 = 0"
  using f64_of_nat [of 0] by simp

lemma f64_of_nonneg: "0 \<le> r \<Longrightarrow> 0 \<le> f64_of r"
  using f64_of_mono [of 0 r] by simp

lemma double_of_nat_exact: "n \<le> 2 ^ 53 \<Longrightarrow> double_of_nat n = Fin (of_nat n)"
  by (simp add: double_of_nat_def)

end
