(* ===== verification/Load_Test.thy ===== *)
theory Load_Test
  imports Doubles Router "HOL-Library.Word"
begin

text \<open>
  \<open>tools/loadtest/src/main.rs\<close>: the options, the generated orders, the counters that
  the workers share, the websocket that counts trades and the report of a level.
  The counters are \<open>AtomicU64\<close>, a 64-bit word each; the workers' updates are single
  atomic operations that interleave. What the workers and the socket meet (times,
  responses, messages) are arguments; \<open>J\<close> is the text of JSON values. The lines
  printed on the terminal are left out.
\<close>

section \<open>Options\<close>

datatype mode = Sync | Verified

record config =
  cf_base_url :: string
  cf_ws_url :: "string option"
  cf_pairs :: "string list"
  cf_concurrency_levels :: "nat list"
  cf_duration_secs :: nat
  cf_scenarios :: "string list"
  cf_mode :: mode
  cf_label :: string
  cf_output :: "string option"

text \<open>The argument after the first occurrence of a flag.\<close>

fun arg_after :: "string list \<Rightarrow> string \<Rightarrow> string option" where
  "arg_after [] flag = None"
| "arg_after (a # as) flag = (if a = flag then (case as of [] \<Rightarrow> None | b # _ \<Rightarrow> Some b) else arg_after as flag)"

definition is_space :: "char \<Rightarrow> bool" where
  "is_space c \<longleftrightarrow> (of_char c :: nat) = 32 \<or> 9 \<le> (of_char c :: nat) \<and> (of_char c :: nat) \<le> 13"

definition trim :: "string \<Rightarrow> string" where
  "trim s = rev (dropWhile is_space (rev (dropWhile is_space s)))"

definition from_args :: "string list \<Rightarrow> config" where
  "from_args args =
     (let get = (\<lambda>flag default. option_or (arg_after args flag) default);
          scenario = get ''--scenario'' ''all'' in
      \<lparr>cf_base_url = get ''--url'' ''http://localhost:3001'',
       cf_ws_url = arg_after args ''--ws-url'',
       cf_pairs = map trim (split_on (CHR '','') (get ''--pairs'' ''BTC-USDT'')),
       cf_concurrency_levels = List.map_filter (\<lambda>s. parse_u64 (trim s)) (split_on (CHR '','') (get ''--concurrency'' ''1,2,4,8,16,32'')),
       cf_duration_secs = option_or (parse_u64 (get ''--duration'' ''10'')) 10,
       cf_scenarios = (if scenario = ''all'' then [''resting'', ''crossing'', ''mixed'', ''multi-pair''] else [scenario]),
       cf_mode = (if get ''--mode'' ''sync'' = ''verified'' then Verified else Sync),
       cf_label = get ''--label'' ''unknown'',
       cf_output = arg_after args ''--output''\<rparr>)"

text \<open>\<open>replacen(pat, new, 1)\<close>.\<close>

fun replace_first :: "string \<Rightarrow> string \<Rightarrow> string \<Rightarrow> string" where
  "replace_first pat new [] = (if pat = [] then new else [])"
| "replace_first pat new (x # xs) =
     (if prefix pat (x # xs) then new @ drop (length pat) (x # xs) else x # replace_first pat new xs)"

definition ws_base_url :: "config \<Rightarrow> string" where
  "ws_base_url cfg =
     (case cf_ws_url cfg of
        Some url \<Rightarrow> url
      | None \<Rightarrow> replace_first ''http://'' ''ws://'' (replace_first ''https://'' ''wss://'' (cf_base_url cfg)))"

section \<open>Counters\<close>

type_synonym u64 = "64 word"

record stats =
  st_orders :: u64
  st_errors :: u64
  st_latency_sum_us :: u64
  st_latency_max_us :: u64

definition stats_new :: stats where
  "stats_new = \<lparr>st_orders = 0, st_errors = 0, st_latency_sum_us = 0, st_latency_max_us = 0\<rparr>"

text \<open>The atomic operations on the shared counters.\<close>

datatype stat_op = AddOrder | AddError | AddLatency u64 | MaxLatency u64

fun stat_apply :: "stat_op \<Rightarrow> stats \<Rightarrow> stats" where
  "stat_apply AddOrder st = st\<lparr>st_orders := st_orders st + 1\<rparr>"
| "stat_apply AddError st = st\<lparr>st_errors := st_errors st + 1\<rparr>"
| "stat_apply (AddLatency us) st = st\<lparr>st_latency_sum_us := st_latency_sum_us st + us\<rparr>"
| "stat_apply (MaxLatency us) st = st\<lparr>st_latency_max_us := max (st_latency_max_us st) us\<rparr>"

text \<open>A latency in nanoseconds: \<open>as_micros() as u64\<close>.\<close>

definition stats_record :: "nat \<Rightarrow> stat_op list" where
  "stats_record latency = (let us = of_nat (latency div 1000) in [AddOrder, AddLatency us, MaxLatency us])"

definition stats_record_error :: "stat_op list" where
  "stats_record_error = [AddError]"

definition stats_snapshot :: "stats \<Rightarrow> nat \<times> nat \<times> nat \<times> nat" where
  "stats_snapshot st = (unat (st_orders st), unat (st_errors st), unat (st_latency_sum_us st), unat (st_latency_max_us st))"

section \<open>Orders\<close>

definition order_body :: "string \<Rightarrow> string \<Rightarrow> string \<Rightarrow> string \<Rightarrow> string \<Rightarrow> json" where
  "order_body user pair sd tif price =
     jobj [(''user_id'', JText user), (''pair_id'', JText pair), (''side'', JText sd), (''order_type'', JText ''Limit''),
           (''tif'', JText tif), (''price'', JText price), (''quantity'', JText ''0.00001'')]"

type_synonym order_fn = "string \<Rightarrow> u64 \<Rightarrow> json"

definition resting_order :: order_fn where
  "resting_order pair seq =
     (case (if seq mod 2 = 0 then (''Buy'', ''70500'') else (''Sell'', ''71000'')) of (sd, price) \<Rightarrow>
      order_body (if seq mod 2 = 0 then ''user-1'' else ''user-2'') pair sd ''IOC'' price)"

definition crossing_order :: order_fn where
  "crossing_order pair seq =
     (case (if seq mod 2 = 0 then (''Sell'', ''70735'', ''user-2'') else (''Buy'', ''70735'', ''user-1'')) of (sd, price, user) \<Rightarrow>
      order_body user pair sd ''GTC'' price)"

definition mixed_order :: order_fn where
  "mixed_order pair seq = (if seq mod 4 < 2 then resting_order pair seq else crossing_order pair seq)"

text \<open>The result of a request: \<open>None\<close> when sending fails, otherwise the status of the response.\<close>

definition place_order :: "nat option \<Rightarrow> bool" where
  "place_order resp = (case resp of None \<Rightarrow> False | Some status \<Rightarrow> 200 \<le> status \<and> status < 300)"

section \<open>Counting trades\<close>

datatype counter_input =
    Cancelled_Input | Message string | PingFrame string | CloseFrame | EndOfStream | OtherFrame

datatype counter_output = SendText string | SendPong string | SendClose

definition trade_url :: "string \<Rightarrow> string" where
  "trade_url ws_url =
     (if sublist ''execute-api'' ws_url \<or> suffix ''/ws'' ws_url then ws_url else ws_url @ ''/ws/stream'')"

definition subscribe_text :: "json_ext \<Rightarrow> string list \<Rightarrow> string" where
  "subscribe_text J pairs = js_str J (jobj [(''subscribe'', JArr (map (\<lambda>p. JText (''trades:'' @ p)) pairs))])"

definition trades_in :: "json \<Rightarrow> u64" where
  "trades_in val =
     (case Option.bind (jget val ''ch'') jstr of
        None \<Rightarrow> 0
      | Some ch \<Rightarrow>
          if prefix ''trades:'' ch then
            (case jget val ''data'' of None \<Rightarrow> 0
             | Some data \<Rightarrow> (case jarr data of Some a \<Rightarrow> of_nat (length a) | None \<Rightarrow> 1))
          else 0)"

text \<open>The loop: the frames sent and the counter at its end.\<close>

fun trade_loop :: "json_ext \<Rightarrow> u64 \<Rightarrow> counter_input list \<Rightarrow> u64 \<times> counter_output list" where
  "trade_loop J n [] = (n, [])"
| "trade_loop J n (Cancelled_Input # ins) = (n, [SendClose])"
| "trade_loop J n (Message text # ins) =
     trade_loop J (n + (case js_parse J text of None \<Rightarrow> 0 | Some val \<Rightarrow> trades_in val)) ins"
| "trade_loop J n (PingFrame data # ins) = (case trade_loop J n ins of (m, outs) \<Rightarrow> (m, SendPong data # outs))"
| "trade_loop J n (CloseFrame # ins) = (n, [])"
| "trade_loop J n (EndOfStream # ins) = (n, [])"
| "trade_loop J n (OtherFrame # ins) = trade_loop J n ins"

definition ws_trade_loop :: "json_ext \<Rightarrow> string list \<Rightarrow> counter_input list \<Rightarrow> u64 \<times> counter_output list" where
  "ws_trade_loop J pairs ins = (case trade_loop J 0 ins of (n, outs) \<Rightarrow> (n, SendText (subscribe_text J pairs) # outs))"

section \<open>A level\<close>

text \<open>A round of a worker: the time at its start, the response and the time it took.\<close>

record round =
  rd_now :: instant
  rd_response :: "nat option"
  rd_latency :: nat

definition round_ops :: "round \<Rightarrow> stat_op list" where
  "round_ops r = (if place_order (rd_response r) then stats_record (rd_latency r) else stats_record_error)"

text \<open>The loop of a worker: the bodies it sends and its updates of the counters.\<close>

fun worker_loop :: "order_fn \<Rightarrow> string \<Rightarrow> instant \<Rightarrow> u64 \<Rightarrow> round list \<Rightarrow> json list \<times> stat_op list" where
  "worker_loop order_fn pair deadline seq [] = ([], [])"
| "worker_loop order_fn pair deadline seq (r # rs) =
     (if rd_now r < deadline then
        (case worker_loop order_fn pair deadline (seq + 1) rs of
           (bodies, ops) \<Rightarrow> (order_fn pair seq # bodies, round_ops r @ ops))
      else ([], []))"

definition worker_pair :: "config \<Rightarrow> nat \<Rightarrow> string" where
  "worker_pair cfg worker = cf_pairs cfg ! (worker mod length (cf_pairs cfg))"

definition run_worker :: "order_fn \<Rightarrow> config \<Rightarrow> instant \<Rightarrow> nat \<Rightarrow> round list \<Rightarrow> json list \<times> stat_op list" where
  "run_worker order_fn cfg deadline worker rs =
     worker_loop order_fn (worker_pair cfg worker) deadline (of_nat worker * 1000000) rs"

text \<open>The updates of several workers, in the order in which they happen.\<close>

inductive interleaved :: "'a list list \<Rightarrow> 'a list \<Rightarrow> bool" where
  finish: "(\<And>l. l \<in> set ls \<Longrightarrow> l = []) \<Longrightarrow> interleaved ls []"
| turn: "i < length ls \<Longrightarrow> ls ! i = x # xs \<Longrightarrow> interleaved (ls[i := xs]) ys \<Longrightarrow> interleaved ls (x # ys)"

definition level_stats :: "stat_op list \<Rightarrow> stats" where
  "level_stats ops = fold stat_apply ops stats_new"

text \<open>
  The wait for the last trades: readings of the clock and of the counter after each
  pause of 200 ms, until the counter stands still or five seconds are over.
\<close>

fun drain_loop :: "instant \<Rightarrow> u64 \<Rightarrow> (instant \<times> u64) list \<Rightarrow> nat" where
  "drain_loop drain_deadline seen [] = 0"
| "drain_loop drain_deadline seen ((now, current) # rs) =
     (if now < drain_deadline then
        (if current > seen then Suc (drain_loop drain_deadline current rs) else 1)
      else 0)"

record level_result =
  lr_concurrency :: nat
  lr_orders :: nat
  lr_errors :: nat
  lr_dispatch_per_sec :: double
  lr_avg_latency_ms :: double
  lr_max_latency_ms :: double
  lr_verified_trades :: "nat option"
  lr_verified_trades_per_sec :: "double option"
  lr_match_rate_pct :: "double option"

definition match_rate :: "nat \<Rightarrow> nat \<Rightarrow> double" where
  "match_rate vt orders =
     (if orders > 0
      then double_mult (double_div (double_of_nat vt) (double_div (double_of_nat orders) (Fin 2))) (Fin 100)
      else Fin 0)"

definition make_level :: "nat \<Rightarrow> stats \<Rightarrow> nat \<Rightarrow> nat option \<Rightarrow> level_result" where
  "make_level conc st wall verified_trades =
     (case stats_snapshot st of (orders, errors, lat_sum, lat_max) \<Rightarrow>
      let wall_elapsed = as_secs_f64 wall in
      \<lparr>lr_concurrency = conc, lr_orders = orders, lr_errors = errors,
       lr_dispatch_per_sec = double_div (double_of_nat orders) wall_elapsed,
       lr_avg_latency_ms =
         (if orders > 0 then double_div (double_div (double_of_nat lat_sum) (double_of_nat orders)) (Fin 1000) else Fin 0),
       lr_max_latency_ms = double_div (double_of_nat lat_max) (Fin 1000),
       lr_verified_trades = verified_trades,
       lr_verified_trades_per_sec = map_option (\<lambda>vt. double_div (double_of_nat vt) wall_elapsed) verified_trades,
       lr_match_rate_pct = map_option (\<lambda>vt. match_rate vt orders) verified_trades\<rparr>)"

text \<open>
  What a level leaves behind: the updates of its workers, the time they took and the
  counter of trades at its start and at its end, when there is one.
\<close>

record level_run =
  lv_ops :: "stat_op list"
  lv_wall :: nat
  lv_trades_before :: u64
  lv_trades_after :: u64

definition run_level :: "config \<Rightarrow> nat \<Rightarrow> level_run \<Rightarrow> level_result" where
  "run_level cfg conc lv =
     make_level conc (level_stats (lv_ops lv)) (lv_wall lv)
       (if cf_mode cfg = Verified then Some (unat (lv_trades_after lv - lv_trades_before lv)) else None)"

section \<open>Scenarios\<close>

record scenario_result =
  sr_label :: string
  sr_scenario :: string
  sr_mode :: string
  sr_levels :: "level_result list"

definition run_scenario :: "string \<Rightarrow> config \<Rightarrow> (nat \<Rightarrow> level_run) \<Rightarrow> scenario_result" where
  "run_scenario name cfg run =
     \<lparr>sr_label = cf_label cfg, sr_scenario = name,
      sr_mode = (if cf_mode cfg = Verified then ''verified'' else ''sync''),
      sr_levels = map (\<lambda>(i, conc). run_level cfg conc (run i)) (enumerate 0 (cf_concurrency_levels cfg))\<rparr>"

definition scenario_of :: "config \<Rightarrow> string \<Rightarrow> (string \<times> order_fn) option" where
  "scenario_of cfg scenario =
     (if scenario = ''resting'' then Some (''Resting Orders (IOC, no matching)'', resting_order)
      else if scenario = ''crossing'' then Some (''Crossing Orders (GTC, every 2nd matches)'', crossing_order)
      else if scenario = ''mixed'' then Some (''Mixed (50% resting, 50% crossing)'', mixed_order)
      else if scenario = ''multi-pair'' then
        (if length (cf_pairs cfg) < 2 then None else Some (''Multi-Pair Crossing'', crossing_order))
      else None)"

text \<open>The results of all scenarios; \<open>run\<close> is what happens in the levels of a scenario.\<close>

definition load_main :: "string list \<Rightarrow> (string \<Rightarrow> nat \<Rightarrow> level_run) \<Rightarrow> scenario_result list" where
  "load_main args run =
     (let cfg = from_args args in
      List.map_filter (\<lambda>scenario. map_option (\<lambda>(name, _). run_scenario name cfg (run scenario)) (scenario_of cfg scenario))
        (cf_scenarios cfg))"

text \<open>The file of results: the fields in the order of the structures, doubles that are no numbers as \<open>null\<close>.\<close>

fun double_json :: "double \<Rightarrow> json" where
  "double_json (Fin r) = JReal r"
| "double_json _ = JNull"

definition level_result_json :: "level_result \<Rightarrow> json" where
  "level_result_json r =
     JObj ([(''concurrency'', JInt (int (lr_concurrency r))), (''orders'', JInt (int (lr_orders r))),
            (''errors'', JInt (int (lr_errors r))), (''dispatch_per_sec'', double_json (lr_dispatch_per_sec r)),
            (''avg_latency_ms'', double_json (lr_avg_latency_ms r)), (''max_latency_ms'', double_json (lr_max_latency_ms r))] @
           (case lr_verified_trades r of None \<Rightarrow> [] | Some n \<Rightarrow> [(''verified_trades'', JInt (int n))]) @
           (case lr_verified_trades_per_sec r of None \<Rightarrow> [] | Some x \<Rightarrow> [(''verified_trades_per_sec'', double_json x)]) @
           (case lr_match_rate_pct r of None \<Rightarrow> [] | Some x \<Rightarrow> [(''match_rate_pct'', double_json x)]))"

definition scenario_json :: "scenario_result \<Rightarrow> json" where
  "scenario_json r =
     JObj [(''label'', JText (sr_label r)), (''scenario'', JText (sr_scenario r)), (''mode'', JText (sr_mode r)),
           (''levels'', JArr (map level_result_json (sr_levels r)))]"

definition output_file :: "(json \<Rightarrow> string) \<Rightarrow> config \<Rightarrow> scenario_result list \<Rightarrow> (string \<times> string) option" where
  "output_file pretty cfg all_results = map_option (\<lambda>path. (path, pretty (JArr (map scenario_json all_results)))) (cf_output cfg)"

end
