(* ===== verification/Load_Report.thy ===== *)
theory Load_Report
  imports Load_Test "HOL-Library.Multiset"
begin

text \<open>
  The report of the load test: whatever the order in which the workers update the
  shared counters, a level reports the orders that were accepted and refused, and its
  average latency, computed in doubles, lies between the smallest and the largest one.
\<close>

section \<open>Updates in any order\<close>

lemma interleaved_mset: "interleaved ls ys \<Longrightarrow> mset ys = mset (concat ls)"
proof (induction rule: interleaved.induct)
  case (finish ls)
  then have "concat ls = []" by simp
  then show ?case by simp
next
  case (turn i ls x xs ys)
  have "concat ls = concat (take i ls) @ (x # xs) @ concat (drop (Suc i) ls)"
    using id_take_nth_drop [OF turn(1)] turn(2) by (metis concat.simps(2) concat_append)
  moreover have "concat (ls[i := xs]) = concat (take i ls) @ xs @ concat (drop (Suc i) ls)"
    using upd_conv_take_nth_drop [OF turn(1), of xs] by simp
  ultimately show ?case using turn.IH by simp
qed

text \<open>The relation is not empty: the workers one after the other.\<close>

lemma interleaved_nil: "interleaved ls ys \<Longrightarrow> interleaved ([] # ls) ys"
proof (induction rule: interleaved.induct)
  case (finish ls)
  then show ?case by (intro interleaved.finish) auto
next
  case (turn i ls x xs ys)
  then show ?case using interleaved.turn [of "Suc i" "[] # ls" x xs ys] by simp
qed

lemma interleaved_head: "interleaved (l # ls) ys \<Longrightarrow> interleaved ((x # l) # ls) (x # ys)"
  by (rule interleaved.turn [of 0]) simp_all

lemma interleaved_concat: "interleaved ls (concat ls)"
proof (induction ls)
  case Nil
  show ?case using interleaved.finish [of "[]"] by simp
next
  case (Cons l ls)
  then show ?case by (induction l) (simp_all add: interleaved_nil interleaved_head)
qed

lemma stat_apply_commute: "stat_apply a \<circ> stat_apply b = stat_apply b \<circ> stat_apply a"
  by (cases a; cases b) (auto simp: fun_eq_iff ac_simps)

lemma level_stats_mset: "mset xs = mset ys \<Longrightarrow> level_stats xs = level_stats ys"
  unfolding level_stats_def by (subst fold_multiset_equiv [of xs stat_apply ys]) (simp_all add: stat_apply_commute)

section \<open>What the workers record\<close>

definition sent_rounds :: "instant \<Rightarrow> round list \<Rightarrow> round list" where
  "sent_rounds deadline rs = takeWhile (\<lambda>r. rd_now r < deadline) rs"

definition accepted_rounds :: "round list \<Rightarrow> round list" where
  "accepted_rounds rs = filter (\<lambda>r. place_order (rd_response r)) rs"

definition latencies :: "round list \<Rightarrow> nat list" where
  "latencies rs = map (\<lambda>r. rd_latency r div 1000) (accepted_rounds rs)"

lemma worker_loop_eq:
  "worker_loop f pair deadline seq rs =
     (map (\<lambda>i. f pair (seq + of_nat i)) [0..<length (sent_rounds deadline rs)],
      concat (map round_ops (sent_rounds deadline rs)))"
proof (induction rs arbitrary: seq)
  case (Cons r rs)
  then show ?case
    by (simp add: sent_rounds_def map_upt_Suc add.assoc del: upt_Suc)
qed (simp add: sent_rounds_def)

lemma record_rounds:
  "fold stat_apply (concat (map round_ops rs)) st =
     st\<lparr>st_orders := st_orders st + of_nat (length (accepted_rounds rs)),
        st_errors := st_errors st + of_nat (length rs - length (accepted_rounds rs)),
        st_latency_sum_us := st_latency_sum_us st + of_nat (sum_list (latencies rs)),
        st_latency_max_us := fold max (map of_nat (latencies rs)) (st_latency_max_us st)\<rparr>"
proof (induction rs arbitrary: st)
  case (Cons r rs)
  have le: "length (accepted_rounds rs) \<le> length rs" by (simp add: accepted_rounds_def)
  show ?case
  proof (cases "place_order (rd_response r)")
    case True
    then have "round_ops r = [AddOrder, AddLatency (of_nat (rd_latency r div 1000)), MaxLatency (of_nat (rd_latency r div 1000))]"
      by (simp add: round_ops_def stats_record_def Let_def)
    then show ?thesis using True Cons.IH
      by (simp add: accepted_rounds_def latencies_def ac_simps max.commute)
  next
    case False
    then have "round_ops r = [AddError]" by (simp add: round_ops_def stats_record_error_def)
    then show ?thesis using False Cons.IH le
      by (simp add: accepted_rounds_def latencies_def Suc_diff_le ac_simps)
  qed
qed (simp add: accepted_rounds_def latencies_def)

lemma unat_fold_max:
  "(\<And>x. x \<in> set xs \<Longrightarrow> x < 2 ^ 64) \<Longrightarrow> unat (fold max (map of_nat xs) (m :: u64)) = fold max xs (unat m)"
proof (induction xs arbitrary: m)
  case (Cons x xs)
  have "unat (of_nat x :: u64) = x" using Cons.prems [of x] by (simp add: unat_of_nat)
  then have "unat (max (of_nat x) m) = max x (unat m)" by (simp add: max_def word_le_nat_alt)
  then show ?case using Cons by simp
qed simp

lemma fold_max_0: "xs \<noteq> [] \<Longrightarrow> fold max xs (0 :: nat) = Max (set xs)"
proof -
  assume "xs \<noteq> []"
  have "fold max xs 0 = Max (set (0 # xs))" by (rule Max.set_eq_fold [symmetric])
  also have "\<dots> = Max (set xs)" using \<open>xs \<noteq> []\<close> by simp
  finally show ?thesis .
qed

text \<open>The updates of all workers of a level, and the rounds in which they sent an order.\<close>

definition level_lanes :: "order_fn \<Rightarrow> config \<Rightarrow> instant \<Rightarrow> nat \<Rightarrow> (nat \<Rightarrow> round list) \<Rightarrow> stat_op list list" where
  "level_lanes f cfg deadline conc rounds = map (\<lambda>w. snd (run_worker f cfg deadline w (rounds w))) [0..<conc]"

definition level_rounds :: "instant \<Rightarrow> nat \<Rightarrow> (nat \<Rightarrow> round list) \<Rightarrow> round list" where
  "level_rounds deadline conc rounds = concat (map (\<lambda>w. sent_rounds deadline (rounds w)) [0..<conc])"

lemma level_lanes_concat:
  "concat (level_lanes f cfg deadline conc rounds) = concat (map round_ops (level_rounds deadline conc rounds))"
  by (simp add: level_lanes_def level_rounds_def run_worker_def worker_loop_eq map_concat) (induction conc; simp)

lemma level_snapshot:
  assumes "interleaved (level_lanes f cfg deadline conc rounds) ops" and "rs = level_rounds deadline conc rounds"
    and "length rs \<le> 2 ^ 53" and "sum_list (latencies rs) \<le> 2 ^ 53"
  shows "stats_snapshot (level_stats ops) =
    (length (accepted_rounds rs), length rs - length (accepted_rounds rs), sum_list (latencies rs), fold max (latencies rs) 0)"
proof -
  have "mset ops = mset (concat (map round_ops rs))"
    using interleaved_mset [OF assms(1)] assms(2) by (simp add: level_lanes_concat)
  from level_stats_mset [OF this] have st: "level_stats ops = fold stat_apply (concat (map round_ops rs)) stats_new"
    by (simp add: level_stats_def)
  have le: "length (accepted_rounds rs) \<le> length rs" by (simp add: accepted_rounds_def)
  have u: "unat (of_nat n :: u64) = n" if "n \<le> 2 ^ 53" for n using that by (simp add: unat_of_nat)
  have "x < 2 ^ 64" if "x \<in> set (latencies rs)" for x
    using member_le_sum_list [OF that] assms(4) by simp
  then have "unat (fold max (map of_nat (latencies rs)) (0 :: u64)) = fold max (latencies rs) 0"
    using unat_fold_max [of "latencies rs" 0] by simp
  then show ?thesis
    using u [OF assms(4)] u [OF order_trans [OF le assms(3)]] u [of "length rs - length (accepted_rounds rs)"] assms(3) le
    unfolding st record_rounds by (simp add: stats_snapshot_def stats_new_def)
qed

section \<open>The average\<close>

lemma f64_div_of: "0 < b \<Longrightarrow> f64_div a b = f64_of (of_int a / of_int b)"
proof -
  assume b: "0 < b"
  have x: "(of_int a / of_int b) * 2 ^ 200 = (of_int (a * 2 ^ 200) / of_int b :: rat)" by simp
  have f: "\<lfloor>of_int (a * 2 ^ 200) / of_int b :: rat\<rfloor> = a * 2 ^ 200 div b" by (rule floor_divide_of_int_eq)
  have "(of_int (a * 2 ^ 200 div b) = (of_int (a * 2 ^ 200) / of_int b :: rat)) = (a * 2 ^ 200 mod b = 0)"
  proof -
    have "(of_int (a * 2 ^ 200 div b) = (of_int (a * 2 ^ 200) / of_int b :: rat)) = (of_int (a * 2 ^ 200 div b * b) = (of_int (a * 2 ^ 200) :: rat))"
      using b by (simp add: eq_divide_eq)
    also have "\<dots> = (a * 2 ^ 200 div b * b = a * 2 ^ 200)" by (simp only: of_int_eq_iff)
    also have "\<dots> = (a * 2 ^ 200 mod b = 0)" using div_mult_mod_eq [of "a * 2 ^ 200" b] by linarith
    finally show ?thesis .
  qed
  then show ?thesis unfolding f64_div_def f64_of_def x Let_def f by (simp only:)
qed

lemma double_average:
  assumes "xs \<noteq> []" "length xs \<le> 2 ^ 53" "sum_list xs \<le> (2 ^ 53 :: nat)"
  shows "\<exists>avg. double_div (double_div (double_of_nat (sum_list xs)) (double_of_nat (length xs))) (Fin 1000) = Fin avg \<and>
    f64_of (of_nat (Min (set xs)) / 1000) \<le> avg \<and> avg \<le> f64_of (of_nat (Max (set xs)) / 1000)"
proof -
  have n: "0 < length xs" using assms(1) by simp
  have "Max (set xs) \<le> sum_list xs" using assms(1) by (simp add: member_le_sum_list)
  moreover have "Min (set xs) \<le> Max (set xs)" using assms(1) by simp
  ultimately have m: "Min (set xs) \<le> 2 ^ 53" "Max (set xs) \<le> 2 ^ 53" using assms(3) by linarith+
  let ?q = "f64_div (int (sum_list xs)) (int (length xs))"
  from f64_div_between [OF n sum_list_between [OF assms(1)] m]
  have q: "of_nat (Min (set xs)) \<le> ?q" "?q \<le> of_nat (Max (set xs))" by auto
  have "double_div (double_of_nat (sum_list xs)) (double_of_nat (length xs)) = Fin ?q"
    using n by (simp add: double_of_nat_exact [OF assms(2)] double_of_nat_exact [OF assms(3)] f64_div_of)
  then have "double_div (double_div (double_of_nat (sum_list xs)) (double_of_nat (length xs))) (Fin 1000) = Fin (f64_of (?q / 1000))"
    by simp
  moreover have "f64_of (of_nat (Min (set xs)) / 1000) \<le> f64_of (?q / 1000)" "f64_of (?q / 1000) \<le> f64_of (of_nat (Max (set xs)) / 1000)"
    using q by (auto intro!: f64_of_mono divide_right_mono order_trans [OF _ q(1)])
  ultimately show ?thesis by blast
qed

text \<open>
  C20: the report of a level does not depend on how its workers interleave. Whatever the order in
  which their atomic updates reach the shared counters, the level reports the number of accepted and
  of refused orders; with at most \<open>2 ^ 53\<close> orders and microseconds in all, the average
  latency, computed in doubles, lies between the smallest latency and the reported maximum.
\<close>

theorem level_report_exact:
  assumes "interleaved (level_lanes f cfg deadline conc rounds) ops" and "rs = level_rounds deadline conc rounds"
    and "length rs \<le> 2 ^ 53" and "sum_list (latencies rs) \<le> 2 ^ 53" and "lv_ops lv = ops"
  shows "lr_orders (run_level cfg conc lv) = length (accepted_rounds rs) \<and>
    lr_errors (run_level cfg conc lv) = length rs - length (accepted_rounds rs) \<and>
    (accepted_rounds rs \<noteq> [] \<longrightarrow>
       (\<exists>avg longest. lr_avg_latency_ms (run_level cfg conc lv) = Fin avg \<and> lr_max_latency_ms (run_level cfg conc lv) = Fin longest \<and>
         longest = f64_of (of_nat (Max (set (latencies rs))) / 1000) \<and>
         f64_of (of_nat (Min (set (latencies rs))) / 1000) \<le> avg \<and> avg \<le> longest))"
proof -
  from level_snapshot [OF assms(1-4)] assms(5)
  have s: "stats_snapshot (level_stats (lv_ops lv)) =
    (length (accepted_rounds rs), length rs - length (accepted_rounds rs), sum_list (latencies rs), fold max (latencies rs) 0)" by simp
  have len: "length (latencies rs) = length (accepted_rounds rs)" by (simp add: latencies_def)
  have "length (accepted_rounds rs) \<le> length rs" by (simp add: accepted_rounds_def)
  then have le: "length (latencies rs) \<le> 2 ^ 53" using assms(3) len by linarith
  show ?thesis
  proof (cases "accepted_rounds rs = []")
    case True
    then show ?thesis using s by (simp add: run_level_def make_level_def Let_def)
  next
    case False
    then have ne: "latencies rs \<noteq> []" by (simp add: latencies_def)
    have "Max (set (latencies rs)) \<le> sum_list (latencies rs)" using ne by (simp add: member_le_sum_list)
    then have mx: "Max (set (latencies rs)) \<le> 2 ^ 53" using assms(4) by linarith
    from double_average [OF ne le assms(4)] s False show ?thesis
      by (simp add: run_level_def make_level_def Let_def len fold_max_0 [OF ne] double_of_nat_exact [OF mx])
  qed
qed

definition two_workers :: "nat \<Rightarrow> round list" where
  "two_workers w = [\<lparr>rd_now = 0, rd_response = (if w = 0 then Some 201 else Some 400), rd_latency = 3000\<rparr>]"

definition two_workers_ops :: "stat_op list" where
  "two_workers_ops = [AddOrder, AddError, AddLatency 3, MaxLatency 3]"

lemma two_workers_interleave: "interleaved (level_lanes resting_order (from_args []) 10 2 two_workers) two_workers_ops"
proof -
  have "level_lanes resting_order (from_args []) 10 2 two_workers = [[AddOrder, AddLatency 3, MaxLatency 3], [AddError]]"
    by (simp add: level_lanes_def run_worker_def two_workers_def round_ops_def place_order_def stats_record_def
        stats_record_error_def Let_def numeral_2_eq_2)
  moreover have "interleaved [[AddOrder, AddLatency 3, MaxLatency 3], [AddError]] two_workers_ops"
    unfolding two_workers_ops_def
    by (rule interleaved.turn [of 0], simp, simp, rule interleaved.turn [of 1], simp, simp, rule interleaved.turn [of 0], simp,
        simp, rule interleaved.turn [of 0], simp, simp, rule interleaved.finish, auto)
  ultimately show ?thesis by simp
qed

theorem level_report_exact_witness:
  "let lv = \<lparr>lv_ops = two_workers_ops, lv_wall = 10 ^ 9, lv_trades_before = 0, lv_trades_after = 0\<rparr>; res = run_level (from_args []) 2 lv in
   lr_orders res = 1 \<and> lr_errors res = 1 \<and> lr_avg_latency_ms res = Fin (f64_of (3 / 1000))"
proof -
  let ?rs = "level_rounds 10 2 two_workers"
  have rs: "?rs = two_workers 0 @ two_workers 1"
    by (simp add: level_rounds_def sent_rounds_def two_workers_def numeral_2_eq_2)
  have acc: "accepted_rounds ?rs = two_workers 0" "latencies ?rs = [3]" "length ?rs = 2"
    unfolding latencies_def by (simp_all add: rs accepted_rounds_def two_workers_def place_order_def)
  then show ?thesis
    using level_report_exact [OF two_workers_interleave refl, of "\<lparr>lv_ops = two_workers_ops, lv_wall = 10 ^ 9, lv_trades_before = 0, lv_trades_after = 0\<rparr>"]
    by (auto simp: Let_def two_workers_def)
qed

end
