(* ===== verification/Load_Orders.thy ===== *)
theory Load_Orders
  imports Load_Test
begin

text \<open>
  The orders of the load test on the other side of the interface: the reading of a
  body into a request, the check of the gateway and the validation of the worker with the
  pairs that the start-up inserts. \<open>rd\<close> is the reading of a decimal (\<open>rust_decimal\<close>
  with the feature \<open>serde-with-str\<close>); what is relied on is the locale \<open>decimal_reader\<close>.
\<close>

section \<open>Requests\<close>

definition req_field :: "(json \<Rightarrow> 'a option) \<Rightarrow> json \<Rightarrow> string \<Rightarrow> 'a option" where
  "req_field rdr j k = Option.bind (jget j k) rdr"

definition opt_field :: "(json \<Rightarrow> 'a option) \<Rightarrow> json \<Rightarrow> string \<Rightarrow> 'a option option" where
  "opt_field rdr j k =
     (case jget j k of None \<Rightarrow> Some None | Some JNull \<Rightarrow> Some None | Some v \<Rightarrow> map_option Some (rdr v))"

definition variant :: "(string \<times> 'a) list \<Rightarrow> json \<Rightarrow> 'a option" where
  "variant names j = Option.bind (jstr j) (map_of names)"

definition read_side :: "json \<Rightarrow> side option" where
  "read_side = variant [(''Buy'', Buy), (''Sell'', Sell)]"

definition read_order_type :: "json \<Rightarrow> order_type option" where
  "read_order_type = variant [(''Limit'', Limit), (''Market'', Market)]"

definition read_tif :: "json \<Rightarrow> time_in_force option" where
  "read_tif = variant [(''GTC'', GTC), (''IOC'', IOC), (''FOK'', FOK)]"

definition read_stp :: "json \<Rightarrow> stp_mode option" where
  "read_stp = variant [(''None'', StpNone), (''CancelTaker'', CancelTaker), (''CancelMaker'', CancelMaker), (''CancelBoth'', CancelBoth)]"

definition REQUEST_FIELDS :: "string list" where
  "REQUEST_FIELDS = [''user_id'', ''pair_id'', ''side'', ''order_type'', ''tif'', ''price'', ''quantity'', ''stp_mode'', ''client_order_id'']"

text \<open>The derived reader: an object by its fields, an array by position.\<close>

definition read_fields :: "(json \<Rightarrow> 'd option) \<Rightarrow> json \<Rightarrow> 'd create_order_request option" where
  "read_fields rd j =
     Option.bind (opt_field jstr j ''user_id'') (\<lambda>u.
     Option.bind (req_field jstr j ''pair_id'') (\<lambda>p.
     Option.bind (req_field read_side j ''side'') (\<lambda>sd.
     Option.bind (req_field read_order_type j ''order_type'') (\<lambda>ot.
     Option.bind (opt_field read_tif j ''tif'') (\<lambda>tif.
     Option.bind (opt_field rd j ''price'') (\<lambda>price.
     Option.bind (req_field rd j ''quantity'') (\<lambda>q.
     Option.bind (opt_field read_stp j ''stp_mode'') (\<lambda>stp.
     Option.bind (opt_field jstr j ''client_order_id'') (\<lambda>coid.
     Some \<lparr>cr_user_id = u, cr_pair_id = p, cr_side = sd, cr_order_type = ot, cr_tif = tif, cr_price = price,
           cr_quantity = q, cr_stp_mode = stp, cr_client_order_id = coid\<rparr>)))))))))"

definition read_request :: "(json \<Rightarrow> 'd option) \<Rightarrow> json \<Rightarrow> 'd create_order_request option" where
  "read_request rd j =
     (case j of
        JArr xs \<Rightarrow> if length xs = length REQUEST_FIELDS then read_fields rd (JObj (zip REQUEST_FIELDS xs)) else None
      | _ \<Rightarrow> read_fields rd j)"

text \<open>A decimal is read from its text: digits, and after a point the digits of a fraction.\<close>

locale decimal_reader =
  fixes rd :: "json \<Rightarrow> 'd::floor_ceiling option"
  assumes whole: "parse_nat s = Some n \<Longrightarrow> length s \<le> 28 \<Longrightarrow> rd (JText s) = Some (of_nat n)"
    and fraction: "parse_nat s = Some n \<Longrightarrow> parse_nat t = Some m \<Longrightarrow> length s + length t \<le> 28 \<Longrightarrow>
      rd (JText (s @ CHR ''.'' # t)) = Some (of_nat n + of_nat m / 10 ^ length t)"

definition ref_decimal :: "json \<Rightarrow> rat option" where
  "ref_decimal j =
     (case j of
        JText s \<Rightarrow> (case split_on (CHR ''.'') s of
            [a] \<Rightarrow> map_option of_nat (parse_nat a)
          | [a, b] \<Rightarrow> (case (parse_nat a, parse_nat b) of (Some n, Some m) \<Rightarrow> Some (of_nat n + of_nat m / 10 ^ length b) | _ \<Rightarrow> None)
          | _ \<Rightarrow> None)
      | _ \<Rightarrow> None)"

lemma parse_nat_no_point: "parse_nat s = Some n \<Longrightarrow> CHR ''.'' \<notin> set s"
  by (auto simp: parse_nat_def list_all_iff is_digit_def split: if_splits)

interpretation ref: decimal_reader ref_decimal
proof
  fix s n assume "parse_nat s = Some n"
  then show "ref_decimal (JText s) = Some (of_nat n)" using parse_nat_no_point by (simp add: ref_decimal_def)
next
  fix s n t m assume "parse_nat s = Some n" "parse_nat t = Some m"
  then show "ref_decimal (JText (s @ CHR ''.'' # t)) = Some (of_nat n + of_nat m / 10 ^ length t)"
    using parse_nat_no_point by (simp add: ref_decimal_def split_on_append)
qed

section \<open>What the generated orders are\<close>

text \<open>The request of a generated body.\<close>

definition load_request :: "string \<Rightarrow> string \<Rightarrow> side \<Rightarrow> time_in_force \<Rightarrow> nat \<Rightarrow> 'd::floor_ceiling create_order_request" where
  "load_request user pair sd tif price =
     \<lparr>cr_user_id = Some user, cr_pair_id = pair, cr_side = sd, cr_order_type = Limit, cr_tif = Some tif,
      cr_price = Some (of_nat price), cr_quantity = 1 / 100000, cr_stp_mode = None, cr_client_order_id = None\<rparr>"

lemma body_fields:
  "jget (order_body user pair sd tif price) k =
     map_of [(''user_id'', JText user), (''pair_id'', JText pair), (''side'', JText sd), (''order_type'', JText ''Limit''),
           (''tif'', JText tif), (''price'', JText price), (''quantity'', JText ''0.00001'')] k"
  unfolding order_body_def by (rule jget_jobj) simp

lemma body_object: "read_request rd (order_body user pair sd tif price) = read_fields rd (order_body user pair sd tif price)"
  by (simp add: order_body_def jobj_def read_request_def)

context decimal_reader
begin

lemma small_quantity: "rd (JText ''0.00001'') = Some (1 / 100000)"
proof -
  have "parse_nat ''0'' = Some 0" "parse_nat ''00001'' = Some 1"
    by (simp_all add: parse_nat_def digits_value_def is_digit_def digit_val_def)
  from fraction [OF this] show ?thesis by simp
qed

lemma read_body:
  assumes "rd (JText price) = Some (of_nat n)" "sd = side_str s" "tif = tif_str t"
  shows "read_request rd (order_body user pair sd tif price) = Some (load_request user pair s t n)"
proof -
  have "read_side (JText sd) = Some s" "read_tif (JText tif) = Some t" "read_order_type (JText ''Limit'') = Some Limit"
    using assms(2,3) by (cases s; cases t; simp add: read_side_def read_tif_def read_order_type_def variant_def)+
  then show ?thesis
    using assms(1) small_quantity unfolding body_object
    by (simp add: read_fields_def req_field_def opt_field_def body_fields load_request_def)
qed

lemma prices: "rd (JText ''70500'') = Some (of_nat 70500)" "rd (JText ''71000'') = Some (of_nat 71000)" "rd (JText ''70735'') = Some (of_nat 70735)"
  by (rule whole; simp add: parse_nat_def digits_value_def is_digit_def digit_val_def)+

end

datatype load_kind = RestBuy | RestSell | CrossSell | CrossBuy

definition kind_request :: "string \<Rightarrow> load_kind \<Rightarrow> 'd::floor_ceiling create_order_request" where
  "kind_request pair k =
     (case k of
        RestBuy \<Rightarrow> load_request ''user-1'' pair Buy IOC 70500
      | RestSell \<Rightarrow> load_request ''user-2'' pair Sell IOC 71000
      | CrossSell \<Rightarrow> load_request ''user-2'' pair Sell GTC 70735
      | CrossBuy \<Rightarrow> load_request ''user-1'' pair Buy GTC 70735)"

definition resting_kind :: "u64 \<Rightarrow> load_kind" where
  "resting_kind seq = (if seq mod 2 = 0 then RestBuy else RestSell)"

definition crossing_kind :: "u64 \<Rightarrow> load_kind" where
  "crossing_kind seq = (if seq mod 2 = 0 then CrossSell else CrossBuy)"

definition mixed_kind :: "u64 \<Rightarrow> load_kind" where
  "mixed_kind seq = (if seq mod 4 < 2 then resting_kind seq else crossing_kind seq)"

context decimal_reader
begin

lemma resting_read: "read_request rd (resting_order pair seq) = Some (kind_request pair (resting_kind seq))"
  by (simp add: resting_order_def resting_kind_def kind_request_def read_body [OF prices(1)] read_body [OF prices(2)])

lemma crossing_read: "read_request rd (crossing_order pair seq) = Some (kind_request pair (crossing_kind seq))"
  by (simp add: crossing_order_def crossing_kind_def kind_request_def read_body [OF prices(3)])

lemma mixed_read: "read_request rd (mixed_order pair seq) = Some (kind_request pair (mixed_kind seq))"
  by (simp add: mixed_order_def mixed_kind_def resting_read crossing_read)

lemma generated_read:
  assumes "(f, k) \<in> {(resting_order, resting_kind), (crossing_order, crossing_kind), (mixed_order, mixed_kind)}"
  shows "read_request rd (f pair seq) = Some (kind_request pair (k seq))"
  using assms by (auto simp: resting_read crossing_read mixed_read)

end

section \<open>Several pairs\<close>

text \<open>The order that a generated body stands for, with its identifier and times.\<close>

definition body_order ::
  "(json \<Rightarrow> 'd::floor_ceiling option) \<Rightarrow> order_fn \<Rightarrow> string \<Rightarrow> (uuid \<times> instant \<times> instant) \<times> u64 \<Rightarrow> 'd order option" where
  "body_order rd f pair x =
     (case x of ((oid, now, upd), seq) \<Rightarrow> map_option (request_order oid now upd) (read_request rd (f pair seq)))"

definition seeded_pairs :: "(string \<times> 'd::floor_ceiling pair_config) list" where
  "seeded_pairs = map (\<lambda>p. (p_id p, \<lparr>pc_tick_size = p_tick_size p, pc_lot_size = p_lot_size p, pc_min_order_size = p_min_order_size p,
     pc_max_order_size = p_max_order_size p, pc_active = p_active p\<rparr>)) seed_pairs"

text \<open>The limits the worker loads from the pairs that the start-up inserts.\<close>

lemma load_seeded:
  "tb_pairs (pg_tables (w_pg w)) = seed_pairs \<Longrightarrow> pg_outcomes (w_pg w) = [] \<Longrightarrow> fst (load_pairs_cache w) = Inr seeded_pairs"
  by (simp add: load_pairs_cache_def on_pg_def pg_query_up seeded_pairs_def)

lemma seeded_config:
  "map_of seeded_pairs ''BTC-USDT'' = Some \<lparr>pc_tick_size = 1 / 100, pc_lot_size = 1 / 100000, pc_min_order_size = 1 / 100000, pc_max_order_size = 100, pc_active = True\<rparr>"
  "map_of seeded_pairs ''ETH-USDT'' = Some \<lparr>pc_tick_size = 1 / 100, pc_lot_size = 1 / 10000, pc_min_order_size = 1 / 10000, pc_max_order_size = 1000, pc_active = True\<rparr>"
  "map_of seeded_pairs ''SOL-USDT'' = Some \<lparr>pc_tick_size = 1 / 1000, pc_lot_size = 1 / 100, pc_min_order_size = 1 / 100, pc_max_order_size = 10000, pc_active = True\<rparr>"
  by (simp_all add: seeded_pairs_def seed_pairs_def)

lemma kind_request_sel [simp]:
  "cr_pair_id (kind_request pair k) = pair" "cr_quantity (kind_request pair k) = 1 / 100000" "cr_order_type (kind_request pair k) = Limit"
  "cr_price (kind_request pair k) = Some (case k of RestBuy \<Rightarrow> 70500 | RestSell \<Rightarrow> 71000 | _ \<Rightarrow> 70735)"
  by (cases k; simp add: kind_request_def load_request_def)+

text \<open>
  C37: the load of several pairs is refused after it has been counted. A generated order of every
  scenario passes the check of the gateway, whose answer the load test counts, but
  with the pairs that the start-up inserts the worker's validation accepts it only for \<open>BTC-USDT\<close>;
  for the other two pairs the quantity of 0.00001 is no multiple of the lot size.
\<close>

theorem multi_pair_load_refused:
  assumes "decimal_reader rd" and "f \<in> {resting_order, crossing_order, mixed_order}"
    and "body_order rd f pair ((oid, now, upd), seq) = Some ord" and "pair \<in> set manage_pairs"
  shows "(\<exists>req. read_request rd (f pair seq) = Some req \<and> check_request req = Inr ()) \<and>
    validate_order (map_of seeded_pairs) ord =
      (if pair = ''BTC-USDT'' then Inr () else Inl (Invalid ''quantity not aligned to lot_size''))"
proof -
  obtain k where k: "(f, k) \<in> {(resting_order, resting_kind), (crossing_order, crossing_kind), (mixed_order, mixed_kind)}"
    using assms(2) by auto
  note rd = decimal_reader.generated_read [OF assms(1) k, of pair seq]
  have c: "check_request (kind_request pair (k seq) :: 'a create_order_request) = Inr ()" by (simp add: check_request_def)
  have "ord = request_order oid now upd (kind_request pair (k seq))" using assms(3) rd by (simp add: body_order_def)
  then have o: "o_pair_id ord = pair" "o_quantity ord = 1 / 100000"
      "o_price ord = Some (case k seq of RestBuy \<Rightarrow> 70500 | RestSell \<Rightarrow> 71000 | _ \<Rightarrow> 70735)"
    by (simp_all add: request_order_def)
  have small: "\<lfloor>1 / 10 :: 'a\<rfloor> = 0" "\<lfloor>1 / 1000 :: 'a\<rfloor> = 0" by (rule floor_unique; simp)+
  consider "pair = ''BTC-USDT''" | "pair = ''ETH-USDT''" | "pair = ''SOL-USDT''" using assms(4) by (auto simp: manage_pairs_def)
  then have "validate_order (map_of seeded_pairs) ord =
      (if pair = ''BTC-USDT'' then Inr () else Inl (Invalid ''quantity not aligned to lot_size''))"
  proof cases
    case 1
    then show ?thesis
      by (cases "k seq") (simp_all add: validate_order_def o seeded_config check_price_def dec_rem_def dec_trunc_def)
  next
    case 2
    then show ?thesis by (simp add: validate_order_def o seeded_config dec_rem_def dec_trunc_def small)
  next
    case 3
    then show ?thesis by (simp add: validate_order_def o seeded_config dec_rem_def dec_trunc_def small)
  qed
  with rd c show ?thesis by simp
qed

theorem multi_pair_load_refused_witness:
  "\<exists>ord. body_order ref_decimal crossing_order ''ETH-USDT'' ((7, 0, 0), 1) = Some ord \<and>
     validate_order (map_of seeded_pairs) ord = Inl (Invalid ''quantity not aligned to lot_size'')"
proof -
  have k: "(crossing_order, crossing_kind) \<in> {(resting_order, resting_kind), (crossing_order, crossing_kind), (mixed_order, mixed_kind)}"
    by simp
  obtain ord where o: "body_order ref_decimal crossing_order ''ETH-USDT'' ((7, 0, 0), 1) = Some ord"
    using ref.generated_read [OF k] by (simp add: body_order_def)
  from multi_pair_load_refused [OF ref.decimal_reader_axioms _ this] o show ?thesis by (simp add: manage_pairs_def)
qed

section \<open>Counted trades\<close>

text \<open>
  The values of the channel \<open>trades\<close> are objects with a field \<open>trades\<close>: the counter adds one
  for each message, whatever the number of trades in it.
\<close>

lemma trade_counter_counts_messages:
  assumes "list_all (\<lambda>m. \<exists>p ts. js_parse J m =
    Some (jobj [(''ch'', JText (''trades:'' @ p)), (''data'', jobj [(''pair'', JText p), (''trades'', JArr ts)])])) msgs"
  shows "trade_loop J n (map Message msgs) = (n + of_nat (length msgs), [])"
  using assms
proof (induction msgs arbitrary: n)
  case (Cons m msgs)
  then obtain p ts where "js_parse J m =
      Some (jobj [(''ch'', JText (''trades:'' @ p)), (''data'', jobj [(''pair'', JText p), (''trades'', JArr ts)])])" by auto
  moreover have "trades_in (jobj [(''ch'', JText (''trades:'' @ p)), (''data'', jobj [(''pair'', JText p), (''trades'', JArr ts)])]) = 1"
    by (simp add: trades_in_def jget_jobj) (simp add: jobj_def)
  ultimately show ?case using Cons by (simp add: add.assoc)
qed simp

end
