(* ===== verification/Spec2Isabelle.thy ===== *)
theory Spec2Isabelle
  imports Engine_Props Codecs Book_Versions Balance_Props Lua_Book Persistence_Props
    Book_Lock Metrics Gateway_Props Seeding_Props Debounce Mirror_Props Admin_Props Multiplex Streams
    Websockets Event_Stream Metrics_View Router Start_Up Load_Report Load_Orders
begin

text \<open>
  Verification of the serverless matching engine, a limit order exchange written in
  Rust (\<open>src/crates\<close>) and Lua (\<open>src/crates/shared/src/lua/match_order.lua\<close>).

  \<^bold>\<open>The program.\<close> An order arrives at the gateway as JSON. \<open>process_order\<close>
  (\<open>gateway/src/worker.rs\<close>) reads and validates it, calls the Lua script
  \<open>match_order.lua\<close>, which locks the balance and matches the order against the book
  kept in a Valkey cache in one atomic step, stores the order and its trades in
  PostgreSQL, rebuilds the cached views of the pair and pushes them to websocket
  clients. The crate \<open>shared\<close> holds the domain types, an in-memory matching engine
  (the reference of the script), the operations on the cached book, a
  compare-and-swap of the book, a lock per pair, metrics and the filling of the cache
  at a cold start. In the other mode of dispatch the gateway puts the order into a
  queue of the cache; the worker of the crate \<open>api\<close> takes it from there, matches it
  by the same script, collects matched orders in a channel and persists them in
  batches; cancellations take the same way. The gateway answers reads from values it
  mirrors in memory, which the writers publish. The crate \<open>ws-handler\<close> keeps the
  subscriptions of websocket clients. A load test (\<open>tools/loadtest\<close>) sends generated
  orders from concurrent workers and reports what came back.

  \<^bold>\<open>The model.\<close> A fallible function is a function of its state that returns a
  result and a state, \<open>('s, 'a) vm = 's \<Rightarrow> (error + 'a) \<times> 's\<close> (theory \<open>Effects\<close>, with
  the operators for \<open>?\<close>, \<open>ok()\<close>, \<open>unwrap_or\<close>, pipelines and loops). Code outside
  the repository is a parameter:
    \<^item> the Valkey service is a record of operations \<open>V\<close> over an unknown state with
      the locale \<open>valkey_spec\<close> that relates it to the documented commands on a store
      of keys (\<open>Valkey\<close>); a missing connection is an entry of \<open>vd_pool\<close>;
    \<^item> Decimal, Uuid and DateTime texts are a record \<open>X\<close> with the locale \<open>ext_spec\<close>
      (\<open>Externals\<close>), and Decimal itself is an ordered field with floor: the 96 bits
      of rust\_decimal are not bounded, what the program does with them before
      scaling is exact at the magnitudes it admits;
    \<^item> the text of JSON values is a record \<open>J\<close> with the locale \<open>json_spec\<close> (\<open>Json\<close>,
      interpreted on a printer and a parser in \<open>Json_Text\<close>);
    \<^item> a statement of the database may fail at any place, as the list
      \<open>pg_outcomes\<close> says; the SQL statements are functions on tables
      (\<open>Postgres\<close>), a transaction restores the tables after an error;
    \<^item> fresh identifiers, the clocks of the program and of the database, the waiting
      between two attempts at a lock and the outcome of posting to a websocket are
      functions given as arguments.
  Integers of the cache are \<open>i64\<close>, kept as \<open>int\<close> with the range checks of the code;
  the numbers of the Lua scripts are doubles (\<open>Lua_Num\<close>: rounding to 53 bits and the
  printing with 14 digits).

  \<^bold>\<open>Theories.\<close>
    \<^item> \<open>Prelude\<close>, \<open>Effects\<close>, \<open>World\<close>: shared lemmas, the state and result
      operators, the pair of cache and database of the gateway. \<open>Valkey\<close>, \<open>Key_Space\<close>, \<open>Postgres\<close>, \<open>Externals\<close>,
      \<open>Json\<close>, \<open>Json_Text\<close>: the surroundings.
    \<^item> \<open>Domain\<close> (\<open>types.rs\<close>), \<open>Matching_Spec\<close> (price-time matching as an abstract
      plan of fills), \<open>Engine\<close> and \<open>Engine_Props\<close> (\<open>engine.rs\<close>): the engine follows
      the plan, conserves quantities, trades only at crossing prices, reports every
      change; what a final status means; when fill-or-kill is all or nothing.
    \<^item> \<open>Codecs\<close> (the codes and names of the enums), \<open>Book_Cache\<close>,
      \<open>Book_Cache_Props\<close>, \<open>Book_Versions\<close> (\<open>cache.rs\<close>): an order saved is the order
      read, after every sequence of saves and removals the book that is loaded holds exactly
      what was saved, in price order; a compare-and-swap with the right version applies all its
      changes once, and one with a stale version leaves the sides of the book alone, but not the
      hashes of the orders it would have written.
    \<^item> \<open>Balance_Spec\<close>, \<open>Balance_Cache\<close>, \<open>Balance_Props\<close>: locking and unlocking of
      balances, exact below \<open>2 ^ 53\<close> units, also where more is unlocked than is locked.
    \<^item> \<open>Lua_Num\<close>, \<open>Lua_Match\<close>, \<open>Lua_Match_Props\<close>, \<open>Lua_Walk\<close>, \<open>Lua_Engine\<close>,
      \<open>Lua_Props\<close>, \<open>Lua_Book\<close>: the matching script and \<open>match_order_lua\<close>, equal to
      the engine on books of at most 50 orders (the number of orders the script reads) with amounts below
      \<open>10 ^ 14\<close> units (where its numbers are printed without an exponent), and what
      happens beyond these bounds. \<open>Snapshot\<close>: the depth shown to users.
    \<^item> \<open>Book_Lock\<close> (\<open>lock.rs\<close>): the lock as a transition system of attempts,
      releases and expiries. \<open>Metrics\<close> (\<open>metrics.rs\<close>) and \<open>Metrics_View\<close> (the refresh
      loop of \<open>api/src/routes.rs\<close>): samples, percentiles and rates in doubles, and what
      a round shows to clients.
    \<^item> \<open>Ledger\<close>, \<open>Ledger_Props\<close>, \<open>Persistence_Props\<close>, \<open>Persistence_Types\<close>
      (\<open>api/src/routes.rs\<close> and \<open>persist_order\<close> of the gateway): settlement is double
      entry and conserves every asset when the locks cover it, and otherwise raises its total by
      exactly what is missing; one path is atomic
      and the other is not, the tables keep their keys, and the worker drains its
      channel (its fuel is the number of jobs; each round takes at least one).
    \<^item> \<open>Seeding\<close>, \<open>Seeding_Props\<close>: the cold start of the gateway; the books hold
      what the tables say. \<open>Gateway_Worker\<close>, \<open>Gateway_Props\<close>: the
      whole processing of an order, from the payload to the clients.
    \<^item> \<open>Queue_Worker\<close> (\<open>api/src/worker.rs\<close>, \<open>main.rs\<close>), \<open>Queue_Props\<close>: an order put
      into the queue is the order the worker reads, and both modes of dispatch match
      and persist alike. \<open>Consumers\<close>: the consumers of the queues as an interleaving
      transition system; every message is in exactly one place. \<open>Cancellation_Props\<close>: what cancellations do and which have no
      effect; two levels of fuel are enough for \<open>process_cancellation\<close>. \<open>Debounce\<close>:
      the tasks that rebuild the displayed books, beside the orders and cancellations of the
      worker, which change the books and mark the pairs as the code does; no change that is marked is left
      out, orders that trade or rest are marked, and cancellations are not.
    \<^item> \<open>Gateway_Routes\<close> (\<open>gateway/src/routes.rs\<close>, \<open>lib.rs\<close>): the HTTP handlers, the
      administration commands and the socket loops. \<open>Mirror_Props\<close>: the mirrored
      values follow the service. \<open>Admin_Props\<close>: sweeping stale entries. \<open>Multiplex\<close>:
      the multiplexed websocket, its tasks and its bounded channel, with a step for every
      await of the handler. \<open>Event_Stream\<close>:
      the event stream of a pair beside the writers; its events are in order, it
      catches up, and which updates it misses.
    \<^item> \<open>Websockets\<close> (\<open>ws-handler/src/main.rs\<close>): the events of a client change one
      relation of connections and channels, kept in two kinds of sets. \<open>Streams\<close>
      (\<open>streams.rs\<close>): consumers of a stream get what was published.
    \<^item> \<open>Router\<close> (\<open>build_router\<close> of \<open>gateway/src/lib.rs\<close>): the table of routes, which is
      unambiguous, and the handling of a sequence of requests; reading changes nothing,
      and every accepted order is queued once and in order. \<open>Start_Up\<close> (\<open>config.rs\<close>,
      \<open>main\<close> of the api worker, \<open>lib.rs\<close>, the handler of \<open>ws-handler\<close>): the starts of the
      processes, the reconnecting subscriber, and that seeding can be repeated.
    \<^item> \<open>Doubles\<close>, \<open>Load_Test\<close> (\<open>tools/loadtest/src/main.rs\<close>), \<open>Load_Report\<close>,
      \<open>Load_Orders\<close>: the load test; its report does not depend on the interleaving of its
      workers, its average lies within the latencies although computed in doubles
      (rounding is monotone), and which of its orders the worker refuses.

  \<^bold>\<open>Interfaces.\<close> Each interface is a locale with the laws its clients use, and is
  interpreted on the definitions that provide it: \<open>valkey_spec\<close>, \<open>ext_spec\<close>,
  \<open>json_spec\<close>, \<open>stream_spec\<close>, the store of accounts of \<open>Balance_Spec\<close>, the
  publication of values (\<open>publication\<close> in \<open>Mirror_Props\<close>), the receivers of a
  broadcast channel (\<open>broadcast_spec\<close> in \<open>Event_Stream\<close>), a pool of consumers
  (\<open>pool_spec\<close> in \<open>Consumers\<close>, for orders and for cancellations), the
  matching of paths (\<open>route_spec\<close> in \<open>Router\<close>) and the reading of decimals
  (\<open>decimal_reader\<close> in \<open>Load_Orders\<close>); the last two are third-party code and are
  interpreted on reference functions.
  The properties of a function that uses the cache hold for every service \<open>V\<close> with
  \<open>valkey_spec V \<alpha>\<close>.

  \<^bold>\<open>Not modelled.\<close> The interleaving inside a task that the consumers of the queues spawn (such a task is one
  step of \<open>Consumers\<close>; what the rebuild tasks, the multiplexed socket and the event stream do is split into the
  steps between which others run), a commit of the database whose acknowledgement is lost
  (a transaction that reports an error has restored the tables), the wording of the error texts of
  \<open>/internal/manage\<close>, timers and waiting times, the
  middleware and the static pages of the HTTP server, the conversion of rows of free SQL
  text, and the table the load test prints. Pools, the accept loop of the server, logging,
  migrations, the front end and the deployment scripts are calls of code outside the
  repository or have no logic of their own that the theorems could be about.
\<close>

end
